(* ===== verification/Go_Prelude.thy ===== *)
theory Go_Prelude
  imports Main "HOL-Library.Word" "HOL-Library.Sublist"
begin

text \<open>
  Shared vocabulary of the development: bytes and Go strings, the error values the package
  returns, and the state-and-error monad in which every method of \<open>Encoder\<close> and \<open>Decoder\<close> is
  written.

  A Go method \<open>func (d *Decoder) m() (T, error)\<close> mutates its receiver and returns a value or an
  error; the receiver keeps its mutations when the method fails. Its model is a function
  \<open>'s \<Rightarrow> (go_error + 'a) \<times> 's\<close>. The recurrent Go fragment
  \<^verbatim>\<open>x, err := m(); if err != nil { return err }; ...\<close> is \<open>bindE m (\<lambda>x. ...)\<close>.
\<close>

unbundle bit_operations_syntax

section \<open>Data\<close>

type_synonym byte = "8 word"
type_synonym gostring = "byte list"

text \<open>
  The errors of the package and of the library calls it makes. Each \<^verbatim>\<open>fmt.Errorf\<close> of the source
  is one constructor carrying the formatted arguments. \<open>Panic\<close> is a Go run-time panic,
  \<open>OutOfFuel\<close> marks the exhaustion of a recursion bound of the model (it is proved that the
  entry points never return it).
\<close>

datatype go_error =
    EOF
  | ErrUnexpectedEOF
  | ErrInvalidUnreadByte
  | IOError nat
  | UserError nat
  | Panic string
  | OutOfFuel
  | InvalidCode byte string
  | UnexpectedCode byte string
  | UnknownCode byte
  | LengthExceedsInput string int int
  | LengthExceedsLimit string int int
  | BytesExceedInput int int
  | OverflowsInt string int
  | DepthExceeded int
  | FloatNotRepresentable "64 word" string
  | UnsupportedExtLen int
  | InternedIndexMissing int
  | InternedIndexTooLarge int
  | WrongExtType byte byte
  | UnknownExt byte
  | InvalidTimeExt byte
  | InvalidTimeExtLen int
  | TimeParse gostring
  | UnhashableKey
  | UnsupportedMapKey
  | UnsupportedQueryCode byte gostring
  | AtoiError gostring
  | EncodeUnsupported
  | EncodeNonAddressable
  | EncodeExtNonAddressable
  | DecodeUnsupported
  | DecodeNonAddressable
  | DecodeExtNonAddressable
  | DecodeNonPointer
  | DecodeNonSettable
  | DecodeNil
  | ArrayStructChanged
  | ArrayTooLong int int
  | UnknownField gostring

section \<open>The state-and-error monad\<close>

type_synonym ('s, 'a) go = "'s \<Rightarrow> (go_error + 'a) \<times> 's"

definition ret :: "'a \<Rightarrow> ('s, 'a) go" where
  "ret x s = (Inr x, s)"

definition fail :: "go_error \<Rightarrow> ('s, 'a) go" where
  "fail e s = (Inl e, s)"

definition bindE :: "('s, 'a) go \<Rightarrow> ('a \<Rightarrow> ('s, 'b) go) \<Rightarrow> ('s, 'b) go" where
  "bindE m f s = (case m s of (Inl e, s') \<Rightarrow> (Inl e, s') | (Inr x, s') \<Rightarrow> f x s')"

definition seqE :: "('s, 'a) go \<Rightarrow> ('s, 'b) go \<Rightarrow> ('s, 'b) go" where
  "seqE m k = bindE m (\<lambda>_. k)"

definition getS :: "('s \<Rightarrow> 'a) \<Rightarrow> ('s, 'a) go" where
  "getS f s = (Inr (f s), s)"

definition modS :: "('s \<Rightarrow> 's) \<Rightarrow> ('s, unit) go" where
  "modS f s = (Inr (), f s)"

text \<open>\<^verbatim>\<open>if err := check; err != nil { return err }\<close> for a check without side effects.\<close>

definition checkE :: "('s \<Rightarrow> go_error option) \<Rightarrow> ('s, unit) go" where
  "checkE f s = (case f s of Some e \<Rightarrow> (Inl e, s) | None \<Rightarrow> (Inr (), s))"

text \<open>\<^verbatim>\<open>defer fn()\<close>: the function runs on every exit path.\<close>

definition deferE :: "('s \<Rightarrow> 's) \<Rightarrow> ('s, 'a) go \<Rightarrow> ('s, 'a) go" where
  "deferE f m s = (case m s of (res, s') \<Rightarrow> (res, f s'))"

text \<open>\<^verbatim>\<open>x, err := m(); if err != nil { h }; f\<close> where the error branch does more than return.\<close>

definition tryE :: "('s, 'a) go \<Rightarrow> ('a \<Rightarrow> ('s, 'b) go) \<Rightarrow> (go_error \<Rightarrow> ('s, 'b) go) \<Rightarrow> ('s, 'b) go" where
  "tryE m f h s = (case m s of (Inl e, s') \<Rightarrow> h e s' | (Inr x, s') \<Rightarrow> f x s')"

text \<open>\<^verbatim>\<open>for range n { if err := m(); err != nil { return err } }\<close>.\<close>

primrec repeatE :: "nat \<Rightarrow> ('s, unit) go \<Rightarrow> ('s, unit) go" where
  "repeatE 0 m = ret ()"
| "repeatE (Suc n) m = bindE m (\<lambda>_. repeatE n m)"

text \<open>The same loop appending each value to a slice.\<close>

primrec collectE :: "nat \<Rightarrow> ('s, 'a) go \<Rightarrow> ('s, 'a list) go" where
  "collectE 0 m = ret []"
| "collectE (Suc n) m = bindE m (\<lambda>x. bindE (collectE n m) (\<lambda>xs. ret (x # xs)))"

text \<open>\<^verbatim>\<open>for _, x := range xs { if err := f(x); err != nil { return err } }\<close>.\<close>

primrec forE :: "('a \<Rightarrow> ('s, unit) go) \<Rightarrow> 'a list \<Rightarrow> ('s, unit) go" where
  "forE f [] = ret ()"
| "forE f (x # xs) = bindE (f x) (\<lambda>_. forE f xs)"

text \<open>The same loop updating an accumulator, for instance a map.\<close>

primrec foldE :: "nat \<Rightarrow> ('a \<Rightarrow> ('s, 'a) go) \<Rightarrow> 'a \<Rightarrow> ('s, 'a) go" where
  "foldE 0 f a = ret a"
| "foldE (Suc n) f a = bindE (f a) (foldE n f)"

primrec foldlE :: "('x \<Rightarrow> 'a \<Rightarrow> ('s, 'a) go) \<Rightarrow> 'x list \<Rightarrow> 'a \<Rightarrow> ('s, 'a) go" where
  "foldlE f [] a = ret a"
| "foldlE f (x # xs) a = bindE (f x a) (foldlE f xs)"

named_theorems go_simps \<open>evaluation of the monad's operations on a state\<close>

lemma ret_apply [go_simps, simp]: "ret x s = (Inr x, s)"
  by (simp add: ret_def)

lemma fail_apply [go_simps, simp]: "fail e s = (Inl e, s)"
  by (simp add: fail_def)

lemma getS_apply [go_simps, simp]: "getS f s = (Inr (f s), s)"
  by (simp add: getS_def)

lemma modS_apply [go_simps, simp]: "modS f s = (Inr (), f s)"
  by (simp add: modS_def)

lemma bindE_Inr: "m s = (Inr x, s') \<Longrightarrow> bindE m f s = f x s'"
  by (simp add: bindE_def)

lemma bindE_Inl: "m s = (Inl e, s') \<Longrightarrow> bindE m f s = (Inl e, s')"
  by (simp add: bindE_def)

lemma bindE_cases:
  assumes "bindE m f s = (res, s')"
  obtains (err) e where "m s = (Inl e, s')" and "res = Inl e"
  | (ok) x s1 where "m s = (Inr x, s1)" and "f x s1 = (res, s')"
  using assms by (auto simp: bindE_def split: prod.splits sum.splits)

lemma bindE_ok:
  assumes "bindE m f s = (Inr y, s')"
  obtains x s1 where "m s = (Inr x, s1)" and "f x s1 = (Inr y, s')"
  using assms by (auto elim: bindE_cases)

lemma bindE_ret [simp]: "bindE (ret x) f = f x"
  by (rule ext) (simp add: bindE_def)

lemma bindE_ret_right [simp]: "bindE m ret = m"
  by (rule ext) (auto simp: bindE_def split: prod.splits sum.splits)

lemma bindE_fail [simp]: "bindE (fail e) f = fail e"
  by (rule ext) (simp add: bindE_def)

lemma bindE_getS: "bindE (getS g) f s = f (g s) s"
  by (simp add: bindE_def)

lemma bindE_modS: "bindE (modS g) f s = f () (g s)"
  by (simp add: bindE_def)

lemma bindE_assoc: "bindE (bindE m f) g = bindE m (\<lambda>x. bindE (f x) g)"
  by (rule ext) (auto simp: bindE_def split: prod.splits sum.splits)

lemma bindE_if: "bindE (if b then m else m') f = (if b then bindE m f else bindE m' f)"
  by simp

text \<open>Congruence rules, so that recursive calls may stand under the monad's combinators.\<close>

lemma bindE_cong [fundef_cong]:
  "m = m' \<Longrightarrow> (\<And>x. f x = f' x) \<Longrightarrow> bindE m f = bindE m' f'"
  by (metis ext)

lemma forE_cong [fundef_cong]:
  "xs = ys \<Longrightarrow> (\<And>x. x \<in> set ys \<Longrightarrow> f x = g x) \<Longrightarrow> forE f xs = forE g ys"
proof (induction xs arbitrary: ys)
  case (Cons x xs)
  then show ?case by (cases ys) auto
qed simp

lemmas go_eval = bindE_def tryE_def seqE_def checkE_def deferE_def

section \<open>Runs that keep a relation\<close>

text \<open>
  \<open>keeps R m\<close>: whatever \<open>m\<close> returns, an error included, its final state is related to its
  initial one. For a reflexive and transitive \<open>R\<close> this is closed under all the monad's
  combinators, which is how the frame conditions of whole methods are proved.
\<close>

definition keeps :: "('s \<Rightarrow> 's \<Rightarrow> bool) \<Rightarrow> ('s, 'a) go \<Rightarrow> bool" where
  "keeps R m \<longleftrightarrow> (\<forall>s. R s (snd (m s)))"

lemma keepsI: "(\<And>s. R s (snd (m s))) \<Longrightarrow> keeps R m"
  by (simp add: keeps_def)

lemma keepsD: "keeps R m \<Longrightarrow> m s = (res, s') \<Longrightarrow> R s s'"
  unfolding keeps_def by (metis snd_conv)

locale frame_relation =
  fixes R :: "'s \<Rightarrow> 's \<Rightarrow> bool"
  assumes refl: "R s s"
    and trans: "R s t \<Longrightarrow> R t u \<Longrightarrow> R s u"
begin

lemma keeps_ret: "keeps R (ret x)"
  by (simp add: keeps_def refl)

lemma keeps_fail: "keeps R (fail e)"
  by (simp add: keeps_def refl)

lemma keeps_getS: "keeps R (getS f)"
  by (simp add: keeps_def refl)

lemma keeps_checkE: "keeps R (checkE f)"
  by (simp add: keeps_def checkE_def refl split: option.splits)

lemma keeps_modS: "(\<And>s. R s (f s)) \<Longrightarrow> keeps R (modS f)"
  by (simp add: keeps_def)

lemma keeps_bindE:
  assumes "keeps R m" and "\<And>x. keeps R (f x)"
  shows "keeps R (bindE m f)"
proof (rule keepsI)
  fix s
  obtain res t where m: "m s = (res, t)" by fastforce
  have st: "R s t" using keepsD [OF assms(1) m] .
  show "R s (snd (bindE m f s))"
  proof (cases res)
    case (Inl e)
    with m st show ?thesis by (simp add: bindE_def)
  next
    case (Inr x)
    have "R t (snd (f x t))" using assms(2) by (simp add: keeps_def)
    with m st Inr show ?thesis by (auto simp: bindE_def intro: trans)
  qed
qed

lemma keeps_tryE:
  assumes "keeps R m" and "\<And>x. keeps R (f x)" and "\<And>e. keeps R (h e)"
  shows "keeps R (tryE m f h)"
proof (rule keepsI)
  fix s
  obtain res t where m: "m s = (res, t)" by fastforce
  have st: "R s t" using keepsD [OF assms(1) m] .
  have "R t (snd (case res of Inl e \<Rightarrow> h e t | Inr x \<Rightarrow> f x t))"
    using assms(2,3) by (simp add: keeps_def split: sum.split)
  then show "R s (snd (tryE m f h s))" using m trans [OF st] by (simp add: tryE_def split: sum.splits)
qed

lemma keeps_seqE: "keeps R m \<Longrightarrow> keeps R k \<Longrightarrow> keeps R (seqE m k)"
  unfolding seqE_def by (rule keeps_bindE)

lemma keeps_deferE:
  assumes "keeps R m" and "\<And>s. R s (f s)"
  shows "keeps R (deferE f m)"
proof (rule keepsI)
  fix s
  have "R s (snd (m s))" using assms(1) by (simp add: keeps_def)
  moreover have "R (snd (m s)) (f (snd (m s)))" by (rule assms(2))
  ultimately show "R s (snd (deferE f m s))"
    by (auto simp: deferE_def split: prod.splits intro: trans)
qed

lemma keeps_repeatE: "keeps R m \<Longrightarrow> keeps R (repeatE n m)"
  by (induction n) (simp_all add: keeps_ret keeps_bindE)

lemma keeps_collectE: "keeps R m \<Longrightarrow> keeps R (collectE n m)"
  by (induction n) (simp_all add: keeps_ret keeps_bindE)

lemma keeps_forE: "(\<And>x. keeps R (f x)) \<Longrightarrow> keeps R (forE f xs)"
  by (induction xs) (simp_all add: keeps_ret keeps_bindE)

lemma keeps_foldE: "(\<And>a. keeps R (f a)) \<Longrightarrow> keeps R (foldE n f a)"
  by (induction n arbitrary: a) (simp_all add: keeps_ret keeps_bindE)

lemma keeps_foldlE: "(\<And>x a. x \<in> set xs \<Longrightarrow> keeps R (f x a)) \<Longrightarrow> keeps R (foldlE f xs a)"
  by (induction xs arbitrary: a) (simp_all add: keeps_ret keeps_bindE)

lemma keeps_if: "keeps R m \<Longrightarrow> keeps R m' \<Longrightarrow> keeps R (if b then m else m')"
  by simp

lemmas keeps_intros =
  keeps_ret keeps_fail keeps_getS keeps_checkE keeps_bindE keeps_tryE keeps_seqE keeps_repeatE
  keeps_collectE keeps_forE keeps_foldE keeps_foldlE keeps_if

end

section \<open>Loops whose body is replaced\<close>

text \<open>
  Two bodies that agree on the states of an invariant give the same loop; this is what turns a
  recursion bounded by fuel into one without.
\<close>

lemma repeatE_agree:
  assumes agree: "\<And>s. P s \<Longrightarrow> m s = m' s"
    and keep: "\<And>s. P s \<Longrightarrow> P (snd (m s))"
  shows "P s \<Longrightarrow> repeatE n m s = repeatE n m' s"
proof (induction n arbitrary: s)
  case 0
  then show ?case by simp
next
  case (Suc n)
  have eq: "m s = m' s" by (rule agree [OF Suc.prems])
  have "P (snd (m' s))" using keep [OF Suc.prems] eq by simp
  then have "repeatE n m (snd (m' s)) = repeatE n m' (snd (m' s))" by (rule Suc.IH)
  then show ?case by (auto simp: bindE_def eq split: prod.splits sum.splits)
qed

lemma collectE_agree:
  assumes agree: "\<And>s. P s \<Longrightarrow> m s = m' s"
    and keep: "\<And>s. P s \<Longrightarrow> P (snd (m s))"
  shows "P s \<Longrightarrow> collectE n m s = collectE n m' s"
proof (induction n arbitrary: s)
  case 0
  then show ?case by simp
next
  case (Suc n)
  have eq: "m s = m' s" by (rule agree [OF Suc.prems])
  have "P (snd (m' s))" using keep [OF Suc.prems] eq by simp
  then have "collectE n m (snd (m' s)) = collectE n m' (snd (m' s))" by (rule Suc.IH)
  then show ?case by (auto simp: bindE_def eq split: prod.splits sum.splits)
qed

end
