(* ===== verification/Go_Word.thy ===== *)
theory Go_Word
  imports Go_Prelude
begin

text \<open>
  Go's sized integers. An \<^verbatim>\<open>uintN\<close> and an \<^verbatim>\<open>intN\<close> are both an \<open>N word\<close>: the same bits, read with
  \<open>unat\<close>/\<open>uint\<close> or with \<open>sint\<close>. A conversion between unsigned types is \<open>ucast\<close>; a conversion from a
  signed type to a wider one is \<open>scast\<close>; a narrowing conversion keeps the low bits (\<open>ucast\<close>).
  The big-endian lanes of \<open>write2\<close>, \<open>write4\<close>, \<open>write8\<close> and their reassembly in \<open>uint16\<close>,
  \<open>uint32\<close>, \<open>uint64\<close> are collected here.
\<close>

unbundle bit_operations_syntax

type_synonym u16 = "16 word"
type_synonym u32 = "32 word"
type_synonym u64 = "64 word"

section \<open>Byte lanes\<close>

text \<open>\<^verbatim>\<open>byte(n >> 8), byte(n)\<close> and so on.\<close>

definition lanes16 :: "u16 \<Rightarrow> byte list" where
  "lanes16 n = [ucast (drop_bit 8 n), ucast n]"

definition lanes32 :: "u32 \<Rightarrow> byte list" where
  "lanes32 n = [ucast (drop_bit 24 n), ucast (drop_bit 16 n), ucast (drop_bit 8 n), ucast n]"

definition lanes64 :: "u64 \<Rightarrow> byte list" where
  "lanes64 n =
     [ucast (drop_bit 56 n), ucast (drop_bit 48 n), ucast (drop_bit 40 n), ucast (drop_bit 32 n),
      ucast (drop_bit 24 n), ucast (drop_bit 16 n), ucast (drop_bit 8 n), ucast n]"

text \<open>
  \<^verbatim>\<open>(uint16(b[0]) << 8) | uint16(b[1])\<close> and so on. The source indexes a slice that holds at
  least as many bytes; \<open>b ! i\<close> is used on such lists only.
\<close>

definition join16 :: "byte list \<Rightarrow> u16" where
  "join16 b = push_bit 8 (ucast (b ! 0)) OR ucast (b ! 1)"

definition join32 :: "byte list \<Rightarrow> u32" where
  "join32 b = push_bit 24 (ucast (b ! 0)) OR push_bit 16 (ucast (b ! 1)) OR
     push_bit 8 (ucast (b ! 2)) OR ucast (b ! 3)"

definition join64 :: "byte list \<Rightarrow> u64" where
  "join64 b = push_bit 56 (ucast (b ! 0)) OR push_bit 48 (ucast (b ! 1)) OR
     push_bit 40 (ucast (b ! 2)) OR push_bit 32 (ucast (b ! 3)) OR push_bit 24 (ucast (b ! 4)) OR
     push_bit 16 (ucast (b ! 5)) OR push_bit 8 (ucast (b ! 6)) OR ucast (b ! 7)"

lemma length_lanes [simp]:
  "length (lanes16 n) = 2" "length (lanes32 m) = 4" "length (lanes64 k) = 8"
  by (simp_all add: lanes16_def lanes32_def lanes64_def)

lemma bit_lane:
  "bit (push_bit k (ucast (ucast (drop_bit k w) :: byte) :: 'a::len word)) n \<longleftrightarrow>
     k \<le> n \<and> n < k + 8 \<and> n < LENGTH('a) \<and> bit (w :: 'a word) n"
  by (auto simp: bit_simps)

lemma bit_lane0:
  "bit (ucast (ucast w :: byte) :: 'a::len word) n \<longleftrightarrow> n < 8 \<and> n < LENGTH('a) \<and> bit (w :: 'a word) n"
  by (auto simp: bit_simps)

lemma join16_lanes16 [simp]: "join16 (lanes16 n) = n"
  unfolding join16_def lanes16_def
  by (rule bit_word_eqI) (auto simp: bit_or_iff bit_lane bit_lane0)

lemma join32_lanes32 [simp]: "join32 (lanes32 n) = n"
  unfolding join32_def lanes32_def
  by (rule bit_word_eqI) (auto simp: bit_or_iff bit_lane bit_lane0)

lemma join64_lanes64 [simp]: "join64 (lanes64 n) = n"
  unfolding join64_def lanes64_def
  by (rule bit_word_eqI) (auto simp: bit_or_iff bit_lane bit_lane0)

section \<open>Widening and narrowing\<close>

lemma unat_lt_byte: "unat (b :: byte) < 256"
  using unsigned_less [of b, where 'a = nat] by simp

lemma unat_lt_u16: "unat (b :: u16) < 65536"
  using unsigned_less [of b, where 'a = nat] by simp

lemma unat_lt_u32: "unat (b :: u32) < 4294967296"
  using unsigned_less [of b, where 'a = nat] by simp

lemma unat_ucast_wide:
  fixes b :: "'a::len word"
  assumes "LENGTH('a) \<le> LENGTH('b::len)"
  shows "unat (ucast b :: 'b word) = unat b"
proof -
  have "unat b < 2 ^ LENGTH('a)" by simp
  also have "(2 :: nat) ^ LENGTH('a) \<le> 2 ^ LENGTH('b)"
    using assms by (simp add: power_increasing)
  finally show ?thesis by (simp add: unsigned_ucast_eq take_bit_nat_eq_self)
qed

lemma unat_ucast_up [simp]:
  "unat (ucast (b :: byte) :: u16) = unat b" "unat (ucast (b :: byte) :: u32) = unat b"
  "unat (ucast (b :: byte) :: u64) = unat b" "unat (ucast (h :: u16) :: u32) = unat h"
  "unat (ucast (h :: u16) :: u64) = unat h" "unat (ucast (w :: u32) :: u64) = unat w"
  by (simp_all add: unat_ucast_wide)

lemma ucast_narrow_widen:
  fixes n :: "'a::len word"
  assumes "unat n < 2 ^ LENGTH('b::len)"
  shows "ucast (ucast n :: 'b word) = n"
proof -
  have "unat (ucast n :: 'b word) = unat n"
    using assms by (simp add: unsigned_ucast_eq take_bit_nat_eq_self)
  then have "word_of_nat (unat (ucast n :: 'b word)) = n"
    by simp
  then show ?thesis
    by (simp add: unsigned_of_nat)
qed

lemma ucast_eq_of_sint:
  fixes n :: "'a::len word"
  assumes "LENGTH('b::len) \<le> LENGTH('a)"
  shows "(ucast n :: 'b word) = word_of_int (sint n)"
proof (rule bit_word_eqI)
  fix i
  assume i: "i < LENGTH('b)"
  then have "i < LENGTH('a)" using assms by simp
  then have "bit (sint n) i \<longleftrightarrow> bit n i"
    by (cases "i = LENGTH('a) - 1") (auto simp: bit_simps min_def)
  with i show "bit (ucast n :: 'b word) i \<longleftrightarrow> bit (word_of_int (sint n) :: 'b word) i"
    by (simp add: bit_simps)
qed

lemma sint_ucast_narrow:
  fixes n :: "'a::len word"
  assumes "LENGTH('b::len) \<le> LENGTH('a)"
    and "- (2 ^ (LENGTH('b) - 1)) \<le> sint n" and "sint n < 2 ^ (LENGTH('b) - 1)"
  shows "sint (ucast n :: 'b word) = sint n"
  using assms by (simp add: ucast_eq_of_sint signed_scast_eq signed_take_bit_int_eq_self)

lemma scast_narrow_widen:
  fixes n :: "'a::len word"
  assumes "LENGTH('b::len) \<le> LENGTH('a)"
    and "- (2 ^ (LENGTH('b) - 1)) \<le> sint n" and "sint n < 2 ^ (LENGTH('b) - 1)"
  shows "scast (ucast n :: 'b word) = n"
proof -
  have "word_of_int (sint (ucast n :: 'b word)) = n"
    using sint_ucast_narrow [OF assms] by simp
  then show ?thesis by simp
qed

end
