(* ===== verification/Go_Runtime.thy ===== *)
theory Go_Runtime
  imports Go_Word
begin

text \<open>
  What the package uses of the Go runtime and standard library: slices with a capacity, the
  constants of the build, and \<^verbatim>\<open>time.Time\<close>. Behaviour that Go leaves to the implementation (the
  capacity \<^verbatim>\<open>append\<close> chooses, the result of converting a float that does not fit, the size of
  \<^verbatim>\<open>int\<close>) is a field of \<open>platform\<close>, so every theorem holds for all choices.
\<close>

section \<open>Slices\<close>

text \<open>
  A slice is its backing array and its length; the capacity is the length of the array. The part
  of the array past the length is kept because reslicing exposes it again.
\<close>

record 'a slice =
  sl_arr :: "'a list"
  sl_len :: nat

definition cap :: "'a slice \<Rightarrow> nat" where
  "cap s = length (sl_arr s)"

definition vis :: "'a slice \<Rightarrow> 'a list" where
  "vis s = take (sl_len s) (sl_arr s)"

definition slice_wf :: "'a slice \<Rightarrow> bool" where
  "slice_wf s \<longleftrightarrow> sl_len s \<le> length (sl_arr s)"

text \<open>\<^verbatim>\<open>make([]T, len, cap)\<close>\<close>

definition make_slice :: "'a \<Rightarrow> nat \<Rightarrow> nat \<Rightarrow> 'a slice" where
  "make_slice z l c = \<lparr>sl_arr = replicate (max l c) z, sl_len = l\<rparr>"

text \<open>\<^verbatim>\<open>s[:n]\<close>: \<open>None\<close> is the run-time panic for \<open>n\<close> past the capacity.\<close>

definition reslice :: "'a slice \<Rightarrow> nat \<Rightarrow> 'a slice option" where
  "reslice s n = (if n \<le> cap s then Some (s\<lparr>sl_len := n\<rparr>) else None)"

text \<open>Storing \<open>xs\<close> at the start of the array, for \<open>xs\<close> no longer than the capacity.\<close>

definition store_at :: "'a slice \<Rightarrow> nat \<Rightarrow> 'a list \<Rightarrow> 'a slice" where
  "store_at s i xs = s\<lparr>sl_arr := take i (sl_arr s) @ xs @ drop (i + length xs) (sl_arr s)\<rparr>"

text \<open>
  \<^verbatim>\<open>append(s, xs...)\<close>: in place when the capacity suffices, else into a new array whose capacity
  is the runtime's choice \<open>grow\<close>, at least what is needed; the rest of a new array is zero.
\<close>

definition append_slice :: "(nat \<Rightarrow> nat \<Rightarrow> nat) \<Rightarrow> 'a \<Rightarrow> 'a slice \<Rightarrow> 'a list \<Rightarrow> 'a slice" where
  "append_slice grow z s xs =
     (let n = length (vis s) + length xs
      in if n \<le> cap s then \<lparr>sl_arr = vis s @ xs @ drop n (sl_arr s), sl_len = n\<rparr>
         else \<lparr>sl_arr = vis s @ xs @ replicate (grow (cap s) n - n) z, sl_len = n\<rparr>)"

lemma length_vis: "slice_wf s \<Longrightarrow> length (vis s) = sl_len s"
  by (simp add: vis_def slice_wf_def)

lemma vis_fields [simp]: "vis \<lparr>sl_arr = a, sl_len = n\<rparr> = take n a"
  by (simp add: vis_def)

lemma vis_append_slice [simp]: "vis (append_slice g z s xs) = vis s @ xs"
  by (simp add: append_slice_def Let_def)

lemma slice_wf_append [simp]: "slice_wf (append_slice g z s xs)"
  by (simp add: append_slice_def slice_wf_def Let_def)

lemma sl_len_append [simp]: "sl_len (append_slice g z s xs) = length (vis s) + length xs"
  by (simp add: append_slice_def Let_def)

lemma vis_make_slice [simp]: "vis (make_slice z l c) = replicate l z"
  by (simp add: make_slice_def vis_def min_def)

lemma cap_make_slice [simp]: "cap (make_slice z l c) = max l c"
  by (simp add: make_slice_def cap_def)

lemma slice_wf_make [simp]: "slice_wf (make_slice z l c)"
  by (simp add: make_slice_def slice_wf_def)

lemma reslice_Some: "n \<le> cap s \<Longrightarrow> reslice s n = Some (s\<lparr>sl_len := n\<rparr>)"
  by (simp add: reslice_def)

lemma cap_store_at [simp]: "i + length xs \<le> cap s \<Longrightarrow> cap (store_at s i xs) = cap s"
  by (simp add: store_at_def cap_def)

lemma vis_store_at:
  "sl_len s = i + length xs \<Longrightarrow> i + length xs \<le> cap s \<Longrightarrow>
     vis (store_at s i xs) = take i (sl_arr s) @ xs"
  by (cases xs) (auto simp: store_at_def vis_def cap_def min_def)

lemma cap_reslice [simp]: "cap (s\<lparr>sl_len := n\<rparr>) = cap s"
  by (simp add: cap_def)

section \<open>Time values\<close>

text \<open>
  A \<^verbatim>\<open>time.Time\<close> through the methods the package calls: \<^verbatim>\<open>Unix()\<close> (seconds, an \<^verbatim>\<open>int64\<close>),
  \<^verbatim>\<open>Nanosecond()\<close> (below one second) and whether its location is UTC.
\<close>

record gotime =
  t_sec :: u64
  t_nsec :: nat
  t_utc :: bool

definition time_wf :: "gotime \<Rightarrow> bool" where
  "time_wf t \<longleftrightarrow> t_nsec t < 1000000000"

text \<open>\<^verbatim>\<open>time.Unix(sec, nsec)\<close> normalises \<open>nsec\<close> into \<open>[0, 1e9)\<close>; seconds wrap as \<^verbatim>\<open>int64\<close>.\<close>

definition time_Unix :: "u64 \<Rightarrow> u64 \<Rightarrow> gotime" where
  "time_Unix sec nsec =
     \<lparr>t_sec = sec + word_of_int (sint nsec div 1000000000),
      t_nsec = nat (sint nsec mod 1000000000), t_utc = False\<rparr>"

text \<open>\<^verbatim>\<open>IsZero\<close>: January 1, year 1, 00:00:00 UTC.\<close>

definition time_IsZero :: "gotime \<Rightarrow> bool" where
  "time_IsZero t \<longleftrightarrow> sint (t_sec t) = - 62135596800 \<and> t_nsec t = 0"

definition time_UTC :: "gotime \<Rightarrow> gotime" where
  "time_UTC t = t\<lparr>t_utc := True\<rparr>"

lemma time_Unix_wf: "time_wf (time_Unix s n)"
proof -
  have "0 \<le> sint n mod 1000000000" and "sint n mod 1000000000 < 1000000000"
    by simp_all
  then have "nat (sint n mod 1000000000) < 1000000000"
    by linarith
  then show ?thesis by (simp add: time_wf_def time_Unix_def)
qed

lemma time_Unix_normal:
  assumes "n < 1000000000"
  shows "time_Unix s (word_of_nat n) = \<lparr>t_sec = s, t_nsec = n, t_utc = False\<rparr>"
proof -
  have "sint (word_of_nat n :: u64) = int n"
    using assms by (simp add: signed_of_nat signed_take_bit_int_eq_self)
  then show ?thesis using assms by (simp add: time_Unix_def)
qed

section \<open>The build\<close>

text \<open>
  \<open>p_intBits\<close> is the width of \<^verbatim>\<open>int\<close>; \<open>p_grow\<close> the capacity \<^verbatim>\<open>append\<close> picks; \<open>p_f64_to_i64\<close> and
  \<open>p_f64_to_u64\<close> give the implementation-defined result of converting a \<^verbatim>\<open>float64\<close> (its bits) that
  is NaN, infinite or out of range; \<open>p_parseTime\<close> is \<^verbatim>\<open>time.Parse(time.RFC3339Nano, s)\<close>.
\<close>

record platform =
  p_intBits :: nat
  p_grow :: "nat \<Rightarrow> nat \<Rightarrow> nat"
  p_f64_to_i64 :: "u64 \<Rightarrow> u64"
  p_f64_to_u64 :: "u64 \<Rightarrow> u64"
  p_parseTime :: "gostring \<Rightarrow> gotime option"

definition maxInt :: "platform \<Rightarrow> int" where
  "maxInt p = 2 ^ (p_intBits p - 1) - 1"

text \<open>A 64-bit build, used by the concrete examples.\<close>

definition amd64 :: platform where
  "amd64 = \<lparr>p_intBits = 64, p_grow = (\<lambda>c n. max n (2 * c)), p_f64_to_i64 = (\<lambda>_. 2 ^ 63),
     p_f64_to_u64 = (\<lambda>_. 2 ^ 63), p_parseTime = (\<lambda>_. None)\<rparr>"

end
