(* ===== verification/Go_Float.thy ===== *)
theory Go_Float
  imports Go_Runtime
begin

text \<open>
  IEEE-754 numbers as the package uses them: \<^verbatim>\<open>float32\<close> and \<^verbatim>\<open>float64\<close> are their bit patterns
  (\<^verbatim>\<open>math.Float32bits\<close>, \<^verbatim>\<open>math.Float64frombits\<close> are then the identity). A finite number is an
  integer multiple of the least subnormal, \<open>2 ^ - 149\<close> or \<open>2 ^ - 1074\<close>; \<open>f32_scaled\<close> and
  \<open>f64_scaled\<close> are those exact integers, and comparisons, \<^verbatim>\<open>math.Trunc\<close> and conversions are
  defined on them.
\<close>

section \<open>Fields of a binary float with \<open>p\<close> mantissa and \<open>w\<close> exponent bits\<close>

definition fl_man :: "nat \<Rightarrow> nat \<Rightarrow> nat" where
  "fl_man p x = x mod 2 ^ p"

definition fl_exp :: "nat \<Rightarrow> nat \<Rightarrow> nat \<Rightarrow> nat" where
  "fl_exp p w x = x div 2 ^ p mod 2 ^ w"

definition fl_neg :: "nat \<Rightarrow> nat \<Rightarrow> nat \<Rightarrow> bool" where
  "fl_neg p w x \<longleftrightarrow> 2 ^ (p + w) \<le> x"

definition fl_mk :: "nat \<Rightarrow> nat \<Rightarrow> bool \<Rightarrow> nat \<Rightarrow> nat \<Rightarrow> nat" where
  "fl_mk p w s e m = (if s then 2 ^ (p + w) else 0) + e * 2 ^ p + m"

definition fl_mag :: "nat \<Rightarrow> nat \<Rightarrow> nat \<Rightarrow> nat" where
  "fl_mag p e m = (if e = 0 then m else (2 ^ p + m) * 2 ^ (e - 1))"

definition fl_scaled :: "nat \<Rightarrow> nat \<Rightarrow> nat \<Rightarrow> int" where
  "fl_scaled p w x =
     (if fl_neg p w x then - 1 else 1) * int (fl_mag p (fl_exp p w x) (fl_man p x))"

lemma fl_man_less: "fl_man p x < 2 ^ p"
  unfolding fl_man_def by (rule mod_less_divisor) simp

lemma fl_fields_mk:
  assumes e: "e < 2 ^ w" and m: "m < 2 ^ p"
  shows "fl_man p (fl_mk p w s e m) = m" "fl_exp p w (fl_mk p w s e m) = e"
    "fl_neg p w (fl_mk p w s e m) = s" "fl_mk p w s e m < 2 * 2 ^ (p + w)"
proof -
  have "e * 2 ^ p + m < (e + 1) * 2 ^ p" using m by simp
  also have "\<dots> \<le> 2 ^ w * 2 ^ p" using e by (intro mult_right_mono) simp_all
  finally have lt: "e * 2 ^ p + m < 2 ^ (p + w)" by (simp add: power_add mult.commute)
  show "fl_neg p w (fl_mk p w s e m) = s" "fl_mk p w s e m < 2 * 2 ^ (p + w)"
    using lt by (auto simp: fl_neg_def fl_mk_def)
  have eq: "fl_mk p w s e m = ((if s then 2 ^ w else 0) + e) * 2 ^ p + m"
    by (simp add: fl_mk_def power_add algebra_simps)
  show "fl_man p (fl_mk p w s e m) = m"
    using m by (simp add: fl_man_def eq)
  have "fl_mk p w s e m div 2 ^ p = (if s then 2 ^ w else 0) + e"
    using m by (simp add: eq)
  then show "fl_exp p w (fl_mk p w s e m) = e"
    using e by (simp add: fl_exp_def)
qed

lemma fl_scaled_mk:
  assumes "e < 2 ^ w" and "m < 2 ^ p"
  shows "fl_scaled p w (fl_mk p w s e m) = (if s then - 1 else 1) * int (fl_mag p e m)"
  using fl_fields_mk [OF assms] by (simp add: fl_scaled_def)

section \<open>Rounding an integer to nearest even\<close>

fun ilog2 :: "nat \<Rightarrow> nat" where
  "ilog2 n = (if n < 2 then 0 else Suc (ilog2 (n div 2)))"

declare ilog2.simps [simp del]

lemma ilog2_bounds: "0 < n \<Longrightarrow> 2 ^ ilog2 n \<le> n \<and> n < 2 * 2 ^ ilog2 n"
proof (induction n rule: ilog2.induct)
  case (1 n)
  show ?case
  proof (cases "n < 2")
    case True
    with 1 show ?thesis by (simp add: ilog2.simps [of n])
  next
    case False
    with 1 have "2 ^ ilog2 (n div 2) \<le> n div 2 \<and> n div 2 < 2 * 2 ^ ilog2 (n div 2)" by simp
    with False show ?thesis by (simp add: ilog2.simps [of n]) linarith
  qed
qed

lemma ilog2_less: "0 < n \<Longrightarrow> n < 2 ^ k \<Longrightarrow> ilog2 n < k"
  using ilog2_bounds [of n] by (meson le_less_trans power_less_imp_less_exp one_less_numeral_iff semiring_norm(76))

text \<open>Exponent and mantissa of the float nearest to \<open>a > 0\<close>, ties to the even mantissa.\<close>

definition fl_of_nat :: "nat \<Rightarrow> nat \<Rightarrow> nat \<Rightarrow> nat \<times> nat" where
  "fl_of_nat p bias a =
     (let k = ilog2 a
      in if k \<le> p then (bias + k, (a - 2 ^ k) * 2 ^ (p - k))
         else let sh = k - p; q = a div 2 ^ sh; r = a mod 2 ^ sh; h = 2 ^ (sh - 1);
                  q' = (if h < r \<or> r = h \<and> odd q then q + 1 else q)
              in if q' = 2 ^ (p + 1) then (bias + k + 1, 0) else (bias + k, q' - 2 ^ p))"

text \<open>No rounding happens when the dropped bits are zero.\<close>

lemma fl_of_nat_exact:
  assumes a: "0 < a" and dv: "2 ^ (ilog2 a - p) dvd a" and b: "0 < bias"
  obtains e m where "fl_of_nat p bias a = (e, m)" and "e = bias + ilog2 a" and "m < 2 ^ p"
    and "fl_mag p e m = a * 2 ^ (bias + p - 1)"
proof -
  define k where "k = ilog2 a"
  have lo: "2 ^ k \<le> a" and hi: "a < 2 * 2 ^ k"
    using ilog2_bounds [OF a] by (simp_all add: k_def)
  show thesis
  proof (cases "k \<le> p")
    case True
    have pk: "2 ^ k * 2 ^ (p - k) = (2 :: nat) ^ p"
      using True by (simp flip: power_add)
    have "(a - 2 ^ k) * 2 ^ (p - k) < 2 ^ k * 2 ^ (p - k)"
      using hi lo by (intro mult_strict_right_mono) simp_all
    then have m: "(a - 2 ^ k) * 2 ^ (p - k) < 2 ^ p" by (simp add: pk)
    have "2 ^ p + (a - 2 ^ k) * 2 ^ (p - k) = a * 2 ^ (p - k)"
      using lo by (simp add: diff_mult_distrib pk)
        (metis add.commute diff_add_inverse2 le_add_diff_inverse mult_le_mono1 pk)
    moreover have "2 ^ (p - k) * 2 ^ (bias + k - 1) = (2 :: nat) ^ (bias + p - 1)"
      using True b by (simp flip: power_add)
    ultimately have "fl_mag p (bias + k) ((a - 2 ^ k) * 2 ^ (p - k)) = a * 2 ^ (bias + p - 1)"
      using b by (simp add: fl_mag_def mult.assoc)
    with m True show thesis
      by (intro that) (simp_all add: fl_of_nat_def Let_def k_def)
  next
    case False
    define sh where "sh = k - p"
    have sh: "2 ^ p * 2 ^ sh = (2 :: nat) ^ k" and "0 < sh"
      using False by (simp_all add: sh_def flip: power_add)
    from dv obtain q where q: "a = q * 2 ^ sh"
      unfolding sh_def k_def by (metis dvd_div_mult_self)
    have qlo: "2 ^ p \<le> q" using lo unfolding q sh [symmetric] by simp
    have qhi: "q < 2 * 2 ^ p" using hi unfolding q sh [symmetric] by simp
    have d: "a div 2 ^ sh = q" and r: "a mod 2 ^ sh = 0" by (simp_all add: q)
    have parts: "fl_of_nat p bias a = (bias + k, q - 2 ^ p)"
      using False qhi d r by (simp add: fl_of_nat_def Let_def k_def [symmetric] sh_def)
    have "2 ^ sh * 2 ^ (bias + p - 1) = (2 :: nat) ^ (bias + k - 1)"
      using False b by (simp add: sh_def flip: power_add)
    then have "fl_mag p (bias + k) (q - 2 ^ p) = a * 2 ^ (bias + p - 1)"
      using b qlo by (simp add: fl_mag_def q mult.assoc)
    with parts qhi qlo show thesis by (intro that) (simp_all add: k_def)
  qed
qed

section \<open>\<^verbatim>\<open>float64\<close> and \<^verbatim>\<open>float32\<close>\<close>

definition f64_isNaN :: "u64 \<Rightarrow> bool" where
  "f64_isNaN b \<longleftrightarrow> fl_exp 52 11 (unat b) = 2047 \<and> fl_man 52 (unat b) \<noteq> 0"

definition f64_isInf :: "u64 \<Rightarrow> bool" where
  "f64_isInf b \<longleftrightarrow> fl_exp 52 11 (unat b) = 2047 \<and> fl_man 52 (unat b) = 0"

definition f64_finite :: "u64 \<Rightarrow> bool" where
  "f64_finite b \<longleftrightarrow> fl_exp 52 11 (unat b) \<noteq> 2047"

text \<open>A finite \<open>float64\<close> in units of \<open>2 ^ - 1074\<close>.\<close>

definition f64_scaled :: "u64 \<Rightarrow> int" where
  "f64_scaled b = fl_scaled 52 11 (unat b)"

definition f64_unit :: int where
  "f64_unit = 2 ^ 1074"

definition f32_finite :: "u32 \<Rightarrow> bool" where
  "f32_finite b \<longleftrightarrow> fl_exp 23 8 (unat b) \<noteq> 255"

definition f32_scaled :: "u32 \<Rightarrow> int" where
  "f32_scaled b = fl_scaled 23 8 (unat b)"

text \<open>\<^verbatim>\<open>f != math.Trunc(f)\<close> for a finite \<open>f\<close>, and the comparisons with an integer constant.\<close>

definition f64_isInt :: "u64 \<Rightarrow> bool" where
  "f64_isInt b \<longleftrightarrow> f64_unit dvd f64_scaled b"

definition f64_less_int :: "u64 \<Rightarrow> int \<Rightarrow> bool" where
  "f64_less_int b n \<longleftrightarrow> f64_scaled b < n * f64_unit"

definition f64_greater_int :: "u64 \<Rightarrow> int \<Rightarrow> bool" where
  "f64_greater_int b n \<longleftrightarrow> n * f64_unit < f64_scaled b"

text \<open>Truncation towards zero.\<close>

definition f64_trunc :: "u64 \<Rightarrow> int" where
  "f64_trunc b = sgn (f64_scaled b) * (\<bar>f64_scaled b\<bar> div f64_unit)"

text \<open>
  \<^verbatim>\<open>int64(f)\<close> and \<^verbatim>\<open>uint64(f)\<close>: the fraction is discarded; what does not fit is left to the
  implementation by the Go specification.
\<close>

definition f64_to_i64 :: "platform \<Rightarrow> u64 \<Rightarrow> u64" where
  "f64_to_i64 P b =
     (if f64_finite b \<and> - (2 ^ 63) \<le> f64_trunc b \<and> f64_trunc b < 2 ^ 63
      then word_of_int (f64_trunc b) else p_f64_to_i64 P b)"

definition f64_to_u64 :: "platform \<Rightarrow> u64 \<Rightarrow> u64" where
  "f64_to_u64 P b =
     (if f64_finite b \<and> 0 \<le> f64_trunc b \<and> f64_trunc b < 2 ^ 64
      then word_of_int (f64_trunc b) else p_f64_to_u64 P b)"

text \<open>\<^verbatim>\<open>float64(n)\<close> and \<^verbatim>\<open>float32(n)\<close> of an integer round to nearest even.\<close>

definition f64_of_int :: "int \<Rightarrow> u64" where
  "f64_of_int n =
     (if n = 0 then 0
      else let (e, m) = fl_of_nat 52 1023 (nat \<bar>n\<bar>) in word_of_nat (fl_mk 52 11 (n < 0) e m))"

definition f32_of_int :: "int \<Rightarrow> u32" where
  "f32_of_int n =
     (if n = 0 then 0
      else let (e, m) = fl_of_nat 23 127 (nat \<bar>n\<bar>) in word_of_nat (fl_mk 23 8 (n < 0) e m))"

text \<open>
  \<^verbatim>\<open>float64(f)\<close> of a \<^verbatim>\<open>float32\<close> is exact: infinities and NaNs keep their kind (a NaN is quieted),
  subnormals become normal.
\<close>

definition f64_of_f32 :: "u32 \<Rightarrow> u64" where
  "f64_of_f32 b =
     (let s = fl_neg 23 8 (unat b); e = fl_exp 23 8 (unat b); m = fl_man 23 (unat b)
      in word_of_nat
           (if e = 255 then
              (if m = 0 then fl_mk 52 11 s 2047 0
               else fl_mk 52 11 s 2047 (2 ^ 51 + (m * 2 ^ 29) mod 2 ^ 51))
            else if e = 0 then
              (if m = 0 then fl_mk 52 11 s 0 0
               else fl_mk 52 11 s (874 + ilog2 m) ((m - 2 ^ ilog2 m) * 2 ^ (52 - ilog2 m)))
            else fl_mk 52 11 s (e + 896) (m * 2 ^ 29)))"

text \<open>\<^verbatim>\<open>a == b\<close> on \<^verbatim>\<open>float64\<close>: NaN equals nothing, the two zeros are equal.\<close>

definition f64_eq :: "u64 \<Rightarrow> u64 \<Rightarrow> bool" where
  "f64_eq a b \<longleftrightarrow> \<not> f64_isNaN a \<and> \<not> f64_isNaN b \<and> f64_scaled a = f64_scaled b"

definition f32_eq :: "u32 \<Rightarrow> u32 \<Rightarrow> bool" where
  "f32_eq a b \<longleftrightarrow> f64_eq (f64_of_f32 a) (f64_of_f32 b)"

lemma unat_mk64:
  "e < 2048 \<Longrightarrow> m < 2 ^ 52 \<Longrightarrow> unat (word_of_nat (fl_mk 52 11 s e m) :: u64) = fl_mk 52 11 s e m"
  using fl_fields_mk(4) [of e 11 m 52 s] by (simp add: unsigned_of_nat take_bit_nat_eq_self)

lemma mk64_props:
  assumes "e < 2048" and "m < 2 ^ 52"
  shows "f64_scaled (word_of_nat (fl_mk 52 11 s e m)) = (if s then - 1 else 1) * int (fl_mag 52 e m)"
    and "e < 2047 \<Longrightarrow> f64_finite (word_of_nat (fl_mk 52 11 s e m))"
  using assms unat_mk64 [OF assms, of s] fl_scaled_mk [of e 11 m 52 s] fl_fields_mk [of e 11 m 52 s]
  by (simp_all add: f64_scaled_def f64_finite_def)

lemma f64_finite_not_NaN: "f64_finite b \<Longrightarrow> \<not> f64_isNaN b \<and> \<not> f64_isInf b"
  by (simp add: f64_finite_def f64_isNaN_def f64_isInf_def)

lemma f64_finite_iff: "f64_finite b \<longleftrightarrow> \<not> f64_isNaN b \<and> \<not> f64_isInf b"
  by (auto simp: f64_finite_def f64_isNaN_def f64_isInf_def)

text \<open>An integer with at most 53 significant bits converts exactly.\<close>

lemma f64_of_int_exact:
  assumes n: "\<bar>n\<bar> < 2 ^ 1000" and dv: "2 ^ (ilog2 (nat \<bar>n\<bar>) - 52) dvd n"
  shows "f64_finite (f64_of_int n) \<and> f64_scaled (f64_of_int n) = n * f64_unit"
proof (cases "n = 0")
  case True
  then show ?thesis
    by (simp add: f64_of_int_def f64_finite_def f64_scaled_def fl_scaled_def fl_exp_def fl_mag_def
        fl_man_def)
next
  case False
  let ?a = "nat \<bar>n\<bar>"
  have a: "0 < ?a" using False by simp
  have "int (2 ^ (ilog2 ?a - 52)) dvd \<bar>n\<bar>" using dv by simp
  then have dva: "2 ^ (ilog2 ?a - 52) dvd ?a"
    by (metis abs_ge_zero int_dvd_int_iff int_nat_eq)
  have lt: "ilog2 ?a < 1000"
  proof (rule ilog2_less [OF a])
    show "?a < 2 ^ 1000" using n by (simp add: nat_less_iff)
  qed
  obtain e m where em: "fl_of_nat 52 1023 ?a = (e, m)" "e = 1023 + ilog2 ?a" "m < 2 ^ 52"
    and mag: "fl_mag 52 e m = ?a * 2 ^ (1023 + 52 - 1)"
    by (rule fl_of_nat_exact [OF a dva, of 1023]) (use zero_less_numeral in \<open>blast+\<close>)
  have val: "f64_of_int n = word_of_nat (fl_mk 52 11 (n < 0) e m)"
    using False em(1) by (simp add: f64_of_int_def)
  have e: "e < 2047" using em(2) lt by simp
  have sc: "f64_scaled (f64_of_int n) = (if n < 0 then - 1 else 1) * int (fl_mag 52 e m)"
    using mk64_props(1) [of e m "n < 0"] e em(3) val by simp
  have unit: "int (fl_mag 52 e m) = \<bar>n\<bar> * f64_unit"
    unfolding mag f64_unit_def by simp
  have "(if n < 0 then - 1 else 1) * (\<bar>n\<bar> * f64_unit) = n * f64_unit" by simp
  then have "f64_scaled (f64_of_int n) = n * f64_unit"
    unfolding sc unit .
  moreover have "f64_finite (f64_of_int n)"
    using mk64_props(2) [of e m "n < 0"] e em(3) val by simp
  ultimately show ?thesis by blast
qed

text \<open>An integer-valued \<open>float64\<close> has at most 53 significant bits.\<close>

lemma f64_isInt_trunc: "f64_isInt b \<Longrightarrow> f64_scaled b = f64_trunc b * f64_unit"
  unfolding f64_isInt_def f64_trunc_def
  by (simp add: mult.assoc mult_sgn_abs dvd_abs_iff dvd_div_mult_self)

lemma fl_mag_53_bits:
  assumes mag: "fl_mag 52 e m = a * 2 ^ 1074" and m: "m < 2 ^ 52" and a: "0 < a"
  shows "2 ^ (ilog2 a - 52) dvd a"
proof (cases "e \<le> 1074")
  case True
  have "a < 2 ^ 53"
  proof (rule ccontr)
    assume "\<not> a < 2 ^ 53"
    then have big: "(2 :: nat) ^ 53 * 2 ^ 1074 \<le> fl_mag 52 e m"
      unfolding mag by (intro mult_right_mono) simp_all
    have "fl_mag 52 e m < 2 ^ 53 * 2 ^ (e - 1)"
      using m by (auto simp: fl_mag_def)
    also have "(2 :: nat) ^ 53 * 2 ^ (e - 1) \<le> 2 ^ 53 * 2 ^ 1074"
      using True by (intro mult_left_mono power_increasing) simp_all
    finally show False using big by simp
  qed
  then have "ilog2 a < 53" by (rule ilog2_less [OF a])
  then show ?thesis by simp
next
  case False
  define j where "j = e - 1075"
  have e: "e - 1 = j + 1074" using False by (simp add: j_def)
  have "a * 2 ^ 1074 = ((2 ^ 52 + m) * 2 ^ j) * 2 ^ 1074"
    using mag False e by (simp add: fl_mag_def power_add mult.assoc)
  then have eq: "a = (2 ^ 52 + m) * 2 ^ j" by simp
  have "a < 2 ^ 53 * 2 ^ j" unfolding eq using m by simp
  then have "a < 2 ^ (53 + j)" by (simp add: power_add)
  then have "ilog2 a < 53 + j" by (rule ilog2_less [OF a])
  then have "ilog2 a - 52 \<le> j" by simp
  then have "(2 :: nat) ^ (ilog2 a - 52) dvd 2 ^ j" by (rule le_imp_power_dvd)
  then show ?thesis unfolding eq by simp
qed

lemma f64_int_roundtrip:
  assumes int: "f64_isInt b" and small: "\<bar>f64_trunc b\<bar> < 2 ^ 1000"
  shows "f64_finite (f64_of_int (f64_trunc b)) \<and> f64_scaled (f64_of_int (f64_trunc b)) = f64_scaled b"
proof -
  let ?n = "f64_trunc b"
  have sc: "f64_scaled b = ?n * f64_unit" by (rule f64_isInt_trunc [OF int])
  have "2 ^ (ilog2 (nat \<bar>?n\<bar>) - 52) dvd ?n"
  proof (cases "?n = 0")
    case False
    let ?e = "fl_exp 52 11 (unat b)" and ?m = "fl_man 52 (unat b)"
    have "int (fl_mag 52 ?e ?m) = \<bar>f64_scaled b\<bar>"
      by (simp add: f64_scaled_def fl_scaled_def)
    also have "\<dots> = int (nat \<bar>?n\<bar>) * 2 ^ 1074"
      unfolding sc by (simp add: abs_mult f64_unit_def)
    finally have "int (fl_mag 52 ?e ?m) = int (nat \<bar>?n\<bar> * 2 ^ 1074)"
      by (simp only: of_nat_mult of_nat_power of_nat_numeral)
    then have "fl_mag 52 ?e ?m = nat \<bar>?n\<bar> * 2 ^ 1074"
      by (simp only: of_nat_eq_iff)
    then have "2 ^ (ilog2 (nat \<bar>?n\<bar>) - 52) dvd nat \<bar>?n\<bar>"
      by (rule fl_mag_53_bits [OF _ fl_man_less]) (use False in simp)
    then have "int (2 ^ (ilog2 (nat \<bar>?n\<bar>) - 52)) dvd int (nat \<bar>?n\<bar>)"
      by (simp only: int_dvd_int_iff)
    then show ?thesis by simp
  qed simp
  from f64_of_int_exact [OF small this] show ?thesis by (simp add: sc)
qed

end
