(* ===== verification/Msgpcode.thy ===== *)
theory Msgpcode
  imports Go_Word
begin

text \<open>
  Package \<open>msgpcode\<close> (\<^verbatim>\<open>pkg/msgpack/msgpcode/msgpcode.go\<close>): the wire opcodes and the \<open>IsFixed*\<close>,
  \<open>IsString\<close>, \<open>IsBin\<close>, \<open>IsExt\<close> predicates. A constant \<open>X\<close> of the package is \<open>X_c\<close> here, since
  \<open>Nil\<close>, \<open>True\<close> and \<open>False\<close> are taken by HOL. The main fact is that the classes the decoder's
  dispatch distinguishes partition the 256 codes.
\<close>

definition PosFixedNumHigh_c :: byte where "PosFixedNumHigh_c = 127"
definition NegFixedNumLow_c :: byte where "NegFixedNumLow_c = 224"
definition Nil_c :: byte where "Nil_c = 192"
definition False_c :: byte where "False_c = 194"
definition True_c :: byte where "True_c = 195"
definition Float_c :: byte where "Float_c = 202"
definition Double_c :: byte where "Double_c = 203"
definition Uint8_c :: byte where "Uint8_c = 204"
definition Uint16_c :: byte where "Uint16_c = 205"
definition Uint32_c :: byte where "Uint32_c = 206"
definition Uint64_c :: byte where "Uint64_c = 207"
definition Int8_c :: byte where "Int8_c = 208"
definition Int16_c :: byte where "Int16_c = 209"
definition Int32_c :: byte where "Int32_c = 210"
definition Int64_c :: byte where "Int64_c = 211"
definition FixedStrLow_c :: byte where "FixedStrLow_c = 160"
definition FixedStrHigh_c :: byte where "FixedStrHigh_c = 191"
definition FixedStrMask_c :: byte where "FixedStrMask_c = 31"
definition Str8_c :: byte where "Str8_c = 217"
definition Str16_c :: byte where "Str16_c = 218"
definition Str32_c :: byte where "Str32_c = 219"
definition Bin8_c :: byte where "Bin8_c = 196"
definition Bin16_c :: byte where "Bin16_c = 197"
definition Bin32_c :: byte where "Bin32_c = 198"
definition FixedArrayLow_c :: byte where "FixedArrayLow_c = 144"
definition FixedArrayHigh_c :: byte where "FixedArrayHigh_c = 159"
definition FixedArrayMask_c :: byte where "FixedArrayMask_c = 15"
definition Array16_c :: byte where "Array16_c = 220"
definition Array32_c :: byte where "Array32_c = 221"
definition FixedMapLow_c :: byte where "FixedMapLow_c = 128"
definition FixedMapHigh_c :: byte where "FixedMapHigh_c = 143"
definition FixedMapMask_c :: byte where "FixedMapMask_c = 15"
definition Map16_c :: byte where "Map16_c = 222"
definition Map32_c :: byte where "Map32_c = 223"
definition FixExt1_c :: byte where "FixExt1_c = 212"
definition FixExt2_c :: byte where "FixExt2_c = 213"
definition FixExt4_c :: byte where "FixExt4_c = 214"
definition FixExt8_c :: byte where "FixExt8_c = 215"
definition FixExt16_c :: byte where "FixExt16_c = 216"
definition Ext8_c :: byte where "Ext8_c = 199"
definition Ext16_c :: byte where "Ext16_c = 200"
definition Ext32_c :: byte where "Ext32_c = 201"

named_theorems code_defs \<open>the numeric values of the opcodes\<close>

lemmas opcode_values [code_defs] =
  PosFixedNumHigh_c_def NegFixedNumLow_c_def Nil_c_def False_c_def True_c_def Float_c_def
  Double_c_def Uint8_c_def Uint16_c_def Uint32_c_def Uint64_c_def Int8_c_def
  Int16_c_def Int32_c_def Int64_c_def FixedStrLow_c_def FixedStrHigh_c_def FixedStrMask_c_def
  Str8_c_def Str16_c_def Str32_c_def Bin8_c_def Bin16_c_def Bin32_c_def
  FixedArrayLow_c_def FixedArrayHigh_c_def FixedArrayMask_c_def Array16_c_def Array32_c_def FixedMapLow_c_def
  FixedMapHigh_c_def FixedMapMask_c_def Map16_c_def Map32_c_def FixExt1_c_def FixExt2_c_def
  FixExt4_c_def FixExt8_c_def FixExt16_c_def Ext8_c_def Ext16_c_def Ext32_c_def

definition IsFixedNum :: "byte \<Rightarrow> bool" where
  "IsFixedNum c \<longleftrightarrow> c \<le> PosFixedNumHigh_c \<or> c \<ge> NegFixedNumLow_c"

definition IsFixedMap :: "byte \<Rightarrow> bool" where
  "IsFixedMap c \<longleftrightarrow> c \<ge> FixedMapLow_c \<and> c \<le> FixedMapHigh_c"

definition IsFixedArray :: "byte \<Rightarrow> bool" where
  "IsFixedArray c \<longleftrightarrow> c \<ge> FixedArrayLow_c \<and> c \<le> FixedArrayHigh_c"

definition IsFixedString :: "byte \<Rightarrow> bool" where
  "IsFixedString c \<longleftrightarrow> c \<ge> FixedStrLow_c \<and> c \<le> FixedStrHigh_c"

definition IsString :: "byte \<Rightarrow> bool" where
  "IsString c \<longleftrightarrow> IsFixedString c \<or> c = Str8_c \<or> c = Str16_c \<or> c = Str32_c"

definition IsBin :: "byte \<Rightarrow> bool" where
  "IsBin c \<longleftrightarrow> c = Bin8_c \<or> c = Bin16_c \<or> c = Bin32_c"

definition IsFixedExt :: "byte \<Rightarrow> bool" where
  "IsFixedExt c \<longleftrightarrow> c \<ge> FixExt1_c \<and> c \<le> FixExt16_c"

definition IsExt :: "byte \<Rightarrow> bool" where
  "IsExt c \<longleftrightarrow> IsFixedExt c \<or> c = Ext8_c \<or> c = Ext16_c \<or> c = Ext32_c"

lemmas class_defs =
  IsFixedNum_def IsFixedMap_def IsFixedArray_def IsFixedString_def IsString_def IsBin_def
  IsFixedExt_def IsExt_def

text \<open>Every question about opcodes is linear arithmetic on the code's numeric value.\<close>

lemmas code_arith = class_defs opcode_values word_le_nat_alt word_unat_eq_iff

section \<open>The opcode classes partition the bytes\<close>

text \<open>The classes of the decoder's switch statements; \<open>0xc1\<close> is the one code never used.\<close>

definition opcode_classes :: "(byte \<Rightarrow> bool) list" where
  "opcode_classes =
     [IsFixedNum, IsFixedMap, IsFixedArray, IsString, IsBin, IsExt,
      (\<lambda>c. c = Nil_c), (\<lambda>c. c = False_c \<or> c = True_c), (\<lambda>c. c = Float_c \<or> c = Double_c),
      (\<lambda>c. c = Uint8_c \<or> c = Uint16_c \<or> c = Uint32_c \<or> c = Uint64_c),
      (\<lambda>c. c = Int8_c \<or> c = Int16_c \<or> c = Int32_c \<or> c = Int64_c),
      (\<lambda>c. c = Array16_c \<or> c = Array32_c), (\<lambda>c. c = Map16_c \<or> c = Map32_c),
      (\<lambda>c. c = 0xc1)]"

text \<open>
  Every byte is in exactly one of the opcode classes on which the decoder dispatches, so the
  order in which the \<open>switch\<close> statements test them does not matter and only \<open>0xc1\<close> is unassigned.
\<close>

theorem opcode_partition: "length (filter (\<lambda>P. P c) opcode_classes) = 1"
  using unat_lt_byte [of c] unfolding opcode_classes_def code_arith by (simp; arith)

end
