(* ===== verification/Encoder.thy ===== *)
theory Encoder
  imports Go_Float Msgpcode
begin

text \<open>
  \<^verbatim>\<open>pkg/msgpack/encode.go\<close>: the writers, the \<open>Encoder\<close> state with its reset, option and pool
  operations, and the primitive writes.

  An \<^verbatim>\<open>io.Writer\<close> the caller supplies is not code of the repository: it is an interface value, a
  state together with its method table (\<open>io_writer\<close>), and what is required of it is the locale
  \<open>sink\<close>. The two writers the package itself defines, \<open>appendWriter\<close> and \<open>byteWriter\<close>, are
  modelled and shown to satisfy that interface.

  \<open>emits out k m bs k'\<close> is the specification used for every encoding method: started in
  configuration \<open>k\<close>, \<open>m\<close> either succeeds, having appended exactly \<open>bs\<close> to what the writer
  accepted and leaving configuration \<open>k'\<close>, or fails with an error of the writer after a prefix of
  \<open>bs\<close>. It is closed under sequencing, so it lifts to whole values.
\<close>

unbundle bit_operations_syntax

section \<open>Option flags\<close>

definition sortMapKeysFlag :: u32 where "sortMapKeysFlag = 1"
definition arrayEncodedStructsFlag :: u32 where "arrayEncodedStructsFlag = 2"
definition useCompactIntsFlag :: u32 where "useCompactIntsFlag = 4"
definition useCompactFloatsFlag :: u32 where "useCompactFloatsFlag = 8"
definition useInternedStringsFlag :: u32 where "useInternedStringsFlag = 16"
definition omitEmptyFlag :: u32 where "omitEmptyFlag = 32"

text \<open>\<^verbatim>\<open>flags |= f\<close> or \<^verbatim>\<open>flags &= ^f\<close>, and the test \<^verbatim>\<open>flags&f != 0\<close>.\<close>

definition setFlag :: "u32 \<Rightarrow> bool \<Rightarrow> u32 \<Rightarrow> u32" where
  "setFlag f on w = (if on then w OR f else w AND NOT f)"

definition hasFlag :: "u32 \<Rightarrow> u32 \<Rightarrow> bool" where
  "hasFlag w f \<longleftrightarrow> w AND f \<noteq> 0"

lemma hasFlag_setFlag: "f \<noteq> 0 \<Longrightarrow> hasFlag (setFlag f on w) f = on"
  by (auto simp: hasFlag_def setFlag_def bit_eq_iff bit_simps)

lemma hasFlag_setFlag_other: "f AND g = 0 \<Longrightarrow> hasFlag (setFlag f on w) g = hasFlag w g"
  by (auto simp: hasFlag_def setFlag_def bit_eq_iff bit_simps)

text \<open>
  The interface of an object with an option word: the setters of \<open>Encoder\<close> and of \<open>Decoder\<close> are
  instances, and reading one option back after setting another is proved once.
\<close>

locale option_word =
  fixes get :: "'s \<Rightarrow> u32" and upd :: "(u32 \<Rightarrow> u32) \<Rightarrow> 's \<Rightarrow> 's"
  assumes get_upd: "get (upd f s) = f (get s)"
begin

lemma set_get: "f \<noteq> 0 \<Longrightarrow> hasFlag (get (upd (setFlag f on) s)) f = on"
  by (simp add: get_upd hasFlag_setFlag)

lemma set_get_other: "f AND g = 0 \<Longrightarrow> hasFlag (get (upd (setFlag f on) s)) g = hasFlag (get s) g"
  by (simp add: get_upd hasFlag_setFlag_other)

end

section \<open>Writers\<close>

record 'w io_writer =
  iw_state :: 'w
  iw_Write :: "byte list \<Rightarrow> 'w \<Rightarrow> go_error option \<times> 'w"
  iw_WriteByte :: "(byte \<Rightarrow> 'w \<Rightarrow> go_error option \<times> 'w) option"

text \<open>
  The contract of \<^verbatim>\<open>io.Writer\<close>: a successful \<open>Write\<close> accepts all of its argument, a failing one
  a prefix of it. \<open>out\<close> is what the writer has accepted so far.
\<close>

locale sink =
  fixes out :: "'w \<Rightarrow> byte list"
    and W :: "byte list \<Rightarrow> 'w \<Rightarrow> go_error option \<times> 'w"
  assumes accepts: "W b s = (None, s') \<Longrightarrow> out s' = out s @ b"
    and stops: "W b s = (Some e, s') \<Longrightarrow> \<exists>p. prefix p b \<and> out s' = out s @ p"
begin

lemma always_prefix: "W b s = (r, s') \<Longrightarrow> \<exists>p. prefix p b \<and> out s' = out s @ p"
  by (cases r) (auto dest: accepts stops)

end

text \<open>The \<open>writer\<close> interface of the package adds \<^verbatim>\<open>WriteByte\<close>.\<close>

locale byte_sink = sink out W
  for out :: "'w \<Rightarrow> byte list" and W :: "byte list \<Rightarrow> 'w \<Rightarrow> go_error option \<times> 'w" +
  fixes WB :: "byte \<Rightarrow> 'w \<Rightarrow> go_error option \<times> 'w"
  assumes accepts_byte: "WB c s = (None, s') \<Longrightarrow> out s' = out s @ [c]"
    and stops_byte: "WB c s = (Some e, s') \<Longrightarrow> \<exists>p. prefix p [c] \<and> out s' = out s @ p"

text \<open>\<open>appendWriter\<close>: writes append to the slice \<open>b\<close> and never fail.\<close>

definition appendWriter_Write ::
  "(nat \<Rightarrow> nat \<Rightarrow> nat) \<Rightarrow> byte list \<Rightarrow> byte slice \<Rightarrow> go_error option \<times> byte slice" where
  "appendWriter_Write g p s = (None, append_slice g 0 s p)"

definition appendWriter_WriteByte ::
  "(nat \<Rightarrow> nat \<Rightarrow> nat) \<Rightarrow> byte \<Rightarrow> byte slice \<Rightarrow> go_error option \<times> byte slice" where
  "appendWriter_WriteByte g c s = (None, append_slice g 0 s [c])"

interpretation append_sink: byte_sink vis "appendWriter_Write g" "appendWriter_WriteByte g" for g
  by unfold_locales (auto simp: appendWriter_Write_def appendWriter_WriteByte_def)

text \<open>\<open>byteWriter\<close> gives any \<^verbatim>\<open>io.Writer\<close> a \<open>WriteByte\<close> through its one-byte buffer.\<close>

definition byteWriter_WriteByte ::
  "(byte list \<Rightarrow> 'w \<Rightarrow> go_error option \<times> 'w) \<Rightarrow> byte \<Rightarrow> 'w \<Rightarrow> go_error option \<times> 'w" where
  "byteWriter_WriteByte W c s = (let scratch = [c] in W scratch s)"

sublocale sink \<subseteq> adapted: byte_sink out W "byteWriter_WriteByte W"
  by unfold_locales (auto simp: byteWriter_WriteByte_def dest: accepts stops)

context sink
begin

lemma byteWriter_is_byte_sink: "byte_sink out W (byteWriter_WriteByte W)"
  by (rule adapted.byte_sink_axioms)

end

text \<open>
  The value of the \<open>Encoder\<close>'s field \<open>w\<close>: nil, the encoder's own \<open>appendBuf\<close>, a caller's writer
  that has a \<open>WriteByte\<close>, or one wrapped in a \<open>byteWriter\<close>.
\<close>

datatype 'w writer =
    NilWriter
  | AppendWriter
  | DirectWriter "'w io_writer"
  | ByteWriter "'w io_writer"

section \<open>The encoder\<close>

text \<open>
  \<open>e_dict\<close> is the string dictionary (a Go map; nil and empty are the same to every operation),
  \<open>e_plat\<close> the build constants, which no operation writes.
\<close>

record 'w encoder =
  e_w :: "'w writer"
  e_dict :: "(gostring \<times> int) list"
  e_structTag :: gostring
  e_buf :: "byte slice"
  e_timeBuf :: "byte slice option"
  e_appendBuf :: "byte slice"
  e_flags :: u32
  e_plat :: platform

definition ResetWriter :: "'w io_writer option \<Rightarrow> 'w encoder \<Rightarrow> 'w encoder" where
  "ResetWriter w e =
     e\<lparr>e_dict := [],
       e_w := (case w of None \<Rightarrow> NilWriter
               | Some io \<Rightarrow> (case iw_WriteByte io of Some _ \<Rightarrow> DirectWriter io
                             | None \<Rightarrow> ByteWriter io))\<rparr>"

definition ResetDict :: "'w io_writer option \<Rightarrow> (gostring \<times> int) list \<Rightarrow> 'w encoder \<Rightarrow> 'w encoder" where
  "ResetDict w dict e = (ResetWriter w e)\<lparr>e_flags := 0, e_structTag := [], e_dict := dict\<rparr>"

definition Reset :: "'w io_writer option \<Rightarrow> 'w encoder \<Rightarrow> 'w encoder" where
  "Reset w e = ResetDict w [] e"

definition NewEncoder :: "platform \<Rightarrow> 'w io_writer option \<Rightarrow> 'w encoder" where
  "NewEncoder P w =
     Reset w \<lparr>e_w = NilWriter, e_dict = [], e_structTag = [], e_buf = make_slice 0 9 9,
       e_timeBuf = None, e_appendBuf = make_slice 0 0 0, e_flags = 0, e_plat = P\<rparr>"

definition WithDict ::
  "(gostring \<times> int) list \<Rightarrow> ('w encoder, unit) go \<Rightarrow> ('w encoder, unit) go" where
  "WithDict dict fn e =
     (case fn (e\<lparr>e_dict := dict\<rparr>) of (res, e') \<Rightarrow> (res, e'\<lparr>e_dict := e_dict e\<rparr>))"

definition SetSortMapKeys :: "bool \<Rightarrow> 'w encoder \<Rightarrow> 'w encoder" where
  "SetSortMapKeys on = e_flags_update (setFlag sortMapKeysFlag on)"

definition SetCustomStructTag :: "gostring \<Rightarrow> 'w encoder \<Rightarrow> 'w encoder" where
  "SetCustomStructTag tag e = e\<lparr>e_structTag := tag\<rparr>"

definition SetOmitEmpty :: "bool \<Rightarrow> 'w encoder \<Rightarrow> 'w encoder" where
  "SetOmitEmpty on = e_flags_update (setFlag omitEmptyFlag on)"

definition UseArrayEncodedStructs :: "bool \<Rightarrow> 'w encoder \<Rightarrow> 'w encoder" where
  "UseArrayEncodedStructs on = e_flags_update (setFlag arrayEncodedStructsFlag on)"

definition UseCompactInts :: "bool \<Rightarrow> 'w encoder \<Rightarrow> 'w encoder" where
  "UseCompactInts on = e_flags_update (setFlag useCompactIntsFlag on)"

definition UseCompactFloats :: "bool \<Rightarrow> 'w encoder \<Rightarrow> 'w encoder" where
  "UseCompactFloats on = e_flags_update (setFlag useCompactFloatsFlag on)"

definition UseInternedStrings :: "bool \<Rightarrow> 'w encoder \<Rightarrow> 'w encoder" where
  "UseInternedStrings on = e_flags_update (setFlag useInternedStringsFlag on)"

interpretation enc_options: option_word e_flags e_flags_update
  by unfold_locales simp

text \<open>
  \<open>PutEncoder\<close>: the state in which the encoder goes back to the pool; scratch buffers above
  \<open>maxPooledBufSize\<close> (one megabyte, \<open>bytesAllocLimit\<close>) are dropped.
\<close>

definition maxPooledBufSize :: nat where
  "maxPooledBufSize = 1048576"

definition PutEncoder :: "'w encoder \<Rightarrow> 'w encoder" where
  "PutEncoder e =
     (let e1 = e\<lparr>e_w := NilWriter\<rparr>;
          e2 = (if cap (e_buf e1) > maxPooledBufSize then e1\<lparr>e_buf := make_slice 0 9 9\<rparr> else e1)
      in if cap (e_appendBuf e2) > maxPooledBufSize then e2\<lparr>e_appendBuf := make_slice 0 0 0\<rparr> else e2)"

section \<open>Primitive writes\<close>

definition werr :: "go_error option \<Rightarrow> go_error + unit" where
  "werr r = (case r of None \<Rightarrow> Inr () | Some e \<Rightarrow> Inl e)"

definition nil_panic :: go_error where
  "nil_panic = Panic ''nil pointer dereference''"

text \<open>\<^verbatim>\<open>e.w.Write(b)\<close>\<close>

definition enc_write :: "byte list \<Rightarrow> ('w encoder, unit) go" where
  "enc_write b e =
     (case e_w e of
        NilWriter \<Rightarrow> (Inl nil_panic, e)
      | AppendWriter \<Rightarrow>
          (case appendWriter_Write (p_grow (e_plat e)) b (e_appendBuf e) of
             (r, s) \<Rightarrow> (werr r, e\<lparr>e_appendBuf := s\<rparr>))
      | DirectWriter io \<Rightarrow>
          (case iw_Write io b (iw_state io) of
             (r, s) \<Rightarrow> (werr r, e\<lparr>e_w := DirectWriter (io\<lparr>iw_state := s\<rparr>)\<rparr>))
      | ByteWriter io \<Rightarrow>
          (case iw_Write io b (iw_state io) of
             (r, s) \<Rightarrow> (werr r, e\<lparr>e_w := ByteWriter (io\<lparr>iw_state := s\<rparr>)\<rparr>)))"

text \<open>\<^verbatim>\<open>e.w.WriteByte(c)\<close>\<close>

definition writeCode :: "byte \<Rightarrow> ('w encoder, unit) go" where
  "writeCode c e =
     (case e_w e of
        NilWriter \<Rightarrow> (Inl nil_panic, e)
      | AppendWriter \<Rightarrow>
          (case appendWriter_WriteByte (p_grow (e_plat e)) c (e_appendBuf e) of
             (r, s) \<Rightarrow> (werr r, e\<lparr>e_appendBuf := s\<rparr>))
      | DirectWriter io \<Rightarrow>
          (case iw_WriteByte io of
             None \<Rightarrow> (Inl nil_panic, e)
           | Some wb \<Rightarrow>
               (case wb c (iw_state io) of
                  (r, s) \<Rightarrow> (werr r, e\<lparr>e_w := DirectWriter (io\<lparr>iw_state := s\<rparr>)\<rparr>)))
      | ByteWriter io \<Rightarrow>
          (case byteWriter_WriteByte (iw_Write io) c (iw_state io) of
             (r, s) \<Rightarrow> (werr r, e\<lparr>e_w := ByteWriter (io\<lparr>iw_state := s\<rparr>)\<rparr>)))"

text \<open>\<open>writeString\<close> hands the string's bytes to the writer.\<close>

definition writeString :: "gostring \<Rightarrow> ('w encoder, unit) go" where
  "writeString s = enc_write s"

definition EncodeNil :: "('w encoder, unit) go" where
  "EncodeNil = writeCode Nil_c"

definition EncodeBool :: "bool \<Rightarrow> ('w encoder, unit) go" where
  "EncodeBool v = (if v then writeCode True_c else writeCode False_c)"

text \<open>
  The first half of \<open>write1\<close> to \<open>write8\<close>: \<^verbatim>\<open>e.buf = e.buf[:k]\<close>, which panics when the scratch
  buffer is too small, and the \<open>k\<close> stores.
\<close>

definition stage :: "byte list \<Rightarrow> ('w encoder, unit) go" where
  "stage bs e =
     (case reslice (e_buf e) (length bs) of
        None \<Rightarrow> (Inl (Panic ''slice bounds out of range''), e)
      | Some b \<Rightarrow> (Inr (), e\<lparr>e_buf := store_at b 0 bs\<rparr>))"

definition writeBuf :: "('w encoder, unit) go" where
  "writeBuf = bindE (getS (\<lambda>e. vis (e_buf e))) enc_write"

definition write1 :: "byte \<Rightarrow> byte \<Rightarrow> ('w encoder, unit) go" where
  "write1 code n = bindE (stage [code, n]) (\<lambda>_. writeBuf)"

definition write2 :: "byte \<Rightarrow> u16 \<Rightarrow> ('w encoder, unit) go" where
  "write2 code n = bindE (stage (code # lanes16 n)) (\<lambda>_. writeBuf)"

definition write4 :: "byte \<Rightarrow> u32 \<Rightarrow> ('w encoder, unit) go" where
  "write4 code n = bindE (stage (code # lanes32 n)) (\<lambda>_. writeBuf)"

definition write8 :: "byte \<Rightarrow> u64 \<Rightarrow> ('w encoder, unit) go" where
  "write8 code n = bindE (stage (code # lanes64 n)) (\<lambda>_. writeBuf)"

section \<open>What an encoding method writes\<close>

type_synonym econf = "u32 \<times> (gostring \<times> int) list \<times> platform \<times> gostring"

definition conf :: "'w encoder \<Rightarrow> econf" where
  "conf e = (e_flags e, e_dict e, e_plat e, e_structTag e)"

definition written :: "('w \<Rightarrow> byte list) \<Rightarrow> 'w encoder \<Rightarrow> byte list" where
  "written out e =
     (case e_w e of NilWriter \<Rightarrow> [] | AppendWriter \<Rightarrow> vis (e_appendBuf e)
      | DirectWriter io \<Rightarrow> out (iw_state io) | ByteWriter io \<Rightarrow> out (iw_state io))"

definition writer_ok :: "('w \<Rightarrow> byte list) \<Rightarrow> 'w writer \<Rightarrow> bool" where
  "writer_ok out w \<longleftrightarrow>
     (case w of NilWriter \<Rightarrow> False | AppendWriter \<Rightarrow> True
      | DirectWriter io \<Rightarrow>
          (case iw_WriteByte io of None \<Rightarrow> False | Some wb \<Rightarrow> byte_sink out (iw_Write io) wb)
      | ByteWriter io \<Rightarrow> sink out (iw_Write io))"

text \<open>
  The encoder's invariant: the scratch buffers are well formed, the staging buffer holds at least
  the nine bytes \<open>write8\<close> slices it to, the time buffer (when allocated) twelve.
\<close>

definition enc_inv :: "'w encoder \<Rightarrow> bool" where
  "enc_inv e \<longleftrightarrow>
     9 \<le> cap (e_buf e) \<and> (case e_timeBuf e of None \<Rightarrow> True | Some b \<Rightarrow> cap b = 12)"

definition enc_ok :: "('w \<Rightarrow> byte list) \<Rightarrow> 'w encoder \<Rightarrow> bool" where
  "enc_ok out e \<longleftrightarrow> enc_inv e \<and> writer_ok out (e_w e)"

definition emitted ::
  "('w \<Rightarrow> byte list) \<Rightarrow> 'w encoder \<Rightarrow> byte list \<Rightarrow> econf \<Rightarrow> (go_error + 'a) \<times> 'w encoder \<Rightarrow> bool" where
  "emitted out e bs k' res \<longleftrightarrow>
     (case res of (r, e') \<Rightarrow>
        enc_ok out e' \<and> (e_w e' = AppendWriter \<longleftrightarrow> e_w e = AppendWriter) \<and>
        (case r of
           Inr _ \<Rightarrow> conf e' = k' \<and> written out e' = written out e @ bs
         | Inl _ \<Rightarrow> e_w e \<noteq> AppendWriter \<and> (\<exists>p. prefix p bs \<and> written out e' = written out e @ p)))"

definition emits ::
  "('w \<Rightarrow> byte list) \<Rightarrow> econf \<Rightarrow> ('w encoder, 'a) go \<Rightarrow> byte list \<Rightarrow> econf \<Rightarrow> bool" where
  "emits out k m bs k' \<longleftrightarrow> (\<forall>e. enc_ok out e \<longrightarrow> conf e = k \<longrightarrow> emitted out e bs k' (m e))"

named_theorems emits_intros \<open>what each encoding method writes\<close>

lemma emitted_Inr [simp]:
  "emitted out e bs k' (Inr x, e') \<longleftrightarrow> enc_ok out e' \<and>
     (e_w e' = AppendWriter \<longleftrightarrow> e_w e = AppendWriter) \<and> conf e' = k' \<and>
     written out e' = written out e @ bs"
  by (simp add: emitted_def)

lemma emitted_Inl [simp]:
  "emitted out e bs k' (Inl er, e') \<longleftrightarrow> enc_ok out e' \<and>
     (e_w e' = AppendWriter \<longleftrightarrow> e_w e = AppendWriter) \<and> e_w e \<noteq> AppendWriter \<and>
     (\<exists>p. prefix p bs \<and> written out e' = written out e @ p)"
  by (simp add: emitted_def)

lemma emitsI: "(\<And>e. enc_ok out e \<Longrightarrow> conf e = k \<Longrightarrow> emitted out e bs k' (m e)) \<Longrightarrow> emits out k m bs k'"
  by (simp add: emits_def)

lemma emitsD: "emits out k m bs k' \<Longrightarrow> enc_ok out e \<Longrightarrow> conf e = k \<Longrightarrow> emitted out e bs k' (m e)"
  by (simp add: emits_def)

lemma emits_ret [emits_intros]: "emits out k (ret x) [] k"
  by (rule emitsI) simp

lemma emits_bind:
  assumes m: "emits out k m a k1" and f: "\<And>x. emits out k1 (f x) b k2"
  shows "emits out k (bindE m f) (a @ b) k2"
proof (rule emitsI)
  fix e
  assume e: "enc_ok out e" "conf e = k"
  obtain r e1 where m1: "m e = (r, e1)" by fastforce
  have 1: "emitted out e a k1 (r, e1)" using emitsD [OF m e] by (simp add: m1)
  show "emitted out e (a @ b) k2 (bindE m f e)"
  proof (cases r)
    case (Inl er)
    with 1 m1 show ?thesis by (auto simp: bindE_def intro: prefix_prefix)
  next
    case (Inr x)
    obtain r2 e2 where f1: "f x e1 = (r2, e2)" by fastforce
    have e1: "enc_ok out e1" "conf e1 = k1" using 1 Inr by simp_all
    have 2: "emitted out e1 b k2 (r2, e2)" using emitsD [OF f e1, of x] by (simp add: f1)
    have "bindE m f e = (r2, e2)" using m1 Inr f1 by (simp add: bindE_def)
    with 1 2 Inr show ?thesis
      by (cases r2) (auto intro: exI [where x = "a @ p" for p])
  qed
qed

lemma emits_bind_eq:
  "emits out k m a k1 \<Longrightarrow> (\<And>x. emits out k1 (f x) b k2) \<Longrightarrow> c = a @ b \<Longrightarrow>
     emits out k (bindE m f) c k2"
  using emits_bind by blast

text \<open>Reading an option, the dictionary or the build does not write.\<close>

lemma emits_getS:
  assumes "\<And>e. conf e = k \<Longrightarrow> g e = x" and "emits out k (f x) bs k'"
  shows "emits out k (bindE (getS g) f) bs k'"
  using assms by (simp add: emits_def bindE_getS)

text \<open>Scratch buffers are not part of what is written.\<close>

lemma emitted_cong:
  "e_w e = e_w e1 \<Longrightarrow> written out e = written out e1 \<Longrightarrow>
     emitted out e bs k res = emitted out e1 bs k res"
  by (auto simp: emitted_def split: prod.splits sum.splits)

lemma sink_step:
  assumes "sink out W" and "W b s = (r, s')"
  shows "\<exists>p. prefix p b \<and> (r = None \<longrightarrow> p = b) \<and> out s' = out s @ p"
  using assms by (cases r) (auto dest: sink.accepts sink.stops)

lemma byte_sink_step:
  assumes "byte_sink out W WB" and "WB c s = (r, s')"
  shows "\<exists>p. prefix p [c] \<and> (r = None \<longrightarrow> p = [c]) \<and> out s' = out s @ p"
  using assms by (cases r) (auto dest: byte_sink.accepts_byte byte_sink.stops_byte)

text \<open>One call of the writer, whichever writer it is.\<close>

lemma emitted_call:
  assumes e: "enc_ok out e" and w: "e_w e \<noteq> AppendWriter" "w' \<noteq> AppendWriter" "writer_ok out w'"
    and p: "\<exists>p. prefix p b \<and> (r = None \<longrightarrow> p = b) \<and> written out (e\<lparr>e_w := w'\<rparr>) = written out e @ p"
  shows "emitted out e b (conf e) (werr r, e\<lparr>e_w := w'\<rparr>)"
  using assms by (cases r) (auto simp: werr_def enc_ok_def enc_inv_def conf_def)

lemma emitted_append:
  assumes "enc_ok out e" and "e_w e = AppendWriter"
  shows "emitted out e b (conf e) (Inr (), e\<lparr>e_appendBuf := append_slice g 0 (e_appendBuf e) b\<rparr>)"
  using assms by (simp add: enc_ok_def enc_inv_def conf_def written_def)

lemma enc_write_emitted:
  assumes e: "enc_ok out e"
  shows "emitted out e b (conf e) (enc_write b e)"
proof (cases "e_w e")
  case NilWriter
  with e show ?thesis by (simp add: enc_ok_def writer_ok_def)
next
  case AppendWriter
  with e show ?thesis
    by (simp add: enc_write_def appendWriter_Write_def werr_def emitted_append del: emitted_Inr)
next
  case (DirectWriter io)
  obtain r s' where W: "iw_Write io b (iw_state io) = (r, s')" by fastforce
  have law: "sink out (iw_Write io)"
    using e DirectWriter by (auto simp: enc_ok_def writer_ok_def byte_sink_def split: option.splits)
  have "enc_write b e = (werr r, e\<lparr>e_w := DirectWriter (io\<lparr>iw_state := s'\<rparr>)\<rparr>)"
    using DirectWriter W by (simp add: enc_write_def)
  with e DirectWriter sink_step [OF law W] show ?thesis
    by (auto intro!: emitted_call simp: enc_ok_def writer_ok_def written_def split: option.splits)
next
  case (ByteWriter io)
  obtain r s' where W: "iw_Write io b (iw_state io) = (r, s')" by fastforce
  have law: "sink out (iw_Write io)"
    using e ByteWriter by (auto simp: enc_ok_def writer_ok_def)
  have "enc_write b e = (werr r, e\<lparr>e_w := ByteWriter (io\<lparr>iw_state := s'\<rparr>)\<rparr>)"
    using ByteWriter W by (simp add: enc_write_def)
  with e ByteWriter sink_step [OF law W] show ?thesis
    by (auto intro!: emitted_call simp: enc_ok_def writer_ok_def written_def)
qed

lemma writeCode_emitted:
  assumes e: "enc_ok out e"
  shows "emitted out e [c] (conf e) (writeCode c e)"
proof (cases "e_w e")
  case NilWriter
  with e show ?thesis by (simp add: enc_ok_def writer_ok_def)
next
  case AppendWriter
  with e show ?thesis
    by (simp add: writeCode_def appendWriter_WriteByte_def werr_def emitted_append del: emitted_Inr)
next
  case (DirectWriter io)
  then obtain wb where wb: "iw_WriteByte io = Some wb" and law: "byte_sink out (iw_Write io) wb"
    using e by (auto simp: enc_ok_def writer_ok_def split: option.splits)
  obtain r s' where W: "wb c (iw_state io) = (r, s')" by fastforce
  have "writeCode c e = (werr r, e\<lparr>e_w := DirectWriter (io\<lparr>iw_state := s'\<rparr>)\<rparr>)"
    using DirectWriter W wb by (simp add: writeCode_def)
  with e DirectWriter wb byte_sink_step [OF law W] show ?thesis
    by (auto intro!: emitted_call simp: enc_ok_def writer_ok_def written_def)
next
  case (ByteWriter io)
  obtain r s' where W: "byteWriter_WriteByte (iw_Write io) c (iw_state io) = (r, s')" by fastforce
  have "sink out (iw_Write io)"
    using e ByteWriter by (auto simp: enc_ok_def writer_ok_def)
  then have law: "byte_sink out (iw_Write io) (byteWriter_WriteByte (iw_Write io))"
    by (rule sink.byteWriter_is_byte_sink)
  have "writeCode c e = (werr r, e\<lparr>e_w := ByteWriter (io\<lparr>iw_state := s'\<rparr>)\<rparr>)"
    using ByteWriter W by (simp add: writeCode_def)
  with e ByteWriter byte_sink_step [OF law W] show ?thesis
    by (auto intro!: emitted_call simp: enc_ok_def writer_ok_def written_def)
qed

lemma emits_enc_write [emits_intros]: "emits out k (enc_write b) b k"
  by (rule emitsI) (use enc_write_emitted in blast)

lemma emits_writeCode [emits_intros]: "emits out k (writeCode c) [c] k"
  by (rule emitsI) (use writeCode_emitted in blast)

lemma emits_writeString [emits_intros]: "emits out k (writeString s) s k"
  unfolding writeString_def by (rule emits_enc_write)

lemma emits_EncodeNil [emits_intros]: "emits out k EncodeNil [Nil_c] k"
  unfolding EncodeNil_def by (rule emits_writeCode)

lemma emits_EncodeBool [emits_intros]:
  "emits out k (EncodeBool v) [if v then True_c else False_c] k"
  unfolding EncodeBool_def by (simp add: emits_writeCode)

text \<open>Staging at most nine bytes succeeds and the staged bytes are what is written.\<close>

lemma emits_staged:
  assumes "length bs \<le> 9"
  shows "emits out k (bindE (stage bs) (\<lambda>_. writeBuf)) bs k"
proof (rule emitsI)
  fix e
  assume e: "enc_ok out e" "conf e = k"
  let ?b = "store_at ((e_buf e)\<lparr>sl_len := length bs\<rparr>) 0 bs"
  let ?e = "e\<lparr>e_buf := ?b\<rparr>"
  have c: "length bs \<le> cap (e_buf e)"
    using e assms by (simp add: enc_ok_def enc_inv_def)
  have run: "bindE (stage bs) (\<lambda>_. writeBuf) e = enc_write bs ?e"
    using c by (simp add: bindE_def stage_def reslice_def writeBuf_def vis_store_at)
  have "enc_ok out ?e" using e c by (simp add: enc_ok_def enc_inv_def)
  then have "emitted out ?e bs (conf ?e) (enc_write bs ?e)" by (rule enc_write_emitted)
  moreover have "conf ?e = k" using e(2) by (simp add: conf_def)
  ultimately show "emitted out e bs k (bindE (stage bs) (\<lambda>_. writeBuf) e)"
    unfolding run by (subst emitted_cong [of e ?e]) (simp_all add: written_def split: writer.split)
qed

lemma emits_write1 [emits_intros]: "emits out k (write1 c n) [c, n] k"
  unfolding write1_def by (rule emits_staged) simp

lemma emits_write2 [emits_intros]: "emits out k (write2 c n) (c # lanes16 n) k"
  unfolding write2_def by (rule emits_staged) simp

lemma emits_write4 [emits_intros]: "emits out k (write4 c n) (c # lanes32 n) k"
  unfolding write4_def by (rule emits_staged) simp

lemma emits_write8 [emits_intros]: "emits out k (write8 c n) (c # lanes64 n) k"
  unfolding write8_def by (rule emits_staged) simp

section \<open>Loops\<close>

lemma emits_forE:
  assumes "\<And>x. x \<in> set xs \<Longrightarrow> emits out k (f x) (g x) k"
  shows "emits out k (forE f xs) (concat (map g xs)) k"
  using assms by (induction xs) (auto intro!: emits_ret emits_bind)

end
