(* ===== verification/Encode_Number.thy ===== *)
theory Encode_Number
  imports Encoder
begin

text \<open>
  \<^verbatim>\<open>pkg/msgpack/encode_number.go\<close>: integers and floats. For each encoding method the bytes it
  writes are given as a function of the number (\<open>uint_wire\<close>, \<open>int_wire\<close>, \<open>f32_wire\<close>,
  \<open>f64_wire\<close>) and the method is shown to emit exactly those.
\<close>

unbundle bit_operations_syntax

section \<open>Operations\<close>

definition enc_flag :: "u32 \<Rightarrow> ('w encoder, bool) go" where
  "enc_flag f = getS (\<lambda>e. hasFlag (e_flags e) f)"

text \<open>\<^verbatim>\<open>negFixedNumLow = int8(negFixedNumLowByte)\<close>, the byte \<open>0xe0\<close> read as signed.\<close>

definition negFixedNumLow :: int where
  "negFixedNumLow = sint NegFixedNumLow_c"

definition EncodeUint8 :: "byte \<Rightarrow> ('w encoder, unit) go" where
  "EncodeUint8 n = write1 Uint8_c n"

definition EncodeUint16 :: "u16 \<Rightarrow> ('w encoder, unit) go" where
  "EncodeUint16 n = write2 Uint16_c n"

definition EncodeUint32 :: "u32 \<Rightarrow> ('w encoder, unit) go" where
  "EncodeUint32 n = write4 Uint32_c n"

definition EncodeUint64 :: "u64 \<Rightarrow> ('w encoder, unit) go" where
  "EncodeUint64 n = write8 Uint64_c n"

definition EncodeInt8 :: "byte \<Rightarrow> ('w encoder, unit) go" where
  "EncodeInt8 n = write1 Int8_c n"

definition EncodeInt16 :: "u16 \<Rightarrow> ('w encoder, unit) go" where
  "EncodeInt16 n = write2 Int16_c n"

definition EncodeInt32 :: "u32 \<Rightarrow> ('w encoder, unit) go" where
  "EncodeInt32 n = write4 Int32_c n"

definition EncodeInt64 :: "u64 \<Rightarrow> ('w encoder, unit) go" where
  "EncodeInt64 n = write8 Int64_c n"

definition EncodeUint :: "u64 \<Rightarrow> ('w encoder, unit) go" where
  "EncodeUint n =
     (if unat n \<le> 127 then writeCode (ucast n)
      else if unat n \<le> 255 then EncodeUint8 (ucast n)
      else if unat n \<le> 65535 then EncodeUint16 (ucast n)
      else if unat n \<le> 4294967295 then EncodeUint32 (ucast n)
      else EncodeUint64 n)"

definition EncodeInt :: "u64 \<Rightarrow> ('w encoder, unit) go" where
  "EncodeInt n =
     (if sint n \<ge> 0 then EncodeUint n
      else if sint n \<ge> negFixedNumLow then writeCode (ucast n)
      else if sint n \<ge> - 128 then EncodeInt8 (ucast n)
      else if sint n \<ge> - 32768 then EncodeInt16 (ucast n)
      else if sint n \<ge> - 2147483648 then EncodeInt32 (ucast n)
      else EncodeInt64 n)"

definition encodeUint8Cond :: "byte \<Rightarrow> ('w encoder, unit) go" where
  "encodeUint8Cond n =
     bindE (enc_flag useCompactIntsFlag) (\<lambda>c. if c then EncodeUint (ucast n) else EncodeUint8 n)"

definition encodeUint16Cond :: "u16 \<Rightarrow> ('w encoder, unit) go" where
  "encodeUint16Cond n =
     bindE (enc_flag useCompactIntsFlag) (\<lambda>c. if c then EncodeUint (ucast n) else EncodeUint16 n)"

definition encodeUint32Cond :: "u32 \<Rightarrow> ('w encoder, unit) go" where
  "encodeUint32Cond n =
     bindE (enc_flag useCompactIntsFlag) (\<lambda>c. if c then EncodeUint (ucast n) else EncodeUint32 n)"

definition encodeUint64Cond :: "u64 \<Rightarrow> ('w encoder, unit) go" where
  "encodeUint64Cond n =
     bindE (enc_flag useCompactIntsFlag) (\<lambda>c. if c then EncodeUint n else EncodeUint64 n)"

definition encodeInt8Cond :: "byte \<Rightarrow> ('w encoder, unit) go" where
  "encodeInt8Cond n =
     bindE (enc_flag useCompactIntsFlag) (\<lambda>c. if c then EncodeInt (scast n) else EncodeInt8 n)"

definition encodeInt16Cond :: "u16 \<Rightarrow> ('w encoder, unit) go" where
  "encodeInt16Cond n =
     bindE (enc_flag useCompactIntsFlag) (\<lambda>c. if c then EncodeInt (scast n) else EncodeInt16 n)"

definition encodeInt32Cond :: "u32 \<Rightarrow> ('w encoder, unit) go" where
  "encodeInt32Cond n =
     bindE (enc_flag useCompactIntsFlag) (\<lambda>c. if c then EncodeInt (scast n) else EncodeInt32 n)"

definition encodeInt64Cond :: "u64 \<Rightarrow> ('w encoder, unit) go" where
  "encodeInt64Cond n =
     bindE (enc_flag useCompactIntsFlag) (\<lambda>c. if c then EncodeInt n else EncodeInt64 n)"

text \<open>\<open>EncodeDuration\<close> (encode.go) ignores the compact option.\<close>

definition EncodeDuration :: "u64 \<Rightarrow> ('w encoder, unit) go" where
  "EncodeDuration d = EncodeInt d"

text \<open>The test \<^verbatim>\<open>float32(int64(n)) == n\<close>, \<^verbatim>\<open>float64(int64(n)) == n\<close> of the compact option.\<close>

definition f32_compacts :: "platform \<Rightarrow> u32 \<Rightarrow> bool" where
  "f32_compacts P n \<longleftrightarrow> f32_eq (f32_of_int (sint (f64_to_i64 P (f64_of_f32 n)))) n"

definition f64_compacts :: "platform \<Rightarrow> u64 \<Rightarrow> bool" where
  "f64_compacts P n \<longleftrightarrow> f64_eq (f64_of_int (sint (f64_to_i64 P n))) n"

definition EncodeFloat32 :: "u32 \<Rightarrow> ('w encoder, unit) go" where
  "EncodeFloat32 n =
     bindE (enc_flag useCompactFloatsFlag) (\<lambda>c. bindE (getS e_plat) (\<lambda>P.
       if c \<and> f32_compacts P n then EncodeInt (f64_to_i64 P (f64_of_f32 n))
       else write4 Float_c n))"

definition EncodeFloat64 :: "u64 \<Rightarrow> ('w encoder, unit) go" where
  "EncodeFloat64 n =
     bindE (enc_flag useCompactFloatsFlag) (\<lambda>c. bindE (getS e_plat) (\<lambda>P.
       if c \<and> f64_compacts P n then EncodeInt (f64_to_i64 P n)
       else write8 Double_c n))"

section \<open>The bytes written\<close>

definition uint_wire :: "u64 \<Rightarrow> byte list" where
  "uint_wire n =
     (if unat n \<le> 127 then [ucast n]
      else if unat n \<le> 255 then [Uint8_c, ucast n]
      else if unat n \<le> 65535 then Uint16_c # lanes16 (ucast n)
      else if unat n \<le> 4294967295 then Uint32_c # lanes32 (ucast n)
      else Uint64_c # lanes64 n)"

definition int_wire :: "u64 \<Rightarrow> byte list" where
  "int_wire n =
     (if sint n \<ge> 0 then uint_wire n
      else if sint n \<ge> - 32 then [ucast n]
      else if sint n \<ge> - 128 then [Int8_c, ucast n]
      else if sint n \<ge> - 32768 then Int16_c # lanes16 (ucast n)
      else if sint n \<ge> - 2147483648 then Int32_c # lanes32 (ucast n)
      else Int64_c # lanes64 n)"

definition f32_wire :: "u32 \<Rightarrow> platform \<Rightarrow> u32 \<Rightarrow> byte list" where
  "f32_wire fl P n =
     (if hasFlag fl useCompactFloatsFlag \<and> f32_compacts P n
      then int_wire (f64_to_i64 P (f64_of_f32 n)) else Float_c # lanes32 n)"

definition f64_wire :: "u32 \<Rightarrow> platform \<Rightarrow> u64 \<Rightarrow> byte list" where
  "f64_wire fl P n =
     (if hasFlag fl useCompactFloatsFlag \<and> f64_compacts P n
      then int_wire (f64_to_i64 P n) else Double_c # lanes64 n)"

lemma negFixedNumLow_value [simp]: "negFixedNumLow = - 32"
  by (simp add: negFixedNumLow_def NegFixedNumLow_c_def)

lemma emits_flag:
  "emits out k (f (hasFlag (fst k) fl)) bs k' \<Longrightarrow> emits out k (bindE (enc_flag fl) f) bs k'"
  unfolding enc_flag_def by (rule emits_getS) (auto simp: conf_def)

lemma emits_plat:
  "emits out k (f (fst (snd (snd k)))) bs k' \<Longrightarrow> emits out k (bindE (getS e_plat) f) bs k'"
  by (rule emits_getS) (auto simp: conf_def)

lemma emits_sized_ints [emits_intros]:
  "emits out k (EncodeUint8 b) [Uint8_c, b] k" "emits out k (EncodeInt8 b) [Int8_c, b] k"
  "emits out k (EncodeUint16 h) (Uint16_c # lanes16 h) k"
  "emits out k (EncodeInt16 h) (Int16_c # lanes16 h) k"
  "emits out k (EncodeUint32 w) (Uint32_c # lanes32 w) k"
  "emits out k (EncodeInt32 w) (Int32_c # lanes32 w) k"
  "emits out k (EncodeUint64 q) (Uint64_c # lanes64 q) k"
  "emits out k (EncodeInt64 q) (Int64_c # lanes64 q) k"
  unfolding EncodeUint8_def EncodeInt8_def EncodeUint16_def EncodeInt16_def EncodeUint32_def
    EncodeInt32_def EncodeUint64_def EncodeInt64_def
  by (rule emits_write1 emits_write2 emits_write4 emits_write8)+

lemma emits_EncodeUint [emits_intros]: "emits out k (EncodeUint n) (uint_wire n) k"
  by (simp add: EncodeUint_def uint_wire_def emits_intros)

lemma emits_EncodeInt [emits_intros]: "emits out k (EncodeInt n) (int_wire n) k"
  by (simp add: EncodeInt_def int_wire_def emits_intros)

lemma emits_EncodeFloat32 [emits_intros]:
  "emits out (fl, d, P, t) (EncodeFloat32 n) (f32_wire fl P n) (fl, d, P, t)"
  unfolding EncodeFloat32_def
  by (intro emits_flag emits_plat) (simp add: f32_wire_def emits_intros)

lemma emits_EncodeFloat64 [emits_intros]:
  "emits out (fl, d, P, t) (EncodeFloat64 n) (f64_wire fl P n) (fl, d, P, t)"
  unfolding EncodeFloat64_def
  by (intro emits_flag emits_plat) (simp add: f64_wire_def emits_intros)

text \<open>The sized encoders under the compact option and without it.\<close>

definition compact :: "u32 \<Rightarrow> bool" where
  "compact fl \<longleftrightarrow> hasFlag fl useCompactIntsFlag"

lemma emits_Cond [emits_intros]:
  "emits out (fl, r) (encodeUint8Cond b) (if compact fl then uint_wire (ucast b) else [Uint8_c, b]) (fl, r)"
  "emits out (fl, r) (encodeUint16Cond h)
     (if compact fl then uint_wire (ucast h) else Uint16_c # lanes16 h) (fl, r)"
  "emits out (fl, r) (encodeUint32Cond w)
     (if compact fl then uint_wire (ucast w) else Uint32_c # lanes32 w) (fl, r)"
  "emits out (fl, r) (encodeUint64Cond q)
     (if compact fl then uint_wire q else Uint64_c # lanes64 q) (fl, r)"
  "emits out (fl, r) (encodeInt8Cond b) (if compact fl then int_wire (scast b) else [Int8_c, b]) (fl, r)"
  "emits out (fl, r) (encodeInt16Cond h)
     (if compact fl then int_wire (scast h) else Int16_c # lanes16 h) (fl, r)"
  "emits out (fl, r) (encodeInt32Cond w)
     (if compact fl then int_wire (scast w) else Int32_c # lanes32 w) (fl, r)"
  "emits out (fl, r) (encodeInt64Cond q)
     (if compact fl then int_wire q else Int64_c # lanes64 q) (fl, r)"
  unfolding encodeUint8Cond_def encodeUint16Cond_def encodeUint32Cond_def encodeUint64Cond_def
    encodeInt8Cond_def encodeInt16Cond_def encodeInt32Cond_def encodeInt64Cond_def compact_def
  by (intro emits_flag; simp add: emits_intros)+

end
