(* ===== verification/Encode_Slice.thy ===== *)
theory Encode_Slice
  imports Encode_Number
begin

text \<open>
  \<^verbatim>\<open>pkg/msgpack/encode_slice.go\<close>, the string interning of \<^verbatim>\<open>intern.go\<close> (encoder side),
  \<open>EncodeMapLen\<close> of \<^verbatim>\<open>encode_map.go\<close>, and the extension and time encoders of \<^verbatim>\<open>ext.go\<close> and
  \<^verbatim>\<open>time.go\<close>. Lengths are Go \<^verbatim>\<open>int\<close>s; the conversions \<^verbatim>\<open>uint8(l)\<close>, \<^verbatim>\<open>uint16(l)\<close>, \<^verbatim>\<open>uint32(l)\<close>
  keep the low bits.
\<close>

unbundle bit_operations_syntax

section \<open>Length headers\<close>

definition EncodeBytesLen :: "int \<Rightarrow> ('w encoder, unit) go" where
  "EncodeBytesLen l =
     (if l < 256 then write1 Bin8_c (word_of_int l)
      else if l \<le> 65535 then write2 Bin16_c (word_of_int l)
      else write4 Bin32_c (word_of_int l))"

definition encodeStringLen :: "int \<Rightarrow> ('w encoder, unit) go" where
  "encodeStringLen l =
     (if l < 32 then writeCode (FixedStrLow_c OR word_of_int l)
      else if l < 256 then write1 Str8_c (word_of_int l)
      else if l \<le> 65535 then write2 Str16_c (word_of_int l)
      else write4 Str32_c (word_of_int l))"

definition EncodeArrayLen :: "int \<Rightarrow> ('w encoder, unit) go" where
  "EncodeArrayLen l =
     (if l < 16 then writeCode (FixedArrayLow_c OR word_of_int l)
      else if l \<le> 65535 then write2 Array16_c (word_of_int l)
      else write4 Array32_c (word_of_int l))"

definition EncodeMapLen :: "int \<Rightarrow> ('w encoder, unit) go" where
  "EncodeMapLen l =
     (if l < 16 then writeCode (FixedMapLow_c OR word_of_int l)
      else if l \<le> 65535 then write2 Map16_c (word_of_int l)
      else write4 Map32_c (word_of_int l))"

definition encodeExtLen :: "int \<Rightarrow> ('w encoder, unit) go" where
  "encodeExtLen l =
     (if l = 1 then writeCode FixExt1_c
      else if l = 2 then writeCode FixExt2_c
      else if l = 4 then writeCode FixExt4_c
      else if l = 8 then writeCode FixExt8_c
      else if l = 16 then writeCode FixExt16_c
      else if l \<le> 255 then write1 Ext8_c (word_of_int l)
      else if l \<le> 65535 then write2 Ext16_c (word_of_int l)
      else write4 Ext32_c (word_of_int l))"

definition EncodeExtHeader :: "byte \<Rightarrow> int \<Rightarrow> ('w encoder, unit) go" where
  "EncodeExtHeader extID extLen = bindE (encodeExtLen extLen) (\<lambda>_. writeCode extID)"

text \<open>The bytes of each header.\<close>

definition bin_hdr :: "int \<Rightarrow> byte list" where
  "bin_hdr l =
     (if l < 256 then [Bin8_c, word_of_int l]
      else if l \<le> 65535 then Bin16_c # lanes16 (word_of_int l)
      else Bin32_c # lanes32 (word_of_int l))"

definition str_hdr :: "int \<Rightarrow> byte list" where
  "str_hdr l =
     (if l < 32 then [FixedStrLow_c OR word_of_int l]
      else if l < 256 then [Str8_c, word_of_int l]
      else if l \<le> 65535 then Str16_c # lanes16 (word_of_int l)
      else Str32_c # lanes32 (word_of_int l))"

definition arr_hdr :: "int \<Rightarrow> byte list" where
  "arr_hdr l =
     (if l < 16 then [FixedArrayLow_c OR word_of_int l]
      else if l \<le> 65535 then Array16_c # lanes16 (word_of_int l)
      else Array32_c # lanes32 (word_of_int l))"

definition map_hdr :: "int \<Rightarrow> byte list" where
  "map_hdr l =
     (if l < 16 then [FixedMapLow_c OR word_of_int l]
      else if l \<le> 65535 then Map16_c # lanes16 (word_of_int l)
      else Map32_c # lanes32 (word_of_int l))"

definition ext_len_hdr :: "int \<Rightarrow> byte list" where
  "ext_len_hdr l =
     (if l = 1 then [FixExt1_c] else if l = 2 then [FixExt2_c] else if l = 4 then [FixExt4_c]
      else if l = 8 then [FixExt8_c] else if l = 16 then [FixExt16_c]
      else if l \<le> 255 then [Ext8_c, word_of_int l]
      else if l \<le> 65535 then Ext16_c # lanes16 (word_of_int l)
      else Ext32_c # lanes32 (word_of_int l))"

lemma emits_headers [emits_intros]:
  "emits out k (EncodeBytesLen l) (bin_hdr l) k" "emits out k (encodeStringLen l) (str_hdr l) k"
  "emits out k (EncodeArrayLen l) (arr_hdr l) k" "emits out k (EncodeMapLen l) (map_hdr l) k"
  "emits out k (encodeExtLen l) (ext_len_hdr l) k"
  by (simp_all add: EncodeBytesLen_def bin_hdr_def encodeStringLen_def str_hdr_def EncodeArrayLen_def
      arr_hdr_def EncodeMapLen_def map_hdr_def encodeExtLen_def ext_len_hdr_def emits_intros)

lemma emits_EncodeExtHeader [emits_intros]:
  "emits out k (EncodeExtHeader i l) (ext_len_hdr l @ [i]) k"
  unfolding EncodeExtHeader_def by (rule emits_bind emits_intros)+

section \<open>Strings and byte slices\<close>

definition encodeNormalString :: "gostring \<Rightarrow> ('w encoder, unit) go" where
  "encodeNormalString v = bindE (encodeStringLen (int (length v))) (\<lambda>_. writeString v)"

text \<open>\<open>None\<close> is the nil slice.\<close>

definition EncodeBytes :: "byte list option \<Rightarrow> ('w encoder, unit) go" where
  "EncodeBytes v =
     (case v of None \<Rightarrow> EncodeNil
      | Some b \<Rightarrow> bindE (EncodeBytesLen (int (length b))) (\<lambda>_. enc_write b))"

definition str_wire :: "gostring \<Rightarrow> byte list" where
  "str_wire s = str_hdr (int (length s)) @ s"

definition bin_wire :: "byte list option \<Rightarrow> byte list" where
  "bin_wire v = (case v of None \<Rightarrow> [Nil_c] | Some b \<Rightarrow> bin_hdr (int (length b)) @ b)"

lemma emits_encodeNormalString [emits_intros]: "emits out k (encodeNormalString s) (str_wire s) k"
  unfolding encodeNormalString_def str_wire_def by (rule emits_bind emits_intros)+

lemma emits_EncodeBytes [emits_intros]: "emits out k (EncodeBytes v) (bin_wire v) k"
  unfolding EncodeBytes_def bin_wire_def
  by (cases v) (auto intro!: emits_bind emits_intros)

text \<open>
  A byte array: written from the array when it is addressable, else through the scratch buffer,
  which \<open>grow\<close> enlarges.
\<close>

definition grow :: "(nat \<Rightarrow> nat \<Rightarrow> nat) \<Rightarrow> byte slice \<Rightarrow> nat \<Rightarrow> byte slice" where
  "grow g b n =
     (if cap b \<ge> n then b\<lparr>sl_len := n\<rparr>
      else let b' = b\<lparr>sl_len := cap b\<rparr> in append_slice g 0 b' (replicate (n - sl_len b') 0))"

definition encodeByteArrayValue :: "bool \<Rightarrow> byte list \<Rightarrow> ('w encoder, unit) go" where
  "encodeByteArrayValue canAddr v =
     bindE (EncodeBytesLen (int (length v))) (\<lambda>_.
       if canAddr then enc_write v
       else bindE (modS (\<lambda>e. e\<lparr>e_buf := store_at (grow (p_grow (e_plat e)) (e_buf e) (length v)) 0 v\<rparr>))
              (\<lambda>_. writeBuf))"

lemma cap_grow: "n \<le> cap (grow g b n) \<and> cap b \<le> cap (grow g b n) \<and> sl_len (grow g b n) = n"
proof (cases "n \<le> cap b")
  case True
  then show ?thesis by (simp add: grow_def)
next
  case False
  then show ?thesis
    by (auto simp: grow_def append_slice_def Let_def cap_def vis_def)
qed

lemma emits_encodeByteArrayValue [emits_intros]:
  "emits out k (encodeByteArrayValue canAddr v) (bin_wire (Some v)) k"
proof -
  let ?f = "\<lambda>e. e\<lparr>e_buf := store_at (grow (p_grow (e_plat e)) (e_buf e) (length v)) 0 v\<rparr>"
  have "emits out k (bindE (modS ?f) (\<lambda>_. writeBuf)) v k"
  proof (rule emitsI)
    fix e
    assume e: "enc_ok out e" "conf e = k"
    have g: "length v \<le> cap (grow (p_grow (e_plat e)) (e_buf e) (length v))"
      "cap (e_buf e) \<le> cap (grow (p_grow (e_plat e)) (e_buf e) (length v))"
      "sl_len (grow (p_grow (e_plat e)) (e_buf e) (length v)) = length v"
      using cap_grow by blast+
    have run: "bindE (modS ?f) (\<lambda>_. writeBuf) e = enc_write v (?f e)"
      using g by (simp add: bindE_modS writeBuf_def bindE_getS vis_store_at)
    have "enc_ok out (?f e)" using e g by (simp add: enc_ok_def enc_inv_def)
    then have "emitted out (?f e) v (conf (?f e)) (enc_write v (?f e))" by (rule enc_write_emitted)
    moreover have "conf (?f e) = k" using e(2) by (simp add: conf_def)
    ultimately show "emitted out e v k (bindE (modS ?f) (\<lambda>_. writeBuf) e)"
      unfolding run by (subst emitted_cong [of e "?f e"]) (simp_all add: written_def split: writer.split)
  qed
  then show ?thesis
    unfolding encodeByteArrayValue_def bin_wire_def
    by (cases canAddr) (auto intro!: emits_bind emits_intros)
qed

section \<open>Interned strings (intern.go)\<close>

definition minInternedStringLen :: nat where "minInternedStringLen = 3"
definition maxDictLen :: nat where "maxDictLen = 65535"

text \<open>\<^verbatim>\<open>internedStringExtID = int8(math.MinInt8)\<close>\<close>

definition internedStringExtID :: byte where "internedStringExtID = 0x80"

definition encodeInternedStringIndex :: "int \<Rightarrow> ('w encoder, unit) go" where
  "encodeInternedStringIndex idx =
     (if idx \<le> 255 then
        bindE (writeCode FixExt1_c) (\<lambda>_. write1 internedStringExtID (word_of_int idx))
      else if idx \<le> 65535 then
        bindE (writeCode FixExt2_c) (\<lambda>_. write2 internedStringExtID (word_of_int idx))
      else if idx \<le> 4294967295 then
        bindE (writeCode FixExt4_c) (\<lambda>_. write4 internedStringExtID (word_of_int idx))
      else fail (InternedIndexTooLarge idx))"

definition encodeInternedString :: "gostring \<Rightarrow> bool \<Rightarrow> ('w encoder, unit) go" where
  "encodeInternedString s intern =
     bindE (getS e_dict) (\<lambda>d.
       case map_of d s of
         Some idx \<Rightarrow> encodeInternedStringIndex idx
       | None \<Rightarrow>
           bindE (if intern \<and> length s \<ge> minInternedStringLen \<and> length d < maxDictLen
                  then modS (\<lambda>e. e\<lparr>e_dict := d @ [(s, int (length d))]\<rparr>) else ret ())
             (\<lambda>_. encodeNormalString s))"

definition EncodeString :: "gostring \<Rightarrow> ('w encoder, unit) go" where
  "EncodeString v =
     bindE (enc_flag useInternedStringsFlag) (\<lambda>intern. bindE (getS e_dict) (\<lambda>d.
       if intern \<or> length d > 0 then encodeInternedString v intern else encodeNormalString v))"

text \<open>What a string becomes, given the dictionary, and the dictionary afterwards.\<close>

definition idx_wire :: "int \<Rightarrow> byte list" where
  "idx_wire idx =
     (if idx \<le> 255 then [FixExt1_c, internedStringExtID, word_of_int idx]
      else if idx \<le> 65535 then FixExt2_c # internedStringExtID # lanes16 (word_of_int idx)
      else FixExt4_c # internedStringExtID # lanes32 (word_of_int idx))"

definition interns :: "bool \<Rightarrow> (gostring \<times> int) list \<Rightarrow> gostring \<Rightarrow> bool" where
  "interns intern d s \<longleftrightarrow> map_of d s = None \<and> intern \<and> 3 \<le> length s \<and> length d < 65535"

definition istr_wire :: "(gostring \<times> int) list \<Rightarrow> gostring \<Rightarrow> byte list" where
  "istr_wire d s = (case map_of d s of Some idx \<Rightarrow> idx_wire idx | None \<Rightarrow> str_wire s)"

definition istr_dict :: "bool \<Rightarrow> (gostring \<times> int) list \<Rightarrow> gostring \<Rightarrow> (gostring \<times> int) list" where
  "istr_dict intern d s = (if interns intern d s then d @ [(s, int (length d))] else d)"

lemma emits_getDict:
  "emits out k (f (fst (snd k))) bs k' \<Longrightarrow> emits out k (bindE (getS e_dict) f) bs k'"
  by (rule emits_getS) (auto simp: conf_def)

lemma emits_setDict:
  "emits out (fl, d, P, t) (modS (\<lambda>e. e\<lparr>e_dict := d'\<rparr>)) [] (fl, d', P, t)"
  by (rule emitsI) (auto simp: conf_def enc_ok_def enc_inv_def written_def split: writer.split)

lemma emits_index:
  "idx \<le> 4294967295 \<Longrightarrow> emits out k (encodeInternedStringIndex idx) (idx_wire idx) k"
  unfolding encodeInternedStringIndex_def idx_wire_def
  by (auto intro!: emits_bind_eq emits_intros)

lemma emits_encodeInternedString:
  assumes "\<And>idx. map_of d s = Some idx \<Longrightarrow> idx \<le> 4294967295"
  shows "emits out (fl, d, P, t) (encodeInternedString s intern) (istr_wire d s)
           (fl, istr_dict intern d s, P, t)"
  unfolding encodeInternedString_def
proof (rule emits_getDict)
  show "emits out (fl, d, P, t)
      (case map_of (fst (snd (fl, d, P, t))) s of
         Some idx \<Rightarrow> encodeInternedStringIndex idx
       | None \<Rightarrow>
           bindE (if intern \<and> length s \<ge> minInternedStringLen \<and> length (fst (snd (fl, d, P, t))) < maxDictLen
                  then modS (\<lambda>e. e\<lparr>e_dict := fst (snd (fl, d, P, t)) @ [(s, int (length (fst (snd (fl, d, P, t)))))]\<rparr>)
                  else ret ()) (\<lambda>_. encodeNormalString s))
      (istr_wire d s) (fl, istr_dict intern d s, P, t)"
  proof (cases "map_of d s")
    case None
    then show ?thesis
      by (auto simp: istr_wire_def istr_dict_def interns_def minInternedStringLen_def maxDictLen_def
          intro!: emits_bind_eq [OF emits_setDict] emits_intros)
  next
    case (Some idx)
    with assms show ?thesis
      by (simp add: istr_wire_def istr_dict_def interns_def emits_index)
  qed
qed

text \<open>Without the interning option and with an empty dictionary a string is written plainly.\<close>

definition plain_strings :: "econf \<Rightarrow> bool" where
  "plain_strings k \<longleftrightarrow> \<not> hasFlag (fst k) useInternedStringsFlag \<and> fst (snd k) = []"

lemma emits_EncodeString_plain:
  "plain_strings k \<Longrightarrow> emits out k (EncodeString s) (str_wire s) k"
  unfolding EncodeString_def plain_strings_def
  by (rule emits_flag, rule emits_getDict) (simp add: emits_intros)

lemma emits_EncodeString_intern:
  assumes "hasFlag fl useInternedStringsFlag \<or> d \<noteq> []"
    and "\<And>idx. map_of d s = Some idx \<Longrightarrow> idx \<le> 4294967295"
  shows "emits out (fl, d, P, t) (EncodeString s) (istr_wire d s)
           (fl, istr_dict (hasFlag fl useInternedStringsFlag) d s, P, t)"
  unfolding EncodeString_def
  by (rule emits_flag, rule emits_getDict) (use assms in \<open>simp add: emits_encodeInternedString\<close>)

text \<open>String slices; \<open>encodeStringSliceValue\<close> and \<open>encodeStringSlice\<close> have the same body.\<close>

definition encodeStringSlice :: "gostring list option \<Rightarrow> ('w encoder, unit) go" where
  "encodeStringSlice s =
     (case s of None \<Rightarrow> EncodeNil
      | Some ss \<Rightarrow> bindE (EncodeArrayLen (int (length ss))) (\<lambda>_. forE EncodeString ss))"

section \<open>Time (time.go)\<close>

definition timeExtID :: byte where "timeExtID = 0xff"

text \<open>The three layouts of the timestamp extension.\<close>

definition time_bytes :: "u64 \<Rightarrow> u64 \<Rightarrow> byte list" where
  "time_bytes secs nsec =
     (if drop_bit 34 secs = 0 then
        let data = push_bit 34 nsec OR secs
        in if data AND 0xffffffff00000000 = 0 then lanes32 (ucast data) else lanes64 data
      else lanes32 (ucast nsec) @ lanes64 secs)"

definition encodeTime :: "gotime \<Rightarrow> ('w encoder, byte list) go" where
  "encodeTime tm e =
     (let tb = (case e_timeBuf e of None \<Rightarrow> make_slice 0 12 12 | Some b \<Rightarrow> b);
          bs = time_bytes (t_sec tm) (word_of_nat (t_nsec tm))
      in case reslice tb (length bs) of
           None \<Rightarrow> (Inl (Panic ''slice bounds out of range''), e\<lparr>e_timeBuf := Some tb\<rparr>)
         | Some b \<Rightarrow> (Inr (vis (store_at b 0 bs)), e\<lparr>e_timeBuf := Some (store_at tb 0 bs)\<rparr>))"

definition EncodeTime :: "gotime \<Rightarrow> ('w encoder, unit) go" where
  "EncodeTime tm =
     bindE (encodeTime tm) (\<lambda>b.
     bindE (encodeExtLen (int (length b))) (\<lambda>_.
     bindE (writeCode timeExtID) (\<lambda>_. enc_write b)))"

definition time_wire :: "gotime \<Rightarrow> byte list" where
  "time_wire tm =
     (let bs = time_bytes (t_sec tm) (word_of_nat (t_nsec tm))
      in ext_len_hdr (int (length bs)) @ [timeExtID] @ bs)"

lemma length_time_bytes: "length (time_bytes s n) \<in> {4, 8, 12}"
  by (simp add: time_bytes_def Let_def)

lemma encodeTime_run:
  assumes "enc_inv e"
  shows "encodeTime tm e =
      (Inr (time_bytes (t_sec tm) (word_of_nat (t_nsec tm))), snd (encodeTime tm e)) \<and>
    enc_inv (snd (encodeTime tm e)) \<and> e_w (snd (encodeTime tm e)) = e_w e \<and>
    e_appendBuf (snd (encodeTime tm e)) = e_appendBuf e \<and> conf (snd (encodeTime tm e)) = conf e"
proof -
  have l: "length (time_bytes (t_sec tm) (word_of_nat (t_nsec tm))) \<le> 12"
    using length_time_bytes [of "t_sec tm" "word_of_nat (t_nsec tm)"] by auto
  with assms show ?thesis
    by (cases "e_timeBuf e")
      (auto simp: encodeTime_def Let_def reslice_def vis_store_at enc_inv_def conf_def)
qed

text \<open>Running \<open>encodeTime\<close> first only prepares the time buffer.\<close>

lemma emits_EncodeTime [emits_intros]: "emits out k (EncodeTime tm) (time_wire tm) k"
proof (rule emitsI)
  fix e
  assume e: "enc_ok out e" "conf e = k"
  let ?bs = "time_bytes (t_sec tm) (word_of_nat (t_nsec tm))" and ?e = "snd (encodeTime tm e)"
  let ?k = "\<lambda>b. bindE (encodeExtLen (int (length b))) (\<lambda>_. bindE (writeCode timeExtID) (\<lambda>_. enc_write b))"
  have enc: "encodeTime tm e = (Inr ?bs, ?e)" "enc_inv ?e" "e_w ?e = e_w e"
    "e_appendBuf ?e = e_appendBuf e" "conf ?e = conf e"
    using encodeTime_run [of e tm] e by (auto simp: enc_ok_def)
  have run: "EncodeTime tm e = ?k ?bs ?e"
    unfolding EncodeTime_def by (rule bindE_Inr, rule enc(1))
  have "emits out k (?k ?bs) (time_wire tm) k"
    unfolding time_wire_def Let_def by (rule emits_bind emits_intros)+
  then have "emitted out ?e (time_wire tm) k (?k ?bs ?e)"
    by (rule emitsD) (use e enc in \<open>simp_all add: enc_ok_def\<close>)
  then show "emitted out e (time_wire tm) k (EncodeTime tm e)"
    unfolding run using enc
    by (subst emitted_cong [of e ?e]) (simp_all add: written_def split: writer.split)
qed

end
