(* ===== verification/Encode_Value.thy ===== *)
theory Encode_Value
  imports Encode_Slice "HOL-Library.List_Lexorder"
begin

text \<open>
  Go values and their encoding: \<open>Encode\<close> and \<open>Append\<close> of \<^verbatim>\<open>encode.go\<close>, the kind dispatch of
  \<^verbatim>\<open>encode_value.go\<close>, maps and structs of \<^verbatim>\<open>encode_map.go\<close>, \<open>OmitEmpty\<close> and \<open>isEmptyValue\<close> of
  \<^verbatim>\<open>types.go\<close>.
\<close>

section \<open>Values\<close>

text \<open>
  A Go value with its dynamic type. \<open>None\<close> inside a slice, map or pointer constructor is nil. A
  Go map is the list of its entries (distinct keys) in the order in which the runtime iterates,
  which the language leaves open: theorems quantify over all orders. An interface-typed slot
  holds the value itself, \<open>GNil\<close> for the nil interface. A struct is given by its flattened fields,
  \<open>None\<close> for a field behind a nil embedded pointer.

  A value of a user's type enters through what its methods return, the only thing the encoder sees
  of it. \<open>GUser k empty addr r\<close> is a value whose type has a \<^verbatim>\<open>MarshalMsgpack\<close>, \<^verbatim>\<open>MarshalBinary\<close> or
  \<^verbatim>\<open>MarshalText\<close> method (with value or with pointer receiver), or which is an \<^verbatim>\<open>error\<close>: \<open>r\<close> is \<open>None\<close>
  for nil and otherwise what the method returns, \<open>empty\<close> and \<open>addr\<close> say whether the value is empty
  and addressable. \<open>GExt id empty r\<close> is a value of a type registered with \<open>RegisterExtEncoder\<close>.
\<close>

datatype ukind =
    UMarshaler | UMarshalerPtr | UBinary | UBinaryAddr | UText | UTextAddr | UError

record fmeta =
  f_name :: gostring
  f_omitEmpty :: bool
  f_intern :: bool

datatype gval =
    GNil
  | GBool bool
  | GInt u64 | GInt8 byte | GInt16 u16 | GInt32 u32 | GInt64 u64
  | GUint u64 | GUint8 byte | GUint16 u16 | GUint32 u32 | GUint64 u64
  | GFloat32 u32 | GFloat64 u64
  | GString gostring
  | GBytes "byte list option"
  | GByteArray bool "byte list"
  | GStrings "gostring list option"
  | GSlice "gval list option"
  | GArray "gval list"
  | GMapSS "(gostring \<times> gostring) list option"
  | GMapSB "(gostring \<times> bool) list option"
  | GMapSI "(gostring \<times> gval) list option"
  | GMap "(gval \<times> gval) list option"
  | GPtr "gval option"
  | GStruct bool "(fmeta \<times> gval option) list"
  | GTime gotime
  | GDuration u64
  | GRaw "byte list option"
  | GUser ukind bool bool "(go_error + byte list option) option"
  | GExt byte bool "(go_error + byte list) option"
  | GUnsupported

section \<open>Empty values and omitted fields (types.go)\<close>

text \<open>\<open>isEmptyValue\<close>; \<open>forced\<close> is the encoder's omit-empty option.\<close>

fun isEmptyValue :: "bool \<Rightarrow> gval \<Rightarrow> bool" where
  "isEmptyValue forced v =
     (case v of
        GNil \<Rightarrow> True
      | GBool b \<Rightarrow> \<not> b
      | GInt n \<Rightarrow> n = 0 | GInt8 n \<Rightarrow> n = 0 | GInt16 n \<Rightarrow> n = 0 | GInt32 n \<Rightarrow> n = 0
      | GInt64 n \<Rightarrow> n = 0 | GDuration n \<Rightarrow> n = 0
      | GUint n \<Rightarrow> n = 0 | GUint8 n \<Rightarrow> n = 0 | GUint16 n \<Rightarrow> n = 0 | GUint32 n \<Rightarrow> n = 0
      | GUint64 n \<Rightarrow> n = 0
      | GFloat32 f \<Rightarrow> f32_eq f 0
      | GFloat64 f \<Rightarrow> f64_eq f 0
      | GString s \<Rightarrow> s = []
      | GBytes b \<Rightarrow> b = None \<or> b = Some []
      | GRaw b \<Rightarrow> b = None \<or> b = Some []
      | GByteArray _ b \<Rightarrow> b = []
      | GStrings s \<Rightarrow> s = None \<or> s = Some []
      | GSlice s \<Rightarrow> (case s of None \<Rightarrow> True | Some xs \<Rightarrow> xs = [])
      | GArray xs \<Rightarrow> xs = []
      | GMapSS m \<Rightarrow> m = None \<or> m = Some []
      | GMapSB m \<Rightarrow> m = None \<or> m = Some []
      | GMapSI m \<Rightarrow> (case m of None \<Rightarrow> True | Some xs \<Rightarrow> xs = [])
      | GMap m \<Rightarrow> (case m of None \<Rightarrow> True | Some xs \<Rightarrow> xs = [])
      | GPtr p \<Rightarrow> (case p of None \<Rightarrow> True | Some (GTime t) \<Rightarrow> time_IsZero t | Some _ \<Rightarrow> False)
      | GTime t \<Rightarrow> time_IsZero t
      | GStruct _ fs \<Rightarrow>
          (if \<not> list_ex (\<lambda>f. f_omitEmpty (fst f)) fs \<and> \<not> forced then fs = []
           else list_all (\<lambda>f. case snd f of None \<Rightarrow> True
                  | Some x \<Rightarrow> (f_omitEmpty (fst f) \<or> forced) \<and> isEmptyValue forced x) fs)
      | GUser _ em _ _ \<Rightarrow> em
      | GExt _ em _ \<Rightarrow> em
      | GUnsupported \<Rightarrow> False)"

declare isEmptyValue.simps [simp del]

lemmas isEmptyValue_simps =
  isEmptyValue.simps [of forced "GNil" for forced, simplified gval.case]
  isEmptyValue.simps [of forced "GBool b" for forced b, simplified gval.case]
  isEmptyValue.simps [of forced "GInt n" for forced n, simplified gval.case]
  isEmptyValue.simps [of forced "GInt8 n" for forced n, simplified gval.case]
  isEmptyValue.simps [of forced "GInt16 n" for forced n, simplified gval.case]
  isEmptyValue.simps [of forced "GInt32 n" for forced n, simplified gval.case]
  isEmptyValue.simps [of forced "GInt64 n" for forced n, simplified gval.case]
  isEmptyValue.simps [of forced "GDuration n" for forced n, simplified gval.case]
  isEmptyValue.simps [of forced "GUint n" for forced n, simplified gval.case]
  isEmptyValue.simps [of forced "GUint8 n" for forced n, simplified gval.case]
  isEmptyValue.simps [of forced "GUint16 n" for forced n, simplified gval.case]
  isEmptyValue.simps [of forced "GUint32 n" for forced n, simplified gval.case]
  isEmptyValue.simps [of forced "GUint64 n" for forced n, simplified gval.case]
  isEmptyValue.simps [of forced "GFloat32 f" for forced f, simplified gval.case]
  isEmptyValue.simps [of forced "GFloat64 f" for forced f, simplified gval.case]
  isEmptyValue.simps [of forced "GString s" for forced s, simplified gval.case]
  isEmptyValue.simps [of forced "GBytes b" for forced b, simplified gval.case]
  isEmptyValue.simps [of forced "GByteArray a b" for forced a b, simplified gval.case]
  isEmptyValue.simps [of forced "GStrings s" for forced s, simplified gval.case]
  isEmptyValue.simps [of forced "GSlice s" for forced s, simplified gval.case]
  isEmptyValue.simps [of forced "GArray xs" for forced xs, simplified gval.case]
  isEmptyValue.simps [of forced "GMapSS m" for forced m, simplified gval.case]
  isEmptyValue.simps [of forced "GMapSB m" for forced m, simplified gval.case]
  isEmptyValue.simps [of forced "GMapSI m" for forced m, simplified gval.case]
  isEmptyValue.simps [of forced "GMap m" for forced m, simplified gval.case]
  isEmptyValue.simps [of forced "GPtr p" for forced p, simplified gval.case]
  isEmptyValue.simps [of forced "GTime t" for forced t, simplified gval.case]
  isEmptyValue.simps [of forced "GRaw b" for forced b, simplified gval.case]
  isEmptyValue.simps [of forced "GUser k b a r" for forced k b a r, simplified gval.case]
  isEmptyValue.simps [of forced "GExt i b r" for forced i b r, simplified gval.case]
  isEmptyValue.simps [of forced "GUnsupported" for forced, simplified gval.case]

definition Omit :: "bool \<Rightarrow> fmeta \<times> gval option \<Rightarrow> bool" where
  "Omit forced f =
     (case snd f of None \<Rightarrow> True
      | Some v \<Rightarrow> (f_omitEmpty (fst f) \<or> forced) \<and> isEmptyValue forced v)"

definition OmitEmpty ::
  "bool \<Rightarrow> (fmeta \<times> gval option) list \<Rightarrow> (fmeta \<times> gval option) list" where
  "OmitEmpty forced fs =
     (if \<not> list_ex (\<lambda>f. f_omitEmpty (fst f)) fs \<and> \<not> forced then fs
      else filter (\<lambda>f. \<not> Omit forced f) fs)"

text \<open>A struct is empty exactly when all its fields are omitted.\<close>

lemma isEmptyValue_struct:
  "isEmptyValue forced (GStruct a fs) \<longleftrightarrow> OmitEmpty forced fs = []"
  unfolding isEmptyValue.simps [of forced "GStruct a fs"] OmitEmpty_def Omit_def
  by (simp add: filter_empty_conv list_all_iff)

lemma set_OmitEmpty: "f \<in> set (OmitEmpty forced fs) \<Longrightarrow> f \<in> set fs"
  by (simp add: OmitEmpty_def split: if_splits)

section \<open>Encoders of the kinds\<close>

text \<open>
  The encoder functions take the encoder of their parts as the argument \<open>enc\<close>, which is
  \<open>EncodeValue\<close> (or \<open>Encode\<close>) in the recursion below; each has a congruence rule for it. Those that
  only pass their parts on do not depend on how a value is represented.
\<close>

definition encodeArrayValue :: "('a \<Rightarrow> ('w encoder, unit) go) \<Rightarrow> 'a list \<Rightarrow> ('w encoder, unit) go" where
  "encodeArrayValue enc xs = bindE (EncodeArrayLen (int (length xs))) (\<lambda>_. forE enc xs)"

definition encodeSliceValue ::
  "('a \<Rightarrow> ('w encoder, unit) go) \<Rightarrow> 'a list option \<Rightarrow> ('w encoder, unit) go" where
  "encodeSliceValue enc s = (case s of None \<Rightarrow> EncodeNil | Some xs \<Rightarrow> encodeArrayValue enc xs)"

definition encodeStringSliceValue :: "gostring list option \<Rightarrow> ('w encoder, unit) go" where
  "encodeStringSliceValue s =
     (case s of None \<Rightarrow> EncodeNil
      | Some ss \<Rightarrow> bindE (EncodeArrayLen (int (length ss))) (\<lambda>_. forE EncodeString ss))"

definition encodeMapValue ::
  "('a \<Rightarrow> ('w encoder, unit) go) \<Rightarrow> ('a \<times> 'a) list option \<Rightarrow> ('w encoder, unit) go" where
  "encodeMapValue enc m =
     (case m of None \<Rightarrow> EncodeNil
      | Some kvs \<Rightarrow>
          bindE (EncodeMapLen (int (length kvs))) (\<lambda>_.
          forE (\<lambda>kv. bindE (enc (fst kv)) (\<lambda>_. enc (snd kv))) kvs))"

text \<open>
  The loop of the sorted encoders: the keys in the order of \<^verbatim>\<open>sort.Strings\<close> (bytewise), each with
  the value \<^verbatim>\<open>m[k]\<close>.
\<close>

definition sorted_entries :: "('k :: linorder \<times> 'v) list \<Rightarrow> ('k \<times> 'v) list" where
  "sorted_entries kvs = map (\<lambda>k. (k, the (map_of kvs k))) (sort (map fst kvs))"

lemma set_sorted_entries: "kv \<in> set (sorted_entries kvs) \<Longrightarrow> kv \<in> set kvs"
  by (auto simp: sorted_entries_def dest!: weak_map_of_SomeI intro: map_of_SomeD)

definition encodeSortedMapStringString :: "(gostring \<times> gostring) list \<Rightarrow> ('w encoder, unit) go" where
  "encodeSortedMapStringString m =
     forE (\<lambda>kv. bindE (EncodeString (fst kv)) (\<lambda>_. EncodeString (snd kv))) (sorted_entries m)"

definition encodeMapStringStringValue ::
  "(gostring \<times> gostring) list option \<Rightarrow> ('w encoder, unit) go" where
  "encodeMapStringStringValue m =
     (case m of None \<Rightarrow> EncodeNil
      | Some kvs \<Rightarrow>
          bindE (EncodeMapLen (int (length kvs))) (\<lambda>_.
          bindE (enc_flag sortMapKeysFlag) (\<lambda>srt.
          if srt then encodeSortedMapStringString kvs
          else forE (\<lambda>kv. bindE (EncodeString (fst kv)) (\<lambda>_. EncodeString (snd kv))) kvs)))"

definition encodeSortedMapStringBool :: "(gostring \<times> bool) list \<Rightarrow> ('w encoder, unit) go" where
  "encodeSortedMapStringBool m =
     forE (\<lambda>kv. bindE (EncodeString (fst kv)) (\<lambda>_. EncodeBool (snd kv))) (sorted_entries m)"

definition encodeMapStringBoolValue ::
  "(gostring \<times> bool) list option \<Rightarrow> ('w encoder, unit) go" where
  "encodeMapStringBoolValue m =
     (case m of None \<Rightarrow> EncodeNil
      | Some kvs \<Rightarrow>
          bindE (EncodeMapLen (int (length kvs))) (\<lambda>_.
          bindE (enc_flag sortMapKeysFlag) (\<lambda>srt.
          if srt then encodeSortedMapStringBool kvs
          else forE (\<lambda>kv. bindE (EncodeString (fst kv)) (\<lambda>_. EncodeBool (snd kv))) kvs)))"

definition EncodeMap ::
  "(gval \<Rightarrow> ('w encoder, unit) go) \<Rightarrow> (gostring \<times> gval) list option \<Rightarrow> ('w encoder, unit) go" where
  "EncodeMap enc m =
     (case m of None \<Rightarrow> EncodeNil
      | Some kvs \<Rightarrow>
          bindE (EncodeMapLen (int (length kvs))) (\<lambda>_.
          forE (\<lambda>kv. bindE (EncodeString (fst kv)) (\<lambda>_. enc (snd kv))) kvs))"

definition EncodeMapSorted ::
  "(gval \<Rightarrow> ('w encoder, unit) go) \<Rightarrow> (gostring \<times> gval) list option \<Rightarrow> ('w encoder, unit) go" where
  "EncodeMapSorted enc m =
     (case m of None \<Rightarrow> EncodeNil
      | Some kvs \<Rightarrow>
          bindE (EncodeMapLen (int (length kvs))) (\<lambda>_.
          forE (\<lambda>kv. bindE (EncodeString (fst kv)) (\<lambda>_. enc (snd kv))) (sorted_entries kvs)))"

definition encodeMapStringInterfaceValue ::
  "(gval \<Rightarrow> ('w encoder, unit) go) \<Rightarrow> (gostring \<times> gval) list option \<Rightarrow> ('w encoder, unit) go" where
  "encodeMapStringInterfaceValue enc m =
     (case m of None \<Rightarrow> EncodeNil
      | Some kvs \<Rightarrow>
          bindE (enc_flag sortMapKeysFlag) (\<lambda>srt.
          if srt then EncodeMapSorted enc (Some kvs) else EncodeMap enc (Some kvs)))"

definition ptrEncoderFunc :: "('a \<Rightarrow> ('w encoder, unit) go) \<Rightarrow> 'a option \<Rightarrow> ('w encoder, unit) go" where
  "ptrEncoderFunc enc p = (case p of None \<Rightarrow> EncodeNil | Some x \<Rightarrow> enc x)"

text \<open>
  A struct field: nil for a field behind a nil embedded pointer, else the field's encoder. An
  \<^verbatim>\<open>intern\<close> field (a string or an interface) interns its string.
\<close>

definition encodeInternedStringValue :: "gostring \<Rightarrow> ('w encoder, unit) go" where
  "encodeInternedStringValue s = encodeInternedString s True"

definition encodeInternedInterfaceValue ::
  "(gval \<Rightarrow> ('w encoder, unit) go) \<Rightarrow> gval \<Rightarrow> ('w encoder, unit) go" where
  "encodeInternedInterfaceValue enc v =
     (case v of GNil \<Rightarrow> EncodeNil | GString s \<Rightarrow> encodeInternedStringValue s | _ \<Rightarrow> enc v)"

definition field_EncodeValue ::
  "(gval \<Rightarrow> ('w encoder, unit) go) \<Rightarrow> fmeta \<times> gval option \<Rightarrow> ('w encoder, unit) go" where
  "field_EncodeValue enc f =
     (case snd f of
        None \<Rightarrow> EncodeNil
      | Some v \<Rightarrow> if f_intern (fst f) then encodeInternedInterfaceValue enc v else enc v)"

definition encodeStructValueAsArray ::
  "(gval \<Rightarrow> ('w encoder, unit) go) \<Rightarrow> (fmeta \<times> gval option) list \<Rightarrow> ('w encoder, unit) go" where
  "encodeStructValueAsArray enc fs =
     bindE (EncodeArrayLen (int (length fs))) (\<lambda>_. forE (field_EncodeValue enc) fs)"

definition encodeStructValue ::
  "(gval \<Rightarrow> ('w encoder, unit) go) \<Rightarrow> bool \<Rightarrow> (fmeta \<times> gval option) list \<Rightarrow> ('w encoder, unit) go" where
  "encodeStructValue enc asArray fs =
     bindE (getS e_flags) (\<lambda>fl.
       if hasFlag fl arrayEncodedStructsFlag \<or> asArray then encodeStructValueAsArray enc fs
       else bindE (EncodeMapLen (int (length (OmitEmpty (hasFlag fl omitEmptyFlag) fs)))) (\<lambda>_.
            forE (\<lambda>f. bindE (EncodeString (f_name (fst f))) (\<lambda>_. field_EncodeValue enc f))
              (OmitEmpty (hasFlag fl omitEmptyFlag) fs)))"

text \<open>Values of user types: \<open>None\<close> is nil, otherwise what the value's own method returned.\<close>

definition marshalValue :: "(go_error + byte list option) option \<Rightarrow> ('w encoder, unit) go" where
  "marshalValue r =
     (case r of None \<Rightarrow> EncodeNil | Some (Inl err) \<Rightarrow> fail err
      | Some (Inr b) \<Rightarrow> enc_write (case b of None \<Rightarrow> [] | Some x \<Rightarrow> x))"

definition marshalValuePtr :: "bool \<Rightarrow> (go_error + byte list option) option \<Rightarrow> ('w encoder, unit) go" where
  "marshalValuePtr canAddr r = (if \<not> canAddr then fail EncodeNonAddressable else marshalValue r)"

definition marshalBinaryValue :: "(go_error + byte list option) option \<Rightarrow> ('w encoder, unit) go" where
  "marshalBinaryValue r =
     (case r of None \<Rightarrow> EncodeNil | Some (Inl err) \<Rightarrow> fail err | Some (Inr data) \<Rightarrow> EncodeBytes data)"

definition marshalBinaryValueAddr :: "bool \<Rightarrow> (go_error + byte list option) option \<Rightarrow> ('w encoder, unit) go" where
  "marshalBinaryValueAddr canAddr r = (if \<not> canAddr then fail EncodeNonAddressable else marshalBinaryValue r)"

definition marshalTextValue :: "(go_error + byte list option) option \<Rightarrow> ('w encoder, unit) go" where
  "marshalTextValue r =
     (case r of None \<Rightarrow> EncodeNil | Some (Inl err) \<Rightarrow> fail err | Some (Inr data) \<Rightarrow> EncodeBytes data)"

definition marshalTextValueAddr :: "bool \<Rightarrow> (go_error + byte list option) option \<Rightarrow> ('w encoder, unit) go" where
  "marshalTextValueAddr canAddr r = (if \<not> canAddr then fail EncodeNonAddressable else marshalTextValue r)"

definition encodeErrorValue :: "gostring option \<Rightarrow> ('w encoder, unit) go" where
  "encodeErrorValue r = (case r of None \<Rightarrow> EncodeNil | Some s \<Rightarrow> EncodeString s)"

definition error_text :: "(go_error + byte list option) option \<Rightarrow> gostring option" where
  "error_text r = (case r of Some (Inr (Some s)) \<Rightarrow> Some s | _ \<Rightarrow> None)"

definition user_EncodeValue ::
  "ukind \<Rightarrow> bool \<Rightarrow> (go_error + byte list option) option \<Rightarrow> ('w encoder, unit) go" where
  "user_EncodeValue k canAddr r =
     (case k of
        UMarshaler \<Rightarrow> marshalValue r | UMarshalerPtr \<Rightarrow> marshalValuePtr canAddr r
      | UBinary \<Rightarrow> marshalBinaryValue r | UBinaryAddr \<Rightarrow> marshalBinaryValueAddr canAddr r
      | UText \<Rightarrow> marshalTextValue r | UTextAddr \<Rightarrow> marshalTextValueAddr canAddr r
      | UError \<Rightarrow> encodeErrorValue (error_text r))"

text \<open>
  The encoder of a registered extension type; \<open>None\<close> is a nil pointer. \<^verbatim>\<open>time.Time\<close> is registered
  with \<open>timeEncoder\<close>.
\<close>

definition makeExtEncoder :: "byte \<Rightarrow> ('w encoder, byte list) go option \<Rightarrow> ('w encoder, unit) go" where
  "makeExtEncoder extID encoder =
     (case encoder of None \<Rightarrow> EncodeNil
      | Some m \<Rightarrow>
          bindE m (\<lambda>b. bindE (EncodeExtHeader extID (int (length b))) (\<lambda>_. enc_write b)))"

definition timeEncoder :: "gotime \<Rightarrow> ('w encoder, byte list) go" where
  "timeEncoder tm = encodeTime tm"

definition ext_result :: "go_error + byte list \<Rightarrow> ('w encoder, byte list) go" where
  "ext_result r = (case r of Inl err \<Rightarrow> fail err | Inr b \<Rightarrow> ret b)"

definition encodeUnsupportedValue :: "('w encoder, unit) go" where
  "encodeUnsupportedValue = fail EncodeUnsupported"

lemmas encoder_defs =
  encodeArrayValue_def encodeSliceValue_def encodeStringSliceValue_def encodeMapValue_def
  encodeSortedMapStringString_def encodeMapStringStringValue_def encodeSortedMapStringBool_def
  encodeMapStringBoolValue_def EncodeMap_def EncodeMapSorted_def encodeMapStringInterfaceValue_def
  ptrEncoderFunc_def field_EncodeValue_def encodeInternedInterfaceValue_def
  encodeStructValueAsArray_def encodeStructValue_def

lemma encodeArrayValue_cong [fundef_cong]:
  "xs = ys \<Longrightarrow> (\<And>x. x \<in> set ys \<Longrightarrow> f x = g x) \<Longrightarrow> encodeArrayValue f xs = encodeArrayValue g ys"
  by (simp add: encodeArrayValue_def cong: forE_cong)

lemma encodeSliceValue_cong [fundef_cong]:
  "s = t \<Longrightarrow> (\<And>xs x. t = Some xs \<Longrightarrow> x \<in> set xs \<Longrightarrow> f x = g x) \<Longrightarrow>
     encodeSliceValue f s = encodeSliceValue g t"
  by (auto simp: encodeSliceValue_def split: option.split intro: encodeArrayValue_cong)

lemma encodeMapValue_cong [fundef_cong]:
  "m = m' \<Longrightarrow> (\<And>kvs kv. m' = Some kvs \<Longrightarrow> kv \<in> set kvs \<Longrightarrow> f (fst kv) = g (fst kv)) \<Longrightarrow>
     (\<And>kvs kv. m' = Some kvs \<Longrightarrow> kv \<in> set kvs \<Longrightarrow> f (snd kv) = g (snd kv)) \<Longrightarrow>
     encodeMapValue f m = encodeMapValue g m'"
  by (auto simp: encodeMapValue_def split: option.split intro!: bindE_cong forE_cong)

lemma encodeMapStringInterfaceValue_cong [fundef_cong]:
  "m = m' \<Longrightarrow> (\<And>kvs kv. m' = Some kvs \<Longrightarrow> kv \<in> set kvs \<Longrightarrow> f (snd kv) = g (snd kv)) \<Longrightarrow>
     encodeMapStringInterfaceValue f m = encodeMapStringInterfaceValue g m'"
  by (auto simp: encodeMapStringInterfaceValue_def EncodeMap_def EncodeMapSorted_def
      split: option.split intro!: bindE_cong forE_cong dest!: set_sorted_entries)

lemma ptrEncoderFunc_cong [fundef_cong]:
  "p = q \<Longrightarrow> (\<And>x. q = Some x \<Longrightarrow> f x = g x) \<Longrightarrow> ptrEncoderFunc f p = ptrEncoderFunc g q"
  by (simp add: ptrEncoderFunc_def split: option.split)

lemma field_EncodeValue_cong:
  "f = g \<Longrightarrow> (\<And>v. snd g = Some v \<Longrightarrow> enc v = enc' v) \<Longrightarrow>
     field_EncodeValue enc f = field_EncodeValue enc' g"
  by (simp add: field_EncodeValue_def encodeInternedInterfaceValue_def split: option.splits gval.splits)

lemma encodeStructValue_cong [fundef_cong]:
  "a = b \<Longrightarrow> fs = gs \<Longrightarrow> (\<And>f v. f \<in> set gs \<Longrightarrow> snd f = Some v \<Longrightarrow> enc v = enc' v) \<Longrightarrow>
     encodeStructValue enc a fs = encodeStructValue enc' b gs"
  by (auto simp: encodeStructValue_def encodeStructValueAsArray_def
      intro!: bindE_cong forE_cong field_EncodeValue_cong dest!: set_OmitEmpty)

section \<open>Encoding a value\<close>

text \<open>
  \<open>EncodeValue\<close> is the encoder \<open>getEncoder\<close> selects for the value's type, applied; \<open>Encode\<close> is the
  type switch in front of it. The entries of a map of interfaces go through \<open>Encode\<close>, those of
  other containers through \<open>EncodeValue\<close> (after \<open>encodeInterfaceValue\<close> for an interface slot).
\<close>

lemma size_elem_le: "x \<in> set xs \<Longrightarrow> f x \<le> size_list f xs"
  by (induction xs) auto

lemma size_field_less:
  assumes "f \<in> set fs" and "snd f = Some (v :: gval)"
  shows "size v < size_list (size_prod (\<lambda>_. 0) (size_option size)) fs"
  using size_elem_le [OF assms(1), of "size_prod (\<lambda>_. 0) (size_option size)"] assms(2)
  by (cases f) simp

lemma size_entry_le:
  assumes "(a, b) \<in> set kvs"
  shows "g b \<le> size_list (size_prod (\<lambda>_. 0) g) kvs" and "f a \<le> size_list (size_prod f g) kvs"
    and "g b \<le> size_list (size_prod f g) kvs"
  using size_elem_le [OF assms, of "size_prod (\<lambda>_. 0) g"] size_elem_le [OF assms, of "size_prod f g"]
  by simp_all

function (sequential) Encode :: "gval \<Rightarrow> ('w encoder, unit) go"
  and EncodeValue :: "gval \<Rightarrow> ('w encoder, unit) go"
  where
  "Encode v =
     (case v of
        GNil \<Rightarrow> EncodeNil
      | GString s \<Rightarrow> EncodeString s
      | GBytes b \<Rightarrow> EncodeBytes b
      | GInt n \<Rightarrow> EncodeInt n
      | GInt64 n \<Rightarrow> encodeInt64Cond n
      | GUint n \<Rightarrow> EncodeUint n
      | GUint64 n \<Rightarrow> encodeUint64Cond n
      | GBool b \<Rightarrow> EncodeBool b
      | GFloat32 f \<Rightarrow> EncodeFloat32 f
      | GFloat64 f \<Rightarrow> EncodeFloat64 f
      | GDuration d \<Rightarrow> encodeInt64Cond d
      | GTime t \<Rightarrow> EncodeTime t
      | _ \<Rightarrow> EncodeValue v)"
| "EncodeValue v =
     (case v of
        GNil \<Rightarrow> EncodeNil
      | GBool b \<Rightarrow> EncodeBool b
      | GInt n \<Rightarrow> EncodeInt n
      | GInt8 n \<Rightarrow> encodeInt8Cond n
      | GInt16 n \<Rightarrow> encodeInt16Cond n
      | GInt32 n \<Rightarrow> encodeInt32Cond n
      | GInt64 n \<Rightarrow> encodeInt64Cond n
      | GDuration n \<Rightarrow> encodeInt64Cond n
      | GUint n \<Rightarrow> EncodeUint n
      | GUint8 n \<Rightarrow> encodeUint8Cond n
      | GUint16 n \<Rightarrow> encodeUint16Cond n
      | GUint32 n \<Rightarrow> encodeUint32Cond n
      | GUint64 n \<Rightarrow> encodeUint64Cond n
      | GFloat32 f \<Rightarrow> EncodeFloat32 f
      | GFloat64 f \<Rightarrow> EncodeFloat64 f
      | GString s \<Rightarrow> EncodeString s
      | GBytes b \<Rightarrow> EncodeBytes b
      | GByteArray canAddr b \<Rightarrow> encodeByteArrayValue canAddr b
      | GStrings s \<Rightarrow> encodeStringSliceValue s
      | GSlice s \<Rightarrow> encodeSliceValue EncodeValue s
      | GArray xs \<Rightarrow> encodeArrayValue EncodeValue xs
      | GMapSS m \<Rightarrow> encodeMapStringStringValue m
      | GMapSB m \<Rightarrow> encodeMapStringBoolValue m
      | GMapSI m \<Rightarrow> encodeMapStringInterfaceValue Encode m
      | GMap m \<Rightarrow> encodeMapValue EncodeValue m
      | GPtr p \<Rightarrow> ptrEncoderFunc EncodeValue p
      | GStruct asArray fs \<Rightarrow> encodeStructValue EncodeValue asArray fs
      | GTime t \<Rightarrow> makeExtEncoder timeExtID (Some (timeEncoder t))
      | GRaw b \<Rightarrow> (case b of None \<Rightarrow> EncodeNil | Some m \<Rightarrow> enc_write m)
      | GUser k _ canAddr r \<Rightarrow> user_EncodeValue k canAddr r
      | GExt extID _ r \<Rightarrow> makeExtEncoder extID (map_option ext_result r)
      | GUnsupported \<Rightarrow> encodeUnsupportedValue)"
  by pat_completeness auto

termination
  by (relation "measures [case_sum size size, case_sum (\<lambda>_. 1) (\<lambda>_. 0)]")
    (auto simp: less_Suc_eq_le OmitEmpty_def dest: size_field_less size_elem_le [where f = size]
      size_entry_le(1) [where g = size] size_entry_le(2,3) [where f = size and g = size] split: if_splits)

declare Encode.simps [simp del] EncodeValue.simps [simp del]

lemmas EncodeValue_simps =
  EncodeValue.simps [of "GNil", simplified gval.case]
  EncodeValue.simps [of "GBool b" for b, simplified gval.case]
  EncodeValue.simps [of "GInt n" for n, simplified gval.case]
  EncodeValue.simps [of "GInt8 n" for n, simplified gval.case]
  EncodeValue.simps [of "GInt16 n" for n, simplified gval.case]
  EncodeValue.simps [of "GInt32 n" for n, simplified gval.case]
  EncodeValue.simps [of "GInt64 n" for n, simplified gval.case]
  EncodeValue.simps [of "GDuration n" for n, simplified gval.case]
  EncodeValue.simps [of "GUint n" for n, simplified gval.case]
  EncodeValue.simps [of "GUint8 n" for n, simplified gval.case]
  EncodeValue.simps [of "GUint16 n" for n, simplified gval.case]
  EncodeValue.simps [of "GUint32 n" for n, simplified gval.case]
  EncodeValue.simps [of "GUint64 n" for n, simplified gval.case]
  EncodeValue.simps [of "GFloat32 f" for f, simplified gval.case]
  EncodeValue.simps [of "GFloat64 f" for f, simplified gval.case]
  EncodeValue.simps [of "GString s" for s, simplified gval.case]
  EncodeValue.simps [of "GBytes b" for b, simplified gval.case]
  EncodeValue.simps [of "GByteArray a b" for a b, simplified gval.case]
  EncodeValue.simps [of "GStrings s" for s, simplified gval.case]
  EncodeValue.simps [of "GSlice s" for s, simplified gval.case]
  EncodeValue.simps [of "GArray xs" for xs, simplified gval.case]
  EncodeValue.simps [of "GMapSS m" for m, simplified gval.case]
  EncodeValue.simps [of "GMapSB m" for m, simplified gval.case]
  EncodeValue.simps [of "GMapSI m" for m, simplified gval.case]
  EncodeValue.simps [of "GMap m" for m, simplified gval.case]
  EncodeValue.simps [of "GPtr p" for p, simplified gval.case]
  EncodeValue.simps [of "GStruct a fs" for a fs, simplified gval.case]
  EncodeValue.simps [of "GTime t" for t, simplified gval.case]
  EncodeValue.simps [of "GRaw b" for b, simplified gval.case]
  EncodeValue.simps [of "GUser k b a r" for k b a r, simplified gval.case]
  EncodeValue.simps [of "GExt i b r" for i b r, simplified gval.case]
  EncodeValue.simps [of "GUnsupported", simplified gval.case]

lemmas Encode_simps =
  Encode.simps [of "GNil", simplified gval.case]
  Encode.simps [of "GBool b" for b, simplified gval.case]
  Encode.simps [of "GInt n" for n, simplified gval.case]
  Encode.simps [of "GInt8 n" for n, simplified gval.case]
  Encode.simps [of "GInt16 n" for n, simplified gval.case]
  Encode.simps [of "GInt32 n" for n, simplified gval.case]
  Encode.simps [of "GInt64 n" for n, simplified gval.case]
  Encode.simps [of "GDuration n" for n, simplified gval.case]
  Encode.simps [of "GUint n" for n, simplified gval.case]
  Encode.simps [of "GUint8 n" for n, simplified gval.case]
  Encode.simps [of "GUint16 n" for n, simplified gval.case]
  Encode.simps [of "GUint32 n" for n, simplified gval.case]
  Encode.simps [of "GUint64 n" for n, simplified gval.case]
  Encode.simps [of "GFloat32 f" for f, simplified gval.case]
  Encode.simps [of "GFloat64 f" for f, simplified gval.case]
  Encode.simps [of "GString s" for s, simplified gval.case]
  Encode.simps [of "GBytes b" for b, simplified gval.case]
  Encode.simps [of "GByteArray a b" for a b, simplified gval.case]
  Encode.simps [of "GStrings s" for s, simplified gval.case]
  Encode.simps [of "GSlice s" for s, simplified gval.case]
  Encode.simps [of "GArray xs" for xs, simplified gval.case]
  Encode.simps [of "GMapSS m" for m, simplified gval.case]
  Encode.simps [of "GMapSB m" for m, simplified gval.case]
  Encode.simps [of "GMapSI m" for m, simplified gval.case]
  Encode.simps [of "GMap m" for m, simplified gval.case]
  Encode.simps [of "GPtr p" for p, simplified gval.case]
  Encode.simps [of "GStruct a fs" for a fs, simplified gval.case]
  Encode.simps [of "GTime t" for t, simplified gval.case]
  Encode.simps [of "GRaw b" for b, simplified gval.case]
  Encode.simps [of "GUser k b a r" for k b a r, simplified gval.case]
  Encode.simps [of "GExt i b r" for i b r, simplified gval.case]
  Encode.simps [of "GUnsupported", simplified gval.case]

text \<open>The fast path agrees with the reflection path on every value, state and error.\<close>

lemma Encode_EncodeValue: "Encode v = EncodeValue v"
  by (cases v) (simp_all add: Encode_simps EncodeValue_simps EncodeTime_def EncodeExtHeader_def
      makeExtEncoder_def timeEncoder_def bindE_assoc)

section \<open>The bytes of a value\<close>

definition field_wire :: "(gval \<Rightarrow> byte list) \<Rightarrow> fmeta \<times> gval option \<Rightarrow> byte list" where
  "field_wire enc f = (case snd f of None \<Rightarrow> [Nil_c] | Some v \<Rightarrow> enc v)"

lemma field_wire_cong [fundef_cong]:
  "f = g \<Longrightarrow> (\<And>v. snd g = Some v \<Longrightarrow> enc v = enc' v) \<Longrightarrow> field_wire enc f = field_wire enc' g"
  by (simp add: field_wire_def split: option.splits)

definition map_order :: "u32 \<Rightarrow> ('k :: linorder \<times> 'v) list \<Rightarrow> ('k \<times> 'v) list" where
  "map_order fl kvs = (if hasFlag fl sortMapKeysFlag then sorted_entries kvs else kvs)"

lemma set_map_order: "kv \<in> set (map_order fl kvs) \<Longrightarrow> kv \<in> set kvs"
  by (auto simp: map_order_def dest: set_sorted_entries split: if_splits)

definition user_wire :: "ukind \<Rightarrow> (go_error + byte list option) option \<Rightarrow> byte list" where
  "user_wire k r =
     (case r of
        Some (Inr b) \<Rightarrow>
          (if k = UMarshaler \<or> k = UMarshalerPtr then (case b of None \<Rightarrow> [] | Some x \<Rightarrow> x)
           else if k = UError then (case b of None \<Rightarrow> [Nil_c] | Some x \<Rightarrow> str_wire x)
           else bin_wire b)
      | _ \<Rightarrow> [Nil_c])"

text \<open>
  The encoding of a value as a function of the options (without interning): the reference the
  methods are compared with.
\<close>

function (sequential) wire :: "u32 \<Rightarrow> platform \<Rightarrow> gval \<Rightarrow> byte list" where
  "wire fl P v =
     (case v of
        GNil \<Rightarrow> [Nil_c]
      | GBool b \<Rightarrow> [if b then True_c else False_c]
      | GInt n \<Rightarrow> int_wire n
      | GInt8 n \<Rightarrow> (if compact fl then int_wire (scast n) else [Int8_c, n])
      | GInt16 n \<Rightarrow> (if compact fl then int_wire (scast n) else Int16_c # lanes16 n)
      | GInt32 n \<Rightarrow> (if compact fl then int_wire (scast n) else Int32_c # lanes32 n)
      | GInt64 n \<Rightarrow> (if compact fl then int_wire n else Int64_c # lanes64 n)
      | GDuration n \<Rightarrow> (if compact fl then int_wire n else Int64_c # lanes64 n)
      | GUint n \<Rightarrow> uint_wire n
      | GUint8 n \<Rightarrow> (if compact fl then uint_wire (ucast n) else [Uint8_c, n])
      | GUint16 n \<Rightarrow> (if compact fl then uint_wire (ucast n) else Uint16_c # lanes16 n)
      | GUint32 n \<Rightarrow> (if compact fl then uint_wire (ucast n) else Uint32_c # lanes32 n)
      | GUint64 n \<Rightarrow> (if compact fl then uint_wire n else Uint64_c # lanes64 n)
      | GFloat32 f \<Rightarrow> f32_wire fl P f
      | GFloat64 f \<Rightarrow> f64_wire fl P f
      | GString s \<Rightarrow> str_wire s
      | GBytes b \<Rightarrow> bin_wire b
      | GByteArray _ b \<Rightarrow> bin_wire (Some b)
      | GStrings s \<Rightarrow>
          (case s of None \<Rightarrow> [Nil_c]
           | Some ss \<Rightarrow> arr_hdr (int (length ss)) @ concat (map str_wire ss))
      | GSlice s \<Rightarrow>
          (case s of None \<Rightarrow> [Nil_c]
           | Some xs \<Rightarrow> arr_hdr (int (length xs)) @ concat (map (wire fl P) xs))
      | GArray xs \<Rightarrow> arr_hdr (int (length xs)) @ concat (map (wire fl P) xs)
      | GMapSS m \<Rightarrow>
          (case m of None \<Rightarrow> [Nil_c]
           | Some kvs \<Rightarrow> map_hdr (int (length kvs)) @
               concat (map (\<lambda>kv. str_wire (fst kv) @ str_wire (snd kv)) (map_order fl kvs)))
      | GMapSB m \<Rightarrow>
          (case m of None \<Rightarrow> [Nil_c]
           | Some kvs \<Rightarrow> map_hdr (int (length kvs)) @
               concat (map (\<lambda>kv. str_wire (fst kv) @ [if snd kv then True_c else False_c]) (map_order fl kvs)))
      | GMapSI m \<Rightarrow>
          (case m of None \<Rightarrow> [Nil_c]
           | Some kvs \<Rightarrow> map_hdr (int (length kvs)) @
               concat (map (\<lambda>kv. str_wire (fst kv) @ wire fl P (snd kv)) (map_order fl kvs)))
      | GMap m \<Rightarrow>
          (case m of None \<Rightarrow> [Nil_c]
           | Some kvs \<Rightarrow> map_hdr (int (length kvs)) @
               concat (map (\<lambda>kv. wire fl P (fst kv) @ wire fl P (snd kv)) kvs))
      | GPtr p \<Rightarrow> (case p of None \<Rightarrow> [Nil_c] | Some x \<Rightarrow> wire fl P x)
      | GStruct asArray fs \<Rightarrow>
          (if hasFlag fl arrayEncodedStructsFlag \<or> asArray
           then arr_hdr (int (length fs)) @ concat (map (field_wire (wire fl P)) fs)
           else map_hdr (int (length (OmitEmpty (hasFlag fl omitEmptyFlag) fs))) @
             concat (map (\<lambda>f. str_wire (f_name (fst f)) @ field_wire (wire fl P) f)
               (OmitEmpty (hasFlag fl omitEmptyFlag) fs)))
      | GTime t \<Rightarrow> time_wire t
      | GRaw b \<Rightarrow> (case b of None \<Rightarrow> [Nil_c] | Some m \<Rightarrow> m)
      | GUser k _ _ r \<Rightarrow> user_wire k r
      | GExt extID _ r \<Rightarrow>
          (case r of Some (Inr b) \<Rightarrow> ext_len_hdr (int (length b)) @ [extID] @ b | _ \<Rightarrow> [Nil_c])
      | GUnsupported \<Rightarrow> [])"
  by pat_completeness auto

termination
  by (relation "measure (\<lambda>(_, _, v). size v)")
    (auto simp: less_Suc_eq_le OmitEmpty_def dest: size_field_less size_elem_le [where f = size]
      size_entry_le(1) [where g = size] size_entry_le(2,3) [where f = size and g = size] split: if_splits dest!: set_map_order)

declare wire.simps [simp del]

lemmas wire_simps =
  wire.simps [of fl P "GNil" for fl P, simplified gval.case]
  wire.simps [of fl P "GBool b" for fl P b, simplified gval.case]
  wire.simps [of fl P "GInt n" for fl P n, simplified gval.case]
  wire.simps [of fl P "GInt8 n" for fl P n, simplified gval.case]
  wire.simps [of fl P "GInt16 n" for fl P n, simplified gval.case]
  wire.simps [of fl P "GInt32 n" for fl P n, simplified gval.case]
  wire.simps [of fl P "GInt64 n" for fl P n, simplified gval.case]
  wire.simps [of fl P "GDuration n" for fl P n, simplified gval.case]
  wire.simps [of fl P "GUint n" for fl P n, simplified gval.case]
  wire.simps [of fl P "GUint8 n" for fl P n, simplified gval.case]
  wire.simps [of fl P "GUint16 n" for fl P n, simplified gval.case]
  wire.simps [of fl P "GUint32 n" for fl P n, simplified gval.case]
  wire.simps [of fl P "GUint64 n" for fl P n, simplified gval.case]
  wire.simps [of fl P "GFloat32 f" for fl P f, simplified gval.case]
  wire.simps [of fl P "GFloat64 f" for fl P f, simplified gval.case]
  wire.simps [of fl P "GString s" for fl P s, simplified gval.case]
  wire.simps [of fl P "GBytes b" for fl P b, simplified gval.case]
  wire.simps [of fl P "GByteArray a b" for fl P a b, simplified gval.case]
  wire.simps [of fl P "GStrings s" for fl P s, simplified gval.case]
  wire.simps [of fl P "GSlice s" for fl P s, simplified gval.case]
  wire.simps [of fl P "GArray xs" for fl P xs, simplified gval.case]
  wire.simps [of fl P "GMapSS m" for fl P m, simplified gval.case]
  wire.simps [of fl P "GMapSB m" for fl P m, simplified gval.case]
  wire.simps [of fl P "GMapSI m" for fl P m, simplified gval.case]
  wire.simps [of fl P "GMap m" for fl P m, simplified gval.case]
  wire.simps [of fl P "GPtr p" for fl P p, simplified gval.case]
  wire.simps [of fl P "GStruct a fs" for fl P a fs, simplified gval.case]
  wire.simps [of fl P "GTime t" for fl P t, simplified gval.case]
  wire.simps [of fl P "GRaw b" for fl P b, simplified gval.case]
  wire.simps [of fl P "GUser k b a r" for fl P k b a r, simplified gval.case]
  wire.simps [of fl P "GExt i b r" for fl P i b r, simplified gval.case]
  wire.simps [of fl P "GUnsupported" for fl P, simplified gval.case]

text \<open>Values all of whose parts can be encoded, and in which no field interns its string.\<close>

fun plain_val :: "gval \<Rightarrow> bool" where
  "plain_val (GSlice (Some xs)) = list_all plain_val xs"
| "plain_val (GArray xs) = list_all plain_val xs"
| "plain_val (GMapSI (Some kvs)) = list_all (\<lambda>kv. plain_val (snd kv)) kvs"
| "plain_val (GMap (Some kvs)) = list_all (\<lambda>kv. plain_val (fst kv) \<and> plain_val (snd kv)) kvs"
| "plain_val (GPtr (Some v)) = plain_val v"
| "plain_val (GStruct a fs) =
     list_all (\<lambda>f. \<not> f_intern (fst f) \<and> (case snd f of None \<Rightarrow> True | Some v \<Rightarrow> plain_val v)) fs"
| "plain_val (GUser k e canAddr r) =
     ((case r of Some (Inl _) \<Rightarrow> False | _ \<Rightarrow> True) \<and>
      (k \<in> {UMarshalerPtr, UBinaryAddr, UTextAddr} \<longrightarrow> canAddr))"
| "plain_val (GExt extID e r) = (case r of Some (Inl _) \<Rightarrow> False | _ \<Rightarrow> True)"
| "plain_val GUnsupported = False"
| "plain_val v = True"

lemma emits_map_order:
  assumes "emits out k (g (forE f (map_order (fst k) kvs))) bs k'"
  shows "emits out k (bindE (enc_flag sortMapKeysFlag)
           (\<lambda>srt. if srt then g (forE f (sorted_entries kvs)) else g (forE f kvs))) bs k'"
  by (rule emits_flag) (use assms in \<open>simp add: map_order_def split: if_splits\<close>)

lemmas emits_map_order_id = emits_map_order [where g = "\<lambda>x. x"]
lemmas emits_map_order_hdr = emits_map_order [where g = "\<lambda>x. bindE h (\<lambda>_. x)" for h]

lemma emits_getFlags:
  "emits out k (f (fst k)) bs k' \<Longrightarrow> emits out k (bindE (getS e_flags) f) bs k'"
  by (rule emits_getS) (auto simp: conf_def)

lemma emits_entries:
  assumes "\<And>kv. kv \<in> set kvs \<Longrightarrow> emits out k (f kv) (a kv) k"
    and "\<And>kv. kv \<in> set kvs \<Longrightarrow> emits out k (g kv) (b kv) k"
  shows "emits out k (forE (\<lambda>kv. bindE (f kv) (\<lambda>_. g kv)) kvs) (concat (map (\<lambda>kv. a kv @ b kv) kvs)) k"
  by (rule emits_forE) (rule emits_bind; rule assms)

lemma emits_field:
  assumes "\<not> f_intern (fst f)" and "\<And>v. snd f = Some v \<Longrightarrow> emits out k (enc v) (w v) k"
  shows "emits out k (field_EncodeValue enc f) (field_wire w f) k"
  using assms unfolding field_EncodeValue_def field_wire_def
  by (auto split: option.split intro: emits_intros)

lemma emits_user:
  assumes "plain_strings k" and "plain_val (GUser uk e canAddr r)"
  shows "emits out k (user_EncodeValue uk canAddr r) (user_wire uk r) k"
  using assms unfolding user_EncodeValue_def user_wire_def
  by (auto simp: marshalValue_def marshalValuePtr_def marshalBinaryValue_def marshalBinaryValueAddr_def
      marshalTextValue_def marshalTextValueAddr_def encodeErrorValue_def error_text_def
      split: ukind.splits option.splits sum.splits intro: emits_intros emits_EncodeString_plain)

lemma emits_ext:
  assumes "case r of Some (Inl _) \<Rightarrow> False | _ \<Rightarrow> True"
  shows "emits out k (makeExtEncoder i (map_option ext_result r))
    (case r of Some (Inr b) \<Rightarrow> ext_len_hdr (int (length b)) @ [i] @ b | _ \<Rightarrow> [Nil_c]) k"
  using assms
  by (auto simp: makeExtEncoder_def ext_result_def split: option.split sum.splits
      intro!: emits_intros emits_bind_eq [OF emits_EncodeExtHeader])

lemma emits_EncodeValue:
  assumes k: "k = (fl, d, P, t)" and plain: "plain_strings k"
  shows "plain_val v \<Longrightarrow> emits out k (EncodeValue v) (wire fl P v) k"
proof (induction v)
  case (GSlice s)
  then show ?case
    by (cases s) (simp_all add: EncodeValue_simps encoder_defs wire_simps list_all_iff emits_intros
        emits_bind [OF emits_headers(3)] emits_forE)
next
  case (GArray xs)
  then show ?case
    by (simp add: EncodeValue_simps encoder_defs wire_simps list_all_iff emits_bind [OF emits_headers(3)] emits_forE)
next
  case (GStrings s)
  then show ?case
    by (cases s) (simp_all add: EncodeValue_simps encoder_defs wire_simps
        encodeStringSliceValue_def emits_intros emits_bind [OF emits_headers(3)] emits_forE
        emits_EncodeString_plain [OF plain])
next
  case (GMapSS m)
  show ?case
    unfolding EncodeValue_simps encoder_defs wire_simps
    by (cases m) (auto simp: k fst_conv
        intro!: emits_intros emits_bind [OF emits_headers(4)] emits_map_order_id emits_entries
        emits_EncodeString_plain [OF plain [unfolded k]])
next
  case (GMapSB m)
  show ?case
    unfolding EncodeValue_simps encoder_defs wire_simps
    by (cases m) (auto simp: k
        intro!: emits_intros emits_bind [OF emits_headers(4)] emits_map_order_id emits_entries
        emits_EncodeString_plain [OF plain [unfolded k]])
next
  case (GMapSI m)
  show ?case
  proof (cases m)
    case (Some kvs)
    have "emits out k (EncodeValue (snd kv)) (wire fl P (snd kv)) k" if "kv \<in> set (map_order fl kvs)" for kv
      using GMapSI Some set_map_order [OF that] by (cases kv) (auto simp: list_all_iff)
    then show ?thesis
      unfolding EncodeValue_simps encoder_defs wire_simps Some option.case
      by (auto simp: k Encode_EncodeValue intro!: emits_map_order_hdr emits_bind [OF emits_headers(4)]
          emits_entries emits_EncodeString_plain [OF plain [unfolded k]])
  qed (simp add: EncodeValue_simps encoder_defs wire_simps emits_intros)
next
  case (GMap m)
  then show ?case
    by (cases m) (fastforce simp: EncodeValue_simps encoder_defs wire_simps list_all_iff
        intro!: emits_intros emits_bind [OF emits_headers(4)] emits_entries)+
next
  case (GPtr p)
  then show ?case
    by (cases p) (auto simp: EncodeValue_simps encoder_defs wire_simps emits_intros)
next
  case (GStruct a fs)
  have field: "emits out k (field_EncodeValue EncodeValue f) (field_wire (wire fl P) f) k"
    if "f \<in> set fs" for f
  proof (rule emits_field)
    have plain_f: "\<not> f_intern (fst f) \<and> (case snd f of None \<Rightarrow> True | Some v \<Rightarrow> plain_val v)"
      using GStruct.prems that by (simp add: list_all_iff)
    then show "\<not> f_intern (fst f)" by blast
    show "emits out k (EncodeValue v) (wire fl P v) k" if "snd f = Some v" for v
      using GStruct.IH [OF \<open>f \<in> set fs\<close>, of "Some v" v] plain_f that by (cases f) simp
  qed
  show ?case
    unfolding EncodeValue_simps encodeStructValue_def encodeStructValueAsArray_def wire_simps
    by (rule emits_getFlags)
      (auto simp: k intro!: emits_bind [OF emits_headers(3)] emits_bind [OF emits_headers(4)]
        emits_forE emits_bind [OF emits_EncodeString_plain [OF plain [unfolded k]]]
        field [unfolded k] dest: set_OmitEmpty)
next
  case (GTime tm)
  show ?case
    using emits_EncodeTime [of out k tm]
    by (simp add: Encode_EncodeValue [symmetric] Encode_simps wire_simps)
next
  case (GRaw b)
  then show ?case
    by (cases b) (auto simp: EncodeValue_simps encoder_defs wire_simps emits_intros)
next
  case (GUser uk e canAddr r)
  then show ?case by (simp add: EncodeValue_simps wire_simps emits_user [OF plain])
next
  case (GExt i e r)
  then show ?case unfolding EncodeValue_simps wire_simps by (intro emits_ext) simp
next
  case (GString s)
  show ?case
    by (simp add: EncodeValue_simps encoder_defs wire_simps emits_EncodeString_plain [OF plain])
qed (simp_all add: EncodeValue_simps encoder_defs wire_simps emits_intros k)

end
