(* ===== verification/Marshal.thy ===== *)
theory Marshal
  imports Encode_Value "HOL-Library.Multiset"
begin

text \<open>
  The entry points of \<^verbatim>\<open>encode.go\<close>: \<open>Append\<close>, \<open>AppendMarshal\<close>, \<open>Marshal\<close> and \<open>EncodeMulti\<close>, and what
  they guarantee whatever encoder the pool hands out. Deterministic encoding with sorted map keys.
\<close>

section \<open>Entry points\<close>

definition marshalInitialBufSize :: nat where
  "marshalInitialBufSize = 64"

definition Append :: "byte slice \<Rightarrow> gval \<Rightarrow> ('w encoder, byte slice) go" where
  "Append dst v e =
     (let b = (if cap dst = 0 then make_slice 0 0 marshalInitialBufSize else dst\<lparr>sl_len := 0\<rparr>)
      in case Encode v (e\<lparr>e_appendBuf := b, e_w := AppendWriter\<rparr>) of
           (r, e1) \<Rightarrow>
             (case r of Inl er \<Rightarrow> Inl er | Inr _ \<Rightarrow> Inr (e_appendBuf e1), e1\<lparr>e_w := e_w e\<rparr>))"

text \<open>
  \<open>pooled\<close> is the encoder \<open>GetEncoder\<close> takes from the pool; the second component is the encoder
  that goes back.
\<close>

definition AppendMarshal ::
  "byte slice \<Rightarrow> gval \<Rightarrow> 'w encoder \<Rightarrow> (go_error + byte slice) \<times> 'w encoder" where
  "AppendMarshal dst v pooled =
     (case Append dst v (Reset None pooled) of (r, e) \<Rightarrow> (r, PutEncoder e))"

definition Marshal_f :: "gval \<Rightarrow> 'w encoder \<Rightarrow> (go_error + byte slice) \<times> 'w encoder" where
  "Marshal_f v = AppendMarshal (make_slice 0 0 0) v"

definition EncodeMulti :: "gval list \<Rightarrow> ('w encoder, unit) go" where
  "EncodeMulti vs = forE Encode vs"

section \<open>What they write\<close>

lemma Append_ok:
  assumes e: "enc_inv e" and plain: "plain_strings (conf e)" "plain_val v"
  shows "\<exists>b e'. Append dst v e = (Inr b, e') \<and> vis b = wire (e_flags e) (e_plat e) v \<and>
           enc_inv e' \<and> conf e' = conf e \<and> e_w e' = e_w e"
proof -
  let ?b = "if cap dst = 0 then make_slice 0 0 marshalInitialBufSize else dst\<lparr>sl_len := 0\<rparr>"
  let ?e = "e\<lparr>e_appendBuf := ?b, e_w := AppendWriter\<rparr>"
  let ?out = "\<lambda>_ :: 'a. [] :: byte list"
  have "enc_ok ?out ?e" "conf ?e = conf e"
    using e by (simp_all add: enc_ok_def enc_inv_def writer_ok_def conf_def)
  then have 1: "emitted ?out ?e (wire (e_flags e) (e_plat e) v) (conf e) (Encode v ?e)"
    using emits_EncodeValue [OF conf_def plain, of ?out] by (simp add: emitsD Encode_EncodeValue)
  obtain r e1 where run: "Encode v ?e = (r, e1)" by fastforce
  have "vis ?b = []" by (simp add: vis_def make_slice_def)
  with 1 show ?thesis
    by (cases r) (auto simp: Append_def run Let_def written_def enc_ok_def enc_inv_def conf_def)
qed

text \<open>
  C4: \<open>AppendMarshal\<close> and \<open>Marshal\<close> do not depend on the pool. Whatever well-formed encoder the pool
  hands out (left-over options, dictionary, tag, buffers and writer), a value all of whose parts
  are encodable is encoded, without an error, to exactly its wire form under the default
  options, the contents of \<open>dst\<close> notwithstanding; and the encoder that returns to the pool is well
  formed, has no writer and keeps no scratch buffer above the limit.
\<close>

theorem AppendMarshal_pool_independent:
  assumes "enc_inv pooled" and "plain_val v"
  shows "\<exists>b e'. AppendMarshal dst v pooled = (Inr b, e') \<and> vis b = wire 0 (e_plat pooled) v \<and>
           enc_inv e' \<and> e_w e' = NilWriter \<and>
           cap (e_buf e') \<le> maxPooledBufSize \<and> cap (e_appendBuf e') \<le> maxPooledBufSize"
proof -
  let ?e = "Reset None pooled"
  have r: "enc_inv ?e" "e_flags ?e = 0" "e_plat ?e = e_plat pooled" "plain_strings (conf ?e)"
    using assms(1)
    by (simp_all add: Reset_def ResetDict_def ResetWriter_def enc_inv_def plain_strings_def conf_def hasFlag_def)
  obtain b e' where 1: "Append dst v ?e = (Inr b, e')" "vis b = wire 0 (e_plat pooled) v" "enc_inv e'"
    using Append_ok [OF r(1,4) assms(2), of dst] r(2,3) by auto
  show ?thesis
    unfolding AppendMarshal_def 1(1)
    using 1(2,3) by (auto simp: PutEncoder_def Let_def enc_inv_def maxPooledBufSize_def)
qed

theorem AppendMarshal_pool_independent_witness:
  "\<exists>b e'. AppendMarshal (make_slice 0 0 0) (GSlice (Some [GInt 5, GString [104, 105]]))
        (UseCompactInts True (NewEncoder amd64 None) :: nat encoder) = (Inr b, e') \<and>
      vis b = [0x92, 5, 0xa2, 104, 105]"
proof -
  have "enc_inv (UseCompactInts True (NewEncoder amd64 None) :: nat encoder)"
    by (simp add: enc_inv_def UseCompactInts_def NewEncoder_def Reset_def ResetDict_def ResetWriter_def)
  moreover have "wire 0 P (GSlice (Some [GInt 5, GString [104, 105]])) = [0x92, 5, 0xa2, 104, 105]" for P
    by (simp add: wire_simps) code_simp
  ultimately show ?thesis
    using AppendMarshal_pool_independent
      [of "UseCompactInts True (NewEncoder amd64 None) :: nat encoder"
        "GSlice (Some [GInt 5, GString [104, 105]])" "make_slice 0 0 0"] by auto
qed

text \<open>
  \<open>EncodeMulti\<close> to a caller's writer: when it succeeds, the writer has accepted the
  concatenation of the wire forms in argument order; when the writer fails, it has accepted a prefix of that
  concatenation; options and dictionary are unchanged.
\<close>

theorem EncodeMulti_writes:
  assumes "enc_ok out e" and "plain_strings (conf e)" and "list_all plain_val vs"
  shows "case EncodeMulti vs e of
     (Inr _, e') \<Rightarrow> written out e' = written out e @ concat (map (wire (e_flags e) (e_plat e)) vs) \<and>
       conf e' = conf e \<and> enc_ok out e'
   | (Inl _, e') \<Rightarrow> \<exists>p. prefix p (concat (map (wire (e_flags e) (e_plat e)) vs)) \<and>
       written out e' = written out e @ p \<and> enc_ok out e'"
proof -
  have "emits out (conf e) (EncodeMulti vs) (concat (map (wire (e_flags e) (e_plat e)) vs)) (conf e)"
    unfolding EncodeMulti_def Encode_EncodeValue
    by (rule emits_forE) (use assms in \<open>auto simp: list_all_iff intro!: emits_EncodeValue [OF conf_def]\<close>)
  from emitsD [OF this assms(1)] show ?thesis
    by (auto simp: emitted_def split: prod.splits sum.splits)
qed

text \<open>A writer that fails once \<open>n\<close> bytes are accepted.\<close>

definition limited_Write :: "nat \<Rightarrow> byte list \<Rightarrow> byte list \<Rightarrow> go_error option \<times> byte list" where
  "limited_Write n b s =
     (if length s + length b \<le> n then (None, s @ b) else (Some (IOError 0), s @ take (n - length s) b))"

lemma limited_sink: "sink (\<lambda>s. s) (limited_Write n)"
  by unfold_locales (auto simp: limited_Write_def take_is_prefix split: if_splits)

theorem EncodeMulti_writes_witness:
  "case EncodeMulti [GBool True, GUint 300, GBytes None]
      (NewEncoder amd64 (Some \<lparr>iw_state = [], iw_Write = limited_Write 2, iw_WriteByte = None\<rparr>)) of
     (Inr _, e') \<Rightarrow> written (\<lambda>s. s) e' = [0xc3, 0xcd, 1, 44, 0xc0]
   | (Inl _, e') \<Rightarrow> prefix (written (\<lambda>s. s) e') [0xc3, 0xcd, 1, 44, 0xc0]"
proof -
  let ?e = "NewEncoder amd64 (Some \<lparr>iw_state = [], iw_Write = limited_Write 2, iw_WriteByte = None\<rparr>)"
  have e: "enc_ok (\<lambda>s. s) ?e" "plain_strings (conf ?e)" "written (\<lambda>s. s) ?e = []" "e_flags ?e = 0"
    by (simp_all add: NewEncoder_def Reset_def ResetDict_def ResetWriter_def enc_ok_def enc_inv_def
        writer_ok_def limited_sink plain_strings_def conf_def hasFlag_def written_def)
  have w: "concat (map (wire 0 P) [GBool True, GUint 300, GBytes None]) = [0xc3, 0xcd, 1, 44, 0xc0]" for P
    by (simp add: wire_simps bin_wire_def uint_wire_def lanes16_def True_c_def Nil_c_def Uint16_c_def)
  show ?thesis
    using EncodeMulti_writes [OF e(1,2), of "[GBool True, GUint 300, GBytes None]"]
    unfolding e(3,4) w by (auto split: prod.splits sum.splits)
qed

section \<open>Deterministic encoding\<close>

text \<open>
  \<open>reorder v w\<close>: \<open>w\<close> is \<open>v\<close> with the entries of its string-keyed maps in another iteration order,
  at any depth.
\<close>

inductive reorder :: "gval \<Rightarrow> gval \<Rightarrow> bool" where
  same: "reorder v v"
| slice: "list_all2 reorder xs ys \<Longrightarrow> reorder (GSlice (Some xs)) (GSlice (Some ys))"
| arrays: "list_all2 reorder xs ys \<Longrightarrow> reorder (GArray xs) (GArray ys)"
| mapSS: "mset m = mset m' \<Longrightarrow> distinct (map fst m) \<Longrightarrow> reorder (GMapSS (Some m)) (GMapSS (Some m'))"
| mapSB: "mset m = mset m' \<Longrightarrow> distinct (map fst m) \<Longrightarrow> reorder (GMapSB (Some m)) (GMapSB (Some m'))"
| mapSI: "mset m1 = mset m' \<Longrightarrow> distinct (map fst m1) \<Longrightarrow>
    list_all2 (\<lambda>a b. fst a = fst b \<and> reorder (snd a) (snd b)) m m1 \<Longrightarrow>
    reorder (GMapSI (Some m)) (GMapSI (Some m'))"
| ptr: "reorder v w \<Longrightarrow> reorder (GPtr (Some v)) (GPtr (Some w))"
| struct: "list_all2 (\<lambda>f g. fst f = fst g \<and> rel_option reorder (snd f) (snd g)) fs gs \<Longrightarrow>
    reorder (GStruct a fs) (GStruct a gs)"

lemma sorted_entries_perm:
  assumes "mset m = mset m'" and "distinct (map fst m)"
  shows "sorted_entries m = sorted_entries m'"
proof -
  have "mset (map fst m) = mset (map fst m')" using assms(1) by (metis mset_map)
  moreover from this have "distinct (map fst m')" using assms(2) mset_eq_imp_distinct_iff by blast
  then have "map_of m = map_of m'"
    using assms mset_eq_setD [OF assms(1)] by (simp add: map_of_inject_set)
  ultimately show ?thesis
    unfolding sorted_entries_def by (metis sorted_list_of_multiset_mset)
qed

lemma map_order_perm:
  "mset m = mset m' \<Longrightarrow> distinct (map fst m) \<Longrightarrow> hasFlag fl sortMapKeysFlag \<Longrightarrow>
     map_order fl m = map_order fl m'"
  unfolding map_order_def by (simp add: sorted_entries_perm)

lemma sorted_entries_rel:
  assumes "list_all2 (\<lambda>a b. fst a = fst b \<and> R (snd a) (snd b)) m m1"
  shows "list_all2 (\<lambda>a b. fst a = fst b \<and> R (snd a) (snd b)) (sorted_entries m) (sorted_entries m1)"
proof -
  have keys: "map fst m = map fst m1"
    using assms by (induction rule: list_all2_induct) auto
  have lookup: "R (the (map_of m k)) (the (map_of m1 k))" if "k \<in> set (map fst m)" for k
    using assms that by (induction rule: list_all2_induct) auto
  show ?thesis
    unfolding sorted_entries_def keys [symmetric]
    using lookup by (auto simp: list_all2_map1 list_all2_map2 intro!: list.rel_refl_strong)
qed

lemma reorder_GTime [simp]:
  "reorder (GTime t) w \<longleftrightarrow> w = GTime t"
  "reorder v (GTime t) \<longleftrightarrow> v = GTime t"
  by (auto elim: reorder.cases intro: same)

definition same_field ::
  "(gval \<Rightarrow> gval \<Rightarrow> bool) \<Rightarrow> fmeta \<times> gval option \<Rightarrow> fmeta \<times> gval option \<Rightarrow> bool" where
  "same_field R f g \<longleftrightarrow> fst f = fst g \<and> rel_option R (snd f) (snd g)"

lemma same_fields_OmitEmpty:
  assumes "list_all2 (same_field R) fs gs"
    and "\<And>v w. R v w \<Longrightarrow> isEmptyValue forced v = isEmptyValue forced w"
  shows "list_all2 (same_field R) (OmitEmpty forced fs) (OmitEmpty forced gs)"
proof -
  have omit: "Omit forced f = Omit forced g" if "same_field R f g" for f g
    using that assms(2) by (auto simp: same_field_def Omit_def elim!: option.rel_cases)
  have "list_ex (\<lambda>f. f_omitEmpty (fst f)) fs = list_ex (\<lambda>f. f_omitEmpty (fst f)) gs"
    using assms(1) by (induction rule: list_all2_induct) (auto simp: same_field_def)
  moreover have "list_all2 (same_field R) (filter (\<lambda>f. \<not> Omit forced f) fs) (filter (\<lambda>f. \<not> Omit forced f) gs)"
    using assms(1) by (induction rule: list_all2_induct) (auto dest: omit)
  ultimately show ?thesis using assms(1) by (cases forced) (simp_all add: OmitEmpty_def)
qed

lemma reorder_isEmptyValue: "reorder v w \<Longrightarrow> isEmptyValue forced v = isEmptyValue forced w"
proof (induction rule: reorder.induct)
  case (mapSS m m')
  then show ?case by (cases m; cases m') (auto simp: isEmptyValue_simps)
next
  case (mapSB m m')
  then show ?case by (cases m; cases m') (auto simp: isEmptyValue_simps)
next
  case (mapSI m1 m' m)
  have "length m = length m1" using mapSI(3) by (auto dest: list_all2_lengthD)
  moreover have "length m1 = length m'" using mapSI(1) by (rule mset_eq_length)
  ultimately have "length m = length m'" by simp
  then show ?case by (cases m; cases m') (auto simp: isEmptyValue_simps)
next
  case (ptr v w)
  then have "v = GTime t \<longleftrightarrow> w = GTime t" for t by auto
  then show ?case
    by (simp add: isEmptyValue_simps split: gval.split) blast
next
  case (struct fs gs a)
  then have "list_all2 (same_field (\<lambda>v w. isEmptyValue forced v = isEmptyValue forced w)) fs gs"
    by (auto simp: same_field_def elim!: list_all2_mono option.rel_mono_strong)
  then have "list_all2 (same_field (\<lambda>v w. isEmptyValue forced v = isEmptyValue forced w))
      (OmitEmpty forced fs) (OmitEmpty forced gs)"
    by (rule same_fields_OmitEmpty)
  then show ?case by (auto simp: isEmptyValue_struct)
qed (auto simp: isEmptyValue_simps)


lemma same_fields_wire:
  assumes "list_all2 (same_field R) fs gs" and "\<And>v w. R v w \<Longrightarrow> wire fl P v = wire fl P w"
  shows "map (field_wire (wire fl P)) fs = map (field_wire (wire fl P)) gs"
    and "map (\<lambda>f. str_wire (f_name (fst f)) @ field_wire (wire fl P) f) fs =
         map (\<lambda>f. str_wire (f_name (fst f)) @ field_wire (wire fl P) f) gs"
proof -
  have 1: "fst f = fst g \<and> field_wire (wire fl P) f = field_wire (wire fl P) g" if "same_field R f g" for f g
    using that assms(2) by (auto simp: same_field_def field_wire_def elim!: option.rel_cases)
  show "map (field_wire (wire fl P)) fs = map (field_wire (wire fl P)) gs"
    "map (\<lambda>f. str_wire (f_name (fst f)) @ field_wire (wire fl P) f) fs =
       map (\<lambda>f. str_wire (f_name (fst f)) @ field_wire (wire fl P) f) gs"
    using assms(1) by (induction rule: list_all2_induct) (simp_all add: 1)
qed

lemma map_eq_rel: "list_all2 R xs ys \<Longrightarrow> (\<And>x y. R x y \<Longrightarrow> f x = g y) \<Longrightarrow> map f xs = map g ys"
  by (induction rule: list_all2_induct) auto



end
