(* ===== verification/Decoder.thy ===== *)
theory Decoder
  imports Encoder
begin

text \<open>
  The core of \<^verbatim>\<open>decode.go\<close>: the reader, the \<open>Decoder\<close> state with its reset, option and pool
  operations, nesting depth, the guards against forged lengths, and the primitive reads.

  \<open>yields k bs n m x k'\<close> is the specification used for every decoding method: in configuration
  \<open>k\<close>, on an input that starts with \<open>bs\<close> and has at least \<open>n\<close> more bytes, \<open>m\<close> returns \<open>x\<close>, consumes
  exactly \<open>bs\<close> and leaves configuration \<open>k'\<close>. \<open>frame\<close> is what every method keeps on every path,
  errors included.
\<close>

section \<open>Limits and options\<close>

definition bytesAllocLimit :: nat where "bytesAllocLimit = 1048576"
definition sliceAllocLimit :: int where "sliceAllocLimit = 1000000"
definition maxMapSize :: int where "maxMapSize = 1000000"
definition defaultDecodeDepthLimit :: int where "defaultDecodeDepthLimit = 10000"

definition looseInterfaceDecodingFlag :: u32 where "looseInterfaceDecodingFlag = 1"
definition disallowUnknownFieldsFlag :: u32 where "disallowUnknownFieldsFlag = 2"
definition usePreallocateValues :: u32 where "usePreallocateValues = 4"
definition disableAllocLimitFlag :: u32 where "disableAllocLimitFlag = 8"

section \<open>Readers\<close>

text \<open>
  A \<open>bufReader\<close>: the bytes it will still deliver, the byte \<^verbatim>\<open>UnreadByte\<close> would put back (the
  package only calls it directly after a successful \<^verbatim>\<open>ReadByte\<close>), the error it reports at its
  end, and whether it has a \<^verbatim>\<open>Len\<close> method. A \<^verbatim>\<open>*bytes.Reader\<close> has one; \<open>newBufferedReader\<close> wraps a
  plain \<^verbatim>\<open>io.Reader\<close> and keeps \<^verbatim>\<open>Len\<close> when the source has it.
\<close>

record reader =
  r_rest :: "byte list"
  r_last :: "byte option"
  r_end :: go_error
  r_hasLen :: bool

definition ReadByte :: "reader \<Rightarrow> (go_error + byte) \<times> reader" where
  "ReadByte r =
     (case r_rest r of
        [] \<Rightarrow> (Inl (r_end r), r)
      | c # cs \<Rightarrow> (Inr c, r\<lparr>r_rest := cs, r_last := Some c\<rparr>))"

definition UnreadByte :: "reader \<Rightarrow> go_error option \<times> reader" where
  "UnreadByte r =
     (case r_last r of
        None \<Rightarrow> (Some ErrInvalidUnreadByte, r)
      | Some c \<Rightarrow> (None, r\<lparr>r_rest := c # r_rest r, r_last := None\<rparr>))"

text \<open>
  \<^verbatim>\<open>io.ReadFull\<close> of \<open>n\<close> bytes: the error, the bytes delivered, the reader afterwards. End of input
  is \<open>EOF\<close> when nothing was read and \<open>ErrUnexpectedEOF\<close> otherwise.
\<close>

definition io_ReadFull :: "reader \<Rightarrow> nat \<Rightarrow> go_error option \<times> byte list \<times> reader" where
  "io_ReadFull r n =
     (if n = 0 then (None, [], r)
      else if n \<le> length (r_rest r)
      then (None, take n (r_rest r),
            r\<lparr>r_rest := drop n (r_rest r), r_last := Some (r_rest r ! (n - 1))\<rparr>)
      else (Some (if r_end r = EOF \<and> r_rest r \<noteq> [] then ErrUnexpectedEOF else r_end r),
            r_rest r, r\<lparr>r_rest := [], r_last := (if r_rest r = [] then r_last r else Some (last (r_rest r)))\<rparr>))"

section \<open>The decoder\<close>

text \<open>
  The fields \<^verbatim>\<open>r\<close> and \<^verbatim>\<open>s\<close> are always set together to the same reader (\<open>d_r\<close>). \<open>d_mapDecoder\<close>
  names the function installed by \<open>SetMapDecoder\<close>. \<open>d_buf\<close> and \<open>d_rec\<close> are nil or a slice;
  \<open>d_plat\<close> holds the build constants.
\<close>

record decoder =
  d_r :: "reader option"
  d_mapDecoder :: "nat option"
  d_structTag :: gostring
  d_buf :: "byte slice option"
  d_rec :: "byte slice option"
  d_dict :: "gostring list"
  d_depth :: int
  d_maxDepth :: int
  d_flags :: u32
  d_plat :: platform

definition dec_ResetReader :: "reader option \<Rightarrow> decoder \<Rightarrow> decoder" where
  "dec_ResetReader r d = d\<lparr>d_mapDecoder := None, d_dict := [], d_r := r\<rparr>"

definition dec_ResetDict :: "reader option \<Rightarrow> gostring list \<Rightarrow> decoder \<Rightarrow> decoder" where
  "dec_ResetDict r dict d =
     (dec_ResetReader r d)\<lparr>d_flags := 0, d_structTag := [], d_dict := dict, d_depth := 0\<rparr>"

definition dec_Reset :: "reader option \<Rightarrow> decoder \<Rightarrow> decoder" where
  "dec_Reset r d = dec_ResetDict r [] d"

definition NewDecoder :: "platform \<Rightarrow> reader option \<Rightarrow> decoder" where
  "NewDecoder P r =
     dec_Reset r \<lparr>d_r = None, d_mapDecoder = None, d_structTag = [], d_buf = None, d_rec = None,
       d_dict = [], d_depth = 0, d_maxDepth = defaultDecodeDepthLimit, d_flags = 0, d_plat = P\<rparr>"

definition dec_WithDict :: "gostring list \<Rightarrow> (decoder, unit) go \<Rightarrow> (decoder, unit) go" where
  "dec_WithDict dict fn d =
     (case fn (d\<lparr>d_dict := dict\<rparr>) of (res, d') \<Rightarrow> (res, d'\<lparr>d_dict := d_dict d\<rparr>))"

definition SetMapDecoder :: "nat option \<Rightarrow> decoder \<Rightarrow> decoder" where
  "SetMapDecoder fn d = d\<lparr>d_mapDecoder := fn\<rparr>"

definition UseLooseInterfaceDecoding :: "bool \<Rightarrow> decoder \<Rightarrow> decoder" where
  "UseLooseInterfaceDecoding on = d_flags_update (setFlag looseInterfaceDecodingFlag on)"

definition dec_SetCustomStructTag :: "gostring \<Rightarrow> decoder \<Rightarrow> decoder" where
  "dec_SetCustomStructTag tag d = d\<lparr>d_structTag := tag\<rparr>"

definition DisallowUnknownFields :: "bool \<Rightarrow> decoder \<Rightarrow> decoder" where
  "DisallowUnknownFields on = d_flags_update (setFlag disallowUnknownFieldsFlag on)"

definition dec_UseInternedStrings :: "bool \<Rightarrow> decoder \<Rightarrow> decoder" where
  "dec_UseInternedStrings on = d_flags_update (setFlag useInternedStringsFlag on)"

definition UsePreallocateValues :: "bool \<Rightarrow> decoder \<Rightarrow> decoder" where
  "UsePreallocateValues on = d_flags_update (setFlag usePreallocateValues on)"

definition DisableAllocLimit :: "bool \<Rightarrow> decoder \<Rightarrow> decoder" where
  "DisableAllocLimit on = d_flags_update (setFlag disableAllocLimitFlag on)"

definition SetDecodeDepthLimit :: "int \<Rightarrow> decoder \<Rightarrow> decoder" where
  "SetDecodeDepthLimit limit d =
     (if limit \<le> 0 then d\<lparr>d_maxDepth := defaultDecodeDepthLimit\<rparr> else d\<lparr>d_maxDepth := limit\<rparr>)"

interpretation dec_options: option_word d_flags d_flags_update
  by unfold_locales simp

text \<open>\<open>PutDecoder\<close>: the state in which the decoder goes back to the pool.\<close>

definition slice_cap :: "'a slice option \<Rightarrow> nat" where
  "slice_cap s = (case s of None \<Rightarrow> 0 | Some b \<Rightarrow> cap b)"

definition PutDecoder :: "decoder \<Rightarrow> decoder" where
  "PutDecoder d =
     (let d1 = d\<lparr>d_r := None\<rparr>;
          d2 = (if slice_cap (d_buf d1) > maxPooledBufSize then d1\<lparr>d_buf := None\<rparr> else d1)
      in if slice_cap (d_rec d2) > maxPooledBufSize then d2\<lparr>d_rec := None\<rparr> else d2)"

section \<open>Nesting depth\<close>

definition depth_limit :: "decoder \<Rightarrow> int" where
  "depth_limit d = (if d_maxDepth d \<le> 0 then defaultDecodeDepthLimit else d_maxDepth d)"

definition enterDepth :: "(decoder, unit) go" where
  "enterDepth d =
     (let d1 = d\<lparr>d_depth := d_depth d + 1\<rparr>
      in if d_depth d1 > depth_limit d
         then (Inl (DepthExceeded (depth_limit d)), d1\<lparr>d_depth := d_depth d1 - 1\<rparr>)
         else (Inr (), d1))"

definition leaveDepth :: "decoder \<Rightarrow> decoder" where
  "leaveDepth d = (if d_depth d > 0 then d\<lparr>d_depth := d_depth d - 1\<rparr> else d)"

text \<open>\<^verbatim>\<open>if err := d.enterDepth(); err != nil { return err }; defer d.leaveDepth()\<close>\<close>

definition withDepth :: "(decoder, 'a) go \<Rightarrow> (decoder, 'a) go" where
  "withDepth m = bindE enterDepth (\<lambda>_. deferE leaveDepth m)"

section \<open>Guards against forged lengths\<close>

definition remainingReadable :: "decoder \<Rightarrow> int option" where
  "remainingReadable d =
     (case d_r d of
        None \<Rightarrow> None
      | Some r \<Rightarrow> if r_hasLen r then Some (int (length (r_rest r))) else None)"

definition oversizedContainer :: "int \<Rightarrow> int \<Rightarrow> string \<Rightarrow> decoder \<Rightarrow> go_error option" where
  "oversizedContainer n minBytesPerElem kind d =
     (if n \<le> 0 \<or> minBytesPerElem \<le> 0 then None
      else case remainingReadable d of
        Some remain \<Rightarrow>
          if n > remain div minBytesPerElem then Some (LengthExceedsInput kind n remain) else None
      | None \<Rightarrow>
          if hasFlag (d_flags d) disableAllocLimitFlag then None
          else let limit = (if kind = ''map'' then maxMapSize else sliceAllocLimit)
               in if n > limit then Some (LengthExceedsLimit kind n limit) else None)"

definition rejectOversizedContainer :: "int \<Rightarrow> int \<Rightarrow> string \<Rightarrow> (decoder, unit) go" where
  "rejectOversizedContainer n minBytesPerElem kind = checkE (oversizedContainer n minBytesPerElem kind)"

definition oversizedBytes :: "int \<Rightarrow> decoder \<Rightarrow> go_error option" where
  "oversizedBytes n d =
     (if n \<le> 0 then None
      else case remainingReadable d of
        None \<Rightarrow> None
      | Some remain \<Rightarrow> if n > remain then Some (BytesExceedInput n remain) else None)"

definition rejectOversizedBytes :: "int \<Rightarrow> (decoder, unit) go" where
  "rejectOversizedBytes n = checkE (oversizedBytes n)"

definition uint32ToInt :: "u32 \<Rightarrow> string \<Rightarrow> (decoder, int) go" where
  "uint32ToInt n hint =
     bindE (getS d_plat) (\<lambda>P.
       if uint n > maxInt P then fail (OverflowsInt hint (uint n)) else ret (uint n))"

section \<open>Primitive reads\<close>

text \<open>\<^verbatim>\<open>if d.rec != nil { d.rec = append(d.rec, b...) }\<close>\<close>

definition record_bytes :: "byte list \<Rightarrow> decoder \<Rightarrow> decoder" where
  "record_bytes b d =
     (case d_rec d of
        None \<Rightarrow> d
      | Some s \<Rightarrow> d\<lparr>d_rec := Some (append_slice (p_grow (d_plat d)) 0 s b)\<rparr>)"

definition readCode :: "(decoder, byte) go" where
  "readCode d =
     (case d_r d of
        None \<Rightarrow> (Inl EOF, d)
      | Some r \<Rightarrow>
          (case ReadByte r of
             (Inl e, r') \<Rightarrow> (Inl e, d\<lparr>d_r := Some r'\<rparr>)
           | (Inr c, r') \<Rightarrow> (Inr c, record_bytes [c] (d\<lparr>d_r := Some r'\<rparr>))))"

text \<open>\<^verbatim>\<open>d.s.UnreadByte()\<close>\<close>

definition dec_UnreadByte :: "(decoder, unit) go" where
  "dec_UnreadByte d =
     (case d_r d of
        None \<Rightarrow> (Inl nil_panic, d)
      | Some r \<Rightarrow> (case UnreadByte r of (e, r') \<Rightarrow> (werr e, d\<lparr>d_r := Some r'\<rparr>)))"

definition PeekCode :: "(decoder, byte) go" where
  "PeekCode d =
     (case d_r d of
        None \<Rightarrow> (Inl EOF, d)
      | Some r \<Rightarrow>
          (case ReadByte r of
             (Inl e, r') \<Rightarrow> (Inl e, d\<lparr>d_r := Some r'\<rparr>)
           | (Inr c, r') \<Rightarrow>
               bindE dec_UnreadByte (\<lambda>_. ret c) (d\<lparr>d_r := Some r'\<rparr>)))"

definition hasNilCode :: "(decoder, bool) go" where
  "hasNilCode d = (case PeekCode d of (res, d') \<Rightarrow> (Inr (res = Inr Nil_c), d'))"

text \<open>\<open>readFull\<close> into a caller's buffer of \<open>n\<close> bytes; the bytes read are the result.\<close>

definition readFull :: "nat \<Rightarrow> (decoder, byte list) go" where
  "readFull n d =
     (case d_r d of
        None \<Rightarrow> (Inl EOF, d)
      | Some r \<Rightarrow>
          (case io_ReadFull r n of
             (Some e, _, r') \<Rightarrow> (Inl e, d\<lparr>d_r := Some r'\<rparr>)
           | (None, b, r') \<Rightarrow> (Inr b, record_bytes b (d\<lparr>d_r := Some r'\<rparr>))))"

text \<open>\<^verbatim>\<open>io.ReadFull(r, b[pos:])\<close>: the slice afterwards holds what was delivered.\<close>

definition fill :: "reader \<Rightarrow> byte slice \<Rightarrow> nat \<Rightarrow> go_error option \<times> byte slice \<times> reader" where
  "fill r b pos =
     (case io_ReadFull r (length (vis b) - pos) of (e, got, r') \<Rightarrow> (e, store_at b pos got, r'))"

text \<open>The function \<open>readN\<close> (the method of that name is \<open>dec_readN\<close>).\<close>

definition readN ::
  "platform \<Rightarrow> reader \<Rightarrow> byte slice option \<Rightarrow> nat \<Rightarrow> go_error option \<times> byte slice \<times> reader" where
  "readN P r b n =
     (if b = None \<and> n = 0 then (None, make_slice 0 0 0, r)
      else let b1 = (case b of None \<Rightarrow> make_slice 0 0 n | Some x \<Rightarrow> x);
               b2 = (if n > cap b1
                     then append_slice (p_grow P) 0 b1 (replicate (n - length (vis b1)) 0)
                     else b1\<lparr>sl_len := n\<rparr>)
           in fill r b2 0)"

lemma io_ReadFull_length: "io_ReadFull r n = (e, got, r') \<Longrightarrow> length got \<le> n"
  by (auto simp: io_ReadFull_def split: if_splits)

lemma vis_length_cap: "length (vis b) \<le> cap b"
  by (simp add: vis_def cap_def)

lemma length_vis_store_at:
  "pos + length got \<le> cap b \<Longrightarrow> length (vis (store_at b pos got)) = length (vis b)"
  by (auto simp: vis_def store_at_def cap_def)

lemma length_vis_fill:
  assumes "pos \<le> length (vis b)" and "fill r b pos = (e, b', r')"
  shows "length (vis b') = length (vis b)"
proof -
  obtain got where g: "io_ReadFull r (length (vis b) - pos) = (e, got, r')" "b' = store_at b pos got"
    using assms(2) by (auto simp: fill_def split: prod.splits)
  have "pos + length got \<le> cap b"
    using io_ReadFull_length [OF g(1)] vis_length_cap [of b] assms(1) by linarith
  with g(2) show ?thesis by (simp add: length_vis_store_at)
qed

text \<open>
  The loop of \<open>readNGrow\<close>: each step allocates at most \<open>bytesAllocLimit\<close> and fills it before the
  next. A negative \<^verbatim>\<open>n-len(b)\<close> or \<^verbatim>\<open>b[pos:]\<close> past the end would panic.
\<close>

function readNGrow_loop ::
  "platform \<Rightarrow> reader \<Rightarrow> byte slice \<Rightarrow> nat \<Rightarrow> nat \<Rightarrow> go_error option \<times> byte slice \<times> reader" where
  "readNGrow_loop P r b pos n =
     (if n < length (vis b) \<or> length (vis b) < pos
      then (Some (Panic ''slice bounds out of range''), b, r)
      else let b1 = append_slice (p_grow P) 0 b
                      (replicate (min (n - length (vis b)) bytesAllocLimit) 0)
           in case fill r b1 pos of
                (Some e, b2, r') \<Rightarrow> (Some e, b2, r')
              | (None, b2, r') \<Rightarrow>
                  if length (vis b2) = n then (None, b2, r')
                  else readNGrow_loop P r' b2 (length (vis b2)) n)"
  by pat_completeness auto

termination
proof (relation "measure (\<lambda>(P, r, b, pos, n). n - length (vis b))", goal_cases)
  case (2 P r b pos n b1 e b2x b2 r')
  have "length (vis b2) = length (vis b1)"
    using 2 by (intro length_vis_fill [of pos b1 r None b2 r']) auto
  with 2 show ?case by (auto simp: bytesAllocLimit_def)
qed simp

declare readNGrow_loop.simps [simp del]

definition readNGrow_init :: "byte slice option \<Rightarrow> nat \<Rightarrow> byte slice" where
  "readNGrow_init b n =
     (case b of
        None \<Rightarrow> make_slice 0 0 (if n < 64 then 64 else if n \<le> bytesAllocLimit then n else bytesAllocLimit)
      | Some x \<Rightarrow> x)"

definition readNGrow ::
  "platform \<Rightarrow> reader \<Rightarrow> byte slice option \<Rightarrow> nat \<Rightarrow> go_error option \<times> byte slice \<times> reader" where
  "readNGrow P r b n =
     (if b = None \<and> n = 0 then (None, make_slice 0 0 0, r)
      else let b1 = readNGrow_init b n
           in if n \<le> cap b1 then fill r (b1\<lparr>sl_len := n\<rparr>) 0
              else readNGrow_loop P r (b1\<lparr>sl_len := cap b1\<rparr>) 0 n)"

definition dec_readN :: "nat \<Rightarrow> (decoder, byte list) go" where
  "dec_readN n d =
     (case d_r d of
        None \<Rightarrow> (Inl EOF, d)
      | Some r \<Rightarrow>
          (case (if hasFlag (d_flags d) disableAllocLimitFlag then readN (d_plat d) r (d_buf d) n
                 else readNGrow (d_plat d) r (d_buf d) n) of
             (e, b, r') \<Rightarrow>
               (let d1 = d\<lparr>d_r := Some r', d_buf := Some b\<rparr>
                in case e of
                     Some er \<Rightarrow> (Inl er, d1)
                   | None \<Rightarrow> (Inr (vis b), record_bytes (vis b) d1))))"

section \<open>What the buffer readers read\<close>

text \<open>The error of a short read.\<close>

definition short_error :: "reader \<Rightarrow> go_error \<Rightarrow> bool" where
  "short_error r e \<longleftrightarrow> e = r_end r \<or> r_end r = EOF \<and> e = ErrUnexpectedEOF"

text \<open>
  Reading \<open>n\<close> bytes behind the \<open>pre\<close> already in the slice: either all of them, or a short-read error
  with the input used up.
\<close>

definition read_ok :: "byte list \<Rightarrow> nat \<Rightarrow> reader \<Rightarrow> go_error option \<times> byte slice \<times> reader \<Rightarrow> bool" where
  "read_ok pre n r res \<longleftrightarrow>
     (case res of (e, b, r') \<Rightarrow>
        r_end r' = r_end r \<and> r_hasLen r' = r_hasLen r \<and>
        (if n \<le> length (r_rest r)
         then e = None \<and> vis b = pre @ take n (r_rest r) \<and> r_rest r' = drop n (r_rest r)
         else (\<exists>er. e = Some er \<and> short_error r er) \<and> r_rest r' = []))"

lemma vis_store_full:
  assumes "pos + length got = length (vis b)"
  shows "vis (store_at b pos got) = take pos (vis b) @ got"
proof (cases "sl_len b \<le> length (sl_arr b)")
  case True
  with assms have "sl_len b = pos + length got" by (simp add: vis_def)
  with True show ?thesis by (cases got) (simp_all add: vis_def store_at_def min_def)
next
  case False
  with assms have "pos + length got = length (sl_arr b)" by (simp add: vis_def)
  with False show ?thesis by (auto simp: vis_def store_at_def min_def)
qed

lemma fill_ok:
  assumes "pos \<le> length (vis b)"
  shows "read_ok (take pos (vis b)) (length (vis b) - pos) r (fill r b pos)"
  using assms
  by (auto simp: read_ok_def fill_def io_ReadFull_def short_error_def vis_store_full)

lemma readNGrow_loop_step:
  assumes "pos \<le> length (vis b)" and "length (vis b) \<le> n"
    and "fill r (append_slice (p_grow P) 0 b (replicate (min (n - length (vis b)) bytesAllocLimit) 0)) pos = (e, b2, r')"
  shows "readNGrow_loop P r b pos n =
    (if e \<noteq> None \<or> length (vis b2) = n then (e, b2, r') else readNGrow_loop P r' b2 (length (vis b2)) n)"
  using assms(1,2) unfolding readNGrow_loop.simps [of P r b pos n] Let_def assms(3)
  by (auto split: option.split)

lemma read_ok_chain:
  assumes "read_ok pre a r (None, b2, r1)" and "read_ok (vis b2) c r1 res"
  shows "read_ok pre (a + c) r res"
proof -
  have 1: "a \<le> length (r_rest r)" "vis b2 = pre @ take a (r_rest r)" "r_rest r1 = drop a (r_rest r)"
    "r_end r1 = r_end r" "r_hasLen r1 = r_hasLen r"
    using assms(1) by (auto simp: read_ok_def split: if_splits)
  obtain e b' r' where res: "res = (e, b', r')" by (metis prod_cases3)
  show ?thesis
    using assms(2) 1 unfolding res read_ok_def
    by (auto simp: take_add add.commute short_error_def split: if_splits)
qed

lemma readNGrow_loop_ok:
  "pos \<le> length (vis b) \<Longrightarrow> length (vis b) \<le> n \<Longrightarrow>
     read_ok (take pos (vis b)) (n - pos) r (readNGrow_loop P r b pos n)"
proof (induction P r b pos n rule: readNGrow_loop.induct)
  case (1 P r b pos n)
  let ?b1 = "append_slice (p_grow P) 0 b (replicate (min (n - length (vis b)) bytesAllocLimit) 0)"
  let ?k = "length (vis ?b1)"
  obtain e b2 r' where f: "fill r ?b1 pos = (e, b2, r')" by (metis prod_cases3)
  have k: "pos \<le> ?k" "?k \<le> n" using 1 by simp_all
  have ok: "read_ok (take pos (vis b)) (?k - pos) r (e, b2, r')"
    using fill_ok [OF k(1), of r] 1(2) by (simp add: f)
  have b2: "length (vis b2) = ?k" using length_vis_fill [OF k(1) f] .
  note step = readNGrow_loop_step [OF 1(2,3) f]
  show ?case
  proof (cases e)
    case (Some er)
    with ok k(2) show ?thesis
      by (auto simp: step read_ok_def split: if_splits)
  next
    case None
    show ?thesis
    proof (cases "?k = n")
      case True
      then have "readNGrow_loop P r b pos n = (e, b2, r')" unfolding step b2 by simp
      with ok True show ?thesis by simp
    next
      case False
      have "read_ok (take ?k (vis b2)) (n - ?k) r' (readNGrow_loop P r' b2 ?k n)"
        using 1(1) [of ?b1 e "(b2, r')" b2 r'] 1(2,3) f None False b2 k by auto
      moreover have "readNGrow_loop P r b pos n = readNGrow_loop P r' b2 ?k n"
        using None False unfolding step b2 by simp
      moreover have "take ?k (vis b2) = vis b2" using b2 by simp
      moreover have "n - pos = (?k - pos) + (n - ?k)" using k by simp
      ultimately show ?thesis
        using read_ok_chain [OF ok [unfolded None]] by metis
    qed
  qed
qed

lemma readNGrow_loop_bound:
  "pos \<le> length (vis b) \<Longrightarrow> length (vis b) \<le> n \<Longrightarrow> readNGrow_loop P r b pos n = (e, b', r') \<Longrightarrow>
     length (vis b') \<le> max (length (vis b)) (pos + length (r_rest r)) + bytesAllocLimit"
proof (induction P r b pos n arbitrary: e b' r' rule: readNGrow_loop.induct)
  case (1 P r b pos n)
  let ?b1 = "append_slice (p_grow P) 0 b (replicate (min (n - length (vis b)) bytesAllocLimit) 0)"
  let ?k = "length (vis ?b1)"
  obtain e1 b2 r1 where f: "fill r ?b1 pos = (e1, b2, r1)" by (metis prod_cases3)
  have k: "pos \<le> ?k" "?k \<le> n" "?k \<le> length (vis b) + bytesAllocLimit" using 1(2,3) by simp_all
  have b2: "length (vis b2) = ?k" using length_vis_fill [OF k(1) f] .
  note step = readNGrow_loop_step [OF 1(2,3) f]
  show ?case
  proof (cases "e1 = None \<and> ?k \<noteq> n")
    case True
    then have rec: "readNGrow_loop P r1 b2 ?k n = (e, b', r')"
      using 1(4) unfolding step b2 by simp
    have "length (vis b') \<le> max ?k (?k + length (r_rest r1)) + bytesAllocLimit"
      using 1(1) [of ?b1 e1 "(b2, r1)" b2 r1 e b' r'] 1(2,3) f True b2 k rec by auto
    moreover have "?k - pos \<le> length (r_rest r)" "r_rest r1 = drop (?k - pos) (r_rest r)"
      using fill_ok [OF k(1), of r] True by (auto simp: f read_ok_def split: if_splits)
    ultimately show ?thesis using k(1) by simp
  next
    case False
    then have "b' = b2"
      using 1(4) unfolding step b2 by (auto split: if_splits)
    with b2 k(3) show ?thesis by simp
  qed
qed

lemma readN_ok: "read_ok [] n r (readN P r b n)"
proof (cases "b = None \<and> n = 0")
  case False
  let ?b1 = "case b of None \<Rightarrow> make_slice 0 0 n | Some x \<Rightarrow> x"
  let ?b2 = "if n > cap ?b1 then append_slice (p_grow P) 0 ?b1 (replicate (n - length (vis ?b1)) 0)
             else ?b1\<lparr>sl_len := n\<rparr>"
  have "readN P r b n = fill r ?b2 0" using False by (auto simp: readN_def Let_def)
  moreover have "length (vis ?b2) = n"
  proof (cases "n > cap ?b1")
    case True
    with vis_length_cap [of ?b1] show ?thesis by simp
  qed (simp add: vis_def cap_def)
  ultimately show ?thesis using fill_ok [of 0 ?b2 r] by simp
qed (simp add: readN_def read_ok_def)

lemma readNGrow_ok: "read_ok [] n r (readNGrow P r b n)"
proof (cases "b = None \<and> n = 0")
  case False
  let ?b1 = "readNGrow_init b n"
  show ?thesis
  proof (cases "n \<le> cap ?b1")
    case True
    then have "length (vis (?b1\<lparr>sl_len := n\<rparr>)) = n" by (simp add: vis_def cap_def)
    with True False show ?thesis
      using fill_ok [of 0 "?b1\<lparr>sl_len := n\<rparr>" r] by (auto simp: readNGrow_def Let_def)
  next
    case n: False
    have "length (vis (?b1\<lparr>sl_len := cap ?b1\<rparr>)) = cap ?b1" by (simp add: vis_def cap_def)
    with n False show ?thesis
      using readNGrow_loop_ok [of 0 "?b1\<lparr>sl_len := cap ?b1\<rparr>" n r P] by (auto simp: readNGrow_def Let_def)
  qed
qed (simp add: readNGrow_def read_ok_def)



end
