(* ===== verification/Decoder_Logic.thy ===== *)
theory Decoder_Logic
  imports Decoder
begin

text \<open>
  Reasoning about decoding methods. \<open>frame\<close> relates the decoder before and after a method on every
  path; it is an instance of the interface \<open>frame_relation\<close>, so it is kept by every combination of
  methods that keep it. \<open>yields\<close> is the specification of a successful run on a known input;
  \<open>delivers\<close> goes the other way, from a successful run to the bytes it consumed.
\<close>

section \<open>What every method keeps\<close>

definition frame :: "decoder \<Rightarrow> decoder \<Rightarrow> bool" where
  "frame d d' \<longleftrightarrow>
     (0 \<le> d_depth d \<longrightarrow> d_depth d' = d_depth d) \<and>
     d_maxDepth d' = d_maxDepth d \<and> d_flags d' = d_flags d \<and> d_structTag d' = d_structTag d \<and>
     d_plat d' = d_plat d \<and> d_mapDecoder d' = d_mapDecoder d \<and>
     (d_rec d = None \<longrightarrow> d_rec d' = None) \<and> prefix (d_dict d) (d_dict d') \<and>
     rel_option (\<lambda>r r'. r_end r' = r_end r \<and> r_hasLen r' = r_hasLen r) (d_r d) (d_r d')"

interpretation dec_frame: frame_relation frame
proof
  show "frame s s" for s by (simp add: frame_def option.rel_refl)
  show "frame s u" if "frame s t" "frame t u" for s t u
    using that by (auto simp: frame_def elim!: option.rel_cases intro: prefix_order.trans)
qed

lemmas frame_intros = dec_frame.keeps_intros

named_theorems frames \<open>methods keep the frame\<close>

lemma record_bytes_fields [simp]:
  "d_r (record_bytes b d) = d_r d" "d_depth (record_bytes b d) = d_depth d"
  "d_maxDepth (record_bytes b d) = d_maxDepth d" "d_flags (record_bytes b d) = d_flags d"
  "d_structTag (record_bytes b d) = d_structTag d" "d_plat (record_bytes b d) = d_plat d"
  "d_mapDecoder (record_bytes b d) = d_mapDecoder d" "d_dict (record_bytes b d) = d_dict d"
  "d_rec (record_bytes b d) = None \<longleftrightarrow> d_rec d = None"
  "map_option vis (d_rec (record_bytes b d)) = map_option (\<lambda>s. vis s @ b) (d_rec d)"
  by (simp_all add: record_bytes_def split: option.split)

lemma frame_set_reader:
  assumes "d_r d = Some r" and "r_end r' = r_end r" and "r_hasLen r' = r_hasLen r"
  shows "frame d (d\<lparr>d_r := Some r'\<rparr>)" and "frame d (d\<lparr>d_r := Some r', d_buf := b\<rparr>)"
    and "frame d (record_bytes bs (d\<lparr>d_r := Some r'\<rparr>))"
    and "frame d (record_bytes bs (d\<lparr>d_r := Some r', d_buf := b\<rparr>))"
  using assms by (simp_all add: frame_def)

lemma keeps_readCode [frames]: "keeps frame readCode"
  by (rule keepsI)
    (auto simp: readCode_def ReadByte_def dec_frame.refl split: option.split list.split intro!: frame_set_reader)

lemma keeps_UnreadByte [frames]: "keeps frame dec_UnreadByte"
  by (rule keepsI)
    (auto simp: dec_UnreadByte_def UnreadByte_def dec_frame.refl split: option.split intro!: frame_set_reader)

lemma keeps_PeekCode [frames]: "keeps frame PeekCode"
proof (rule keepsI)
  fix d
  show "frame d (snd (PeekCode d))"
  proof (cases "d_r d")
    case (Some r)
    let ?d = "d\<lparr>d_r := Some (snd (ReadByte r))\<rparr>"
    have "frame d ?d"
      using Some by (auto simp: ReadByte_def split: list.split intro!: frame_set_reader)
    moreover have "keeps frame (bindE dec_UnreadByte (\<lambda>_. ret c))" for c :: byte
      by (intro frame_intros keeps_UnreadByte)
    then have "frame ?d (snd (bindE dec_UnreadByte (\<lambda>_. ret c) ?d))" for c :: byte
      by (simp add: keeps_def)
    ultimately show ?thesis
      using Some by (auto simp: PeekCode_def split: prod.split sum.split intro: dec_frame.trans)
  qed (simp add: PeekCode_def dec_frame.refl)
qed

lemma keeps_hasNilCode [frames]: "keeps frame hasNilCode"
  using keeps_PeekCode by (auto simp: hasNilCode_def intro!: keepsI dest: keepsD split: prod.split)

lemma io_ReadFull_keeps: "io_ReadFull r n = (e, b, r') \<Longrightarrow> r_end r' = r_end r \<and> r_hasLen r' = r_hasLen r"
  by (auto simp: io_ReadFull_def split: if_splits)

lemma keeps_readFull [frames]: "keeps frame (readFull n)"
  by (rule keepsI) (auto simp: readFull_def dec_frame.refl split: option.split prod.split
      intro!: frame_set_reader dest: io_ReadFull_keeps)

text \<open>The two buffer readers behind the method \<open>readN\<close>.\<close>

definition dec_buffer_read :: "decoder \<Rightarrow> reader \<Rightarrow> nat \<Rightarrow> go_error option \<times> byte slice \<times> reader" where
  "dec_buffer_read d r n =
     (if hasFlag (d_flags d) disableAllocLimitFlag then readN (d_plat d) r (d_buf d) n
      else readNGrow (d_plat d) r (d_buf d) n)"

lemma dec_buffer_read_ok: "read_ok [] n r (dec_buffer_read d r n)"
  by (simp add: dec_buffer_read_def readN_ok readNGrow_ok)

lemma dec_readN_step:
  assumes "d_r d = Some r" and "dec_buffer_read d r n = (e, b, r')"
  shows "dec_readN n d = (case e of
       Some er \<Rightarrow> (Inl er, d\<lparr>d_r := Some r', d_buf := Some b\<rparr>)
     | None \<Rightarrow> (Inr (vis b), record_bytes (vis b) (d\<lparr>d_r := Some r', d_buf := Some b\<rparr>)))"
  using assms by (cases e) (simp_all add: dec_readN_def dec_buffer_read_def)

lemma keeps_readN [frames]: "keeps frame (dec_readN n)"
proof (rule keepsI)
  fix d
  show "frame d (snd (dec_readN n d))"
  proof (cases "d_r d")
    case (Some r)
    obtain e b r' where b: "dec_buffer_read d r n = (e, b, r')" by (metis prod_cases3)
    have "r_end r' = r_end r" "r_hasLen r' = r_hasLen r"
      using dec_buffer_read_ok [of n r d] by (auto simp: b read_ok_def)
    with Some show ?thesis
      by (auto simp: dec_readN_step [OF Some b] split: option.split intro!: frame_set_reader)
  qed (simp add: dec_readN_def dec_frame.refl)
qed

lemma keeps_rejects [frames]:
  "keeps frame (rejectOversizedContainer n k s)" "keeps frame (rejectOversizedBytes n)"
  unfolding rejectOversizedContainer_def rejectOversizedBytes_def by (rule frame_intros)+

lemma keeps_uint32ToInt [frames]: "keeps frame (uint32ToInt n s)"
  unfolding uint32ToInt_def by (intro frame_intros)

lemma keeps_withDepth:
  assumes "keeps frame m"
  shows "keeps frame (withDepth m)"
proof (rule keepsI)
  fix d :: decoder
  let ?d = "d\<lparr>d_depth := d_depth d + 1\<rparr>"
  have "frame ?d (snd (m ?d))" using assms by (simp add: keeps_def)
  then show "frame d (snd (withDepth m d))"
    by (auto simp: withDepth_def enterDepth_def leaveDepth_def bindE_def deferE_def Let_def frame_def
        option.rel_refl split: prod.splits)
qed

section \<open>Successful runs on a known input\<close>

record dconf =
  k_flags :: u32
  k_dict :: "gostring list"
  k_depth :: int
  k_maxDepth :: int
  k_plat :: platform
  k_mapDecoder :: "nat option"
  k_structTag :: gostring
  k_hasLen :: bool
  k_rec :: bool

definition dconf_of :: "decoder \<Rightarrow> dconf" where
  "dconf_of d =
     \<lparr>k_flags = d_flags d, k_dict = d_dict d, k_depth = d_depth d, k_maxDepth = d_maxDepth d,
      k_plat = d_plat d, k_mapDecoder = d_mapDecoder d, k_structTag = d_structTag d,
      k_hasLen = (case d_r d of None \<Rightarrow> False | Some r \<Rightarrow> r_hasLen r), k_rec = (d_rec d \<noteq> None)\<rparr>"

definition pending :: "decoder \<Rightarrow> byte list" where
  "pending d = (case d_r d of None \<Rightarrow> [] | Some r \<Rightarrow> r_rest r)"

definition ready :: "byte list \<Rightarrow> nat \<Rightarrow> decoder \<Rightarrow> bool" where
  "ready bs n d \<longleftrightarrow> d_r d \<noteq> None \<and> prefix bs (pending d) \<and> length bs + n \<le> length (pending d)"

text \<open>The decoder consumed exactly \<open>bs\<close>, and recorded it if it was recording.\<close>

definition advanced :: "byte list \<Rightarrow> decoder \<Rightarrow> decoder \<Rightarrow> bool" where
  "advanced bs d d' \<longleftrightarrow>
     d_r d' \<noteq> None \<and> pending d = bs @ pending d' \<and>
     map_option vis (d_rec d') = map_option (\<lambda>s. vis s @ bs) (d_rec d)"

definition yields ::
  "dconf \<Rightarrow> byte list \<Rightarrow> nat \<Rightarrow> (decoder, 'a) go \<Rightarrow> 'a \<Rightarrow> dconf \<Rightarrow> bool" where
  "yields k bs n m x k' \<longleftrightarrow>
     (\<forall>d. ready bs n d \<longrightarrow> dconf_of d = k \<longrightarrow>
        (\<exists>d'. m d = (Inr x, d') \<and> advanced bs d d' \<and> dconf_of d' = k'))"

lemma yieldsI:
  "(\<And>d. ready bs n d \<Longrightarrow> dconf_of d = k \<Longrightarrow> \<exists>d'. m d = (Inr x, d') \<and> advanced bs d d' \<and> dconf_of d' = k') \<Longrightarrow>
     yields k bs n m x k'"
  by (simp add: yields_def)

lemma yieldsD:
  assumes "yields k bs n m x k'" and "ready bs n d" and "dconf_of d = k"
  obtains d' where "m d = (Inr x, d')" and "advanced bs d d'" and "dconf_of d' = k'"
  using assms by (auto simp: yields_def)

named_theorems yields_intros \<open>what each decoding method returns on a known input\<close>

lemma map_option_vis: "map_option (\<lambda>s. vis s @ bs) r = map_option (\<lambda>x. x @ bs) (map_option vis r)"
  by (cases r) auto

lemma advanced_trans: "advanced a d d1 \<Longrightarrow> advanced b d1 d2 \<Longrightarrow> advanced (a @ b) d d2"
  by (cases "d_rec d") (auto simp: advanced_def map_option_vis)

lemma ready_split:
  "ready (a @ b) n d \<Longrightarrow> ready a (length b + n) d"
  by (auto simp: ready_def prefix_def)

lemma ready_after:
  "ready (a @ b) n d \<Longrightarrow> advanced a d d1 \<Longrightarrow> ready b n d1"
  by (auto simp: ready_def advanced_def prefix_def)

lemma yields_mono: "yields k bs n m x k' \<Longrightarrow> n \<le> n' \<Longrightarrow> yields k bs n' m x k'"
  by (auto simp: yields_def ready_def)

lemma yields_ret [yields_intros]: "yields k [] n (ret x) x k"
  by (rule yieldsI) (auto simp: ready_def advanced_def)

lemma yields_bind:
  assumes "yields k a (length b + n) m x k1" and "yields k1 b n (f x) y k2"
  shows "yields k (a @ b) n (bindE m f) y k2"
proof (rule yieldsI)
  fix d
  assume d: "ready (a @ b) n d" "dconf_of d = k"
  obtain d1 where 1: "m d = (Inr x, d1)" "advanced a d d1" "dconf_of d1 = k1"
    using yieldsD [OF assms(1) ready_split [OF d(1)] d(2)] by blast
  obtain d2 where 2: "f x d1 = (Inr y, d2)" "advanced b d1 d2" "dconf_of d2 = k2"
    using yieldsD [OF assms(2) ready_after [OF d(1) 1(2)] 1(3)] by blast
  show "\<exists>d'. bindE m f d = (Inr y, d') \<and> advanced (a @ b) d d' \<and> dconf_of d' = k2"
    using 1 2 advanced_trans by (auto simp: bindE_Inr)
qed

lemma yields_bind_nil:
  "yields k [] (length b + n) m x k1 \<Longrightarrow> yields k1 b n (f x) y k2 \<Longrightarrow> yields k b n (bindE m f) y k2"
  using yields_bind [of k "[]" b n m x k1 f y k2] by simp

lemma yields_bind_ret:
  "yields k a n m x k1 \<Longrightarrow> f x = ret y \<Longrightarrow> yields k a n (bindE m f) y k1"
  using yields_bind [of k a "[]" n m x k1 f y k1] by (simp add: yields_ret)

lemma yields_bind_Cons:
  "yields k [c] (length b + n) m x k1 \<Longrightarrow> yields k1 b n (f x) y k2 \<Longrightarrow> yields k (c # b) n (bindE m f) y k2"
  using yields_bind [of k "[c]" b n m x k1 f y k2] by simp

lemma yields_getS:
  assumes "\<And>d. dconf_of d = k \<Longrightarrow> g d = v" and "yields k bs n (f v) x k'"
  shows "yields k bs n (bindE (getS g) f) x k'"
  using assms by (simp add: yields_def bindE_getS)

lemma yields_flags: "yields k bs n (f (k_flags k)) x k' \<Longrightarrow> yields k bs n (bindE (getS d_flags) f) x k'"
  by (rule yields_getS) (auto simp: dconf_of_def)

lemma yields_dict: "yields k bs n (f (k_dict k)) x k' \<Longrightarrow> yields k bs n (bindE (getS d_dict) f) x k'"
  by (rule yields_getS) (auto simp: dconf_of_def)

lemma dconf_record [simp]: "dconf_of (record_bytes bs d) = dconf_of d"
  by (simp add: dconf_of_def)

lemma pending_record [simp]: "pending (record_bytes bs d) = pending d"
  by (simp add: pending_def)

lemma pending_reader [simp]:
  "d_r d = Some r \<Longrightarrow> pending d = r_rest r"
  "pending (d\<lparr>d_r := Some r'\<rparr>) = r_rest r'" "pending (d\<lparr>d_r := Some r', d_buf := b\<rparr>) = r_rest r'"
  by (simp_all add: pending_def)

lemma dconf_reader:
  assumes "d_r d = Some r" and "r_hasLen r' = r_hasLen r"
  shows "dconf_of (d\<lparr>d_r := Some r'\<rparr>) = dconf_of d"
    and "dconf_of (d\<lparr>d_r := Some r', d_buf := b\<rparr>) = dconf_of d"
  using assms by (simp_all add: dconf_of_def)

lemma ready_reader:
  assumes "ready bs n d"
  obtains r t where "d_r d = Some r" and "r_rest r = bs @ t" and "n \<le> length t"
  using assms by (auto simp: ready_def prefix_def)

lemma yields_readCode [yields_intros]: "yields k [c] n readCode c k"
proof (rule yieldsI)
  fix d
  assume "ready [c] n d" "dconf_of d = k"
  then obtain r cs where "d_r d = Some r" "r_rest r = c # cs"
    by (auto elim: ready_reader)
  with \<open>dconf_of d = k\<close> show "\<exists>d'. readCode d = (Inr c, d') \<and> advanced [c] d d' \<and> dconf_of d' = k"
    by (simp add: readCode_def ReadByte_def advanced_def dconf_reader)
qed

lemma yields_readN:
  assumes "length bs = l"
  shows "yields k bs n (dec_readN l) bs k"
proof (rule yieldsI)
  fix d
  assume "ready bs n d" and k: "dconf_of d = k"
  then obtain r t where r: "d_r d = Some r" "r_rest r = bs @ t"
    by (auto elim: ready_reader)
  obtain e b r' where b: "dec_buffer_read d r l = (e, b, r')" by (metis prod_cases3)
  have "e = None" "vis b = bs" "r_rest r' = t" "r_hasLen r' = r_hasLen r"
    using dec_buffer_read_ok [of l r d] r assms by (auto simp: b read_ok_def split: if_splits)
  with k r show "\<exists>d'. dec_readN l d = (Inr bs, d') \<and> advanced bs d d' \<and> dconf_of d' = k"
    by (simp add: dec_readN_step [OF r(1) b] advanced_def dconf_reader)
qed

lemma yields_readFull:
  assumes "length bs = l"
  shows "yields k bs n (readFull l) bs k"
proof (rule yieldsI)
  fix d
  assume "ready bs n d" and k: "dconf_of d = k"
  then obtain r t where r: "d_r d = Some r" "r_rest r = bs @ t"
    by (auto elim: ready_reader)
  with assms k show "\<exists>d'. readFull l d = (Inr bs, d') \<and> advanced bs d d' \<and> dconf_of d' = k"
    by (auto simp: readFull_def io_ReadFull_def advanced_def dconf_reader)
qed

text \<open>The byte just read is put back; not while recording, where it would be recorded twice.\<close>

lemma yields_unread:
  assumes "\<not> k_rec k" and "yields k (c # bs) n m x k'"
  shows "yields k (c # bs) n (bindE readCode (\<lambda>_. bindE dec_UnreadByte (\<lambda>_. m))) x k'"
proof (rule yieldsI)
  fix d
  assume d: "ready (c # bs) n d" "dconf_of d = k"
  then obtain r t where r: "d_r d = Some r" "r_rest r = c # t"
    by (auto elim: ready_reader)
  have rec: "d_rec d = None" using assms(1) d(2) by (auto simp: dconf_of_def)
  let ?d = "d\<lparr>d_r := Some (r\<lparr>r_rest := c # t, r_last := None\<rparr>)\<rparr>"
  have run: "bindE readCode (\<lambda>_. bindE dec_UnreadByte (\<lambda>_. m)) d = m ?d"
    using r rec by (simp add: bindE_def readCode_def ReadByte_def record_bytes_def dec_UnreadByte_def
        UnreadByte_def werr_def)
  have "ready (c # bs) n ?d" "dconf_of ?d = k" using d r by (simp_all add: ready_def dconf_reader)
  then obtain d' where "m ?d = (Inr x, d')" "advanced (c # bs) ?d d'" "dconf_of d' = k'"
    using yieldsD [OF assms(2)] by blast
  then show "\<exists>d'. bindE readCode (\<lambda>_. bindE dec_UnreadByte (\<lambda>_. m)) d = (Inr x, d') \<and>
      advanced (c # bs) d d' \<and> dconf_of d' = k'"
    unfolding run using r by (auto simp: advanced_def)
qed

lemma yields_peek:
  assumes "yields k (c # bs) n (f c) x k'"
  shows "yields k (c # bs) n (bindE PeekCode f) x k'"
proof (rule yieldsI)
  fix d
  assume d: "ready (c # bs) n d" "dconf_of d = k"
  then obtain r t where r: "d_r d = Some r" "r_rest r = c # t"
    by (auto elim: ready_reader)
  let ?d = "d\<lparr>d_r := Some (r\<lparr>r_rest := c # t, r_last := None\<rparr>)\<rparr>"
  have run: "bindE PeekCode f d = f c ?d"
    using r by (simp add: bindE_def PeekCode_def ReadByte_def dec_UnreadByte_def UnreadByte_def werr_def)
  have "ready (c # bs) n ?d" "dconf_of ?d = k" using d r by (simp_all add: ready_def dconf_reader)
  then obtain d' where "f c ?d = (Inr x, d')" "advanced (c # bs) ?d d'" "dconf_of d' = k'"
    using yieldsD [OF assms] by blast
  then show "\<exists>d'. bindE PeekCode f d = (Inr x, d') \<and> advanced (c # bs) d d' \<and> dconf_of d' = k'"
    unfolding run using r by (auto simp: advanced_def)
qed

text \<open>Guards, for a length the input really has.\<close>

lemma yields_rejectBytes [yields_intros]:
  assumes "l \<le> int n"
  shows "yields k [] n (rejectOversizedBytes l) () k"
  by (rule yieldsI)
    (use assms in \<open>auto simp: rejectOversizedBytes_def checkE_def oversizedBytes_def remainingReadable_def
      ready_def pending_def advanced_def split: option.split\<close>)

definition container_ok :: "dconf \<Rightarrow> int \<Rightarrow> bool" where
  "container_ok k n \<longleftrightarrow> k_hasLen k \<or> hasFlag (k_flags k) disableAllocLimitFlag \<or> n \<le> 1000000"

lemma yields_rejectContainer [yields_intros]:
  assumes "container_ok k l" and "l * w \<le> int n" and "0 < w"
  shows "yields k [] n (rejectOversizedContainer l w s) () k"
proof (rule yieldsI)
  fix d
  assume d: "ready [] n d" "dconf_of d = k"
  then obtain r where r: "d_r d = Some r" "n \<le> length (r_rest r)"
    by (auto elim: ready_reader)
  have "l \<le> int (length (r_rest r)) div w"
    using zdiv_mono1 [of "l * w" "int (length (r_rest r))" w] assms(2,3) r(2) by simp
  with assms d r show "\<exists>d'. rejectOversizedContainer l w s d = (Inr (), d') \<and> advanced [] d d' \<and> dconf_of d' = k"
    by (auto simp: rejectOversizedContainer_def checkE_def oversizedContainer_def remainingReadable_def
        container_ok_def dconf_of_def advanced_def maxMapSize_def sliceAllocLimit_def Let_def split: option.split)
qed

lemma yields_uint32ToInt [yields_intros]:
  "uint w \<le> maxInt (k_plat k) \<Longrightarrow> yields k [] n (uint32ToInt w s) (uint w) k"
  unfolding uint32ToInt_def
  by (rule yields_getS [where v = "k_plat k"]) (auto simp: dconf_of_def yields_ret)

definition k_limit :: "dconf \<Rightarrow> int" where
  "k_limit k = (if k_maxDepth k \<le> 0 then defaultDecodeDepthLimit else k_maxDepth k)"

lemma yields_withDepth:
  assumes "yields (k\<lparr>k_depth := k_depth k + 1\<rparr>) bs n m x (k'\<lparr>k_depth := k_depth k + 1\<rparr>)"
    and "0 \<le> k_depth k" and "k_depth k < k_limit k" and "k_depth k' = k_depth k"
  shows "yields k bs n (withDepth m) x k'"
proof (rule yieldsI)
  fix d
  assume d: "ready bs n d" "dconf_of d = k"
  let ?d = "d\<lparr>d_depth := d_depth d + 1\<rparr>"
  have "ready bs n ?d" "dconf_of ?d = k\<lparr>k_depth := k_depth k + 1\<rparr>"
    using d by (auto simp: ready_def pending_def dconf_of_def)
  then obtain d' where d': "m ?d = (Inr x, d')" "advanced bs ?d d'" "dconf_of d' = k'\<lparr>k_depth := k_depth k + 1\<rparr>"
    using yieldsD [OF assms(1)] by blast
  have e: "enterDepth d = (Inr (), ?d)"
    using assms(3) d(2) by (auto simp: enterDepth_def Let_def k_limit_def depth_limit_def dconf_of_def)
  have "d_depth d' = k_depth k + 1" using arg_cong [OF d'(3), of k_depth] by (simp add: dconf_of_def)
  then have l: "leaveDepth d' = d'\<lparr>d_depth := k_depth k\<rparr>" using assms(2) by (simp add: leaveDepth_def)
  have "withDepth m d = (Inr x, d'\<lparr>d_depth := k_depth k\<rparr>)"
    using d'(1) l e by (simp add: withDepth_def bindE_def deferE_def)
  moreover have "advanced bs d (d'\<lparr>d_depth := k_depth k\<rparr>)"
    using d'(2) by (simp add: advanced_def pending_def)
  moreover have "dconf_of (d'\<lparr>d_depth := k_depth k\<rparr>) = k'"
  proof -
    have "dconf_of (d'\<lparr>d_depth := k_depth k\<rparr>) = (dconf_of d')\<lparr>k_depth := k_depth k\<rparr>"
      by (simp add: dconf_of_def)
    also have "\<dots> = k'" unfolding d'(3) using assms(4) by simp
    finally show ?thesis .
  qed
  ultimately show "\<exists>d'. withDepth m d = (Inr x, d') \<and> advanced bs d d' \<and> dconf_of d' = k'" by blast
qed

section \<open>From a successful run to what it consumed\<close>

definition delivers :: "dconf \<Rightarrow> (decoder, 'a) go \<Rightarrow> (byte list \<Rightarrow> 'a \<Rightarrow> bool) \<Rightarrow> bool" where
  "delivers k m Q \<longleftrightarrow>
     (\<forall>d x d'. d_r d \<noteq> None \<longrightarrow> dconf_of d = k \<longrightarrow> m d = (Inr x, d') \<longrightarrow>
        (\<exists>bs. Q bs x \<and> advanced bs d d' \<and> dconf_of d' = k))"

named_theorems delivers_intros \<open>what successful methods have consumed\<close>

lemma deliversD:
  assumes "delivers k m Q" and "m d = (Inr x, d')" and "d_r d \<noteq> None" and "dconf_of d = k"
  obtains bs where "Q bs x" and "advanced bs d d'" and "dconf_of d' = k"
  using assms unfolding delivers_def by blast

lemma delivers_mono: "delivers k m Q \<Longrightarrow> (\<And>bs x. Q bs x \<Longrightarrow> R bs x) \<Longrightarrow> delivers k m R"
  by (fastforce simp: delivers_def)

lemma delivers_ret: "Q [] x \<Longrightarrow> delivers k (ret x) Q"
  by (auto simp: delivers_def advanced_def)

lemma delivers_fail: "delivers k (fail e) Q"
  by (simp add: delivers_def)

lemma delivers_if: "(b \<Longrightarrow> delivers k m Q) \<Longrightarrow> (\<not> b \<Longrightarrow> delivers k m' Q) \<Longrightarrow> delivers k (if b then m else m') Q"
  by simp

lemma delivers_bind:
  assumes "delivers k m Q" and "\<And>a x. Q a x \<Longrightarrow> delivers k (f x) (\<lambda>b. R (a @ b))"
  shows "delivers k (bindE m f) R"
  unfolding delivers_def
proof (intro allI impI)
  fix d y d'
  assume d: "d_r d \<noteq> None" "dconf_of d = k" and run: "bindE m f d = (Inr y, d')"
  obtain x d1 where 1: "m d = (Inr x, d1)" "f x d1 = (Inr y, d')" using run by (rule bindE_ok)
  obtain a where a: "Q a x" "advanced a d d1" "dconf_of d1 = k"
    by (rule deliversD [OF assms(1) 1(1) d])
  have "d_r d1 \<noteq> None" using a(2) by (simp add: advanced_def)
  then obtain b where "R (a @ b) y" "advanced b d1 d'" "dconf_of d' = k"
    by (rule deliversD [OF assms(2) [OF a(1)] 1(2) _ a(3)])
  with a advanced_trans show "\<exists>bs. R bs y \<and> advanced bs d d' \<and> dconf_of d' = k"
    by (intro exI [of _ "a @ b"]) auto
qed

lemma delivers_bind_nil:
  assumes "delivers k m (\<lambda>bs x. bs = [] \<and> Q x)" and "\<And>x. Q x \<Longrightarrow> delivers k (f x) R"
  shows "delivers k (bindE m f) R"
  by (rule delivers_bind [OF assms(1)]) (use assms(2) in auto)

lemma delivers_getS: "(\<And>v. delivers k (f v) Q) \<Longrightarrow> delivers k (bindE (getS g) f) Q"
  by (rule delivers_bind [where Q = "\<lambda>bs _. bs = []"]) (auto simp: delivers_def advanced_def)

lemma delivers_check [delivers_intros]: "delivers k (checkE f) (\<lambda>bs _. bs = [])"
  by (auto simp: delivers_def checkE_def advanced_def split: option.splits)

lemma delivers_rejects [delivers_intros]:
  "delivers k (rejectOversizedContainer n w s) (\<lambda>bs _. bs = [])"
  "delivers k (rejectOversizedBytes n) (\<lambda>bs _. bs = [])"
  unfolding rejectOversizedContainer_def rejectOversizedBytes_def by (rule delivers_check)+

lemma delivers_uint32ToInt [delivers_intros]: "delivers k (uint32ToInt w s) (\<lambda>bs n. bs = [] \<and> n = uint w)"
  unfolding uint32ToInt_def by (intro delivers_getS delivers_if delivers_fail delivers_ret) simp

lemma delivers_readCode [delivers_intros]: "delivers k readCode (\<lambda>bs c. bs = [c])"
  by (auto simp: delivers_def readCode_def ReadByte_def advanced_def dconf_reader
      split: option.splits list.splits prod.splits sum.splits)

lemma delivers_readN [delivers_intros]: "delivers k (dec_readN n) (\<lambda>bs b. bs = b \<and> length b = n)"
  unfolding delivers_def
proof (intro allI impI)
  fix d x d'
  assume "d_r d \<noteq> None" and k: "dconf_of d = k" and run: "dec_readN n d = (Inr x, d')"
  then obtain r where r: "d_r d = Some r" by blast
  obtain e b r' where b: "dec_buffer_read d r n = (e, b, r')" by (metis prod_cases3)
  have e: "e = None" "x = vis b" "d' = record_bytes (vis b) (d\<lparr>d_r := Some r', d_buf := Some b\<rparr>)"
    using run by (auto simp: dec_readN_step [OF r b] split: option.splits)
  have "n \<le> length (r_rest r)" "vis b = take n (r_rest r)" "r_rest r' = drop n (r_rest r)"
    "r_hasLen r' = r_hasLen r"
    using dec_buffer_read_ok [of n r d] e(1) by (auto simp: b read_ok_def split: if_splits)
  then show "\<exists>bs. (bs = x \<and> length x = n) \<and> advanced bs d d' \<and> dconf_of d' = k"
    using r e k by (simp add: advanced_def dconf_reader)
qed

lemma delivers_withDepth:
  assumes "k_depth k < k_limit k \<Longrightarrow> delivers (k\<lparr>k_depth := k_depth k + 1\<rparr>) m Q" and "0 \<le> k_depth k"
  shows "delivers k (withDepth m) Q"
  unfolding delivers_def
proof (intro allI impI)
  fix d x d'
  assume d: "d_r d \<noteq> None" "dconf_of d = k" and run: "withDepth m d = (Inr x, d')"
  let ?d = "d\<lparr>d_depth := d_depth d + 1\<rparr>"
  have k: "d_depth d = k_depth k" "depth_limit d = k_limit k" "dconf_of ?d = k\<lparr>k_depth := k_depth k + 1\<rparr>"
    using d(2) by (auto simp: dconf_of_def k_limit_def depth_limit_def)
  obtain d1 where 1: "m ?d = (Inr x, d1)" "d' = leaveDepth d1" "k_depth k < k_limit k"
    using run k(1,2) by (auto simp: withDepth_def enterDepth_def bindE_def deferE_def Let_def split: prod.splits if_splits)
  obtain bs where bs: "Q bs x" "advanced bs ?d d1" "dconf_of d1 = k\<lparr>k_depth := k_depth k + 1\<rparr>"
    by (rule deliversD [OF assms(1) [OF 1(3)] 1(1) _ k(3)]) (use d in auto)
  have "d_depth d1 = k_depth k + 1" using arg_cong [OF bs(3), of k_depth] by (simp add: dconf_of_def)
  then have d': "d' = d1\<lparr>d_depth := k_depth k\<rparr>" using 1(2) assms(2) by (simp add: leaveDepth_def)
  have "dconf_of d' = (dconf_of d1)\<lparr>k_depth := k_depth k\<rparr>" by (simp add: d' dconf_of_def)
  also have "\<dots> = k" unfolding bs(3) by simp
  finally have "dconf_of d' = k" .
  moreover have "advanced bs d d'" using bs(2) by (simp add: d' advanced_def pending_def)
  ultimately show "\<exists>bs. Q bs x \<and> advanced bs d d' \<and> dconf_of d' = k" using bs(1) by blast
qed

section \<open>Matching encoders and decoders\<close>

text \<open>
  The interface between an encoding and a decoding method: under the options \<open>ek\<close> the encoder
  writes the wire form of an admissible value, and under the options \<open>dk\<close> the decoder reads it back
  as \<open>view x\<close>. Round trips of single values and of streams of values follow once for all pairs.
\<close>

locale codec =
  fixes enc :: "'a \<Rightarrow> ('w encoder, unit) go" and dec :: "(decoder, 'b) go"
    and wire :: "'a \<Rightarrow> byte list" and view :: "'a \<Rightarrow> 'b"
    and ek :: "econf \<Rightarrow> bool" and dk :: "dconf \<Rightarrow> bool" and ok :: "'a \<Rightarrow> bool"
  assumes writes: "ek k \<Longrightarrow> ok x \<Longrightarrow> emits out k (enc x) (wire x) k"
    and reads: "dk k' \<Longrightarrow> ok x \<Longrightarrow> yields k' (wire x) n dec (view x) k'"
begin

lemma writes_all:
  assumes "ek k" and "list_all ok xs"
  shows "emits out k (forE enc xs) (concat (map wire xs)) k"
  using assms by (intro emits_forE) (auto simp: list_all_iff intro: writes)

lemma reads_all:
  "dk k' \<Longrightarrow> list_all ok xs \<Longrightarrow>
     yields k' (concat (map wire xs)) n (collectE (length xs) dec) (map view xs) k'"
proof (induction xs)
  case Nil
  show ?case by (simp only: list.size collectE.simps list.map concat.simps yields_ret)
next
  case (Cons x xs)
  have "yields k' (wire x) (length (concat (map wire xs)) + n) dec (view x) k'"
    using Cons.prems by (intro reads) simp_all
  moreover have "yields k' (concat (map wire xs)) n
      (bindE (collectE (length xs) dec) (\<lambda>ys. ret (view x # ys))) (view x # map view xs) k'"
    using Cons by (intro yields_bind_ret [OF Cons.IH]) simp_all
  ultimately show ?case
    by (auto intro: yields_bind)
qed

text \<open>
  A stream of values written by the encoder, whatever stood before it on the writer, is read
  back value by value; what follows it in the input is left unread.
\<close>

lemma stream:
  assumes "enc_ok out e" and "ek (conf e)" and "list_all ok xs" and "forE enc xs e = (Inr (), e')"
    and "d_r d \<noteq> None" and "dk (dconf_of d)" and "pending d = drop (length (written out e)) (written out e') @ rest"
  shows "\<exists>d'. collectE (length xs) dec d = (Inr (map view xs), d') \<and> pending d' = rest \<and>
           dconf_of d' = dconf_of d"
proof -
  have "written out e' = written out e @ concat (map wire xs)"
    using emitsD [OF writes_all [OF assms(2,3)] assms(1) refl] assms(4) by simp
  then have p: "pending d = concat (map wire xs) @ rest" using assms(7) by simp
  have "ready (concat (map wire xs)) (length rest) d" using assms(5) p by (simp add: ready_def)
  from yieldsD [OF reads_all [OF assms(6,3)] this refl] show ?thesis
    using p by (metis advanced_def same_append_eq)
qed

end

end
