(* ===== verification/Decode_Number.thy ===== *)
theory Decode_Number
  imports Decoder_Logic Encode_Number
begin

text \<open>
  \<^verbatim>\<open>decode_number.go\<close>: fixed-width reads, the integer decoders that accept every integer code and
  integer-valued floats, and the float decoders; with the round trips of the integer and float
  encoders and what the float guard admits.
\<close>

section \<open>Operations\<close>

definition skipN :: "nat \<Rightarrow> (decoder, unit) go" where
  "skipN n = bindE (dec_readN n) (\<lambda>_. ret ())"

definition dec_uint8 :: "(decoder, byte) go" where
  "dec_uint8 = bindE readCode (\<lambda>c. ret c)"

definition dec_int8 :: "(decoder, byte) go" where
  "dec_int8 = dec_uint8"

definition dec_uint16 :: "(decoder, u16) go" where
  "dec_uint16 = bindE (dec_readN 2) (\<lambda>b. ret (join16 b))"

definition dec_int16 :: "(decoder, u16) go" where
  "dec_int16 = dec_uint16"

definition dec_uint32 :: "(decoder, u32) go" where
  "dec_uint32 = bindE (dec_readN 4) (\<lambda>b. ret (join32 b))"

definition dec_int32 :: "(decoder, u32) go" where
  "dec_int32 = dec_uint32"

definition dec_uint64 :: "(decoder, u64) go" where
  "dec_uint64 = bindE (dec_readN 8) (\<lambda>b. ret (join64 b))"

definition dec_int64 :: "(decoder, u64) go" where
  "dec_int64 = dec_uint64"

text \<open>
  The source's \<open>uint\<close>, \<open>int\<close>, \<open>float32\<close> and \<open>float64\<close> call each other: \<open>int\<close> calls \<open>float64\<close> for the
  two float codes only, and for those \<open>float64\<close> does not call \<open>int\<close>. \<open>floatCode\<close> is \<open>float64\<close>
  restricted to these codes (lemma \<open>float64_floatCode\<close>).
\<close>

definition floatCode :: "byte \<Rightarrow> (decoder, u64) go" where
  "floatCode c =
     (if c = Float_c then bindE dec_uint32 (\<lambda>n. ret (f64_of_f32 n)) else dec_uint64)"

text \<open>
  The guards of the two conversions. The comparisons with \<^verbatim>\<open>math.MaxUint64\<close> and
  \<^verbatim>\<open>math.MaxInt64\<close> are comparisons of \<^verbatim>\<open>float64\<close> values, to which the constants are rounded: \<open>2 ^ 64\<close>
  and \<open>2 ^ 63\<close>.
\<close>

definition float_as_uint :: "u64 \<Rightarrow> (decoder, u64) go" where
  "float_as_uint f =
     (if f64_isNaN f \<or> f64_isInf f \<or> \<not> f64_isInt f \<or> f64_less_int f 0 \<or> f64_greater_int f (2 ^ 64)
      then fail (FloatNotRepresentable f ''uint64'')
      else bindE (getS d_plat) (\<lambda>P. ret (f64_to_u64 P f)))"

definition float_as_int :: "u64 \<Rightarrow> (decoder, u64) go" where
  "float_as_int f =
     (if f64_isNaN f \<or> f64_isInf f \<or> \<not> f64_isInt f \<or> f64_less_int f (- (2 ^ 63)) \<or>
         f64_greater_int f (2 ^ 63)
      then fail (FloatNotRepresentable f ''int64'')
      else bindE (getS d_plat) (\<lambda>P. ret (f64_to_i64 P f)))"

definition dec_uint :: "byte \<Rightarrow> (decoder, u64) go" where
  "dec_uint c =
     (if c = Nil_c then ret 0
      else if IsFixedNum c then ret (scast c)
      else if c = Uint8_c then bindE dec_uint8 (\<lambda>n. ret (ucast n))
      else if c = Int8_c then bindE dec_int8 (\<lambda>n. ret (scast n))
      else if c = Uint16_c then bindE dec_uint16 (\<lambda>n. ret (ucast n))
      else if c = Int16_c then bindE dec_int16 (\<lambda>n. ret (scast n))
      else if c = Uint32_c then bindE dec_uint32 (\<lambda>n. ret (ucast n))
      else if c = Int32_c then bindE dec_int32 (\<lambda>n. ret (scast n))
      else if c = Uint64_c \<or> c = Int64_c then dec_uint64
      else if c = Float_c \<or> c = Double_c then bindE (floatCode c) float_as_uint
      else fail (InvalidCode c ''uint64''))"

definition dec_int :: "byte \<Rightarrow> (decoder, u64) go" where
  "dec_int c =
     (if c = Nil_c then ret 0
      else if IsFixedNum c then ret (scast c)
      else if c = Uint8_c then bindE dec_uint8 (\<lambda>n. ret (ucast n))
      else if c = Int8_c then bindE dec_uint8 (\<lambda>n. ret (scast n))
      else if c = Uint16_c then bindE dec_uint16 (\<lambda>n. ret (ucast n))
      else if c = Int16_c then bindE dec_uint16 (\<lambda>n. ret (scast n))
      else if c = Uint32_c then bindE dec_uint32 (\<lambda>n. ret (ucast n))
      else if c = Int32_c then bindE dec_uint32 (\<lambda>n. ret (scast n))
      else if c = Uint64_c \<or> c = Int64_c then dec_uint64
      else if c = Float_c \<or> c = Double_c then bindE (floatCode c) float_as_int
      else fail (InvalidCode c ''int64''))"

text \<open>\<^verbatim>\<open>if err != nil { return 0, otherErr }\<close>: another error is reported.\<close>

definition replaceErr :: "go_error \<Rightarrow> ('s, 'a) go \<Rightarrow> ('s, 'a) go" where
  "replaceErr e m s = (case m s of (Inl _, s') \<Rightarrow> (Inl e, s') | (Inr x, s') \<Rightarrow> (Inr x, s'))"

definition dec_float32 :: "byte \<Rightarrow> (decoder, u32) go" where
  "dec_float32 c =
     (if c = Float_c then bindE dec_uint32 (\<lambda>n. ret n)
      else bindE (replaceErr (InvalidCode c ''float32'') (dec_int c)) (\<lambda>n. ret (f32_of_int (sint n))))"

definition dec_float64 :: "byte \<Rightarrow> (decoder, u64) go" where
  "dec_float64 c =
     (if c = Float_c then bindE (dec_float32 c) (\<lambda>n. ret (f64_of_f32 n))
      else if c = Double_c then bindE dec_uint64 (\<lambda>n. ret n)
      else bindE (replaceErr (InvalidCode c ''float32'') (dec_int c)) (\<lambda>n. ret (f64_of_int (sint n))))"

definition DecodeUint64 :: "(decoder, u64) go" where
  "DecodeUint64 = bindE readCode dec_uint"

definition DecodeInt64 :: "(decoder, u64) go" where
  "DecodeInt64 = bindE readCode dec_int"

definition DecodeFloat32 :: "(decoder, u32) go" where
  "DecodeFloat32 = bindE readCode dec_float32"

definition DecodeFloat64 :: "(decoder, u64) go" where
  "DecodeFloat64 = bindE readCode dec_float64"

text \<open>The narrower results keep the low bits; an \<^verbatim>\<open>int\<close> is represented by its 64-bit extension.\<close>

definition DecodeUint :: "(decoder, u64) go" where
  "DecodeUint =
     bindE DecodeUint64 (\<lambda>n. bindE (getS d_plat) (\<lambda>P. ret (take_bit (p_intBits P) n)))"

definition DecodeUint8 :: "(decoder, byte) go" where
  "DecodeUint8 = bindE DecodeUint64 (\<lambda>n. ret (ucast n))"

definition DecodeUint16 :: "(decoder, u16) go" where
  "DecodeUint16 = bindE DecodeUint64 (\<lambda>n. ret (ucast n))"

definition DecodeUint32 :: "(decoder, u32) go" where
  "DecodeUint32 = bindE DecodeUint64 (\<lambda>n. ret (ucast n))"

definition DecodeInt :: "(decoder, u64) go" where
  "DecodeInt =
     bindE DecodeInt64 (\<lambda>n. bindE (getS d_plat) (\<lambda>P.
       ret (word_of_int (signed_take_bit (p_intBits P - 1) (sint n)))))"

definition DecodeInt8 :: "(decoder, byte) go" where
  "DecodeInt8 = bindE DecodeInt64 (\<lambda>n. ret (ucast n))"

definition DecodeInt16 :: "(decoder, u16) go" where
  "DecodeInt16 = bindE DecodeInt64 (\<lambda>n. ret (ucast n))"

definition DecodeInt32 :: "(decoder, u32) go" where
  "DecodeInt32 = bindE DecodeInt64 (\<lambda>n. ret (ucast n))"

definition DecodeDuration :: "(decoder, u64) go" where
  "DecodeDuration = bindE DecodeInt64 (\<lambda>n. ret n)"

section \<open>Nil and booleans (decode.go)\<close>

definition DecodeNil_m :: "(decoder, unit) go" where
  "DecodeNil_m = bindE readCode (\<lambda>c. if c \<noteq> Nil_c then fail (InvalidCode c ''nil'') else ret ())"

definition dec_bool :: "byte \<Rightarrow> (decoder, bool) go" where
  "dec_bool c =
     (if c = Nil_c then ret False else if c = False_c then ret False else if c = True_c then ret True
      else fail (InvalidCode c ''bool''))"

definition DecodeBool :: "(decoder, bool) go" where
  "DecodeBool = bindE readCode dec_bool"

section \<open>Frame\<close>

lemma keeps_replaceErr: "keeps frame m \<Longrightarrow> keeps frame (replaceErr e m)"
  by (auto simp: keeps_def replaceErr_def split: prod.split sum.split)
    (metis snd_conv)+

lemma keeps_reads [frames]:
  "keeps frame (skipN n)" "keeps frame dec_uint8" "keeps frame dec_int8" "keeps frame dec_uint16"
  "keeps frame dec_int16" "keeps frame dec_uint32" "keeps frame dec_int32" "keeps frame dec_uint64"
  "keeps frame dec_int64"
  unfolding skipN_def dec_uint8_def dec_int8_def dec_uint16_def dec_int16_def dec_uint32_def
    dec_int32_def dec_uint64_def dec_int64_def
  by (intro frame_intros frames)+

lemma keeps_numbers [frames]:
  "keeps frame (floatCode c)" "keeps frame (float_as_uint f)" "keeps frame (float_as_int f)"
  unfolding floatCode_def float_as_uint_def float_as_int_def by (intro frame_intros frames)+

lemma keeps_int_uint [frames]: "keeps frame (dec_uint c)" "keeps frame (dec_int c)"
  unfolding dec_uint_def dec_int_def by (intro frame_intros frames)+

lemma keeps_float [frames]: "keeps frame (dec_float32 c)" "keeps frame (dec_float64 c)"
  unfolding dec_float32_def dec_float64_def by (intro frame_intros frames keeps_replaceErr)+

lemma keeps_bool [frames]: "keeps frame (dec_bool c)"
  unfolding dec_bool_def by (intro frame_intros)

lemma keeps_DecodeInt64 [frames]: "keeps frame DecodeInt64" "keeps frame DecodeUint64"
  unfolding DecodeInt64_def DecodeUint64_def by (intro frame_intros frames)+

lemma float64_floatCode: "c = Float_c \<or> c = Double_c \<Longrightarrow> dec_float64 c = floatCode c"
  by (auto simp: dec_float64_def dec_float32_def floatCode_def Float_c_def Double_c_def)

section \<open>Reading back what the encoder wrote\<close>

lemma yields_fixed [yields_intros]:
  "yields k [b] n dec_uint8 b k" "yields k (lanes16 h) n dec_uint16 h k"
  "yields k (lanes32 w) n dec_uint32 w k" "yields k (lanes64 q) n dec_uint64 q k"
  unfolding dec_uint8_def dec_uint16_def dec_uint32_def dec_uint64_def
  by (rule yields_bind_ret [OF yields_readCode] yields_bind_ret [OF yields_readN]; simp)+

lemma yields_skipN: "length bs = l \<Longrightarrow> yields k bs n (skipN l) () k"
  unfolding skipN_def by (rule yields_bind_ret [OF yields_readN]) simp_all

text \<open>The forms in which an integer can stand on the wire, without the floats.\<close>

lemma dec_int_codes:
  "dec_int Nil_c = ret 0"
  "IsFixedNum c \<Longrightarrow> dec_int c = ret (scast c)"
  "dec_int Uint8_c = bindE dec_uint8 (\<lambda>n. ret (ucast n))"
  "dec_int Int8_c = bindE dec_uint8 (\<lambda>n. ret (scast n))"
  "dec_int Uint16_c = bindE dec_uint16 (\<lambda>n. ret (ucast n))"
  "dec_int Int16_c = bindE dec_uint16 (\<lambda>n. ret (scast n))"
  "dec_int Uint32_c = bindE dec_uint32 (\<lambda>n. ret (ucast n))"
  "dec_int Int32_c = bindE dec_uint32 (\<lambda>n. ret (scast n))"
  "dec_int Uint64_c = dec_uint64" "dec_int Int64_c = dec_uint64"
  by (auto simp: dec_int_def class_defs opcode_values word_le_nat_alt)

lemma dec_uint_codes:
  "dec_uint Nil_c = ret 0"
  "IsFixedNum c \<Longrightarrow> dec_uint c = ret (scast c)"
  "dec_uint Uint8_c = bindE dec_uint8 (\<lambda>n. ret (ucast n))"
  "dec_uint Int8_c = bindE dec_uint8 (\<lambda>n. ret (scast n))"
  "dec_uint Uint16_c = bindE dec_uint16 (\<lambda>n. ret (ucast n))"
  "dec_uint Int16_c = bindE dec_uint16 (\<lambda>n. ret (scast n))"
  "dec_uint Uint32_c = bindE dec_uint32 (\<lambda>n. ret (ucast n))"
  "dec_uint Int32_c = bindE dec_uint32 (\<lambda>n. ret (scast n))"
  "dec_uint Uint64_c = dec_uint64" "dec_uint Int64_c = dec_uint64"
  by (auto simp: dec_uint_def dec_int8_def dec_int16_def dec_int32_def class_defs opcode_values
      word_le_nat_alt)

lemma yields_int_forms:
  "IsFixedNum c \<Longrightarrow> yields k [c] n DecodeInt64 (scast c) k"
  "yields k [Uint8_c, b] n DecodeInt64 (ucast b) k" "yields k [Int8_c, b] n DecodeInt64 (scast b) k"
  "yields k (Uint16_c # lanes16 h) n DecodeInt64 (ucast h) k"
  "yields k (Int16_c # lanes16 h) n DecodeInt64 (scast h) k"
  "yields k (Uint32_c # lanes32 w) n DecodeInt64 (ucast w) k"
  "yields k (Int32_c # lanes32 w) n DecodeInt64 (scast w) k"
  "yields k (Uint64_c # lanes64 q) n DecodeInt64 q k" "yields k (Int64_c # lanes64 q) n DecodeInt64 q k"
  unfolding DecodeInt64_def
  by (rule yields_bind_ret [OF yields_readCode], simp add: dec_int_codes)
    (rule yields_bind_Cons [OF yields_readCode];
      (simp only: dec_int_codes, (rule yields_bind_ret, rule yields_fixed, rule refl | rule yields_fixed)))+

lemma yields_uint_forms:
  "IsFixedNum c \<Longrightarrow> yields k [c] n DecodeUint64 (scast c) k"
  "yields k [Uint8_c, b] n DecodeUint64 (ucast b) k" "yields k [Int8_c, b] n DecodeUint64 (scast b) k"
  "yields k (Uint16_c # lanes16 h) n DecodeUint64 (ucast h) k"
  "yields k (Int16_c # lanes16 h) n DecodeUint64 (scast h) k"
  "yields k (Uint32_c # lanes32 w) n DecodeUint64 (ucast w) k"
  "yields k (Int32_c # lanes32 w) n DecodeUint64 (scast w) k"
  "yields k (Uint64_c # lanes64 q) n DecodeUint64 q k" "yields k (Int64_c # lanes64 q) n DecodeUint64 q k"
  unfolding DecodeUint64_def
  by (rule yields_bind_ret [OF yields_readCode], simp add: dec_uint_codes)
    (rule yields_bind_Cons [OF yields_readCode];
      (simp only: dec_uint_codes, (rule yields_bind_ret, rule yields_fixed, rule refl | rule yields_fixed)))+

lemma sint_small:
  assumes "unat (n :: u64) < 2 ^ 63"
  shows "sint n = int (unat n)"
proof -
  have "sint (word_of_nat k :: u64) = int k" if "k < 2 ^ 63" for k
    using that by (simp add: signed_of_nat signed_take_bit_int_eq_self)
  from this [OF assms] show ?thesis by simp
qed

lemma fixnum_pos:
  assumes "unat (n :: u64) \<le> 127"
  shows "IsFixedNum (ucast n :: byte)" and "(scast (ucast n :: byte) :: u64) = n"
proof -
  have "unat (ucast n :: byte) = unat n"
    using assms by (simp add: unsigned_ucast_eq take_bit_nat_eq_self)
  then show "IsFixedNum (ucast n :: byte)" using assms by (simp add: code_arith)
  have "int (unat n) \<le> int 127" using assms by (simp only: of_nat_le_iff)
  then have "0 \<le> sint n \<and> sint n \<le> 127" using sint_small [of n] assms by simp
  then show "(scast (ucast n :: byte) :: u64) = n"
    by (intro scast_narrow_widen) simp_all
qed

lemma mod_256_neg: "- 256 \<le> (i :: int) \<Longrightarrow> i < 0 \<Longrightarrow> i mod 256 = i + 256"
  using mod_pos_pos_trivial [of "i + 256" 256] by simp

lemma fixnum_neg:
  assumes "- 32 \<le> sint (n :: u64)" and "sint n < 0"
  shows "IsFixedNum (ucast n :: byte)" and "(scast (ucast n :: byte) :: u64) = n"
proof -
  have s: "sint (ucast n :: byte) = sint n"
    by (rule sint_ucast_narrow) (use assms in simp_all)
  have "uint (ucast n :: byte) = sint n mod 256"
    using uint_sint [of "ucast n :: byte"] s by (simp add: take_bit_eq_mod)
  also have "\<dots> = sint n + 256" using assms by (intro mod_256_neg) simp_all
  finally have "224 \<le> unat (ucast n :: byte)" using assms(1) by (simp add: unat_eq_nat_uint)
  then show "IsFixedNum (ucast n :: byte)" by (simp add: code_arith)
  show "(scast (ucast n :: byte) :: u64) = n"
    by (rule scast_narrow_widen) (use assms in simp_all)
qed

lemma yields_uint_wire:
  "yields k (uint_wire n) m DecodeUint64 n k" "yields k (uint_wire n) m DecodeInt64 n k"
proof -
  have "yields k (uint_wire n) m DecodeUint64 n k \<and> yields k (uint_wire n) m DecodeInt64 n k"
    using fixnum_pos [of n] ucast_narrow_widen [of n, where 'b = 8] ucast_narrow_widen [of n, where 'b = 16]
      ucast_narrow_widen [of n, where 'b = 32]
      yields_int_forms(1) [of "ucast n" k m] yields_uint_forms(1) [of "ucast n" k m]
      yields_int_forms(2) [of k "ucast n" m] yields_uint_forms(2) [of k "ucast n" m]
      yields_int_forms(4) [of k "ucast n" m] yields_uint_forms(4) [of k "ucast n" m]
      yields_int_forms(6) [of k "ucast n" m] yields_uint_forms(6) [of k "ucast n" m]
    by (auto simp: uint_wire_def yields_int_forms(8) yields_uint_forms(8))
  then show "yields k (uint_wire n) m DecodeUint64 n k" "yields k (uint_wire n) m DecodeInt64 n k"
    by blast+
qed

lemma yields_int_wire: "yields k (int_wire n) m DecodeInt64 n k"
proof -
  have narrow: "(scast (ucast n :: byte) :: u64) = n" if "- 128 \<le> sint n" "sint n < 0"
    by (rule scast_narrow_widen) (use that in simp_all)
  have narrow16: "(scast (ucast n :: u16) :: u64) = n" if "- 32768 \<le> sint n" "sint n < 0"
    by (rule scast_narrow_widen) (use that in simp_all)
  have narrow32: "(scast (ucast n :: u32) :: u64) = n" if "- 2147483648 \<le> sint n" "sint n < 0"
    by (rule scast_narrow_widen) (use that in simp_all)
  show ?thesis
    using fixnum_neg [of n] narrow narrow16 narrow32 yields_int_forms(1) [of "ucast n" k m]
      yields_int_forms(3) [of k "ucast n" m] yields_int_forms(5) [of k "ucast n" m]
      yields_int_forms(7) [of k "ucast n" m]
    by (auto simp: int_wire_def yields_uint_wire yields_int_forms(9))
qed

interpretation int_codec: codec EncodeInt DecodeInt64 int_wire "\<lambda>n. n" "\<lambda>_. True" "\<lambda>_. True" "\<lambda>_. True"
  by unfold_locales (rule emits_EncodeInt, rule yields_int_wire)

interpretation uint_codec: codec EncodeUint DecodeUint64 uint_wire "\<lambda>n. n" "\<lambda>_. True" "\<lambda>_. True" "\<lambda>_. True"
  by unfold_locales (rule emits_EncodeUint, rule yields_uint_wire)

text \<open>
  C16: every \<^verbatim>\<open>int64\<close> survives \<open>EncodeInt\<close> and \<open>DecodeInt64\<close>, also as part of a stream: what \<open>EncodeInt\<close>
  wrote for a list of numbers is read back as these numbers, by any decoder and with any options on
  either side, and not a byte more is consumed.
\<close>

theorem EncodeInt_DecodeInt64_stream:
  assumes "enc_ok out e" and "forE EncodeInt ns e = (Inr (), e')" and "d_r d \<noteq> None"
    and "pending d = drop (length (written out e)) (written out e') @ rest"
  shows "\<exists>d'. collectE (length ns) DecodeInt64 d = (Inr ns, d') \<and> pending d' = rest \<and> dconf_of d' = dconf_of d"
  using int_codec.stream [OF assms(1) _ _ assms(2,3) _ assms(4)] by (simp add: list_all_iff)

theorem EncodeInt_DecodeInt64_stream_witness:
  "\<exists>d'. collectE 3 DecodeInt64
      (NewDecoder amd64 (Some \<lparr>r_rest = [0xfe, 0xd1, 0xff, 0x38, 0xcc, 0xc8, 0xc0], r_last = None,
         r_end = EOF, r_hasLen = True\<rparr>)) =
    (Inr [- 2, - 200, 200], d') \<and> pending d' = [0xc0]"
proof -
  let ?out = "\<lambda>_ :: unit. [] :: byte list"
  let ?e = "(NewEncoder amd64 None :: unit encoder)\<lparr>e_w := AppendWriter\<rparr>"
  let ?d = "NewDecoder amd64 (Some \<lparr>r_rest = [0xfe, 0xd1, 0xff, 0x38, 0xcc, 0xc8, 0xc0], r_last = None,
         r_end = EOF, r_hasLen = True\<rparr>)"
  have e: "enc_ok ?out ?e"
    by (simp add: enc_ok_def enc_inv_def writer_ok_def NewEncoder_def Reset_def ResetDict_def ResetWriter_def)
  have w: "concat (map int_wire [- 2, - 200, 200]) = [0xfe, 0xd1, 0xff, 0x38, 0xcc, 0xc8]"
    by (simp add: int_wire_def uint_wire_def lanes16_def Int16_c_def Uint8_c_def)
  obtain r e' where run: "forE EncodeInt [- 2, - 200, 200] ?e = (r, e')" by fastforce
  have "emitted ?out ?e (concat (map int_wire [- 2, - 200, 200])) (conf ?e) (r, e')"
    using emitsD [OF int_codec.writes_all [where xs = "[- 2, - 200, 200]" and k = "conf ?e"] e] run by simp
  then have "r = Inr ()" "written ?out e' = written ?out ?e @ [0xfe, 0xd1, 0xff, 0x38, 0xcc, 0xc8]"
    unfolding w by (cases r; simp)+
  moreover have "pending ?d = [0xfe, 0xd1, 0xff, 0x38, 0xcc, 0xc8] @ [0xc0]" "d_r ?d \<noteq> None"
    by (simp_all add: NewDecoder_def dec_Reset_def dec_ResetDict_def dec_ResetReader_def)
  ultimately show ?thesis
    using EncodeInt_DecodeInt64_stream [OF e, of "[- 2, - 200, 200]" e' ?d "[0xc0]"] run
    by (auto simp: numeral_3_eq_3)
qed

section \<open>Compactness\<close>

lemma int_wire_length:
  "length (int_wire n) =
     (if - 32 \<le> sint n \<and> sint n \<le> 127 then 1 else if - 128 \<le> sint n \<and> sint n \<le> 255 then 2
      else if - 32768 \<le> sint n \<and> sint n \<le> 65535 then 3
      else if - 2147483648 \<le> sint n \<and> sint n \<le> 4294967295 then 5 else 9)"
proof (cases "0 \<le> sint n")
  case True
  then have "uint n = sint n"
    using uint_sint [of n] sint_lt [of n] by (simp add: take_bit_int_eq_self)
  then have "unat n \<le> m \<longleftrightarrow> sint n \<le> int m" for m by (simp add: unat_eq_nat_uint nat_le_iff)
  with True show ?thesis by (simp add: int_wire_def uint_wire_def)
qed (simp add: int_wire_def)

lemma delivers_fixed [delivers_intros]:
  "delivers k dec_uint8 (\<lambda>bs b. length bs = 1)" "delivers k dec_uint16 (\<lambda>bs h. length bs = 2)"
  "delivers k dec_uint32 (\<lambda>bs w. length bs = 4)" "delivers k dec_uint64 (\<lambda>bs q. length bs = 8)"
  unfolding dec_uint8_def dec_uint16_def dec_uint32_def dec_uint64_def
  by (rule delivers_bind, rule delivers_intros, rule delivers_ret, simp)+

lemma sint_range:
  "- 128 \<le> sint (b :: byte) \<and> sint b < 128" "- 32768 \<le> sint (h :: u16) \<and> sint h < 32768"
  "- 2147483648 \<le> sint (w :: u32) \<and> sint w < 2147483648"
  using sint_ge [of b] sint_lt [of b] sint_ge [of h] sint_lt [of h] sint_ge [of w] sint_lt [of w]
  by simp_all

lemma sint_scast_up:
  "sint (scast (b :: byte) :: u64) = sint b" "sint (scast (h :: u16) :: u64) = sint h"
  "sint (scast (w :: u32) :: u64) = sint w"
  using sint_range(1) [of b] sint_range(2) [of h] sint_range(3) [of w] by (simp_all add: signed_scast_eq min_def signed_take_bit_int_eq_self)

lemma uint_range:
  "0 \<le> uint (b :: byte) \<and> uint b \<le> 255" "0 \<le> uint (h :: u16) \<and> uint h \<le> 65535"
  "0 \<le> uint (w :: u32) \<and> uint w \<le> 4294967295"
  using uint_lt2p [of b] uint_lt2p [of h] uint_lt2p [of w] by simp_all

lemma sint_ucast_up:
  "sint (ucast (b :: byte) :: u64) = uint b" "sint (ucast (h :: u16) :: u64) = uint h"
  "sint (ucast (w :: u32) :: u64) = uint w"
  using unat_lt_byte [of b] unat_lt_u16 [of h] unat_lt_u32 [of w] by (subst sint_small; simp)+

lemma sint_fixnum:
  assumes "IsFixedNum c"
  shows "- 32 \<le> sint c \<and> sint c \<le> 127"
proof -
  have "uint c \<le> 127 \<or> 224 \<le> uint c"
    using assms by (simp add: class_defs opcode_values word_le_def)
  moreover have "uint c = sint c mod 256" using uint_sint [of c] by (simp add: take_bit_eq_mod)
  ultimately show ?thesis
    using sint_range(1) [of c] mod_256_neg [of "sint c"] by (cases "sint c < 0") auto
qed

lemma neg_le_uint [simp]: "- numeral k \<le> uint (w :: 'a :: len word)"
  by (rule order_trans [OF _ uint_ge_0]) simp

lemma int_wire_le:
  "- 32 \<le> sint n \<Longrightarrow> sint n \<le> 127 \<Longrightarrow> length (int_wire n) \<le> 1"
  "- 128 \<le> sint n \<Longrightarrow> sint n \<le> 255 \<Longrightarrow> length (int_wire n) \<le> 2"
  "- 32768 \<le> sint n \<Longrightarrow> sint n \<le> 65535 \<Longrightarrow> length (int_wire n) \<le> 3"
  "- 2147483648 \<le> sint n \<Longrightarrow> sint n \<le> 4294967295 \<Longrightarrow> length (int_wire n) \<le> 5"
  "length (int_wire n) \<le> 9"
  unfolding int_wire_length by simp_all

lemma int_wire_short:
  "length (int_wire 0) \<le> 1" "IsFixedNum c \<Longrightarrow> length (int_wire (scast c)) \<le> 1"
  "length (int_wire (ucast (b :: byte))) \<le> 2" "length (int_wire (scast (b :: byte))) \<le> 2"
  "length (int_wire (ucast (h :: u16))) \<le> 3" "length (int_wire (scast (h :: u16))) \<le> 3"
  "length (int_wire (ucast (w :: u32))) \<le> 5" "length (int_wire (scast (w :: u32))) \<le> 5"
  using sint_fixnum [of c] uint_range(1) [of b] uint_range(2) [of h] uint_range(3) [of w]
    sint_range(1) [of b] sint_range(2) [of h] sint_range(3) [of w]
  by (intro int_wire_le(1-4); simp only: sint_scast_up sint_ucast_up signed_0; simp)+

lemma delivers_DecodeInt64:
  "delivers k DecodeInt64 (\<lambda>bs n. hd bs = Float_c \<or> hd bs = Double_c \<or> length (int_wire n) \<le> length bs)"
  unfolding DecodeInt64_def
proof (rule delivers_bind [OF delivers_readCode])
  fix a :: "byte list" and c
  assume a: "a = [c]"
  let ?Q = "\<lambda>b n. hd (a @ b) = Float_c \<or> hd (a @ b) = Double_c \<or> length (int_wire n) \<le> length (a @ b)"
  have step: "delivers k (bindE m (\<lambda>x. ret (f x))) ?Q"
    if "delivers k m (\<lambda>bs x. length bs = l)" "\<And>x. length (int_wire (f x)) \<le> Suc l" for m l and f :: "'a \<Rightarrow> u64"
    using that by (intro delivers_bind [OF that(1)] delivers_ret) (simp add: a)
  show "delivers k (dec_int c) ?Q"
    unfolding dec_int_def
    apply (intro delivers_if)
    subgoal by (rule delivers_ret) (use int_wire_short(1) in \<open>simp add: a\<close>)
    subgoal by (rule delivers_ret) (use int_wire_short(2) [of c] in \<open>simp add: a\<close>)
    subgoal by (rule step [OF delivers_fixed(1)]) (use int_wire_short in \<open>simp add: numeral_2_eq_2\<close>)
    subgoal by (rule step [OF delivers_fixed(1)]) (use int_wire_short in \<open>simp add: numeral_2_eq_2\<close>)
    subgoal by (rule step [OF delivers_fixed(2)]) (use int_wire_short in simp)
    subgoal by (rule step [OF delivers_fixed(2)]) (use int_wire_short in simp)
    subgoal by (rule step [OF delivers_fixed(3)]) (use int_wire_short in simp)
    subgoal by (rule step [OF delivers_fixed(3)]) (use int_wire_short in simp)
    subgoal by (rule delivers_mono [OF delivers_fixed(4)]) (use int_wire_le(5) in \<open>simp add: a\<close>)
    subgoal
      by (rule delivers_bind [where Q = "\<lambda>_ _. True"])
        (auto simp: a float_as_int_def floatCode_def
          intro!: delivers_if delivers_fail delivers_getS delivers_ret
            delivers_bind [OF delivers_fixed(3)] delivers_mono [OF delivers_fixed(4)])
    subgoal by (rule delivers_fail)
    done
qed
text \<open>
  C18: \<open>EncodeInt\<close> is minimal. Whenever \<open>DecodeInt64\<close> succeeds with a number on any input, having
  consumed some bytes that are not a float, the encoding that \<open>EncodeInt\<close> writes for that number is
  no longer than what was consumed.
\<close>

theorem EncodeInt_minimal:
  assumes "DecodeInt64 d = (Inr n, d')" and "pending d = bs @ pending d'" and "d_r d \<noteq> None"
    and "hd bs \<noteq> Float_c" and "hd bs \<noteq> Double_c"
  shows "\<exists>w. emits out ek (EncodeInt n) w ek \<and> length w \<le> length bs"
proof -
  obtain bs' where "hd bs' = Float_c \<or> hd bs' = Double_c \<or> length (int_wire n) \<le> length bs'" "advanced bs' d d'"
    by (rule deliversD [OF delivers_DecodeInt64 assms(1,3) refl])
  moreover from this(2) have "bs' = bs" using assms(2) by (simp add: advanced_def)
  ultimately show ?thesis using assms(4,5) emits_EncodeInt by blast
qed

theorem EncodeInt_minimal_witness:
  "\<exists>d'. DecodeInt64 (NewDecoder amd64 (Some \<lparr>r_rest = [0xd2, 0, 0, 0, 7], r_last = None, r_end = EOF, r_hasLen = True\<rparr>)) =
    (Inr 7, d') \<and> (\<exists>w. emits (\<lambda>_ :: unit. []) (0, [], amd64, []) (EncodeInt 7) w (0, [], amd64, []) \<and> length w \<le> 5)"
proof -
  let ?d = "NewDecoder amd64 (Some \<lparr>r_rest = [0xd2, 0, 0, 0, 7], r_last = None, r_end = EOF, r_hasLen = True\<rparr>)"
  have bs: "Int32_c # lanes32 7 = [0xd2, 0, 0, 0, 7]" by (simp add: Int32_c_def lanes32_def)
  have d: "d_r ?d \<noteq> None" "pending ?d = [0xd2, 0, 0, 0, 7]"
    by (simp_all add: NewDecoder_def dec_Reset_def dec_ResetDict_def dec_ResetReader_def)
  then have "ready (Int32_c # lanes32 7) 0 ?d" by (simp add: ready_def bs)
  then obtain d' where d': "DecodeInt64 ?d = (Inr (scast (7 :: u32)), d')" "advanced (Int32_c # lanes32 7) ?d d'"
    by (rule yieldsD [OF yields_int_forms(7) _ refl])
  then have "\<exists>w. emits (\<lambda>_ :: unit. []) (0, [], amd64, []) (EncodeInt (scast (7 :: u32))) w (0, [], amd64, []) \<and>
      length w \<le> length (Int32_c # lanes32 7)"
    by (intro EncodeInt_minimal [OF d'(1) _ d(1)]) (simp_all add: advanced_def Int32_c_def Float_c_def Double_c_def)
  with d'(1) show ?thesis by simp
qed

section \<open>Floats\<close>

lemma yields_replaceErr: "yields k bs n m x k' \<Longrightarrow> yields k bs n (replaceErr e m) x k'"
  unfolding yields_def replaceErr_def by fastforce

text \<open>A decoder that maps what another one reads.\<close>

lemma yields_via:
  assumes "yields k (c # bs) n (bindE readCode f) x k'"
    and "g c = bindE (replaceErr e (f c)) (\<lambda>v. ret (h v))"
  shows "yields k (c # bs) n (bindE readCode g) (h x) k'"
proof (rule yieldsI)
  fix d
  assume d: "ready (c # bs) n d" "dconf_of d = k"
  obtain d' where d': "bindE readCode f d = (Inr x, d')" "advanced (c # bs) d d'" "dconf_of d' = k'"
    by (rule yieldsD [OF assms(1) d])
  have "ready [c] (length bs + n) d" using ready_split [of "[c]" bs n d] d(1) by simp
  then obtain d1 where 1: "readCode d = (Inr c, d1)"
    by (rule yieldsD [OF yields_readCode _ refl])
  then have "f c d1 = (Inr x, d')" using d'(1) by (simp add: bindE_def)
  then have "bindE readCode g d = (Inr (h x), d')"
    using 1 by (simp add: bindE_def assms(2) replaceErr_def)
  with d' show "\<exists>d'. bindE readCode g d = (Inr (h x), d') \<and> advanced (c # bs) d d' \<and> dconf_of d' = k'"
    by blast
qed

lemma int_wire_code: "\<exists>c bs. int_wire n = c # bs \<and> c \<noteq> Float_c \<and> c \<noteq> Double_c"
proof -
  have "IsFixedNum c \<Longrightarrow> c \<noteq> Float_c \<and> c \<noteq> Double_c" for c by (auto simp: code_arith)
  then show ?thesis
    using fixnum_pos(1) [of n] fixnum_neg(1) [of n]
    by (auto simp: int_wire_def uint_wire_def opcode_values)
qed

lemma yields_int_as_float:
  "yields k (int_wire i) n DecodeFloat64 (f64_of_int (sint i)) k"
  "yields k (int_wire i) n DecodeFloat32 (f32_of_int (sint i)) k"
proof -
  obtain c bs where c: "int_wire i = c # bs" "c \<noteq> Float_c" "c \<noteq> Double_c" using int_wire_code by blast
  have w: "yields k (c # bs) n (bindE readCode dec_int) i k"
    using yields_int_wire [of k i n] by (simp add: c(1) DecodeInt64_def)
  show "yields k (int_wire i) n DecodeFloat64 (f64_of_int (sint i)) k"
    unfolding c(1) DecodeFloat64_def
    by (rule yields_via [OF w, where h = "\<lambda>v. f64_of_int (sint v)"]) (simp add: dec_float64_def c)
  show "yields k (int_wire i) n DecodeFloat32 (f32_of_int (sint i)) k"
    unfolding c(1) DecodeFloat32_def
    by (rule yields_via [OF w, where h = "\<lambda>v. f32_of_int (sint v)"]) (simp add: dec_float32_def c)
qed

lemma yields_raw_floats:
  "yields k (Double_c # lanes64 q) n DecodeFloat64 q k" "yields k (Float_c # lanes32 w) n DecodeFloat32 w k"
proof -
  show "yields k (Double_c # lanes64 q) n DecodeFloat64 q k"
    unfolding DecodeFloat64_def
    by (rule yields_bind_Cons [OF yields_readCode])
      (simp add: dec_float64_def Float_c_def Double_c_def yields_fixed)
  show "yields k (Float_c # lanes32 w) n DecodeFloat32 w k"
    unfolding DecodeFloat32_def
    by (rule yields_bind_Cons [OF yields_readCode])
      (simp add: dec_float32_def yields_fixed)
qed

text \<open>
  C19: what \<open>EncodeFloat64\<close> and \<open>EncodeFloat32\<close> write is read back by \<open>DecodeFloat64\<close> and
  \<open>DecodeFloat32\<close>, under every option and on every platform: bit for bit (NaN payloads included)
  without compact floats, and as an equal number (the sign of a zero apart) with them.
\<close>

theorem float_roundtrip:
  "(\<exists>bs y. emits out (fl, ed, P, t) (EncodeFloat64 q) bs (fl, ed, P, t) \<and>
     (\<forall>k n. yields k bs n DecodeFloat64 y k) \<and> (y = q \<or> hasFlag fl useCompactFloatsFlag \<and> f64_eq y q)) \<and>
   (\<exists>bs z. emits out (fl, ed, P, t) (EncodeFloat32 w) bs (fl, ed, P, t) \<and>
     (\<forall>k n. yields k bs n DecodeFloat32 z k) \<and> (z = w \<or> hasFlag fl useCompactFloatsFlag \<and> f32_eq z w))"
proof (rule conjI)
  have "\<exists>y. (\<forall>k n. yields k (f64_wire fl P q) n DecodeFloat64 y k) \<and>
     (y = q \<or> hasFlag fl useCompactFloatsFlag \<and> f64_eq y q)"
    using yields_int_as_float(1) [of _ "f64_to_i64 P q"] yields_raw_floats(1) [of _ q]
    unfolding f64_wire_def f64_compacts_def by auto
  then show "\<exists>bs y. emits out (fl, ed, P, t) (EncodeFloat64 q) bs (fl, ed, P, t) \<and>
     (\<forall>k n. yields k bs n DecodeFloat64 y k) \<and> (y = q \<or> hasFlag fl useCompactFloatsFlag \<and> f64_eq y q)"
    using emits_EncodeFloat64 by blast
  have "\<exists>z. (\<forall>k n. yields k (f32_wire fl P w) n DecodeFloat32 z k) \<and>
     (z = w \<or> hasFlag fl useCompactFloatsFlag \<and> f32_eq z w)"
    using yields_int_as_float(2) [of _ "f64_to_i64 P (f64_of_f32 w)"] yields_raw_floats(2) [of _ w]
    unfolding f32_wire_def f32_compacts_def by auto
  then show "\<exists>bs z. emits out (fl, ed, P, t) (EncodeFloat32 w) bs (fl, ed, P, t) \<and>
     (\<forall>k n. yields k bs n DecodeFloat32 z k) \<and> (z = w \<or> hasFlag fl useCompactFloatsFlag \<and> f32_eq z w)"
    using emits_EncodeFloat32 by blast
qed

text \<open>
  What the guards on floats admit: exact integers in range, and the first power of two past the range.
\<close>

lemma float_as_int_run:
  "float_as_int f d =
     (if f64_finite f \<and> f64_isInt f \<and> - (2 ^ 63) \<le> f64_trunc f \<and> f64_trunc f \<le> 2 ^ 63
      then (Inr (if f64_trunc f < 2 ^ 63 then word_of_int (f64_trunc f) else p_f64_to_i64 (d_plat d) f), d)
      else (Inl (FloatNotRepresentable f ''int64''), d))"
proof (cases "f64_isInt f")
  case True
  have u: "(0 :: int) < f64_unit" by (simp add: f64_unit_def)
  have "f64_less_int f (- (2 ^ 63)) \<longleftrightarrow> f64_trunc f < - (2 ^ 63)"
    "f64_greater_int f (2 ^ 63) \<longleftrightarrow> 2 ^ 63 < f64_trunc f"
    unfolding f64_less_int_def f64_greater_int_def f64_isInt_trunc [OF True]
    using u by (simp_all only: mult_less_cancel_right_pos)
  then show ?thesis
    using True by (auto simp: float_as_int_def f64_finite_iff f64_to_i64_def bindE_getS not_less)
qed (simp add: float_as_int_def)

text \<open>
  The integer decoders accept a float exactly when it is finite, integral and at least
  \<open>- (2 ^ 63)\<close> and at most \<open>2 ^ 63\<close>, and then return its exact value, with one exception: the value
  \<open>2 ^ 63\<close>, which no \<^verbatim>\<open>int64\<close> represents, passes the guard (the constant \<^verbatim>\<open>math.MaxInt64\<close> is rounded
  up in the comparison) and what is returned is whatever the platform's conversion gives.
\<close>

theorem float_as_int_exact:
  "case float_as_int f d of
     (Inr n, d') \<Rightarrow> d' = d \<and> f64_finite f \<and> f64_isInt f \<and>
       (sint n = f64_trunc f \<or> f64_trunc f = 2 ^ 63 \<and> n = p_f64_to_i64 (d_plat d) f)
   | (Inl e, d') \<Rightarrow> d' = d \<and> e = FloatNotRepresentable f ''int64'' \<and>
       \<not> (f64_finite f \<and> f64_isInt f \<and> - (2 ^ 63) \<le> f64_trunc f \<and> f64_trunc f \<le> 2 ^ 63)"
  unfolding float_as_int_run by (auto simp: signed_of_int signed_take_bit_int_eq_self)

text \<open>
  The float with value \<open>2 ^ 64\<close> is not rejected by \<open>DecodeUint64\<close> although no \<^verbatim>\<open>uint64\<close> represents it:
  the decoder returns the platform's out-of-range conversion without an error.
\<close>

theorem float_2_64_accepted:
  "float_as_uint 0x43f0000000000000 d = (Inr (p_f64_to_u64 (d_plat d) 0x43f0000000000000), d) \<and>
   f64_finite 0x43f0000000000000 \<and> f64_trunc 0x43f0000000000000 = 2 ^ 64"
proof -
  let ?f = "0x43f0000000000000 :: u64"
  have ex: "fl_exp 52 11 (unat ?f) = 1087" "fl_man 52 (unat ?f) = 0" "\<not> fl_neg 52 11 (unat ?f)"
    by (simp_all add: fl_exp_def fl_man_def fl_neg_def)
  then have fin: "f64_finite ?f" by (simp add: f64_finite_def)
  have "f64_scaled ?f = 2 ^ 52 * 2 ^ 1086"
    unfolding f64_scaled_def fl_scaled_def fl_mag_def using ex by simp
  also have "\<dots> = 2 ^ 64 * f64_unit" by (simp add: f64_unit_def flip: power_add)
  finally have sc: "f64_scaled ?f = 2 ^ 64 * f64_unit" .
  have u: "(0 :: int) < f64_unit" by (simp add: f64_unit_def)
  have tr: "f64_trunc ?f = 2 ^ 64" using u unfolding f64_trunc_def sc by (simp add: sgn_mult abs_mult)
  have "f64_isInt ?f" "\<not> f64_less_int ?f 0" "\<not> f64_greater_int ?f (2 ^ 64)"
    unfolding f64_isInt_def f64_less_int_def f64_greater_int_def sc using u by simp_all
  then show ?thesis
    using fin tr by (simp add: float_as_uint_def f64_finite_iff bindE_getS f64_to_u64_def)
qed

end
