(* ===== verification/Decode_String.thy ===== *)
theory Decode_String
  imports Decode_Number Encode_Slice
begin

text \<open>
  \<^verbatim>\<open>decode_string.go\<close>, the decoding halves of \<^verbatim>\<open>intern.go\<close>, \<^verbatim>\<open>time.go\<close> and the headers of \<^verbatim>\<open>ext.go\<close>,
  and the length headers of \<^verbatim>\<open>decode_slice.go\<close> and \<^verbatim>\<open>decode_map.go\<close>.
\<close>

section \<open>Length headers\<close>

text \<open>\<^verbatim>\<open>if err := d.rejectOversizedBytes(n); err != nil { return 0, err }; return n, nil\<close>\<close>

definition checkedBytes :: "int \<Rightarrow> (decoder, int) go" where
  "checkedBytes n = bindE (rejectOversizedBytes n) (\<lambda>_. ret n)"

definition bytesLen :: "byte \<Rightarrow> (decoder, int) go" where
  "bytesLen c =
     (if c = Nil_c then ret (- 1)
      else if IsFixedString c then checkedBytes (uint (c AND FixedStrMask_c))
      else if c = Str8_c \<or> c = Bin8_c then bindE dec_uint8 (\<lambda>n. checkedBytes (uint n))
      else if c = Str16_c \<or> c = Bin16_c then bindE dec_uint16 (\<lambda>n. checkedBytes (uint n))
      else if c = Str32_c \<or> c = Bin32_c then
        bindE dec_uint32 (\<lambda>n. bindE (uint32ToInt n ''string/bytes length'') checkedBytes)
      else fail (InvalidCode c ''string/bytes length''))"

definition DecodeBytesLen :: "(decoder, int) go" where
  "DecodeBytesLen = bindE readCode bytesLen"

definition checkedContainer :: "int \<Rightarrow> string \<Rightarrow> int \<Rightarrow> (decoder, int) go" where
  "checkedContainer w kind n = bindE (rejectOversizedContainer n w kind) (\<lambda>_. ret n)"

definition arrayLen :: "byte \<Rightarrow> (decoder, int) go" where
  "arrayLen c =
     (if c = Nil_c then ret (- 1)
      else if c \<ge> FixedArrayLow_c \<and> c \<le> FixedArrayHigh_c
      then checkedContainer 1 ''array'' (uint (c AND FixedArrayMask_c))
      else if c = Array16_c then bindE dec_uint16 (\<lambda>n. checkedContainer 1 ''array'' (uint n))
      else if c = Array32_c then
        bindE dec_uint32 (\<lambda>n. bindE (uint32ToInt n ''array length'') (checkedContainer 1 ''array''))
      else fail (InvalidCode c ''array length''))"

definition DecodeArrayLen :: "(decoder, int) go" where
  "DecodeArrayLen = bindE readCode arrayLen"

definition mapLen :: "byte \<Rightarrow> (decoder, int) go" where
  "mapLen c =
     (if c = Nil_c then ret (- 1)
      else if c \<ge> FixedMapLow_c \<and> c \<le> FixedMapHigh_c
      then checkedContainer 2 ''map'' (uint (c AND FixedMapMask_c))
      else if c = Map16_c then bindE dec_uint16 (\<lambda>n. checkedContainer 2 ''map'' (uint n))
      else if c = Map32_c then
        bindE dec_uint32 (\<lambda>n. bindE (uint32ToInt n ''map length'') (checkedContainer 2 ''map''))
      else fail (UnexpectedCode c ''map length''))"

section \<open>Extension headers\<close>

definition parseExtLen :: "byte \<Rightarrow> (decoder, int) go" where
  "parseExtLen c =
     (if c = FixExt1_c then ret 1 else if c = FixExt2_c then ret 2 else if c = FixExt4_c then ret 4
      else if c = FixExt8_c then ret 8 else if c = FixExt16_c then ret 16
      else if c = Ext8_c then bindE dec_uint8 (\<lambda>n. checkedBytes (uint n))
      else if c = Ext16_c then bindE dec_uint16 (\<lambda>n. checkedBytes (uint n))
      else if c = Ext32_c then
        bindE dec_uint32 (\<lambda>n. bindE (uint32ToInt n ''ext length'') checkedBytes)
      else fail (InvalidCode c ''ext len''))"

definition extHeader :: "byte \<Rightarrow> (decoder, byte \<times> int) go" where
  "extHeader c = bindE (parseExtLen c) (\<lambda>extLen. bindE readCode (\<lambda>extID. ret (extID, extLen)))"

definition DecodeExtHeader :: "(decoder, byte \<times> int) go" where
  "DecodeExtHeader = bindE readCode extHeader"

definition skipExt :: "byte \<Rightarrow> (decoder, unit) go" where
  "skipExt c = bindE (parseExtLen c) (\<lambda>n. bindE (skipN 1) (\<lambda>_. skipN (nat n)))"

definition extHeaderLen :: "byte \<Rightarrow> nat" where
  "extHeaderLen c = (if c = Ext8_c then 1 else if c = Ext16_c then 2 else if c = Ext32_c then 4 else 0)"

definition skipExtHeader :: "byte \<Rightarrow> (decoder, unit) go" where
  "skipExtHeader c =
     bindE readCode (\<lambda>_. repeatE (extHeaderLen c) (bindE readCode (\<lambda>_. ret ())))"

definition DecodeMapLen :: "(decoder, int) go" where
  "DecodeMapLen =
     bindE readCode (\<lambda>c.
       if IsExt c then bindE (skipExtHeader c) (\<lambda>_. bindE readCode mapLen) else mapLen c)"

section \<open>Strings and byte slices\<close>

definition stringWithLen :: "int \<Rightarrow> (decoder, gostring) go" where
  "stringWithLen n = (if n \<le> 0 then ret [] else dec_readN (nat n))"

definition dec_string :: "byte \<Rightarrow> (decoder, gostring) go" where
  "dec_string c = bindE (bytesLen c) stringWithLen"

definition skipBytes :: "byte \<Rightarrow> (decoder, unit) go" where
  "skipBytes c = bindE (bytesLen c) (\<lambda>n. if n \<le> 0 then ret () else skipN (nat n))"

text \<open>
  The buffer readers on \<^verbatim>\<open>d.r\<close>, not recorded: \<^verbatim>\<open>readN(d.r, b, n)\<close> or \<^verbatim>\<open>readNGrow(d.r, b, n)\<close>. The
  slice is returned on every path, as the source assigns it before it looks at the error.
\<close>

definition read_into :: "byte slice option \<Rightarrow> nat \<Rightarrow> decoder \<Rightarrow> (go_error option \<times> byte slice option) \<times> decoder" where
  "read_into b n d =
     (case d_r d of
        None \<Rightarrow> ((Some nil_panic, b), d)
      | Some r \<Rightarrow>
          (case (if hasFlag (d_flags d) disableAllocLimitFlag then readN (d_plat d) r b n
                 else readNGrow (d_plat d) r b n) of
             (e, b', r') \<Rightarrow> ((e, Some b'), d\<lparr>d_r := Some r'\<rparr>)))"

definition dec_bytes :: "byte \<Rightarrow> byte slice option \<Rightarrow> (decoder, byte slice option) go" where
  "dec_bytes c b =
     bindE (bytesLen c) (\<lambda>n.
       if n = - 1 then ret None
       else (\<lambda>d. case read_into b (nat n) d of
               ((None, b'), d') \<Rightarrow> (Inr b', d') | ((Some e, b'), d') \<Rightarrow> (Inl e, d')))"

definition DecodeBytes :: "(decoder, byte slice option) go" where
  "DecodeBytes = bindE readCode (\<lambda>c. dec_bytes c None)"

text \<open>\<open>bytesPtr\<close>: the value \<^verbatim>\<open>*ptr\<close> before and after, on every path.\<close>

definition bytesPtr :: "byte \<Rightarrow> byte slice option \<Rightarrow> decoder \<Rightarrow> ((go_error + unit) \<times> byte slice option) \<times> decoder" where
  "bytesPtr c ptr d =
     (case bytesLen c d of
        (Inl e, d1) \<Rightarrow> ((Inl e, ptr), d1)
      | (Inr n, d1) \<Rightarrow>
          if n = - 1 then ((Inr (), None), d1)
          else (case read_into ptr (nat n) d1 of
                  ((None, b), d2) \<Rightarrow> ((Inr (), b), d2) | ((Some e, b), d2) \<Rightarrow> ((Inl e, b), d2)))"

definition decodeBytesPtr :: "byte slice option \<Rightarrow> decoder \<Rightarrow> ((go_error + unit) \<times> byte slice option) \<times> decoder" where
  "decodeBytesPtr ptr d =
     (case readCode d of (Inl e, d1) \<Rightarrow> ((Inl e, ptr), d1) | (Inr c, d1) \<Rightarrow> bytesPtr c ptr d1)"

text \<open>A byte array of length \<open>len\<close>; the result is what replaces its first bytes.\<close>

definition decodeByteArrayValue :: "nat \<Rightarrow> (decoder, byte list) go" where
  "decodeByteArrayValue len =
     bindE readCode (\<lambda>c. bindE (bytesLen c) (\<lambda>n.
       if n = - 1 then ret []
       else if n > int len then fail (ArrayTooLong (int len) n)
       else readFull (nat n)))"

section \<open>Interned strings\<close>

definition decodeInternedStringIndex :: "int \<Rightarrow> (decoder, int) go" where
  "decodeInternedStringIndex extLen =
     (if extLen = 1 then bindE dec_uint8 (\<lambda>n. ret (uint n))
      else if extLen = 2 then bindE dec_uint16 (\<lambda>n. ret (uint n))
      else if extLen = 4 then bindE dec_uint32 (\<lambda>n. uint32ToInt n ''interned string index'')
      else fail (UnsupportedExtLen extLen))"

definition internedStringAtIndex :: "int \<Rightarrow> (decoder, gostring) go" where
  "internedStringAtIndex idx =
     bindE (getS d_dict) (\<lambda>dict.
       if idx \<ge> int (length dict) then fail (InternedIndexMissing idx) else ret (dict ! nat idx))"

definition decodeInternedStringWithLen :: "int \<Rightarrow> bool \<Rightarrow> (decoder, gostring) go" where
  "decodeInternedStringWithLen n intern =
     (if n \<le> 0 then ret []
      else bindE (stringWithLen n) (\<lambda>s. bindE (getS d_dict) (\<lambda>dict.
        bindE (if intern \<and> length s \<ge> minInternedStringLen \<and> length dict < maxDictLen
               then modS (\<lambda>d. d\<lparr>d_dict := dict @ [s]\<rparr>) else ret ()) (\<lambda>_. ret s))))"

definition decodeInternedString :: "bool \<Rightarrow> (decoder, gostring) go" where
  "decodeInternedString intern =
     bindE readCode (\<lambda>c.
       if IsFixedString c then decodeInternedStringWithLen (uint (c AND FixedStrMask_c)) intern
       else if c = Nil_c then ret []
       else if c = FixExt1_c \<or> c = FixExt2_c \<or> c = FixExt4_c then
         bindE (extHeader c) (\<lambda>(typeID, extLen).
           if typeID \<noteq> internedStringExtID then fail (WrongExtType typeID internedStringExtID)
           else bindE (decodeInternedStringIndex extLen) internedStringAtIndex)
       else if c = Str8_c \<or> c = Bin8_c then
         bindE dec_uint8 (\<lambda>n. decodeInternedStringWithLen (uint n) intern)
       else if c = Str16_c \<or> c = Bin16_c then
         bindE dec_uint16 (\<lambda>n. decodeInternedStringWithLen (uint n) intern)
       else if c = Str32_c \<or> c = Bin32_c then
         bindE dec_uint32 (\<lambda>n. bindE (uint32ToInt n ''interned string length'')
           (\<lambda>nn. decodeInternedStringWithLen nn intern))
       else fail (UnexpectedCode c ''interned string''))"

definition dec_flag :: "u32 \<Rightarrow> (decoder, bool) go" where
  "dec_flag f = bindE (getS d_flags) (\<lambda>w. ret (hasFlag w f))"

definition DecodeString :: "(decoder, gostring) go" where
  "DecodeString =
     bindE (dec_flag useInternedStringsFlag) (\<lambda>intern. bindE (getS d_dict) (\<lambda>dict.
       if intern \<or> length dict > 0 then decodeInternedString intern
       else bindE readCode dec_string))"

text \<open>
  \<open>decodeStringTemp\<close> returns a view of the decoder's buffer, valid until the next read; its callers
  use it before they read again.
\<close>

definition decodeStringTemp :: "(decoder, gostring) go" where
  "decodeStringTemp =
     bindE (dec_flag useInternedStringsFlag) (\<lambda>intern. bindE (getS d_dict) (\<lambda>dict.
       if intern \<or> length dict > 0 then decodeInternedString intern
       else bindE readCode (\<lambda>c. bindE (bytesLen c) (\<lambda>n.
              if n = - 1 then ret [] else dec_readN (nat n)))))"

section \<open>Time\<close>

definition decodeTime :: "int \<Rightarrow> (decoder, gotime) go" where
  "decodeTime extLen =
     bindE (dec_readN (nat extLen)) (\<lambda>b.
       if length b = 4 then ret (time_Unix (ucast (join32 b)) 0)
       else if length b = 8 then
         let sec = join64 b in ret (time_Unix (sec AND 0x00000003ffffffff) (drop_bit 34 sec))
       else if length b = 12 then
         ret (time_Unix (join64 (drop 4 b)) (ucast (join32 b)))
       else fail (InvalidTimeExtLen extLen))"

definition DecodeTime :: "(decoder, gotime) go" where
  "DecodeTime =
     bindE readCode (\<lambda>c.
       if c = FixedArrayLow_c OR 2 then
         bindE DecodeInt64 (\<lambda>sec. bindE DecodeInt64 (\<lambda>nsec. ret (time_Unix sec nsec)))
       else if IsString c then
         bindE (dec_string c) (\<lambda>s. bindE (getS d_plat) (\<lambda>P.
           case p_parseTime P s of Some t \<Rightarrow> ret t | None \<Rightarrow> fail (TimeParse s)))
       else bindE (extHeader c) (\<lambda>(extID, extLen).
         if extID \<noteq> timeExtID \<and> extID \<noteq> 13 then fail (InvalidTimeExt extID)
         else bindE (decodeTime extLen) (\<lambda>tm. ret (if time_IsZero tm then time_UTC tm else tm))))"

text \<open>The extension decoder registered for \<^verbatim>\<open>time.Time\<close>.\<close>

definition timeDecoder :: "int \<Rightarrow> (decoder, gotime) go" where
  "timeDecoder extLen =
     bindE (decodeTime extLen) (\<lambda>tm. ret (if time_IsZero tm then time_UTC tm else tm))"

section \<open>Frame\<close>

lemma keeps_checked [frames]: "keeps frame (checkedBytes n)" "keeps frame (checkedContainer w s n)"
  unfolding checkedBytes_def checkedContainer_def by (intro frame_intros frames)+

lemma keeps_lengths [frames]:
  "keeps frame (bytesLen c)" "keeps frame (arrayLen c)" "keeps frame (mapLen c)" "keeps frame (parseExtLen c)"
  unfolding bytesLen_def arrayLen_def mapLen_def parseExtLen_def by (intro frame_intros frames)+

lemma keeps_ext [frames]:
  "keeps frame (extHeader c)" "keeps frame (skipExt c)" "keeps frame (skipExtHeader c)"
  "keeps frame DecodeMapLen" "keeps frame DecodeArrayLen"
  unfolding extHeader_def skipExt_def skipExtHeader_def DecodeMapLen_def DecodeArrayLen_def
  by (intro frame_intros frames)+

lemma keeps_strings [frames]:
  "keeps frame (stringWithLen n)" "keeps frame (dec_string c)" "keeps frame (skipBytes c)"
  "keeps frame (decodeInternedStringIndex n)" "keeps frame (internedStringAtIndex n)"
  unfolding stringWithLen_def dec_string_def skipBytes_def decodeInternedStringIndex_def internedStringAtIndex_def
  by (intro frame_intros frames)+

lemma keeps_add_dict [frames]:
  "keeps frame (bindE (getS d_dict) (\<lambda>dict.
     bindE (if p dict then modS (\<lambda>d. d\<lparr>d_dict := dict @ [s]\<rparr>) else ret ()) (\<lambda>_. ret s)))"
  by (rule keepsI) (simp add: bindE_def frame_def option.rel_refl)

lemma keeps_interned [frames]:
  "keeps frame (decodeInternedStringWithLen n i)" "keeps frame (decodeInternedString i)"
proof -
  show 1: "keeps frame (decodeInternedStringWithLen n i)" for n
    unfolding decodeInternedStringWithLen_def
    by (rule dec_frame.keeps_if, rule dec_frame.keeps_ret, rule dec_frame.keeps_bindE, rule frames, rule keeps_add_dict)
  show "keeps frame (decodeInternedString i)"
    unfolding decodeInternedString_def
    by (intro frame_intros frames 1) (auto intro!: frame_intros frames)
qed

lemma keeps_dec_flag [frames]: "keeps frame (dec_flag f)"
  unfolding dec_flag_def by (intro frame_intros)

lemma keeps_DecodeString [frames]: "keeps frame DecodeString" "keeps frame decodeStringTemp"
  unfolding DecodeString_def decodeStringTemp_def by (intro frame_intros frames)+

lemma keeps_read_into: "frame d (snd (read_into b n d))"
proof (cases "d_r d")
  case (Some r)
  obtain e b' r' where "(if hasFlag (d_flags d) disableAllocLimitFlag then readN (d_plat d) r b n
      else readNGrow (d_plat d) r b n) = (e, b', r')" by (metis prod_cases3)
  moreover from this have "r_end r' = r_end r" "r_hasLen r' = r_hasLen r"
    using readN_ok [of n r "d_plat d" b] readNGrow_ok [of n r "d_plat d" b]
    by (auto simp: read_ok_def split: if_splits)
  ultimately show ?thesis using Some by (simp add: read_into_def frame_set_reader)
qed (simp add: read_into_def dec_frame.refl)

lemma keeps_dec_bytes [frames]: "keeps frame (dec_bytes c b)"
  unfolding dec_bytes_def
proof (intro frame_intros frames keepsI)
  fix n d
  show "frame d (snd (case read_into b (nat n) d of ((None, b'), d') \<Rightarrow> (Inr b', d') | ((Some e, b'), d') \<Rightarrow> (Inl e, d')))"
    using keeps_read_into [of d b "nat n"] by (auto split: prod.splits option.splits)
qed

lemma keeps_time [frames]: "keeps frame (decodeTime n)" "keeps frame (timeDecoder n)"
  unfolding decodeTime_def timeDecoder_def Let_def by (intro frame_intros frames)+

section \<open>Reading back what the encoder wrote\<close>

lemma int_upto_cases: "0 \<le> l \<Longrightarrow> l < int n \<Longrightarrow> (\<And>j. j \<in> set [0..<n] \<Longrightarrow> P (int j)) \<Longrightarrow> P l"
  by (metis atLeastLessThan_iff atLeastLessThan_upt nat_0_le nat_less_iff zero_le)

lemma fixstr_code:
  assumes "0 \<le> l" and "l < 32"
  shows "IsFixedString (FixedStrLow_c OR word_of_int l) \<and>
    uint ((FixedStrLow_c OR word_of_int l) AND FixedStrMask_c) = l \<and> FixedStrLow_c OR word_of_int l \<noteq> Nil_c"
  by (rule int_upto_cases [of l 32]) (use assms in \<open>auto simp: upt_rec class_defs opcode_values\<close>)

lemma fixarr_code:
  assumes "0 \<le> l" and "l < 16"
  shows "IsFixedArray (FixedArrayLow_c OR word_of_int l) \<and>
    uint ((FixedArrayLow_c OR word_of_int l) AND FixedArrayMask_c) = l \<and> FixedArrayLow_c OR word_of_int l \<noteq> Nil_c"
  by (rule int_upto_cases [of l 16]) (use assms in \<open>auto simp: upt_rec class_defs opcode_values\<close>)

lemma fixmap_code:
  assumes "0 \<le> l" and "l < 16"
  shows "IsFixedMap (FixedMapLow_c OR word_of_int l) \<and>
    uint ((FixedMapLow_c OR word_of_int l) AND FixedMapMask_c) = l \<and> FixedMapLow_c OR word_of_int l \<noteq> Nil_c"
  by (rule int_upto_cases [of l 16]) (use assms in \<open>auto simp: upt_rec class_defs opcode_values\<close>)

lemma uint_of_int:
  "0 \<le> l \<Longrightarrow> l < 256 \<Longrightarrow> uint (word_of_int l :: byte) = l"
  "0 \<le> l \<Longrightarrow> l < 65536 \<Longrightarrow> uint (word_of_int l :: u16) = l"
  "0 \<le> l \<Longrightarrow> l < 4294967296 \<Longrightarrow> uint (word_of_int l :: u32) = l"
  by (simp_all add: unsigned_of_int take_bit_int_eq_self)

text \<open>A length the headers can carry on this platform.\<close>

definition len_ok :: "dconf \<Rightarrow> int \<Rightarrow> bool" where
  "len_ok k l \<longleftrightarrow> 0 \<le> l \<and> l < 4294967296 \<and> l \<le> maxInt (k_plat k)"

lemma yields_checkedBytes: "l \<le> int n \<Longrightarrow> yields k [] n (checkedBytes l) l k"
  unfolding checkedBytes_def by (rule yields_bind_ret [OF yields_rejectBytes]) simp_all

lemma yields_checkedContainer:
  "container_ok k l \<Longrightarrow> l * w \<le> int n \<Longrightarrow> 0 < w \<Longrightarrow> yields k [] n (checkedContainer w s l) l k"
  unfolding checkedContainer_def by (rule yields_bind_ret [OF yields_rejectContainer]) simp_all


lemma yields_bind_tail:
  "yields k a n m x k1 \<Longrightarrow> yields k1 [] n (f x) y k2 \<Longrightarrow> yields k a n (bindE m f) y k2"
  using yields_bind [of k a "[]" n m x k1 f y k2] by simp

text \<open>A fixed-width length followed by a check.\<close>

lemma yields_len_forms:
  assumes "len_ok k l" and "yields k [] n (f l) l k"
  shows "l < 256 \<Longrightarrow> yields k [word_of_int l] n (bindE dec_uint8 (\<lambda>n. f (uint n))) l k"
    and "l < 65536 \<Longrightarrow> yields k (lanes16 (word_of_int l)) n (bindE dec_uint16 (\<lambda>n. f (uint n))) l k"
    and "yields k (lanes32 (word_of_int l)) n (bindE dec_uint32 (\<lambda>n. bindE (uint32ToInt n s) f)) l k"
proof -
  note u = uint_of_int [of l]
  have l: "0 \<le> l" "l < 4294967296" "l \<le> maxInt (k_plat k)" using assms(1) by (auto simp: len_ok_def)
  show "yields k [word_of_int l] n (bindE dec_uint8 (\<lambda>n. f (uint n))) l k" if "l < 256"
    by (rule yields_bind_tail [OF yields_fixed(1)]) (use u l that assms(2) in simp)
  show "yields k (lanes16 (word_of_int l)) n (bindE dec_uint16 (\<lambda>n. f (uint n))) l k" if "l < 65536"
    by (rule yields_bind_tail [OF yields_fixed(2)]) (use u l that assms(2) in simp)
  have "yields k [] n (uint32ToInt (word_of_int l) s) l k"
    using yields_uint32ToInt [of "word_of_int l" k n s] u l by simp
  then have "yields k [] n (bindE (uint32ToInt (word_of_int l) s) f) l k"
    by (rule yields_bind_tail) (rule assms(2))
  then show "yields k (lanes32 (word_of_int l)) n (bindE dec_uint32 (\<lambda>n. bindE (uint32ToInt n s) f)) l k"
    by (rule yields_bind_tail [OF yields_fixed(3)])
qed

lemma yields_code: "yields k bs n (f c) x k' \<Longrightarrow> yields k (c # bs) n (bindE readCode f) x k'"
  by (rule yields_bind_Cons [OF yields_readCode])

lemma bytesLen_codes:
  "bytesLen Nil_c = ret (- 1)"
  "c \<noteq> Nil_c \<Longrightarrow> IsFixedString c \<Longrightarrow> bytesLen c = checkedBytes (uint (c AND FixedStrMask_c))"
  "bytesLen Str8_c = bindE dec_uint8 (\<lambda>n. checkedBytes (uint n))"
  "bytesLen Bin8_c = bindE dec_uint8 (\<lambda>n. checkedBytes (uint n))"
  "bytesLen Str16_c = bindE dec_uint16 (\<lambda>n. checkedBytes (uint n))"
  "bytesLen Bin16_c = bindE dec_uint16 (\<lambda>n. checkedBytes (uint n))"
  "bytesLen Str32_c = bindE dec_uint32 (\<lambda>n. bindE (uint32ToInt n ''string/bytes length'') checkedBytes)"
  "bytesLen Bin32_c = bindE dec_uint32 (\<lambda>n. bindE (uint32ToInt n ''string/bytes length'') checkedBytes)"
  by (simp_all add: bytesLen_def class_defs opcode_values word_le_nat_alt)

lemma yields_str_hdr:
  assumes "len_ok k l" and "l \<le> int n"
  shows "yields k (str_hdr l) n DecodeBytesLen l k"
proof -
  note f = yields_len_forms [where f = checkedBytes, OF assms(1) yields_checkedBytes [OF assms(2)]]
  show ?thesis
    using assms fixstr_code [of l] unfolding str_hdr_def DecodeBytesLen_def
    by (auto intro!: yields_code f simp: bytesLen_codes yields_checkedBytes len_ok_def)
qed

lemma yields_bin_hdr:
  assumes "len_ok k l" and "l \<le> int n"
  shows "yields k (bin_hdr l) n DecodeBytesLen l k"
proof -
  note f = yields_len_forms [where f = checkedBytes, OF assms(1) yields_checkedBytes [OF assms(2)]]
  show ?thesis
    using assms unfolding bin_hdr_def DecodeBytesLen_def
    by (auto intro!: yields_code f simp: bytesLen_codes)
qed

lemma arrayLen_codes:
  "arrayLen Nil_c = ret (- 1)"
  "c \<noteq> Nil_c \<Longrightarrow> IsFixedArray c \<Longrightarrow> arrayLen c = checkedContainer 1 ''array'' (uint (c AND FixedArrayMask_c))"
  "arrayLen Array16_c = bindE dec_uint16 (\<lambda>n. checkedContainer 1 ''array'' (uint n))"
  "arrayLen Array32_c = bindE dec_uint32 (\<lambda>n. bindE (uint32ToInt n ''array length'') (checkedContainer 1 ''array''))"
  by (simp_all add: arrayLen_def class_defs opcode_values word_le_nat_alt)

lemma mapLen_codes:
  "mapLen Nil_c = ret (- 1)"
  "c \<noteq> Nil_c \<Longrightarrow> IsFixedMap c \<Longrightarrow> mapLen c = checkedContainer 2 ''map'' (uint (c AND FixedMapMask_c))"
  "mapLen Map16_c = bindE dec_uint16 (\<lambda>n. checkedContainer 2 ''map'' (uint n))"
  "mapLen Map32_c = bindE dec_uint32 (\<lambda>n. bindE (uint32ToInt n ''map length'') (checkedContainer 2 ''map''))"
  by (simp_all add: mapLen_def class_defs opcode_values word_le_nat_alt)

lemma yields_arr_hdr:
  assumes "len_ok k l" and "container_ok k l" and "l \<le> int n"
  shows "yields k (arr_hdr l) n DecodeArrayLen l k"
proof -
  have c: "yields k [] n (checkedContainer 1 ''array'' l) l k"
    by (rule yields_checkedContainer) (use assms in simp_all)
  note f = yields_len_forms [where f = "checkedContainer 1 ''array''", OF assms(1) c]
  show ?thesis
    using assms fixarr_code [of l] c unfolding arr_hdr_def DecodeArrayLen_def
    by (auto intro!: yields_code f simp: arrayLen_codes len_ok_def)
qed

lemma mapLen_no_ext: "IsFixedMap c \<or> c = Map16_c \<or> c = Map32_c \<or> c = Nil_c \<Longrightarrow> \<not> IsExt c"
  using unat_lt_byte [of c] by (auto simp: code_arith)

lemma yields_map_hdr:
  assumes "len_ok k l" and "container_ok k l" and "2 * l \<le> int n"
  shows "yields k (map_hdr l) n DecodeMapLen l k"
proof -
  have c: "yields k [] n (checkedContainer 2 ''map'' l) l k"
    by (rule yields_checkedContainer) (use assms in simp_all)
  note f = yields_len_forms [where f = "checkedContainer 2 ''map''", OF assms(1) c]
  show ?thesis
    using assms fixmap_code [of l] c unfolding map_hdr_def DecodeMapLen_def
    by (auto intro!: yields_code f simp: mapLen_codes mapLen_no_ext len_ok_def)
qed

end
