(* ===== verification/String_Codec.thy ===== *)
theory String_Codec
  imports Decode_String
begin

text \<open>
  Strings, byte strings, extension headers, times and interned strings: what the decoding methods
  of \<open>Decode_String\<close> return on what the encoding methods of \<open>Encode_Slice\<close> wrote. The pairs are
  instances of the interface \<open>codec\<close>; interned strings change the dictionaries of both sides and
  have their own simulation argument.
\<close>

text \<open>On a 64-bit build every length below \<open>2 ^ 32\<close> fits an \<^verbatim>\<open>int\<close>.\<close>

lemma len_ok_intBits:
  assumes "32 < p_intBits (k_plat k)" and "l < 2 ^ 32"
  shows "len_ok k (int l)"
proof -
  have "(2 :: int) ^ 32 \<le> 2 ^ (p_intBits (k_plat k) - 1)" using assms(1) by (intro power_increasing) simp_all
  moreover have "int l < 2 ^ 32" using assms(2) by (metis of_nat_less_iff of_nat_numeral of_nat_power)
  ultimately have "int l < 2 ^ 32 \<and> int l < 2 ^ (p_intBits (k_plat k) - 1)" by linarith
  then show ?thesis unfolding len_ok_def maxInt_def by auto
qed

lemma string_via_len: "bindE readCode dec_string = bindE DecodeBytesLen stringWithLen"
  unfolding DecodeBytesLen_def bindE_assoc by (rule bindE_cong) (simp_all add: dec_string_def)

lemma yields_stringWithLen: "length s = nat l \<Longrightarrow> 0 \<le> l \<Longrightarrow> yields k s n (stringWithLen l) s k"
  using yields_ret [of k n "[]"] by (cases "l = 0") (auto simp: stringWithLen_def yields_readN simp del: ret_apply)

lemma yields_plain_string:
  assumes "len_ok k (int (length s))"
  shows "yields k (str_wire s) n (bindE readCode dec_string) s k"
  unfolding string_via_len str_wire_def
  by (rule yields_bind [OF yields_str_hdr yields_stringWithLen]) (use assms in simp_all)

lemma yields_bin_string:
  assumes "len_ok k (int (length s))"
  shows "yields k (bin_wire (Some s)) n (bindE readCode dec_string) s k"
  unfolding string_via_len bin_wire_def option.case
  by (rule yields_bind [OF yields_bin_hdr yields_stringWithLen]) (use assms in simp_all)

lemma yields_dec_flag:
  "yields k bs n (f (hasFlag (k_flags k) fl)) x k' \<Longrightarrow> yields k bs n (bindE (dec_flag fl) f) x k'"
  unfolding dec_flag_def bindE_assoc by (rule yields_flags) simp

definition plain_dec :: "dconf \<Rightarrow> bool" where
  "plain_dec k \<longleftrightarrow> \<not> hasFlag (k_flags k) useInternedStringsFlag \<and> k_dict k = []"

lemma yields_DecodeString_plain:
  assumes "plain_dec k" and "len_ok k (int (length s))"
  shows "yields k (str_wire s) n DecodeString s k"
  unfolding DecodeString_def
  by (rule yields_dec_flag, rule yields_dict) (use assms in \<open>simp add: plain_dec_def yields_plain_string\<close>)

section \<open>Byte slices\<close>

text \<open>The bytes \<open>DecodeBytes\<close> returns, without the capacity of the slice.\<close>

definition DecodeBytes_v :: "(decoder, byte list option) go" where
  "DecodeBytes_v = bindE DecodeBytes (\<lambda>b. ret (map_option vis b))"

lemma yields_read_into:
  assumes "\<not> k_rec k" and "0 \<le> l" and "length s = nat l"
  shows "yields k s n (bindE (\<lambda>d. case read_into b (nat l) d of
      ((None, b'), d') \<Rightarrow> (Inr b', d') | ((Some e, b'), d') \<Rightarrow> (Inl e, d')) (\<lambda>b. ret (map_option vis b))) (Some s) k"
proof (rule yieldsI)
  fix d
  assume "ready s n d" and k: "dconf_of d = k"
  then obtain r t where r: "d_r d = Some r" "r_rest r = s @ t" by (auto elim: ready_reader)
  obtain e b' r' where b: "(if hasFlag (d_flags d) disableAllocLimitFlag then readN (d_plat d) r b (nat l)
      else readNGrow (d_plat d) r b (nat l)) = (e, b', r')" by (metis prod_cases3)
  have "e = None" "vis b' = s" "r_rest r' = t" "r_hasLen r' = r_hasLen r"
    using readN_ok [of "nat l" r "d_plat d" b] readNGrow_ok [of "nat l" r "d_plat d" b] b r assms(3)
    by (auto simp: read_ok_def split: if_splits)
  moreover have "d_rec d = None" using assms(1) k by (auto simp: dconf_of_def)
  ultimately show "\<exists>d'. bindE (\<lambda>d. case read_into b (nat l) d of
      ((None, b'), d') \<Rightarrow> (Inr b', d') | ((Some e, b'), d') \<Rightarrow> (Inl e, d')) (\<lambda>b. ret (map_option vis b)) d = (Inr (Some s), d') \<and>
      advanced s d d' \<and> dconf_of d' = k"
    using r b k by (simp add: bindE_def read_into_def advanced_def dconf_reader)
qed

lemma yields_DecodeBytes:
  assumes "\<not> k_rec k" and "case v of None \<Rightarrow> True | Some b \<Rightarrow> len_ok k (int (length b))"
  shows "yields k (bin_wire v) n DecodeBytes_v v k"
proof (cases v)
  case None
  have "yields k [] n (bindE (dec_bytes Nil_c None) (\<lambda>b. ret (map_option vis b))) None k"
    using yields_ret [of k n None] by (simp add: dec_bytes_def bytesLen_codes del: ret_apply)
  then show ?thesis
    by (simp add: None bin_wire_def DecodeBytes_v_def DecodeBytes_def bindE_assoc yields_code)
next
  case (Some s)
  have run: "DecodeBytes_v = bindE DecodeBytesLen (\<lambda>n. bindE
      (if n = - 1 then ret None else (\<lambda>d. case read_into None (nat n) d of
               ((None, b'), d') \<Rightarrow> (Inr b', d') | ((Some e, b'), d') \<Rightarrow> (Inl e, d'))) (\<lambda>b. ret (map_option vis b)))"
    unfolding DecodeBytes_v_def DecodeBytes_def DecodeBytesLen_def dec_bytes_def bindE_assoc ..
  show ?thesis
    unfolding run Some bin_wire_def option.case
    by (rule yields_bind [OF yields_bin_hdr])
      (use assms Some yields_read_into [OF assms(1), of "int (length s)" s] in simp_all)
qed

interpretation string_codec: codec EncodeString DecodeString str_wire "\<lambda>s. s" plain_strings
  "\<lambda>k. plain_dec k \<and> 32 < p_intBits (k_plat k)" "\<lambda>s. length s < 2 ^ 32"
proof unfold_locales
  show "emits out k (EncodeString s) (str_wire s) k" if "plain_strings k" for out k s
    using that by (rule emits_EncodeString_plain)
  show "yields k (str_wire s) n DecodeString s k"
    if "plain_dec k \<and> 32 < p_intBits (k_plat k)" "length s < 2 ^ 32" for k s n
    using that by (intro yields_DecodeString_plain) (simp_all add: len_ok_intBits)
qed

interpretation bytes_codec: codec EncodeBytes DecodeBytes_v bin_wire "\<lambda>b. b" "\<lambda>_. True"
  "\<lambda>k. \<not> k_rec k \<and> 32 < p_intBits (k_plat k)" "\<lambda>v. case v of None \<Rightarrow> True | Some b \<Rightarrow> length b < 2 ^ 32"
proof unfold_locales
  show "emits out k (EncodeBytes v) (bin_wire v) k" for out k v by (rule emits_EncodeBytes)
  show "yields k (bin_wire v) n DecodeBytes_v v k"
    if "\<not> k_rec k \<and> 32 < p_intBits (k_plat k)" "case v of None \<Rightarrow> True | Some b \<Rightarrow> length b < 2 ^ 32" for k v n
    using that by (intro yields_DecodeBytes) (auto simp: len_ok_intBits split: option.splits)
qed

section \<open>Extensions and time\<close>

text \<open>Only the branch of the code at hand matters.\<close>

lemma yields_code_cong:
  assumes "yields k (c # bs) n (bindE readCode f) x k'" and "F c = f c"
  shows "yields k (c # bs) n (bindE readCode F) x k'"
proof (rule yieldsI)
  fix d
  assume d: "ready (c # bs) n d" "dconf_of d = k"
  have "ready [c] (length bs + n) d" using ready_split [of "[c]" bs n d] d(1) by simp
  then obtain d1 where "readCode d = (Inr c, d1)" by (rule yieldsD [OF yields_readCode _ refl])
  then have "bindE readCode F d = bindE readCode f d" using assms(2) by (simp add: bindE_def)
  then show "\<exists>d'. bindE readCode F d = (Inr x, d') \<and> advanced (c # bs) d d' \<and> dconf_of d' = k'"
    using assms(1) d by (simp add: yields_def)
qed

lemma parseExtLen_codes:
  "parseExtLen FixExt1_c = ret 1" "parseExtLen FixExt2_c = ret 2" "parseExtLen FixExt4_c = ret 4"
  "parseExtLen FixExt8_c = ret 8" "parseExtLen FixExt16_c = ret 16"
  "parseExtLen Ext8_c = bindE dec_uint8 (\<lambda>n. checkedBytes (uint n))"
  "parseExtLen Ext16_c = bindE dec_uint16 (\<lambda>n. checkedBytes (uint n))"
  "parseExtLen Ext32_c = bindE dec_uint32 (\<lambda>n. bindE (uint32ToInt n ''ext length'') checkedBytes)"
  by (simp_all add: parseExtLen_def opcode_values)

lemma yields_ext_len:
  assumes "len_ok k l" and "l \<le> int n"
  shows "yields k (ext_len_hdr l) n (bindE readCode parseExtLen) l k"
proof -
  note f = yields_len_forms [where f = checkedBytes, OF assms(1) yields_checkedBytes [OF assms(2)]]
  note r = yields_bind_ret [OF yields_readCode [of k _ n], of parseExtLen]
  show ?thesis
    unfolding ext_len_hdr_def
    by (auto intro!: r) (auto intro!: yields_code f simp: parseExtLen_codes)
qed

lemma yields_ext_header:
  assumes "len_ok k l" and "l \<le> int n"
  shows "yields k (ext_len_hdr l @ [i]) n DecodeExtHeader (i, l) k"
proof -
  have run: "DecodeExtHeader = bindE (bindE readCode parseExtLen) (\<lambda>extLen. bindE readCode (\<lambda>extID. ret (extID, extLen)))"
    unfolding DecodeExtHeader_def bindE_assoc by (rule bindE_cong) (simp_all add: extHeader_def)
  show ?thesis
    unfolding run
    by (rule yields_bind [OF yields_ext_len yields_bind_ret [OF yields_readCode]]) (use assms in \<open>simp_all del: ret_apply\<close>)
qed

lemma word_below_bits:
  assumes "unat (w :: u64) < 2 ^ j"
  shows "take_bit j w = w"
proof -
  have "unat (take_bit j w) = unat w" using assms by (simp add: unsigned_take_bit_eq take_bit_nat_eq_self)
  then show ?thesis by (simp add: word_unat_eq_iff)
qed

definition decode_time_bytes :: "byte list \<Rightarrow> gotime" where
  "decode_time_bytes b =
     (if length b = 4 then time_Unix (ucast (join32 b)) 0
      else if length b = 8 then time_Unix (join64 b AND 0x00000003ffffffff) (drop_bit 34 (join64 b))
      else time_Unix (join64 (drop 4 b)) (ucast (join32 b)))"

lemma yields_decodeTime:
  assumes "length b \<in> {4, 8, 12}"
  shows "yields k b n (decodeTime (int (length b))) (decode_time_bytes b) k"
  unfolding decodeTime_def
  by (rule yields_bind_ret [OF yields_readN]) (use assms in \<open>auto simp: decode_time_bytes_def Let_def simp del: ret_apply\<close>)

lemma time_bytes_decode:
  assumes n: "unat nsec < 2 ^ 30"
  shows "decode_time_bytes (time_bytes secs nsec) = time_Unix secs nsec"
proof -
  have hi: "\<not> bit nsec i" if "30 \<le> i" for i
    using word_below_bits [OF n] that by (metis bit_take_bit_iff not_less)
  then have hi': "bit nsec i \<Longrightarrow> i < 30" for i by (meson not_less)
  show ?thesis
  proof (cases "drop_bit 34 secs = 0")
    case True
    have lo: "\<not> bit secs i" if "34 \<le> i" for i
    proof -
      have "\<not> bit (drop_bit 34 secs) (i - 34)" by (simp add: True)
      then show ?thesis using that by (simp add: bit_drop_bit_eq)
    qed
    let ?data = "push_bit 34 nsec OR secs"
    have mask34: "(0x00000003ffffffff :: u64) = mask 34" and mask32: "(0xffffffff00000000 :: u64) = NOT (mask 32)"
      by (simp_all add: mask_eq_exp_minus_1)
    show ?thesis
    proof (cases "?data AND 0xffffffff00000000 = 0")
      case data: True
      have top: "\<not> bit ?data i" if "32 \<le> i" for i
      proof -
        have "\<not> bit (?data AND NOT (mask 32)) i" using data unfolding mask32 by simp
        then show ?thesis using that lo by (auto simp: bit_simps)
      qed
      have "nsec = 0"
      proof (rule bit_word_eqI)
        fix i
        show "bit nsec i = bit (0 :: u64) i" using top [of "i + 34"] hi [of i] by (auto simp: bit_simps)
      qed
      moreover have "bit secs i \<Longrightarrow> i < 32" for i
        using top [of i] \<open>nsec = 0\<close> by (cases "i < 32") (auto simp: bit_simps)
      then have "ucast (ucast ?data :: u32) = secs"
        by (intro bit_word_eqI) (use \<open>nsec = 0\<close> in \<open>auto simp: bit_simps\<close>)
      ultimately show ?thesis
        using True data by (simp add: time_bytes_def decode_time_bytes_def)
    next
      case data: False
      have "bit secs i \<Longrightarrow> i < 34" for i using lo [of i] by (cases "i < 34") auto
      then have "?data AND 0x00000003ffffffff = secs"
        unfolding mask34 by (intro bit_word_eqI) (auto simp: bit_simps)
      moreover have "drop_bit 34 ?data = nsec"
        by (rule bit_word_eqI) (use lo hi' in \<open>auto simp: bit_simps\<close>)
      ultimately show ?thesis
        using True data by (simp add: time_bytes_def decode_time_bytes_def)
    qed
  next
    case False
    have "ucast (ucast nsec :: u32) = nsec"
      by (rule ucast_narrow_widen) (use n in simp)
    moreover have "join32 (lanes32 (ucast nsec) @ lanes64 secs) = ucast nsec"
      using join32_lanes32 [of "ucast nsec"] by (simp add: join32_def lanes32_def)
    moreover have "drop 4 (lanes32 (ucast nsec) @ lanes64 secs) = lanes64 secs" by simp
    ultimately show ?thesis
      using False by (simp add: time_bytes_def decode_time_bytes_def)
  qed
qed

lemma time_code: "l \<in> {4, 8, 12} \<Longrightarrow> \<exists>c bs. ext_len_hdr (int l) = c # bs \<and> c \<noteq> FixedArrayLow_c OR 2 \<and> \<not> IsString c"
  by (auto simp: ext_len_hdr_def class_defs opcode_values)

lemma yields_timeDecoder:
  fixes tm :: gotime
  defines "b \<equiv> time_bytes (t_sec tm) (word_of_nat (t_nsec tm))"
  assumes "time_wf tm"
  shows "yields k b n (timeDecoder (int (length b))) \<lparr>t_sec = t_sec tm, t_nsec = t_nsec tm, t_utc = time_IsZero tm\<rparr> k"
proof -
  let ?t = "\<lparr>t_sec = t_sec tm, t_nsec = t_nsec tm, t_utc = False\<rparr>"
  have l: "length b \<in> {4, 8, 12}" unfolding b_def by (rule length_time_bytes)
  have ns: "t_nsec tm < 1000000000" using assms(2) by (simp add: time_wf_def)
  then have "unat (word_of_nat (t_nsec tm) :: u64) < 2 ^ 30" by (simp add: unsigned_of_nat take_bit_nat_eq_self)
  then have "decode_time_bytes b = ?t" using time_Unix_normal [OF ns] by (simp add: b_def time_bytes_decode)
  then have t: "yields k b n (decodeTime (int (length b))) ?t k" using yields_decodeTime [OF l] by simp
  have z: "time_IsZero ?t = time_IsZero tm" by (simp add: time_IsZero_def)
  show ?thesis
    unfolding timeDecoder_def by (rule yields_bind_ret [OF t]) (simp add: z time_UTC_def del: ret_apply)
qed

lemma yields_DecodeTime:
  assumes "time_wf tm" and "32 < p_intBits (k_plat k)"
  shows "yields k (time_wire tm) n DecodeTime
    \<lparr>t_sec = t_sec tm, t_nsec = t_nsec tm, t_utc = time_IsZero tm\<rparr> k"
proof -
  let ?b = "time_bytes (t_sec tm) (word_of_nat (t_nsec tm))" and ?l = "length (time_bytes (t_sec tm) (word_of_nat (t_nsec tm)))"
  have l: "?l \<in> {4, 8, 12}" by (rule length_time_bytes)
  obtain c bs where c: "ext_len_hdr (int ?l) = c # bs" "c \<noteq> FixedArrayLow_c OR 2" "\<not> IsString c"
    using time_code [OF l] by blast
  have "yields k (ext_len_hdr (int ?l) @ [timeExtID]) (?l + n) DecodeExtHeader (timeExtID, int ?l) k"
    by (rule yields_ext_header) (use assms(2) l in \<open>auto intro!: len_ok_intBits\<close>)
  then have h: "yields k (c # bs @ [timeExtID]) (?l + n) (bindE readCode extHeader) (timeExtID, int ?l) k"
    by (simp add: c DecodeExtHeader_def)
  have "yields k ((c # bs @ [timeExtID]) @ ?b) n (bindE (bindE readCode extHeader) (\<lambda>(extID, extLen).
         if extID \<noteq> timeExtID \<and> extID \<noteq> 13 then fail (InvalidTimeExt extID)
         else bindE (decodeTime extLen) (\<lambda>tm. ret (if time_IsZero tm then time_UTC tm else tm))))
      \<lparr>t_sec = t_sec tm, t_nsec = t_nsec tm, t_utc = time_IsZero tm\<rparr> k"
    using yields_timeDecoder [OF assms(1), of k n] by (intro yields_bind [OF h]) (simp add: timeDecoder_def)
  then show ?thesis
    unfolding bindE_assoc append_Cons time_wire_def Let_def DecodeTime_def c(1)
    by (simp add: c) (rule yields_code_cong, assumption, simp add: c)
qed

interpretation time_codec: codec EncodeTime DecodeTime time_wire
  "\<lambda>tm. \<lparr>t_sec = t_sec tm, t_nsec = t_nsec tm, t_utc = time_IsZero tm\<rparr>" "\<lambda>_. True"
  "\<lambda>k. 32 < p_intBits (k_plat k)" time_wf
proof unfold_locales
  show "emits out k (EncodeTime tm) (time_wire tm) k" for out k tm by (rule emits_EncodeTime)
qed (rule yields_DecodeTime)

text \<open>
  C17: every time survives \<open>EncodeTime\<close> and \<open>DecodeTime\<close> to the nanosecond, whichever of the three
  layouts the encoder picks (32-bit seconds, 34-bit seconds with nanoseconds, 96 bits), also in a
  stream of times: seconds and nanoseconds are those of the original, and a decoded time is in UTC
  exactly when it is the zero time.
\<close>

theorem time_roundtrip:
  assumes "enc_ok out e" and "forE EncodeTime ts e = (Inr (), e')" and "list_all time_wf ts"
    and "d_r d \<noteq> None" and "32 < p_intBits (d_plat d)"
    and "pending d = drop (length (written out e)) (written out e') @ rest"
  shows "\<exists>d'. collectE (length ts) DecodeTime d =
      (Inr (map (\<lambda>tm. \<lparr>t_sec = t_sec tm, t_nsec = t_nsec tm, t_utc = time_IsZero tm\<rparr>) ts), d') \<and>
      pending d' = rest \<and> dconf_of d' = dconf_of d"
  using assms(5) by (intro time_codec.stream [OF assms(1) _ assms(3,2,4) _ assms(6)]) (simp_all add: dconf_of_def)

theorem time_roundtrip_witness:
  "\<exists>d'. collectE 1 DecodeTime
      (NewDecoder amd64 (Some \<lparr>r_rest = [0xd6, 0xff, 0, 0, 0, 9, 0xc0], r_last = None, r_end = EOF, r_hasLen = True\<rparr>)) =
    (Inr [\<lparr>t_sec = 9, t_nsec = 0, t_utc = False\<rparr>], d') \<and> pending d' = [0xc0]"
proof -
  let ?out = "\<lambda>_ :: unit. [] :: byte list" and ?ts = "[\<lparr>t_sec = 9, t_nsec = 0, t_utc = True\<rparr>]"
  let ?e = "(NewEncoder amd64 None :: unit encoder)\<lparr>e_w := AppendWriter\<rparr>"
  let ?w = "[0xd6, 0xff, 0, 0, 0, 9] :: byte list"
  let ?d = "NewDecoder amd64 (Some \<lparr>r_rest = [0xd6, 0xff, 0, 0, 0, 9, 0xc0], r_last = None, r_end = EOF, r_hasLen = True\<rparr>)"
  note defs = NewEncoder_def Reset_def ResetDict_def ResetWriter_def
    NewDecoder_def dec_Reset_def dec_ResetDict_def dec_ResetReader_def
  have e: "enc_ok ?out ?e" by (simp add: enc_ok_def enc_inv_def writer_ok_def defs)
  have w: "concat (map time_wire ?ts) = ?w"
    by (simp add: time_wire_def time_bytes_def Let_def ext_len_hdr_def opcode_values timeExtID_def lanes32_def)
  obtain r e' where run: "forE EncodeTime ?ts ?e = (r, e')" by fastforce
  have em: "emitted ?out ?e ?w (conf ?e) (r, e')"
    using emitsD [OF time_codec.writes_all [where xs = ?ts and k = "conf ?e"] e] run w by (simp add: time_wf_def)
  have r: "r = Inr ()" using em by (cases r) (simp_all add: emitted_def)
  have w': "written ?out e' = written ?out ?e @ ?w" using em unfolding r emitted_Inr by blast
  have d: "d_r ?d \<noteq> None" "d_plat ?d = amd64" "pending ?d = ?w @ [0xc0]" by (simp_all add: defs)
  have p: "32 < p_intBits amd64" by (simp add: amd64_def)
  have "\<exists>d'. collectE (length ?ts) DecodeTime ?d =
      (Inr (map (\<lambda>tm. \<lparr>t_sec = t_sec tm, t_nsec = t_nsec tm, t_utc = time_IsZero tm\<rparr>) ?ts), d') \<and>
      pending d' = [0xc0] \<and> dconf_of d' = dconf_of ?d"
    by (rule time_roundtrip [OF e run [unfolded r]]) (simp_all add: d w' p time_wf_def del: pending_reader)
  then show ?thesis by (auto simp: time_IsZero_def)
qed

section \<open>Interned strings\<close>

text \<open>The encoder's and the decoder's dictionaries describe the same list of strings.\<close>

definition dict_sync :: "(gostring \<times> int) list \<Rightarrow> gostring list \<Rightarrow> bool" where
  "dict_sync ed dd \<longleftrightarrow> ed = zip dd (map int [0..<length dd])"

lemma dict_sync_length: "dict_sync ed dd \<Longrightarrow> length ed = length dd"
  by (simp add: dict_sync_def)

lemma dict_sync_lookup:
  assumes "dict_sync ed dd" and "map_of ed s = Some idx"
  shows "0 \<le> idx \<and> idx < int (length dd) \<and> dd ! nat idx = s"
  using map_of_SomeD [OF assms(2)] assms(1) by (auto simp: dict_sync_def in_set_zip)

lemma dict_sync_add: "dict_sync ed dd \<Longrightarrow> dict_sync (ed @ [(s, int (length ed))]) (dd @ [s])"
  by (simp add: dict_sync_def zip_append2)

definition idict :: "bool \<Rightarrow> (gostring \<times> int) list \<Rightarrow> gostring list \<Rightarrow> gostring \<Rightarrow> gostring list" where
  "idict intern ed dd s = (if interns intern ed s then dd @ [s] else dd)"

lemma dict_sync_step: "dict_sync ed dd \<Longrightarrow> dict_sync (istr_dict intern ed s) (idict intern ed dd s)"
  by (simp add: istr_dict_def idict_def dict_sync_add)

lemma yields_modDict: "yields k [] n (modS (\<lambda>d. d\<lparr>d_dict := dd\<rparr>)) () (k\<lparr>k_dict := dd\<rparr>)"
  by (rule yieldsI) (auto simp: ready_def advanced_def pending_def dconf_of_def)

lemma yields_internedWithLen:
  assumes "length s = nat l" and "0 \<le> l"
  shows "yields k s n (decodeInternedStringWithLen l intern) s
    (k\<lparr>k_dict := if intern \<and> 3 \<le> length s \<and> length (k_dict k) < 65535 then k_dict k @ [s] else k_dict k\<rparr>)"
proof (cases "l = 0")
  case True
  then show ?thesis using assms yields_ret [of k n "[]"] by (simp add: decodeInternedStringWithLen_def del: ret_apply)
next
  case False
  let ?p = "intern \<and> 3 \<le> length s \<and> length (k_dict k) < 65535"
  let ?k = "k\<lparr>k_dict := if ?p then k_dict k @ [s] else k_dict k\<rparr>"
  have "yields k [] n (if ?p then modS (\<lambda>d. d\<lparr>d_dict := k_dict k @ [s]\<rparr>) else ret ()) () ?k"
    using yields_modDict [of k n "k_dict k @ [s]"] yields_ret [of k n "()"] by (simp del: ret_apply modS_apply)
  then have "yields k [] n (bindE (getS d_dict) (\<lambda>dict.
        bindE (if intern \<and> length s \<ge> minInternedStringLen \<and> length dict < maxDictLen
               then modS (\<lambda>d. d\<lparr>d_dict := dict @ [s]\<rparr>) else ret ()) (\<lambda>_. ret s))) s ?k"
    unfolding minInternedStringLen_def maxDictLen_def by (intro yields_dict yields_bind_ret) (simp_all del: ret_apply)
  then have "yields k s n (bindE (stringWithLen l) (\<lambda>s. bindE (getS d_dict) (\<lambda>dict.
        bindE (if intern \<and> length s \<ge> minInternedStringLen \<and> length dict < maxDictLen
               then modS (\<lambda>d. d\<lparr>d_dict := dict @ [s]\<rparr>) else ret ()) (\<lambda>_. ret s)))) s ?k"
    by (rule yields_bind_tail [OF yields_stringWithLen [OF assms]])
  then show ?thesis using False assms(2) by (simp add: decodeInternedStringWithLen_def)
qed

text \<open>The header of an interned index is the header of an extension of 1, 2 or 4 bytes.\<close>

lemma yields_idx_wire:
  assumes "0 \<le> idx" and "len_ok k idx" and "idx < int (length (k_dict k))" and "k_dict k ! nat idx = s"
  shows "yields k (idx_wire idx) n (decodeInternedString intern) s k"
proof -
  let ?g = "\<lambda>(typeID, extLen).
           if typeID \<noteq> internedStringExtID then fail (WrongExtType typeID internedStringExtID)
           else bindE (decodeInternedStringIndex extLen) internedStringAtIndex"
  have at: "yields k [] n (internedStringAtIndex idx) s k"
    unfolding internedStringAtIndex_def
    by (rule yields_dict) (use assms yields_ret [of k n s] in \<open>simp del: ret_apply\<close>)
  have tail: "yields k (c # internedStringExtID # b) n (decodeInternedString intern) s k"
    if c: "c = FixExt1_c \<or> c = FixExt2_c \<or> c = FixExt4_c" "parseExtLen c = ret l"
      and b: "yields k b n (decodeInternedStringIndex l) idx k" for c l b
  proof -
    have "yields k [internedStringExtID] (length b + n) (extHeader c) (internedStringExtID, l) k"
      using c(2) yields_bind_ret [OF yields_readCode [of k internedStringExtID "length b + n"],
          of "\<lambda>extID. ret (extID, l)" "(internedStringExtID, l)"] by (simp add: extHeader_def del: ret_apply)
    then have "yields k ([internedStringExtID] @ b) n (bindE (extHeader c) ?g) s k"
      by (rule yields_bind) (use yields_bind_tail [where f = internedStringAtIndex, OF b at] in simp)
    moreover have "\<not> IsFixedString c" "c \<noteq> Nil_c" using c(1) by (auto simp: class_defs opcode_values)
    ultimately show ?thesis
      using c(1) unfolding decodeInternedString_def by (intro yields_code) simp
  qed
  note u = uint_of_int [of idx]
  have i: "idx < 4294967296" "idx \<le> maxInt (k_plat k)" using assms(2) by (simp_all add: len_ok_def)
  have "yields k [word_of_int idx] n (decodeInternedStringIndex 1) idx k" if "idx \<le> 255"
    using u(1) assms(1) that unfolding decodeInternedStringIndex_def
    by (simp del: ret_apply) (rule yields_bind_ret [OF yields_fixed(1)], simp del: ret_apply)
  moreover have "yields k (lanes16 (word_of_int idx)) n (decodeInternedStringIndex 2) idx k" if "idx \<le> 65535"
    using u(2) assms(1) that unfolding decodeInternedStringIndex_def
    by (simp del: ret_apply) (rule yields_bind_ret [OF yields_fixed(2)], simp del: ret_apply)
  moreover have "yields k (lanes32 (word_of_int idx)) n (decodeInternedStringIndex 4) idx k"
    using u(3) assms(1) i yields_uint32ToInt [of "word_of_int idx" k n "''interned string index''"]
    unfolding decodeInternedStringIndex_def
    by (simp del: ret_apply) (rule yields_bind_tail [OF yields_fixed(3)], simp)
  ultimately show ?thesis
    unfolding idx_wire_def by (auto simp: parseExtLen_codes simp del: ret_apply intro!: tail)
qed


lemma yields_len_payload:
  assumes "len_ok k l" and "yields k b n (f l) x k'"
  shows "l < 256 \<Longrightarrow> yields k (word_of_int l # b) n (bindE dec_uint8 (\<lambda>n. f (uint n))) x k'"
    and "l < 65536 \<Longrightarrow> yields k (lanes16 (word_of_int l) @ b) n (bindE dec_uint16 (\<lambda>n. f (uint n))) x k'"
    and "yields k (lanes32 (word_of_int l) @ b) n (bindE dec_uint32 (\<lambda>n. bindE (uint32ToInt n s) f)) x k'"
proof -
  note u = uint_of_int [of l]
  have l: "0 \<le> l" "l < 4294967296" "l \<le> maxInt (k_plat k)" using assms(1) by (auto simp: len_ok_def)
  show "yields k (word_of_int l # b) n (bindE dec_uint8 (\<lambda>n. f (uint n))) x k'" if "l < 256"
    by (rule yields_bind_Cons [OF yields_fixed(1)]) (use u l that assms(2) in simp)
  show "yields k (lanes16 (word_of_int l) @ b) n (bindE dec_uint16 (\<lambda>n. f (uint n))) x k'" if "l < 65536"
    by (rule yields_bind [OF yields_fixed(2)]) (use u l that assms(2) in simp)
  have "yields k [] (length b + n) (uint32ToInt (word_of_int l) s) l k"
    using yields_uint32ToInt [of "word_of_int l" k "length b + n" s] u l by simp
  then have "yields k b n (bindE (uint32ToInt (word_of_int l) s) f) x k'"
    by (rule yields_bind_nil) (rule assms(2))
  then show "yields k (lanes32 (word_of_int l) @ b) n (bindE dec_uint32 (\<lambda>n. bindE (uint32ToInt n s) f)) x k'"
    by (rule yields_bind [OF yields_fixed(3)])
qed

lemma decodeInternedString_codes:
  obtains f where "decodeInternedString intern = bindE readCode f"
    and "\<And>c. IsFixedString c \<Longrightarrow> f c = decodeInternedStringWithLen (uint (c AND FixedStrMask_c)) intern"
    and "f Str8_c = bindE dec_uint8 (\<lambda>n. decodeInternedStringWithLen (uint n) intern)"
    and "f Str16_c = bindE dec_uint16 (\<lambda>n. decodeInternedStringWithLen (uint n) intern)"
    and "f Str32_c = bindE dec_uint32 (\<lambda>n. bindE (uint32ToInt n ''interned string length'')
           (\<lambda>nn. decodeInternedStringWithLen nn intern))"
  by (rule that, unfold decodeInternedString_def, rule refl) (simp_all add: class_defs opcode_values)

lemma yields_interned_str:
  assumes "len_ok k (int (length s))"
  shows "yields k (str_wire s) n (decodeInternedString intern) s
    (k\<lparr>k_dict := if intern \<and> 3 \<le> length s \<and> length (k_dict k) < 65535 then k_dict k @ [s] else k_dict k\<rparr>)"
proof -
  let ?f = "\<lambda>l. decodeInternedStringWithLen l intern"
  have w: "yields k s n (?f (int (length s))) s
    (k\<lparr>k_dict := if intern \<and> 3 \<le> length s \<and> length (k_dict k) < 65535 then k_dict k @ [s] else k_dict k\<rparr>)"
    by (rule yields_internedWithLen) simp_all
  note f = yields_len_payload [where f = ?f, OF assms w]
  obtain g where g: "decodeInternedString intern = bindE readCode g"
    "\<And>c. IsFixedString c \<Longrightarrow> g c = ?f (uint (c AND FixedStrMask_c))"
    "g Str8_c = bindE dec_uint8 (\<lambda>n. ?f (uint n))" "g Str16_c = bindE dec_uint16 (\<lambda>n. ?f (uint n))"
    "g Str32_c = bindE dec_uint32 (\<lambda>n. bindE (uint32ToInt n ''interned string length'') ?f)"
    by (rule decodeInternedString_codes [of intern], rule that)
  show ?thesis
    using fixstr_code [of "int (length s)"] w f
    unfolding str_wire_def str_hdr_def g(1)
    by (auto intro!: yields_code simp: g(2-) simp del: of_nat_less_iff)
qed

text \<open>One string, as the encoder writes it with its dictionary.\<close>

lemma yields_DecodeString_step:
  assumes sync: "dict_sync ed (k_dict k)" and s: "len_ok k (int (length s))"
    and dict: "len_ok k (int (length (k_dict k)))"
  shows "yields k (istr_wire ed s) n DecodeString s
    (k\<lparr>k_dict := idict (hasFlag (k_flags k) useInternedStringsFlag) ed (k_dict k) s\<rparr>)"
  unfolding DecodeString_def
proof (rule yields_dec_flag, rule yields_dict)
  let ?i = "hasFlag (k_flags k) useInternedStringsFlag"
  let ?k = "k\<lparr>k_dict := idict ?i ed (k_dict k) s\<rparr>"
  have len: "length ed = length (k_dict k)" using sync by (rule dict_sync_length)
  show "yields k (istr_wire ed s) n (if ?i \<or> length (k_dict k) > 0 then decodeInternedString ?i
      else bindE readCode dec_string) s ?k"
  proof (cases "map_of ed s")
    case None
    then have "idict ?i ed (k_dict k) s =
        (if ?i \<and> 3 \<le> length s \<and> length (k_dict k) < 65535 then k_dict k @ [s] else k_dict k)"
      by (simp add: idict_def interns_def len)
    moreover have "istr_wire ed s = str_wire s" using None by (simp add: istr_wire_def)
    moreover have "yields k (str_wire s) n (bindE readCode dec_string) s (k\<lparr>k_dict := []\<rparr>)" if "k_dict k = []"
      using yields_plain_string [OF s, of n] that by (cases k) simp
    ultimately show ?thesis
      using yields_interned_str [OF s, of n ?i] by (cases "?i \<or> k_dict k \<noteq> []") simp_all
  next
    case (Some idx)
    have i: "0 \<le> idx" "idx < int (length (k_dict k))" "k_dict k ! nat idx = s"
      using dict_sync_lookup [OF sync Some] by auto
    then have "len_ok k idx" using dict by (simp add: len_ok_def)
    then have "yields k (idx_wire idx) n (decodeInternedString ?i) s k" using i by (intro yields_idx_wire)
    moreover have "?k = k" using Some by (simp add: idict_def interns_def)
    moreover have "length (k_dict k) > 0" using i(1,2) by linarith
    ultimately show ?thesis using Some by (simp add: istr_wire_def)
  qed
qed

fun istr_wires :: "bool \<Rightarrow> (gostring \<times> int) list \<Rightarrow> gostring list \<Rightarrow> byte list" where
  "istr_wires intern ed [] = []"
| "istr_wires intern ed (s # ss) = istr_wire ed s @ istr_wires intern (istr_dict intern ed s) ss"

lemma emits_EncodeString:
  assumes "dict_sync ed dd" and "length dd \<le> 65535"
  shows "emits out (fl, ed, P, t) (EncodeString s) (istr_wire ed s)
    (fl, istr_dict (hasFlag fl useInternedStringsFlag) ed s, P, t)"
proof (cases "hasFlag fl useInternedStringsFlag \<or> ed \<noteq> []")
  case True
  have "idx \<le> 4294967295" if "map_of ed s = Some idx" for idx
    using dict_sync_lookup [OF assms(1) that] assms(2) by simp
  with True show ?thesis by (rule emits_EncodeString_intern)
next
  case False
  then show ?thesis
    using emits_EncodeString_plain [of "(fl, ed, P, t)" out s]
    by (simp add: plain_strings_def istr_wire_def istr_dict_def interns_def)
qed

lemma idict_bound: "dict_sync ed dd \<Longrightarrow> length dd \<le> 65535 \<Longrightarrow> length (idict i ed dd s) \<le> 65535"
  using dict_sync_length [of ed dd] by (auto simp: idict_def interns_def)

lemma interned_writes:
  "dict_sync ed dd \<Longrightarrow> length dd \<le> 65535 \<Longrightarrow>
    \<exists>ed' dd'. dict_sync ed' dd' \<and> emits out (fl, ed, P, t) (forE EncodeString ss)
      (istr_wires (hasFlag fl useInternedStringsFlag) ed ss) (fl, ed', P, t) \<and>
    (\<forall>k n. k_dict k = dd \<longrightarrow> hasFlag (k_flags k) useInternedStringsFlag = hasFlag fl useInternedStringsFlag \<longrightarrow>
      32 < p_intBits (k_plat k) \<longrightarrow> (\<forall>s\<in>set ss. length s < 2 ^ 32) \<longrightarrow>
      yields k (istr_wires (hasFlag fl useInternedStringsFlag) ed ss) n (collectE (length ss) DecodeString) ss
        (k\<lparr>k_dict := dd'\<rparr>))"
proof (induction ss arbitrary: ed dd)
  case Nil
  have "emits out (fl, ed, P, t) (ret ()) [] (fl, ed, P, t)" by (rule emits_ret)
  moreover have "yields k [] n (ret []) [] k" for k n by (rule yields_ret)
  ultimately show ?case using Nil by (auto simp del: ret_apply intro!: exI [of _ ed] exI [of _ dd])
next
  case (Cons s ss)
  let ?i = "hasFlag fl useInternedStringsFlag"
  obtain ed' dd' where IH: "dict_sync ed' dd'"
    "emits out (fl, istr_dict ?i ed s, P, t) (forE EncodeString ss) (istr_wires ?i (istr_dict ?i ed s) ss) (fl, ed', P, t)"
    "\<And>k n. k_dict k = idict ?i ed dd s \<Longrightarrow> hasFlag (k_flags k) useInternedStringsFlag = ?i \<Longrightarrow>
      32 < p_intBits (k_plat k) \<Longrightarrow> (\<forall>s\<in>set ss. length s < 2 ^ 32) \<Longrightarrow>
      yields k (istr_wires ?i (istr_dict ?i ed s) ss) n (collectE (length ss) DecodeString) ss (k\<lparr>k_dict := dd'\<rparr>)"
    using Cons.IH [OF dict_sync_step [OF Cons.prems(1)] idict_bound [OF Cons.prems]] by meson
  have "emits out (fl, ed, P, t) (forE EncodeString (s # ss)) (istr_wires ?i ed (s # ss)) (fl, ed', P, t)"
    unfolding forE.simps istr_wires.simps
    by (rule emits_bind [OF emits_EncodeString [OF Cons.prems]]) (rule IH(2))
  moreover have "yields k (istr_wires ?i ed (s # ss)) n (collectE (length (s # ss)) DecodeString) (s # ss) (k\<lparr>k_dict := dd'\<rparr>)"
    if k: "k_dict k = dd" "hasFlag (k_flags k) useInternedStringsFlag = ?i" "32 < p_intBits (k_plat k)"
      "\<forall>s\<in>set (s # ss). length s < 2 ^ 32" for k n
  proof -
    let ?k = "k\<lparr>k_dict := idict ?i ed dd s\<rparr>"
    have "yields k (istr_wire ed s) (length (istr_wires ?i (istr_dict ?i ed s) ss) + n) DecodeString s ?k"
      using yields_DecodeString_step [of ed k s] Cons.prems k by (simp add: len_ok_intBits)
    moreover have "yields ?k (istr_wires ?i (istr_dict ?i ed s) ss) n
        (bindE (collectE (length ss) DecodeString) (\<lambda>xs. ret (s # xs))) (s # ss) (k\<lparr>k_dict := dd'\<rparr>)"
      using yields_bind_ret [OF IH(3) [of ?k n], of "\<lambda>xs. ret (s # xs)" "s # ss"] k by (simp del: ret_apply)
    ultimately show ?thesis by (simp add: yields_bind del: ret_apply)
  qed
  ultimately show ?case using IH(1) by blast
qed

text \<open>
  C10: interned strings survive a stream. When encoder and decoder start with corresponding
  dictionaries (for instance both empty) and agree on the interning option, everything \<open>EncodeString\<close>
  wrote for a list of strings, literal or as index, is read back by \<open>DecodeString\<close> as that list, and
  the two dictionaries correspond again afterwards, also when the dictionary runs full.
\<close>

theorem interned_stream_roundtrip:
  assumes "enc_ok out e" and "forE EncodeString ss e = (Inr (), e')"
    and "dict_sync (e_dict e) (d_dict d)" and "length (d_dict d) \<le> 65535"
    and "hasFlag (d_flags d) useInternedStringsFlag = hasFlag (e_flags e) useInternedStringsFlag"
    and "d_r d \<noteq> None" and "pending d = drop (length (written out e)) (written out e') @ rest"
    and "32 < p_intBits (d_plat d)" and "\<forall>s\<in>set ss. length s < 2 ^ 32"
  shows "\<exists>d'. collectE (length ss) DecodeString d = (Inr ss, d') \<and> pending d' = rest \<and>
           dict_sync (e_dict e') (d_dict d')"
proof -
  let ?i = "hasFlag (e_flags e) useInternedStringsFlag" and ?k = "dconf_of d"
  let ?w = "istr_wires ?i (e_dict e) ss"
  obtain ed' dd' where 1: "dict_sync ed' dd'"
    "emits out (conf e) (forE EncodeString ss) ?w (e_flags e, ed', e_plat e, e_structTag e)"
    and 2: "\<forall>k n. k_dict k = d_dict d \<longrightarrow> hasFlag (k_flags k) useInternedStringsFlag = ?i \<longrightarrow>
      32 < p_intBits (k_plat k) \<longrightarrow> (\<forall>s\<in>set ss. length s < 2 ^ 32) \<longrightarrow>
      yields k ?w n (collectE (length ss) DecodeString) ss (k\<lparr>k_dict := dd'\<rparr>)"
    using interned_writes [OF assms(3,4), of out "e_flags e" "e_plat e" "e_structTag e" ss]
    unfolding conf_def by blast
  have k: "k_dict ?k = d_dict d" "k_flags ?k = d_flags d" "k_plat ?k = d_plat d"
    by (simp_all add: dconf_of_def)
  have 3: "yields ?k ?w 0 (collectE (length ss) DecodeString) ss (?k\<lparr>k_dict := dd'\<rparr>)"
    using 2 [rule_format, of ?k 0] assms(5,8,9) k by simp
  have e': "e_dict e' = ed'" "written out e' = written out e @ ?w"
    using emitsD [OF 1(2) assms(1) refl] assms(2) by (simp_all add: conf_def)
  then have p: "pending d = ?w @ rest" using assms(7) by simp
  then have "ready ?w 0 d" using assms(6) by (simp add: ready_def)
  then obtain d' where d': "collectE (length ss) DecodeString d = (Inr ss, d')" "advanced ?w d d'"
    "dconf_of d' = ?k\<lparr>k_dict := dd'\<rparr>"
    by (rule yieldsD [OF 3 _ refl])
  have "d_dict d' = dd'" using arg_cong [OF d'(3), of k_dict] by (simp add: dconf_of_def)
  moreover have "pending d' = rest" using d'(2) p by (simp add: advanced_def)
  ultimately show ?thesis using d'(1) 1(1) e'(1) by blast
qed

theorem interned_stream_roundtrip_witness:
  "\<exists>d'. collectE 2 DecodeString
      (dec_UseInternedStrings True (NewDecoder amd64 (Some \<lparr>r_rest = [0xa3, 97, 98, 99, 0xd4, 0x80, 0, 7],
         r_last = None, r_end = EOF, r_hasLen = True\<rparr>))) = (Inr [[97, 98, 99], [97, 98, 99]], d') \<and> pending d' = [7]"
proof -
  let ?out = "\<lambda>_ :: unit. [] :: byte list" and ?ss = "[[97, 98, 99], [97, 98, 99]] :: byte list list"
  let ?e = "UseInternedStrings True ((NewEncoder amd64 None :: unit encoder)\<lparr>e_w := AppendWriter\<rparr>)"
  let ?d = "dec_UseInternedStrings True (NewDecoder amd64 (Some \<lparr>r_rest = [0xa3, 97, 98, 99, 0xd4, 0x80, 0, 7],
         r_last = None, r_end = EOF, r_hasLen = True\<rparr>))"
  let ?w = "[0xa3, 97, 98, 99, 0xd4, 0x80, 0] :: byte list"
  note defs = NewEncoder_def Reset_def ResetDict_def ResetWriter_def UseInternedStrings_def
    NewDecoder_def dec_Reset_def dec_ResetDict_def dec_ResetReader_def dec_UseInternedStrings_def
  have e: "enc_ok ?out ?e" by (simp add: enc_ok_def enc_inv_def writer_ok_def defs)
  have f: "hasFlag (setFlag useInternedStringsFlag True 0) useInternedStringsFlag"
    by (simp add: hasFlag_def setFlag_def useInternedStringsFlag_def)
  have w: "istr_wires True [] ?ss = ?w"
    by (simp add: istr_wire_def istr_dict_def interns_def str_wire_def str_hdr_def idx_wire_def opcode_values
        internedStringExtID_def minInternedStringLen_def maxDictLen_def)
  have c: "conf ?e = (e_flags ?e, [], amd64, [])" "hasFlag (e_flags ?e) useInternedStringsFlag"
    using f by (simp_all add: conf_def defs)
  have s: "dict_sync [] []" by (simp add: dict_sync_def)
  obtain r e' where run: "forE EncodeString ?ss ?e = (r, e')" by fastforce
  obtain ed' where "emits ?out (conf ?e) (forE EncodeString ?ss) ?w (e_flags ?e, ed', amd64, [])"
    using interned_writes [OF s, of ?out "e_flags ?e" amd64 "[]" ?ss] c w by auto
  then have em: "emitted ?out ?e ?w (e_flags ?e, ed', amd64, []) (r, e')" using emitsD [OF _ e refl] run by metis
  have a: "e_w ?e = AppendWriter" by (simp add: UseInternedStrings_def)
  have r: "r = Inr ()" using em a by (cases r) (simp_all add: emitted_def)
  have w': "written ?out e' = written ?out ?e @ ?w" using em unfolding r emitted_Inr by blast
  have d: "d_r ?d \<noteq> None" "e_dict ?e = []" "d_dict ?d = []"
    "hasFlag (d_flags ?d) useInternedStringsFlag" "d_plat ?d = amd64" "pending ?d = ?w @ [7]"
    using f by (simp_all add: defs)
  have p: "32 < p_intBits amd64" by (simp add: amd64_def)
  have "\<exists>d'. collectE (length ?ss) DecodeString ?d = (Inr ?ss, d') \<and> pending d' = [7] \<and>
      dict_sync (e_dict e') (d_dict d')"
    by (rule interned_stream_roundtrip [OF e run [unfolded r]])
      (simp_all add: c(2) s d w' p del: pending_reader)
  then show ?thesis by (auto simp: numeral_2_eq_2)
qed

end
