(* ===== verification/Depth_Recursion.thy ===== *)
theory Depth_Recursion
  imports Decoder_Logic
begin

text \<open>
  Recursion bounded by the nesting depth. \<open>Skip\<close>, \<open>decodeInterfaceCond\<close> and \<open>DecodeValue\<close> call
  themselves between \<open>enterDepth\<close> and \<open>leaveDepth\<close>; their models run with fuel. The interface
  \<open>depth_recursion\<close> says what their bodies must satisfy: they keep the frame and call themselves only
  one level deeper, below the limit. It follows that the remaining depth is enough fuel, that the
  model satisfies the recursion equation of the source without fuel, and that it is the only
  function that does.
\<close>

section \<open>Agreement of two methods\<close>

definition agrees :: "('s \<Rightarrow> bool) \<Rightarrow> ('s, 'a) go \<Rightarrow> ('s, 'a) go \<Rightarrow> bool" where
  "agrees P m m' \<longleftrightarrow> (\<forall>s. P s \<longrightarrow> m s = m' s)"

lemma agreesI: "(\<And>s. P s \<Longrightarrow> m s = m' s) \<Longrightarrow> agrees P m m'"
  by (simp add: agrees_def)

lemma agreesD: "agrees P m m' \<Longrightarrow> P s \<Longrightarrow> m s = m' s"
  by (simp add: agrees_def)

locale stable_frame = frame_relation R for R :: "'s \<Rightarrow> 's \<Rightarrow> bool" +
  fixes P :: "'s \<Rightarrow> bool"
  assumes stable: "P s \<Longrightarrow> R s t \<Longrightarrow> P t"
begin

lemma agrees_refl: "agrees P m m"
  by (simp add: agrees_def)

lemma agrees_bindE:
  assumes "agrees P m m'" and "keeps R m" and "\<And>x. agrees P (f x) (f' x)"
  shows "agrees P (bindE m f) (bindE m' f')"
proof (rule agreesI)
  fix s
  assume s: "P s"
  obtain res t where m: "m s = (res, t)" by fastforce
  have "P t" using stable [OF s keepsD [OF assms(2) m]] .
  then have "f x t = f' x t" for x by (rule agreesD [OF assms(3)])
  moreover have "m' s = (res, t)" using agreesD [OF assms(1) s] m by simp
  ultimately show "bindE m f s = bindE m' f' s" using m by (simp add: bindE_def split: sum.split)
qed

lemma agrees_bind_same:
  "keeps R m \<Longrightarrow> (\<And>x. agrees P (f x) (f' x)) \<Longrightarrow> agrees P (bindE m f) (bindE m f')"
  by (rule agrees_bindE [OF agrees_refl])

lemma agrees_tryE:
  assumes "agrees P m m'" and "keeps R m" and "\<And>x. agrees P (f x) (f' x)" and "\<And>e. agrees P (h e) (h' e)"
  shows "agrees P (tryE m f h) (tryE m' f' h')"
proof (rule agreesI)
  fix s
  assume s: "P s"
  obtain res t where m: "m s = (res, t)" by fastforce
  have "P t" using stable [OF s keepsD [OF assms(2) m]] .
  then have "f x t = f' x t" "h e t = h' e t" for x e by (rule agreesD [OF assms(3)] agreesD [OF assms(4)])+
  moreover have "m' s = (res, t)" using agreesD [OF assms(1) s] m by simp
  ultimately show "tryE m f h s = tryE m' f' h' s" using m by (simp add: tryE_def split: sum.split)
qed

lemma agrees_if: "agrees P m m' \<Longrightarrow> agrees P n n' \<Longrightarrow> agrees P (if b then m else n) (if b then m' else n')"
  by simp

lemma agrees_repeatE: "agrees P m m' \<Longrightarrow> keeps R m \<Longrightarrow> agrees P (repeatE n m) (repeatE n m')"
  by (induction n) (simp_all only: repeatE.simps agrees_refl agrees_bindE)

lemma agrees_collectE: "agrees P m m' \<Longrightarrow> keeps R m \<Longrightarrow> agrees P (collectE n m) (collectE n m')"
proof (induction n)
  case (Suc n)
  show ?case
    unfolding collectE.simps
    by (intro agrees_bindE Suc agrees_refl keeps_collectE)
qed (simp only: collectE.simps agrees_refl)

lemma agrees_foldE:
  "(\<And>a. agrees P (f a) (f' a)) \<Longrightarrow> (\<And>a. keeps R (f a)) \<Longrightarrow> agrees P (foldE n f a) (foldE n f' a)"
  by (induction n arbitrary: a) (simp_all only: foldE.simps agrees_refl agrees_bindE)

lemma agrees_foldlE:
  "(\<And>x a. x \<in> set xs \<Longrightarrow> agrees P (f x a) (f' x a)) \<Longrightarrow> (\<And>x a. x \<in> set xs \<Longrightarrow> keeps R (f x a)) \<Longrightarrow>
    agrees P (foldlE f xs a) (foldlE f' xs a)"
  by (induction xs arbitrary: a) (simp_all only: foldlE.simps agrees_refl agrees_bindE list.set_intros)

lemmas agrees_intros = agrees_if agrees_bindE agrees_tryE agrees_repeatE agrees_collectE agrees_foldE agrees_foldlE

end

section \<open>Depth\<close>

definition at_depth :: "int \<Rightarrow> int \<Rightarrow> decoder \<Rightarrow> bool" where
  "at_depth k l d \<longleftrightarrow> 0 \<le> k \<and> d_depth d = k \<and> depth_limit d = l"

interpretation at_depth: stable_frame frame "at_depth k l" for k l
  by unfold_locales (auto simp: frame_def at_depth_def depth_limit_def)

lemma agrees_withDepth:
  assumes "k < l \<Longrightarrow> agrees (at_depth (k + 1) l) m m'"
  shows "agrees (at_depth k l) (withDepth m) (withDepth m')"
proof (rule agreesI)
  fix d
  assume d: "at_depth k l d"
  let ?d = "d\<lparr>d_depth := d_depth d + 1\<rparr>"
  show "withDepth m d = withDepth m' d"
  proof (cases "k < l")
    case True
    have "at_depth (k + 1) l ?d" using d by (auto simp: at_depth_def depth_limit_def)
    then have "m ?d = m' ?d" by (rule agreesD [OF assms [OF True]])
    then show ?thesis by (simp add: withDepth_def enterDepth_def bindE_def deferE_def Let_def)
  next
    case False
    then show ?thesis
      using d by (simp add: withDepth_def enterDepth_def bindE_def Let_def at_depth_def)
  qed
qed

text \<open>The levels the decoder may still enter.\<close>

definition budget :: "decoder \<Rightarrow> nat" where
  "budget d = nat (depth_limit d - d_depth d)"

locale depth_recursion =
  fixes body :: "('i \<Rightarrow> (decoder, 'a) go) \<Rightarrow> 'i \<Rightarrow> (decoder, 'a) go"
    and run :: "nat \<Rightarrow> 'i \<Rightarrow> (decoder, 'a) go" and full :: "'i \<Rightarrow> (decoder, 'a) go"
  assumes keeps_body: "(\<And>j. keeps frame (m j)) \<Longrightarrow> keeps frame (body m i)"
    and deeper: "(\<And>j. keeps frame (m j)) \<Longrightarrow> (\<And>j. keeps frame (m' j)) \<Longrightarrow>
      (k < l \<Longrightarrow> (\<And>j. agrees (at_depth (k + 1) l) (m j) (m' j))) \<Longrightarrow>
      agrees (at_depth k l) (body m i) (body m' i)"
    and run_0: "run 0 i = fail OutOfFuel"
    and run_Suc: "run (Suc n) i = body (run n) i"
    and full_run: "full i d = run (Suc (budget d)) i d"
begin

lemma keeps_run: "keeps frame (run n i)"
  by (induction n arbitrary: i) (simp_all add: run_0 run_Suc dec_frame.keeps_fail keeps_body)

lemma keeps_full: "keeps frame (full i)"
  using keeps_run by (simp add: keeps_def full_run)

lemma run_agrees:
  "nat (l - k) < n \<Longrightarrow> nat (l - k) < n' \<Longrightarrow> agrees (at_depth k l) (run n i) (run n' i)"
proof (induction n arbitrary: n' k i)
  case (Suc n)
  then obtain b where b: "n' = Suc b" by (cases n') auto
  show ?case
    unfolding run_Suc b
    by (rule deeper [OF keeps_run keeps_run], rule Suc.IH) (use Suc.prems b in auto)
qed simp

lemma full_agrees: "nat (l - k) < n \<Longrightarrow> agrees (at_depth k l) (full i) (run n i)"
proof (rule agreesI)
  fix d
  assume n: "nat (l - k) < n" and d: "at_depth k l d"
  have "budget d = nat (l - k)" using d by (simp add: at_depth_def budget_def)
  then show "full i d = run n i d"
    using agreesD [OF run_agrees d, of "Suc (budget d)" n] n by (simp add: full_run)
qed

text \<open>The recursion equation of the source.\<close>

lemma unfold:
  assumes "0 \<le> d_depth d"
  shows "full i d = body full i d"
proof -
  let ?k = "d_depth d" and ?l = "depth_limit d"
  have d: "at_depth ?k ?l d" using assms by (simp add: at_depth_def)
  have "agrees (at_depth ?k ?l) (body (run (nat (?l - ?k))) i) (body full i)"
  proof (rule deeper [OF keeps_run keeps_full])
    fix j
    assume "?k < ?l"
    then show "agrees (at_depth (?k + 1) ?l) (run (nat (?l - ?k)) j) (full j)"
      using full_agrees [of ?l "?k + 1" "nat (?l - ?k)" j] by (simp add: agrees_def)
  qed
  from agreesD [OF this d] show ?thesis by (simp add: full_run run_Suc budget_def)
qed

text \<open>It has one solution.\<close>

lemma unique:
  assumes keep: "\<And>j. keeps frame (m j)" and eq: "\<And>j d. 0 \<le> d_depth d \<Longrightarrow> m j d = body m j d"
    and "0 \<le> d_depth d"
  shows "m i d = full i d"
proof -
  have "agrees (at_depth k l) (m i) (run n i)" if "nat (l - k) < n" for k l n i
    using that
  proof (induction n arbitrary: k i)
    case (Suc n)
    have "agrees (at_depth k l) (body m i) (run (Suc n) i)"
      unfolding run_Suc by (rule deeper [OF keep keeps_run], rule Suc.IH) (use Suc.prems in auto)
    then show ?case using eq by (simp add: agrees_def at_depth_def)
  qed simp
  then have "agrees (at_depth (d_depth d) (depth_limit d)) (m i) (run (Suc (budget d)) i)"
    by (simp add: budget_def)
  then show ?thesis using assms(3) by (simp add: agrees_def at_depth_def full_run)
qed

end

end
