(* ===== verification/Wire_Format.thy ===== *)
theory Wire_Format
  imports Msgpcode Go_Word
begin

text \<open>
  The MessagePack format, as a table of codes and a grammar: \<open>item n bs\<close> says that \<open>bs\<close> is the encoding
  of one value whose containers nest at most \<open>n\<close> deep. It is the specification against which
  \<open>Skip\<close> and the encoder are proved; it does not mention either.
\<close>

section \<open>Grammar\<close>

text \<open>What follows a code: a fixed number of bytes, a length and that many bytes (plus the type byte
  of an extension), or values, their number fixed or given by a length.\<close>

datatype shape = Plain nat | Sized nat nat | Items nat | SizedItems nat nat

definition shape_of :: "byte \<Rightarrow> shape option" where
  "shape_of c =
     (let n = unat c in
      if n < 0x80 then Some (Plain 0)
      else if n < 0x90 then Some (Items (2 * (n - 0x80)))
      else if n < 0xa0 then Some (Items (n - 0x90))
      else if n < 0xc0 then Some (Plain (n - 0xa0))
      else if n < 0xe0 then
        [Some (Plain 0), None, Some (Plain 0), Some (Plain 0),
         Some (Sized 1 0), Some (Sized 2 0), Some (Sized 4 0),
         Some (Sized 1 1), Some (Sized 2 1), Some (Sized 4 1),
         Some (Plain 4), Some (Plain 8),
         Some (Plain 1), Some (Plain 2), Some (Plain 4), Some (Plain 8),
         Some (Plain 1), Some (Plain 2), Some (Plain 4), Some (Plain 8),
         Some (Plain 2), Some (Plain 3), Some (Plain 5), Some (Plain 9), Some (Plain 17),
         Some (Sized 1 0), Some (Sized 2 0), Some (Sized 4 0),
         Some (SizedItems 2 1), Some (SizedItems 4 1), Some (SizedItems 2 2), Some (SizedItems 4 2)] ! (n - 0xc0)
      else Some (Plain 0))"

definition be :: "byte list \<Rightarrow> nat" where
  "be bs = foldl (\<lambda>a b. a * 256 + unat b) 0 bs"

inductive item :: "nat \<Rightarrow> byte list \<Rightarrow> bool" where
  plain: "shape_of c = Some (Plain n) \<Longrightarrow> length b = n \<Longrightarrow> item (Suc d) (c # b)"
| sized: "shape_of c = Some (Sized w x) \<Longrightarrow> length h = w \<Longrightarrow> length b = be h + x \<Longrightarrow> item (Suc d) (c # h @ b)"
| items: "shape_of c = Some (Items m) \<Longrightarrow> length as = m \<Longrightarrow> (\<forall>a\<in>set as. item d a) \<Longrightarrow>
    item (Suc d) (c # concat as)"
| sized_items: "shape_of c = Some (SizedItems w f) \<Longrightarrow> length h = w \<Longrightarrow> length as = f * be h \<Longrightarrow>
    (\<forall>a\<in>set as. item d a) \<Longrightarrow> item (Suc d) (c # h @ concat as)"

inductive_simps item_0: "item 0 bs"
inductive_simps item_Cons: "item (Suc d) (c # bs)"

lemma item_nonempty: "item d bs \<Longrightarrow> bs \<noteq> []"
  by (cases rule: item.cases) auto

lemma length_items: "\<forall>a\<in>set as. item d a \<Longrightarrow> length as \<le> length (concat as)"
proof (induction as)
  case (Cons a as)
  then have "a \<noteq> []" using item_nonempty [of d a] by simp
  with Cons show ?case by (cases a) auto
qed simp

section \<open>Big-endian lengths\<close>

lemma unat_take_bit: "unat (take_bit n c) = unat c mod 2 ^ n"
  by (simp only: unsigned_take_bit_eq flip: take_bit_eq_mod)

lemma unat_mask:
  "unat (c AND 15 :: byte) = unat c mod 16" "unat (c AND 31 :: byte) = unat c mod 32"
  using unat_take_bit [of 4 c] unat_take_bit [of 5 c]
  by (simp_all add: take_bit_eq_mask mask_eq_exp_minus_1)

lemma unat_join:
  fixes x y :: "'a :: len word"
  assumes "unat y < 2 ^ n" and "unat x * 2 ^ n + unat y < 2 ^ LENGTH('a)"
  shows "unat (push_bit n x OR y) = unat x * 2 ^ n + unat y"
proof -
  have y: "take_bit n y = y" using assms(1) by (intro word_unat_eq_iff [THEN iffD2]) (simp add: unat_take_bit)
  have "push_bit n x AND y = 0"
  proof (rule bit_word_eqI)
    fix i
    show "bit (push_bit n x AND y) i = bit (0 :: 'a word) i"
      by (subst y [symmetric]) (auto simp: bit_simps)
  qed
  then have "push_bit n x OR y = push_bit n x + y" by (simp add: disjunctive_add_eq_or)
  moreover have "unat (push_bit n x) = unat x * 2 ^ n"
    using assms(2) by (subst unsigned_push_bit_eq) (simp add: take_bit_eq_mod push_bit_eq_mult)
  ultimately show ?thesis using assms(2) by (simp add: unat_word_ariths)
qed

lemma be_join:
  "uint (a :: byte) = int (be [a])" "uint (join16 [a, b]) = int (be [a, b])"
  "uint (join32 [a, b, c, e]) = int (be [a, b, c, e])"
proof -
  have lt: "unat a < 256" "unat b < 256" "unat c < 256" "unat e < 256" by (rule unat_lt_byte)+
  have u: "unat (ucast x :: u16) = unat x" "unat (ucast x :: u32) = unat x" for x :: byte
    by (simp_all add: unsigned_ucast_eq take_bit_nat_eq_self)
  show "uint a = int (be [a])" by (simp add: be_def)
  have 0: "unat (push_bit 8 (ucast a) OR ucast b :: u16) = unat a * 256 + unat b"
    by (subst unat_join) (use lt in \<open>simp_all add: u\<close>)
  then show "uint (join16 [a, b]) = int (be [a, b])" using arg_cong [OF 0, of int] by (simp add: be_def join16_def)
  have 1: "unat (push_bit 8 (ucast c) OR ucast e :: u32) = unat c * 256 + unat e"
    by (subst unat_join) (use lt in \<open>simp_all add: u\<close>)
  have 2: "unat (push_bit 16 (ucast b) OR (push_bit 8 (ucast c) OR ucast e) :: u32) =
      unat b * 65536 + (unat c * 256 + unat e)"
    by (subst unat_join) (use lt in \<open>simp_all add: u 1\<close>)
  have 3: "unat (push_bit 24 (ucast a) OR (push_bit 16 (ucast b) OR (push_bit 8 (ucast c) OR ucast e)) :: u32) =
      unat a * 16777216 + (unat b * 65536 + (unat c * 256 + unat e))"
    by (subst unat_join) (use lt in \<open>simp_all add: u 2\<close>)
  then show "uint (join32 [a, b, c, e]) = int (be [a, b, c, e])"
    using arg_cong [OF 3, of int] by (simp add: be_def join32_def or.assoc algebra_simps)
qed

section \<open>The table and the opcode predicates\<close>

lemma shape_codes:
  "IsFixedNum c \<Longrightarrow> shape_of c = Some (Plain 0)"
  "IsFixedMap c \<Longrightarrow> shape_of c = Some (Items (2 * unat (c AND FixedMapMask_c)))"
  "IsFixedArray c \<Longrightarrow> shape_of c = Some (Items (unat (c AND FixedArrayMask_c)))"
  "IsFixedString c \<Longrightarrow> shape_of c = Some (Plain (unat (c AND FixedStrMask_c)))"
proof -
  note d = shape_of_def code_arith unat_mask Let_def
  show "shape_of c = Some (Plain 0)" if "IsFixedNum c" using that by (auto simp: d)
  show "shape_of c = Some (Items (2 * unat (c AND FixedMapMask_c)))" if "IsFixedMap c"
  proof -
    have "unat c mod 16 = unat c - 128" using that by (auto simp: code_arith mod_nat_eqI)
    with that show ?thesis by (auto simp: d)
  qed
  show "shape_of c = Some (Items (unat (c AND FixedArrayMask_c)))" if "IsFixedArray c"
  proof -
    have "unat c mod 16 = unat c - 144" using that by (auto simp: code_arith mod_nat_eqI)
    with that show ?thesis by (auto simp: d)
  qed
  show "shape_of c = Some (Plain (unat (c AND FixedStrMask_c)))" if "IsFixedString c"
  proof -
    have "unat c mod 32 = unat c - 160" using that by (auto simp: code_arith mod_nat_eqI)
    with that show ?thesis by (auto simp: d)
  qed
qed

lemma shape_fixed_codes:
  "shape_of Nil_c = Some (Plain 0)" "shape_of False_c = Some (Plain 0)" "shape_of True_c = Some (Plain 0)"
  "shape_of Uint8_c = Some (Plain 1)" "shape_of Int8_c = Some (Plain 1)"
  "shape_of Uint16_c = Some (Plain 2)" "shape_of Int16_c = Some (Plain 2)"
  "shape_of Uint32_c = Some (Plain 4)" "shape_of Int32_c = Some (Plain 4)" "shape_of Float_c = Some (Plain 4)"
  "shape_of Uint64_c = Some (Plain 8)" "shape_of Int64_c = Some (Plain 8)" "shape_of Double_c = Some (Plain 8)"
  "shape_of Bin8_c = Some (Sized 1 0)" "shape_of Bin16_c = Some (Sized 2 0)" "shape_of Bin32_c = Some (Sized 4 0)"
  "shape_of Str8_c = Some (Sized 1 0)" "shape_of Str16_c = Some (Sized 2 0)" "shape_of Str32_c = Some (Sized 4 0)"
  "shape_of Array16_c = Some (SizedItems 2 1)" "shape_of Array32_c = Some (SizedItems 4 1)"
  "shape_of Map16_c = Some (SizedItems 2 2)" "shape_of Map32_c = Some (SizedItems 4 2)"
  "shape_of FixExt1_c = Some (Plain 2)" "shape_of FixExt2_c = Some (Plain 3)" "shape_of FixExt4_c = Some (Plain 5)"
  "shape_of FixExt8_c = Some (Plain 9)" "shape_of FixExt16_c = Some (Plain 17)"
  "shape_of Ext8_c = Some (Sized 1 1)" "shape_of Ext16_c = Some (Sized 2 1)" "shape_of Ext32_c = Some (Sized 4 1)"
  by (simp_all add: shape_of_def opcode_values)

end
