(* ===== verification/Decode_Skip.thy ===== *)
theory Decode_Skip
  imports String_Codec Depth_Recursion Wire_Format
begin

text \<open>
  \<open>Skip\<close> and \<open>DecodeRaw\<close> of \<^verbatim>\<open>decode.go\<close>, \<open>skipSlice\<close> of \<^verbatim>\<open>decode_slice.go\<close> and \<open>skipMap\<close> of
  \<^verbatim>\<open>decode_map.go\<close>, against the grammar of the wire format: \<open>item n bs\<close> says that \<open>bs\<close> is one value
  nested at most \<open>n\<close> deep. \<open>Skip\<close> succeeds exactly on items within the depth limit and consumes
  exactly one.
\<close>

section \<open>Operations\<close>

text \<open>The functions that recurse take \<open>Skip\<close> as their argument \<open>skip\<close>.\<close>

definition skipSlice :: "(decoder, unit) go \<Rightarrow> byte \<Rightarrow> (decoder, unit) go" where
  "skipSlice skip c = bindE (arrayLen c) (\<lambda>n. repeatE (nat n) skip)"

definition skipMap :: "(decoder, unit) go \<Rightarrow> byte \<Rightarrow> (decoder, unit) go" where
  "skipMap skip c = bindE (mapLen c) (\<lambda>n. repeatE (nat n) (bindE skip (\<lambda>_. skip)))"

definition skip_code :: "(decoder, unit) go \<Rightarrow> byte \<Rightarrow> (decoder, unit) go" where
  "skip_code skip c =
     (if IsFixedNum c then ret ()
      else if IsFixedMap c then skipMap skip c
      else if IsFixedArray c then skipSlice skip c
      else if IsFixedString c then skipBytes c
      else if c = Nil_c \<or> c = False_c \<or> c = True_c then ret ()
      else if c = Uint8_c \<or> c = Int8_c then skipN 1
      else if c = Uint16_c \<or> c = Int16_c then skipN 2
      else if c = Uint32_c \<or> c = Int32_c \<or> c = Float_c then skipN 4
      else if c = Uint64_c \<or> c = Int64_c \<or> c = Double_c then skipN 8
      else if c = Bin8_c \<or> c = Bin16_c \<or> c = Bin32_c then skipBytes c
      else if c = Str8_c \<or> c = Str16_c \<or> c = Str32_c then skipBytes c
      else if c = Array16_c \<or> c = Array32_c then skipSlice skip c
      else if c = Map16_c \<or> c = Map32_c then skipMap skip c
      else if c = FixExt1_c \<or> c = FixExt2_c \<or> c = FixExt4_c \<or> c = FixExt8_c \<or> c = FixExt16_c \<or>
              c = Ext8_c \<or> c = Ext16_c \<or> c = Ext32_c then skipExt c
      else fail (UnknownCode c))"

definition skip_body :: "(decoder, unit) go \<Rightarrow> (decoder, unit) go" where
  "skip_body skip = withDepth (bindE readCode (skip_code skip))"

primrec Skip_f :: "nat \<Rightarrow> (decoder, unit) go" where
  "Skip_f 0 = fail OutOfFuel"
| "Skip_f (Suc n) = skip_body (Skip_f n)"

definition Skip :: "(decoder, unit) go" where
  "Skip d = Skip_f (Suc (budget d)) d"

definition DecodeRaw :: "(decoder, byte list option) go" where
  "DecodeRaw =
     bindE (modS (\<lambda>d. d\<lparr>d_rec := Some (make_slice 0 0 0)\<rparr>)) (\<lambda>_.
       deferE (\<lambda>d. d\<lparr>d_rec := None\<rparr>)
         (bindE Skip (\<lambda>_. getS (\<lambda>d. map_option vis (d_rec d)))))"

section \<open>The recursion\<close>

lemma keeps_skip_code: "keeps frame skip \<Longrightarrow> keeps frame (skip_code skip c)"
  unfolding skip_code_def skipMap_def skipSlice_def by (intro frame_intros frames)

lemma agrees_skip_code:
  assumes "keeps frame skip" and "agrees (at_depth k l) skip skip'"
  shows "agrees (at_depth k l) (skip_code skip c) (skip_code skip' c)"
  unfolding skip_code_def skipMap_def skipSlice_def
  by (intro at_depth.agrees_if at_depth.agrees_bindE at_depth.agrees_repeatE at_depth.agrees_refl
      assms frames frame_intros)

interpretation skip: depth_recursion "\<lambda>m i. skip_body (m i)" "\<lambda>n _. Skip_f n" "\<lambda>_ :: unit. Skip"
proof
  show "keeps frame (skip_body (m i))" if "\<And>j. keeps frame (m j)" for m :: "unit \<Rightarrow> _" and i
    unfolding skip_body_def by (intro keeps_withDepth frame_intros frames keeps_skip_code that)
  show "agrees (at_depth k l) (skip_body (m i)) (skip_body (m' i))"
    if "\<And>j. keeps frame (m j)" "k < l \<Longrightarrow> (\<And>j. agrees (at_depth (k + 1) l) (m j) (m' j))"
    for m m' :: "unit \<Rightarrow> _" and k l i
    unfolding skip_body_def
    by (intro agrees_withDepth at_depth.agrees_bind_same agrees_skip_code that frames)
qed (simp_all add: Skip_def)

lemma keeps_Skip [frames]: "keeps frame Skip"
  by (rule skip.keeps_full)

section \<open>What a successful Skip has consumed\<close>

lemma delivers_be:
  "delivers k dec_uint8 (\<lambda>h n. length h = 1 \<and> uint n = int (be h))"
  "delivers k dec_uint16 (\<lambda>h n. length h = 2 \<and> uint n = int (be h))"
  "delivers k dec_uint32 (\<lambda>h n. length h = 4 \<and> uint n = int (be h))"
proof -
  have "length b = 2 \<Longrightarrow> uint (join16 b) = int (be b)" "length b = 4 \<Longrightarrow> uint (join32 b) = int (be b)" for b
    using be_join by (auto simp: numeral_eq_Suc length_Suc_conv)
  then show "delivers k dec_uint16 (\<lambda>h n. length h = 2 \<and> uint n = int (be h))"
    "delivers k dec_uint32 (\<lambda>h n. length h = 4 \<and> uint n = int (be h))"
    "delivers k dec_uint8 (\<lambda>h n. length h = 1 \<and> uint n = int (be h))"
    unfolding dec_uint8_def dec_uint16_def dec_uint32_def
    by (auto intro!: delivers_bind [OF delivers_readN] delivers_mono [OF delivers_readCode] delivers_ret simp: be_join)
qed

lemma delivers_checked:
  "delivers k (checkedBytes n) (\<lambda>bs x. bs = [] \<and> x = n)"
  "delivers k (checkedContainer w s n) (\<lambda>bs x. bs = [] \<and> x = n)"
  unfolding checkedBytes_def checkedContainer_def
  by (auto intro!: delivers_bind [OF delivers_rejects(1)] delivers_bind [OF delivers_rejects(2)] delivers_ret)

text \<open>A length field followed by a check.\<close>

lemma delivers_len_field:
  assumes "\<And>n. delivers k (f n) (\<lambda>bs x. bs = [] \<and> x = n)"
  shows "delivers k (bindE dec_uint8 (\<lambda>n. f (uint n))) (\<lambda>h x. length h = 1 \<and> x = int (be h))"
    and "delivers k (bindE dec_uint16 (\<lambda>n. f (uint n))) (\<lambda>h x. length h = 2 \<and> x = int (be h))"
    and "delivers k (bindE dec_uint32 (\<lambda>n. bindE (uint32ToInt n s) f)) (\<lambda>h x. length h = 4 \<and> x = int (be h))"
  by (auto intro!: delivers_bind [OF delivers_be(1)] delivers_bind [OF delivers_be(2)]
      delivers_bind [OF delivers_be(3)] delivers_bind [OF delivers_uint32ToInt] delivers_mono [OF assms])

lemma delivers_skipN: "delivers k (skipN n) (\<lambda>bs _. length bs = n)"
  unfolding skipN_def by (auto intro!: delivers_bind [OF delivers_readN] delivers_ret)

lemma delivers_skipBytes:
  assumes "delivers k (bytesLen c) (\<lambda>h n. H h \<and> n = int (L h))"
  shows "delivers k (skipBytes c) (\<lambda>bs _. \<exists>h b. bs = h @ b \<and> H h \<and> length b = L h)"
  unfolding skipBytes_def
proof (rule delivers_bind [OF assms], intro delivers_if)
  fix h n
  assume h: "H h \<and> n = int (L h)"
  show "delivers k (ret ()) (\<lambda>b _. \<exists>h' b'. h @ b = h' @ b' \<and> H h' \<and> length b' = L h')" if "n \<le> 0"
    by (rule delivers_ret, rule exI [of _ h], rule exI [of _ "[]"]) (use h that in auto)
  show "delivers k (skipN (nat n)) (\<lambda>b _. \<exists>h' b'. h @ b = h' @ b' \<and> H h' \<and> length b' = L h')"
    by (rule delivers_mono [OF delivers_skipN]) (use h in auto)
qed

lemma delivers_skipExt:
  assumes "delivers k (parseExtLen c) (\<lambda>h n. H h \<and> n = int (L h))"
  shows "delivers k (skipExt c) (\<lambda>bs _. \<exists>h b. bs = h @ b \<and> H h \<and> length b = L h + 1)"
  unfolding skipExt_def
proof (rule delivers_bind [OF assms], rule delivers_bind [OF delivers_skipN], rule delivers_mono [OF delivers_skipN])
  fix h n and a b :: "byte list"
  assume "H h \<and> n = int (L h)" "length a = 1" "length b = nat n"
  then show "\<exists>h' b'. h @ a @ b = h' @ b' \<and> H h' \<and> length b' = L h' + 1"
    by (intro exI [of _ h] exI [of _ "a @ b"]) simp
qed

definition some_items :: "nat \<Rightarrow> nat \<Rightarrow> byte list \<Rightarrow> bool" where
  "some_items d m bs \<longleftrightarrow> (\<exists>as. length as = m \<and> bs = concat as \<and> (\<forall>a\<in>set as. item d a))"

lemma some_items_Suc: "item d a \<Longrightarrow> some_items d m b \<Longrightarrow> some_items d (Suc m) (a @ b)"
proof -
  assume a: "item d a" and "some_items d m b"
  then obtain as where "length as = m" "b = concat as" "\<forall>a\<in>set as. item d a" by (auto simp: some_items_def)
  with a show ?thesis unfolding some_items_def by (intro exI [of _ "a # as"]) simp
qed

lemma repeatE_double: "repeatE n (bindE m (\<lambda>_. m)) = repeatE (2 * n) m"
  by (induction n) (simp_all add: bindE_assoc)

lemma delivers_repeat:
  assumes "delivers k skip (\<lambda>bs _. item d bs)"
  shows "delivers k (repeatE m skip) (\<lambda>bs _. some_items d m bs)"
proof (induction m)
  case 0
  show ?case unfolding repeatE.simps by (rule delivers_ret) (simp add: some_items_def)
next
  case (Suc m)
  show ?case
    unfolding repeatE.simps
    by (rule delivers_bind [OF assms]) (rule delivers_mono [OF Suc some_items_Suc])
qed

lemma delivers_skipSlice:
  assumes "delivers k (arrayLen c) (\<lambda>h n. H h \<and> n = int (L h))" and "delivers k skip (\<lambda>bs _. item d bs)"
  shows "delivers k (skipSlice skip c) (\<lambda>bs _. \<exists>h b. bs = h @ b \<and> H h \<and> some_items d (L h) b)"
  unfolding skipSlice_def
  by (rule delivers_bind [OF assms(1)], rule delivers_mono [OF delivers_repeat [OF assms(2)]]) auto

lemma delivers_skipMap:
  assumes "delivers k (mapLen c) (\<lambda>h n. H h \<and> n = int (L h))" and "delivers k skip (\<lambda>bs _. item d bs)"
  shows "delivers k (skipMap skip c) (\<lambda>bs _. \<exists>h b. bs = h @ b \<and> H h \<and> some_items d (2 * L h) b)"
  unfolding skipMap_def repeatE_double
  by (rule delivers_bind [OF assms(1)], rule delivers_mono [OF delivers_repeat [OF assms(2)]]) auto

lemma delivers_fixed_len: "delivers k (ret (int n)) (\<lambda>h x. h = [] \<and> x = int ((\<lambda>_. n) h))"
  by (rule delivers_ret) simp

lemma delivers_fixed_check:
  "delivers k (checkedBytes (uint (w :: byte))) (\<lambda>h x. h = [] \<and> x = int ((\<lambda>_. unat w) h))"
  "delivers k (checkedContainer f s (uint (w :: byte))) (\<lambda>h x. h = [] \<and> x = int ((\<lambda>_. unat w) h))"
  by (rule delivers_mono [OF delivers_checked(1)], simp) (rule delivers_mono [OF delivers_checked(2)], simp)


lemmas delivers_lens =
  delivers_len_field [where f = checkedBytes, OF delivers_checked(1)]
  delivers_len_field [where f = "checkedContainer w s" for w s, OF delivers_checked(2)]

lemma delivers_sized_len:
  "c = Bin8_c \<or> c = Bin16_c \<or> c = Bin32_c \<or> c = Str8_c \<or> c = Str16_c \<or> c = Str32_c \<Longrightarrow>
    \<exists>w. shape_of c = Some (Sized w 0) \<and> delivers k (bytesLen c) (\<lambda>h n. length h = w \<and> n = int (be h))"
  "c = Ext8_c \<or> c = Ext16_c \<or> c = Ext32_c \<Longrightarrow>
    \<exists>w. shape_of c = Some (Sized w 1) \<and> delivers k (parseExtLen c) (\<lambda>h n. length h = w \<and> n = int (be h))"
  "c = Array16_c \<or> c = Array32_c \<Longrightarrow>
    \<exists>w. shape_of c = Some (SizedItems w 1) \<and> delivers k (arrayLen c) (\<lambda>h n. length h = w \<and> n = int (be h))"
  "c = Map16_c \<or> c = Map32_c \<Longrightarrow>
    \<exists>w. shape_of c = Some (SizedItems w 2) \<and> delivers k (mapLen c) (\<lambda>h n. length h = w \<and> n = int (be h))"
  using delivers_lens
  by (elim disjE; simp add: shape_fixed_codes bytesLen_codes parseExtLen_codes arrayLen_codes mapLen_codes
      del: One_nat_def)+

lemma item_forms:
  "shape_of c = Some (Plain n) \<Longrightarrow> length bs = n \<Longrightarrow> item (Suc d) (c # bs)"
  "shape_of c = Some (Sized w x) \<Longrightarrow> \<exists>h b. bs = h @ b \<and> length h = w \<and> length b = be h + x \<Longrightarrow> item (Suc d) (c # bs)"
  "shape_of c = Some (Items m) \<Longrightarrow> some_items d m bs \<Longrightarrow> item (Suc d) (c # bs)"
  "shape_of c = Some (SizedItems w f) \<Longrightarrow> \<exists>h b. bs = h @ b \<and> length h = w \<and> some_items d (f * be h) b \<Longrightarrow>
    item (Suc d) (c # bs)"
  by (auto simp: some_items_def intro: item.intros)

lemma delivers_skip_code:
  assumes skip: "delivers k skip (\<lambda>bs _. item d bs)"
  shows "delivers k (skip_code skip c) (\<lambda>bs _. item (Suc d) (c # bs))"
proof -
  have sized: "delivers k (skipBytes c) (\<lambda>bs _. item (Suc d) (c # bs))"
    if "shape_of c = Some (Sized w 0)" "delivers k (bytesLen c) (\<lambda>h n. length h = w \<and> n = int (be h))" for w
    by (rule delivers_mono [OF delivers_skipBytes [OF that(2)]]) (rule item_forms(2) [OF that(1)], simp)
  have ext: "delivers k (skipExt c) (\<lambda>bs _. item (Suc d) (c # bs))"
    if "shape_of c = Some (Sized w 1)" "delivers k (parseExtLen c) (\<lambda>h n. length h = w \<and> n = int (be h))" for w
    by (rule delivers_mono [OF delivers_skipExt [OF that(2)]]) (rule item_forms(2) [OF that(1)], simp)
  have fixext: "delivers k (skipExt c) (\<lambda>bs _. item (Suc d) (c # bs))"
    if "shape_of c = Some (Plain (n + 1))" "parseExtLen c = ret (int n)" for n
    by (rule delivers_mono [OF delivers_skipExt [where H = "\<lambda>h. h = []" and L = "\<lambda>_. n"]])
      (use that item_forms(1) [OF that(1)] in \<open>auto intro: delivers_ret simp del: ret_apply\<close>)
  have arr: "delivers k (skipSlice skip c) (\<lambda>bs _. item (Suc d) (c # bs))"
    if "shape_of c = Some (SizedItems w 1)" "delivers k (arrayLen c) (\<lambda>h n. length h = w \<and> n = int (be h))" for w
    by (rule delivers_mono [OF delivers_skipSlice [OF that(2) skip]]) (rule item_forms(4) [OF that(1)], simp)
  have map: "delivers k (skipMap skip c) (\<lambda>bs _. item (Suc d) (c # bs))"
    if "shape_of c = Some (SizedItems w 2)" "delivers k (mapLen c) (\<lambda>h n. length h = w \<and> n = int (be h))" for w
    by (rule delivers_mono [OF delivers_skipMap [OF that(2) skip]]) (rule item_forms(4) [OF that(1)], simp)
  have num: "delivers k (skipN n) (\<lambda>bs _. item (Suc d) (c # bs))" if "shape_of c = Some (Plain n)" for n
    by (rule delivers_mono [OF delivers_skipN]) (rule item_forms(1) [OF that])
  have nil: "delivers k (ret ()) (\<lambda>bs _. item (Suc d) (c # bs))" if "shape_of c = Some (Plain 0)"
    by (rule delivers_ret) (rule item_forms(1) [OF that], simp)
  have fixstr: "delivers k (skipBytes c) (\<lambda>bs _. item (Suc d) (c # bs))" if "IsFixedString c" "c \<noteq> Nil_c"
    by (rule delivers_mono [OF delivers_skipBytes [OF delivers_fixed_check(1)
          [of k "c AND FixedStrMask_c", folded bytesLen_codes(2) [OF that(2,1)]]]])
      (use item_forms(1) [OF shape_codes(4) [OF that(1)]] in auto)
  have fixarr: "delivers k (skipSlice skip c) (\<lambda>bs _. item (Suc d) (c # bs))" if "IsFixedArray c" "c \<noteq> Nil_c"
    by (rule delivers_mono [OF delivers_skipSlice [OF delivers_fixed_check(2)
          [of k 1 "''array''" "c AND FixedArrayMask_c", folded arrayLen_codes(2) [OF that(2,1)]] skip]])
      (use item_forms(3) [OF shape_codes(3) [OF that(1)]] in auto)
  have fixmap: "delivers k (skipMap skip c) (\<lambda>bs _. item (Suc d) (c # bs))" if "IsFixedMap c" "c \<noteq> Nil_c"
    by (rule delivers_mono [OF delivers_skipMap [OF delivers_fixed_check(2)
          [of k 2 "''map''" "c AND FixedMapMask_c", folded mapLen_codes(2) [OF that(2,1)]] skip]])
      (use item_forms(3) [OF shape_codes(2) [OF that(1)]] in auto)
  have nn: "IsFixedString c \<or> IsFixedArray c \<or> IsFixedMap c \<Longrightarrow> c \<noteq> Nil_c"
    by (auto simp: code_arith)
  show ?thesis
    unfolding skip_code_def
    apply (intro delivers_if delivers_fail)
    subgoal by (rule nil) (rule shape_codes)
    subgoal by (rule fixmap) (use nn in auto)
    subgoal by (rule fixarr) (use nn in auto)
    subgoal by (rule fixstr) (use nn in auto)
    subgoal by (rule nil) (auto simp: shape_fixed_codes)
    subgoal by (rule num) (auto simp: shape_fixed_codes)
    subgoal by (rule num) (auto simp: shape_fixed_codes)
    subgoal by (rule num) (auto simp: shape_fixed_codes)
    subgoal by (rule num) (auto simp: shape_fixed_codes)
    subgoal using delivers_sized_len(1) [of c k] sized by blast
    subgoal using delivers_sized_len(1) [of c k] sized by blast
    subgoal using delivers_sized_len(3) [of c k] arr by blast
    subgoal using delivers_sized_len(4) [of c k] map by blast
    subgoal using delivers_sized_len(2) [of c k] ext fixext [of 1] fixext [of 2] fixext [of 4] fixext [of 8] fixext [of 16]
      by (elim disjE) (simp_all add: shape_fixed_codes parseExtLen_codes del: ret_apply)
    done
qed

lemma delivers_Skip_f:
  "0 \<le> k_depth k \<Longrightarrow> delivers k (Skip_f n) (\<lambda>bs _. item (nat (k_limit k - k_depth k)) bs)"
proof (induction n arbitrary: k)
  case 0
  show ?case by (simp add: delivers_fail del: fail_apply)
next
  case (Suc n)
  show ?case
    unfolding Skip_f.simps skip_body_def
  proof (rule delivers_withDepth [OF _ Suc.prems], rule delivers_bind [OF delivers_readCode])
    fix a and c :: byte
    let ?k = "k\<lparr>k_depth := k_depth k + 1\<rparr>"
    assume lt: "k_depth k < k_limit k" and "a = [c]"
    have "delivers ?k (Skip_f n) (\<lambda>bs _. item (nat (k_limit ?k - k_depth ?k)) bs)"
      by (rule Suc.IH) (use Suc.prems in simp)
    then have "delivers ?k (skip_code (Skip_f n) c) (\<lambda>bs _. item (Suc (nat (k_limit ?k - k_depth ?k))) (c # bs))"
      by (rule delivers_skip_code)
    moreover have "Suc (nat (k_limit ?k - k_depth ?k)) = nat (k_limit k - k_depth k)" using lt by (auto simp: k_limit_def)
    ultimately show "delivers ?k (skip_code (Skip_f n) c) (\<lambda>b _. item (nat (k_limit k - k_depth k)) (a @ b))"
      using \<open>a = [c]\<close> by simp
  qed
qed

section \<open>Skip accepts every item\<close>

text \<open>Lengths below \<open>2 ^ 32\<close> are accepted: an \<^verbatim>\<open>int\<close> holds them and the guard knows the input's size.\<close>

definition roomy :: "dconf \<Rightarrow> bool" where
  "roomy k \<longleftrightarrow> 32 < p_intBits (k_plat k) \<and> (k_hasLen k \<or> hasFlag (k_flags k) disableAllocLimitFlag)"

lemma roomy_depth [simp]: "roomy (k\<lparr>k_depth := i\<rparr>) = roomy k"
  by (simp add: roomy_def)

lemma be_join_length:
  "length h = 1 \<Longrightarrow> uint (h ! 0) = int (be h)" "length h = 2 \<Longrightarrow> uint (join16 h) = int (be h)"
  "length h = 4 \<Longrightarrow> uint (join32 h) = int (be h)"
  using be_join by (auto simp: numeral_eq_Suc length_Suc_conv)

lemma yields_len_field:
  assumes "yields k [] n (f (int (be h))) x k"
  shows "length h = 1 \<Longrightarrow> yields k h n (bindE dec_uint8 (\<lambda>n. f (uint n))) x k"
    and "length h = 2 \<Longrightarrow> yields k h n (bindE dec_uint16 (\<lambda>n. f (uint n))) x k"
    and "roomy k \<Longrightarrow> length h = 4 \<Longrightarrow> yields k h n (bindE dec_uint32 (\<lambda>n. bindE (uint32ToInt n s) f)) x k"
proof -
  show "yields k h n (bindE dec_uint8 (\<lambda>n. f (uint n))) x k" if h: "length h = 1"
  proof -
    obtain b where b: "h = [b]" using h by (auto simp: length_Suc_conv)
    show ?thesis
      unfolding b by (rule yields_bind_tail [OF yields_fixed(1)]) (use assms b be_join(1) [of b] in simp)
  qed
  show "yields k h n (bindE dec_uint16 (\<lambda>n. f (uint n))) x k" if h: "length h = 2"
    by (rule yields_bind_tail [where x = "join16 h"])
      (use h assms be_join_length(2) [OF h] in \<open>auto simp: dec_uint16_def intro!: yields_bind_ret [OF yields_readN] simp del: ret_apply\<close>)
  show "yields k h n (bindE dec_uint32 (\<lambda>n. bindE (uint32ToInt n s) f)) x k" if k: "roomy k" and h: "length h = 4"
  proof (rule yields_bind_tail [where x = "join32 h"])
    show "yields k h n dec_uint32 (join32 h) k"
      unfolding dec_uint32_def by (rule yields_bind_ret [OF yields_readN [OF h]]) simp
    have u: "uint (join32 h) = int (be h)" using h by (rule be_join_length)
    have "be h < 2 ^ 32" using uint_lt2p [of "join32 h"] u by simp
    then have "len_ok k (int (be h))" using k by (intro len_ok_intBits) (simp_all add: roomy_def)
    then have "yields k [] n (uint32ToInt (join32 h) s) (int (be h)) k"
      using yields_uint32ToInt [of "join32 h" k n s] u by (simp add: len_ok_def)
    then show "yields k [] n (bindE (uint32ToInt (join32 h) s) f) x k"
      by (rule yields_bind_tail) (rule assms)
  qed
qed

lemma yields_skipBytes:
  assumes "yields k h (length b + r) (bytesLen c) (int (length b)) k"
  shows "yields k (h @ b) r (skipBytes c) () k"
  unfolding skipBytes_def
  by (rule yields_bind [OF assms]) (use yields_skipN [of b] yields_ret [of k r "()"] in \<open>auto simp del: ret_apply\<close>)

lemma yields_skipExt:
  assumes "yields k h (length b + r) (parseExtLen c) (int n) k" and "length b = n + 1"
  shows "yields k (h @ b) r (skipExt c) () k"
proof -
  obtain t p where b: "b = [t] @ p" "length p = n" using assms(2) by (cases b) auto
  show ?thesis
    unfolding skipExt_def
  proof (rule yields_bind [OF assms(1)], unfold b(1), rule yields_bind)
    show "yields k [t] (length p + r) (skipN 1) () k" by (rule yields_skipN) simp
    show "yields k p r (skipN (nat (int n))) () k" by (rule yields_skipN) (simp add: b)
  qed
qed

lemma yields_repeat:
  "\<forall>a\<in>set as. \<forall>n. yields k a n skip () k \<Longrightarrow> yields k (concat as) r (repeatE (length as) skip) () k"
proof (induction as)
  case Nil
  show ?case using yields_ret [of k r "()"] by (simp del: ret_apply)
next
  case (Cons a as)
  then show ?case by (auto intro: yields_bind)
qed

lemma yields_skipSlice:
  assumes "yields k h (length (concat as) + r) (arrayLen c) (int (length as)) k"
    and "\<forall>a\<in>set as. \<forall>n. yields k a n skip () k"
  shows "yields k (h @ concat as) r (skipSlice skip c) () k"
  unfolding skipSlice_def by (rule yields_bind [OF assms(1)]) (use yields_repeat [OF assms(2)] in simp)

lemma yields_skipMap:
  assumes "yields k h (length (concat as) + r) (mapLen c) (int m) k" and "length as = 2 * m"
    and "\<forall>a\<in>set as. \<forall>n. yields k a n skip () k"
  shows "yields k (h @ concat as) r (skipMap skip c) () k"
  unfolding skipMap_def repeatE_double
  by (rule yields_bind [OF assms(1)]) (use yields_repeat [OF assms(3)] assms(2) in simp)

lemma yields_bytesLen:
  assumes "roomy k" and "be h \<le> n"
  shows "c = Bin8_c \<or> c = Bin16_c \<or> c = Bin32_c \<or> c = Str8_c \<or> c = Str16_c \<or> c = Str32_c \<Longrightarrow>
      shape_of c = Some (Sized (length h) 0) \<Longrightarrow> yields k h n (bytesLen c) (int (be h)) k"
    and "c = Ext8_c \<or> c = Ext16_c \<or> c = Ext32_c \<Longrightarrow>
      shape_of c = Some (Sized (length h) 1) \<Longrightarrow> yields k h n (parseExtLen c) (int (be h)) k"
proof -
  have "yields k [] n (checkedBytes (int (be h))) (int (be h)) k" by (rule yields_checkedBytes) (use assms(2) in simp)
  note f = yields_len_field [where f = checkedBytes, OF this]
  show "yields k h n (bytesLen c) (int (be h)) k"
    if "c = Bin8_c \<or> c = Bin16_c \<or> c = Bin32_c \<or> c = Str8_c \<or> c = Str16_c \<or> c = Str32_c"
      "shape_of c = Some (Sized (length h) 0)"
    using that f assms(1) by (elim disjE) (simp_all add: shape_fixed_codes bytesLen_codes)
  show "yields k h n (parseExtLen c) (int (be h)) k"
    if "c = Ext8_c \<or> c = Ext16_c \<or> c = Ext32_c" "shape_of c = Some (Sized (length h) 1)"
    using that f assms(1) by (elim disjE) (simp_all add: shape_fixed_codes parseExtLen_codes)
qed

lemma yields_containerLen:
  assumes "roomy k"
  shows "c = Array16_c \<or> c = Array32_c \<Longrightarrow> shape_of c = Some (SizedItems (length h) 1) \<Longrightarrow> be h \<le> n \<Longrightarrow>
      yields k h n (arrayLen c) (int (be h)) k"
    and "c = Map16_c \<or> c = Map32_c \<Longrightarrow> shape_of c = Some (SizedItems (length h) 2) \<Longrightarrow> 2 * be h \<le> n \<Longrightarrow>
      yields k h n (mapLen c) (int (be h)) k"
proof -
  have ok: "container_ok k (int (be h))" using assms by (auto simp: container_ok_def roomy_def)
  show "yields k h n (arrayLen c) (int (be h)) k"
    if c: "c = Array16_c \<or> c = Array32_c" "shape_of c = Some (SizedItems (length h) 1)" and le: "be h \<le> n"
  proof -
    have "yields k [] n (checkedContainer 1 ''array'' (int (be h))) (int (be h)) k"
      by (rule yields_checkedContainer [OF ok]) (use le in simp_all)
    note f = yields_len_field [where f = "checkedContainer 1 ''array''", OF this]
    show ?thesis using c f assms by (elim disjE) (simp_all add: shape_fixed_codes arrayLen_codes)
  qed
  show "yields k h n (mapLen c) (int (be h)) k"
    if c: "c = Map16_c \<or> c = Map32_c" "shape_of c = Some (SizedItems (length h) 2)" and le: "2 * be h \<le> n"
  proof -
    have "yields k [] n (checkedContainer 2 ''map'' (int (be h))) (int (be h)) k"
      by (rule yields_checkedContainer [OF ok]) (use le in simp_all)
    note f = yields_len_field [where f = "checkedContainer 2 ''map''", OF this]
    show ?thesis using c f assms by (elim disjE) (simp_all add: shape_fixed_codes mapLen_codes)
  qed
qed

lemma item_inv:
  assumes "item (Suc d) (c # bs)"
  shows "shape_of c = Some (Plain n) \<Longrightarrow> length bs = n"
    and "shape_of c = Some (Sized w x) \<Longrightarrow> \<exists>h b. bs = h @ b \<and> length h = w \<and> length b = be h + x"
    and "shape_of c = Some (Items m) \<Longrightarrow> \<exists>as. bs = concat as \<and> length as = m \<and> (\<forall>a\<in>set as. item d a)"
    and "shape_of c = Some (SizedItems w f) \<Longrightarrow>
      \<exists>h as. bs = h @ concat as \<and> length h = w \<and> length as = f * be h \<and> (\<forall>a\<in>set as. item d a)"
  using assms by (auto simp: item_Cons)

lemma yields_skip_fixed:
  assumes it: "item (Suc d) (c # bs)" and k: "roomy k" and skip: "\<And>a n. item d a \<Longrightarrow> yields k a n skip () k"
  shows "IsFixedString c \<Longrightarrow> yields k bs r (skipBytes c) () k"
    and "IsFixedArray c \<Longrightarrow> yields k bs r (skipSlice skip c) () k"
    and "IsFixedMap c \<Longrightarrow> yields k bs r (skipMap skip c) () k"
proof -
  note inv = item_inv [OF it]
  have nn: "IsFixedString c \<or> IsFixedArray c \<or> IsFixedMap c \<Longrightarrow> c \<noteq> Nil_c" by (auto simp: code_arith)
  have ok: "container_ok k l" for l using k by (auto simp: container_ok_def roomy_def)
  show "yields k bs r (skipBytes c) () k" if "IsFixedString c"
  proof -
    have l: "length bs = unat (c AND FixedStrMask_c)" by (rule inv(1)) (rule shape_codes(4) [OF that])
    then have "yields k [] (length bs + r) (bytesLen c) (int (length bs)) k"
      using that nn yields_checkedBytes [of "int (length bs)" "length bs + r" k] by (simp add: bytesLen_codes(2))
    from yields_skipBytes [OF this] show ?thesis by simp
  qed
  show "yields k bs r (skipSlice skip c) () k" if c: "IsFixedArray c"
  proof -
    obtain as where as: "bs = concat as" "length as = unat (c AND FixedArrayMask_c)" "\<forall>a\<in>set as. item d a"
      using inv(3) [OF shape_codes(3) [OF c]] by blast
    have "yields k [] (length (concat as) + r) (checkedContainer 1 ''array'' (int (length as))) (int (length as)) k"
      by (rule yields_checkedContainer [OF ok]) (use length_items [OF as(3)] in simp_all)
    then have "yields k [] (length (concat as) + r) (arrayLen c) (int (length as)) k"
      using c nn by (simp add: arrayLen_codes(2) as(2))
    from yields_skipSlice [OF this] show ?thesis using as skip by simp
  qed
  show "yields k bs r (skipMap skip c) () k" if c: "IsFixedMap c"
  proof -
    let ?m = "unat (c AND FixedMapMask_c)"
    obtain as where as: "bs = concat as" "length as = 2 * ?m" "\<forall>a\<in>set as. item d a"
      using inv(3) [OF shape_codes(2) [OF c]] by blast
    have le: "int ?m * 2 \<le> int (length (concat as) + r)" using length_items [OF as(3)] as(2) by linarith
    have "yields k [] (length (concat as) + r) (checkedContainer 2 ''map'' (int ?m)) (int ?m) k"
      by (rule yields_checkedContainer [OF ok le]) simp
    then have "yields k [] (length (concat as) + r) (mapLen c) (int ?m) k"
      using c nn by (simp add: mapLen_codes(2))
    from yields_skipMap [OF this as(2)] show ?thesis using as skip by simp
  qed
qed

lemma yields_skip_sized:
  assumes it: "item (Suc d) (c # bs)" and k: "roomy k" and skip: "\<And>a n. item d a \<Longrightarrow> yields k a n skip () k"
  shows "c = Bin8_c \<or> c = Bin16_c \<or> c = Bin32_c \<or> c = Str8_c \<or> c = Str16_c \<or> c = Str32_c \<Longrightarrow>
      yields k bs r (skipBytes c) () k"
    and "c = Ext8_c \<or> c = Ext16_c \<or> c = Ext32_c \<Longrightarrow> yields k bs r (skipExt c) () k"
    and "c = Array16_c \<or> c = Array32_c \<Longrightarrow> yields k bs r (skipSlice skip c) () k"
    and "c = Map16_c \<or> c = Map32_c \<Longrightarrow> yields k bs r (skipMap skip c) () k"
proof -
  note inv = item_inv [OF it]
  show "yields k bs r (skipBytes c) () k"
    if c: "c = Bin8_c \<or> c = Bin16_c \<or> c = Bin32_c \<or> c = Str8_c \<or> c = Str16_c \<or> c = Str32_c"
  proof -
    obtain w where w: "shape_of c = Some (Sized w 0)" using delivers_sized_len(1) [OF c] by blast
    obtain h b where h: "bs = h @ b" "length h = w" "length b = be h" using inv(2) [OF w] by auto
    have "yields k h (length b + r) (bytesLen c) (int (length b)) k"
      unfolding h(3) using yields_bytesLen(1) [OF k _ c, of h] w h by simp
    from yields_skipBytes [OF this] show ?thesis by (simp add: h)
  qed
  show "yields k bs r (skipExt c) () k" if c: "c = Ext8_c \<or> c = Ext16_c \<or> c = Ext32_c"
  proof -
    obtain w where w: "shape_of c = Some (Sized w 1)" using delivers_sized_len(2) [OF c] by blast
    obtain h b where h: "bs = h @ b" "length h = w" "length b = be h + 1" using inv(2) [OF w] by auto
    have "yields k h (length b + r) (parseExtLen c) (int (be h)) k"
      using yields_bytesLen(2) [OF k _ c, of h] w h by simp
    from yields_skipExt [OF this h(3)] show ?thesis by (simp add: h)
  qed
  show "yields k bs r (skipSlice skip c) () k" if c: "c = Array16_c \<or> c = Array32_c"
  proof -
    obtain w where w: "shape_of c = Some (SizedItems w 1)" using delivers_sized_len(3) [OF c] by blast
    obtain h as where h: "bs = h @ concat as" "length h = w" "length as = be h" "\<forall>a\<in>set as. item d a"
      using inv(4) [OF w] by auto
    have "yields k h (length (concat as) + r) (arrayLen c) (int (length as)) k"
      unfolding h(3) using yields_containerLen(1) [OF k c, of h] w h length_items [OF h(4)] by simp
    from yields_skipSlice [OF this] show ?thesis using h skip by simp
  qed
  show "yields k bs r (skipMap skip c) () k" if c: "c = Map16_c \<or> c = Map32_c"
  proof -
    obtain w where w: "shape_of c = Some (SizedItems w 2)" using delivers_sized_len(4) [OF c] by blast
    obtain h as where h: "bs = h @ concat as" "length h = w" "length as = 2 * be h" "\<forall>a\<in>set as. item d a"
      using inv(4) [OF w] by auto
    have "yields k h (length (concat as) + r) (mapLen c) (int (be h)) k"
      using yields_containerLen(2) [OF k c, of h] w h length_items [OF h(4)] by simp
    from yields_skipMap [OF this h(3)] show ?thesis using h skip by simp
  qed
qed

lemma yields_skip_code:
  assumes it: "item (Suc d) (c # bs)" and k: "roomy k" and skip: "\<And>a n. item d a \<Longrightarrow> yields k a n skip () k"
  shows "yields k bs r (skip_code skip c) () k"
proof -
  note inv = item_inv [OF it]
  note fixed = yields_skip_fixed [OF it k skip] and sized = yields_skip_sized [OF it k skip]
  have nil: "yields k bs r (ret ()) () k" if "shape_of c = Some (Plain 0)"
    using inv(1) [OF that] yields_ret [of k r "()"] by (simp del: ret_apply)
  have num: "yields k bs r (skipN n) () k" if "shape_of c = Some (Plain n)" for n
    using inv(1) [OF that] by (rule yields_skipN)
  have fixext: "yields k bs r (skipExt c) () k" if "shape_of c = Some (Plain (n + 1))" "parseExtLen c = ret (int n)" for n
    using yields_skipExt [of k "[]" bs r c n] inv(1) [OF that(1)] that(2) yields_ret [of k "length bs + r" "int n"]
    by (simp del: ret_apply)
  have known: "c \<noteq> 0xc1" using it by (auto simp: item_Cons shape_of_def)
  show ?thesis
    unfolding skip_code_def
    apply (intro if_split [where P = "\<lambda>m. yields k bs r m () k", THEN iffD2] conjI impI)
    subgoal by (rule nil) (rule shape_codes)
    subgoal by (rule fixed(3))
    subgoal by (rule fixed(2))
    subgoal by (rule fixed(1))
    subgoal by (rule nil) (auto simp: shape_fixed_codes)
    subgoal by (rule num) (auto simp: shape_fixed_codes)
    subgoal by (rule num) (auto simp: shape_fixed_codes)
    subgoal by (rule num) (auto simp: shape_fixed_codes)
    subgoal by (rule num) (auto simp: shape_fixed_codes)
    subgoal by (rule sized(1); blast)
    subgoal by (rule sized(1); blast)
    subgoal by (rule sized(3))
    subgoal by (rule sized(4))
    subgoal using sized(2) fixext [of 1] fixext [of 2] fixext [of 4] fixext [of 8] fixext [of 16]
      by (elim disjE) (simp_all add: shape_fixed_codes parseExtLen_codes del: ret_apply)
    subgoal using known unat_lt_byte [of c] unfolding code_arith by (simp; arith)
    done
qed

lemma yields_Skip_f:
  "item d bs \<Longrightarrow> d \<le> n \<Longrightarrow> roomy k \<Longrightarrow> 0 \<le> k_depth k \<Longrightarrow> int d \<le> k_limit k - k_depth k \<Longrightarrow>
    yields k bs r (Skip_f n) () k"
proof (induction d arbitrary: bs n k r)
  case 0
  then show ?case by (simp add: item_0)
next
  case (Suc d)
  obtain m where n: "n = Suc m" using Suc.prems(2) by (cases n) auto
  obtain c t where bs: "bs = c # t" using item_nonempty [OF Suc.prems(1)] by (cases bs) auto
  let ?k = "k\<lparr>k_depth := k_depth k + 1\<rparr>"
  have lim: "k_limit ?k = k_limit k" by (simp add: k_limit_def)
  have "yields ?k (c # t) r (bindE readCode (skip_code (Skip_f m))) () ?k"
  proof (rule yields_code, rule yields_skip_code)
    show "item (Suc d) (c # t)" using Suc.prems(1) bs by simp
    show "yields ?k a n' (Skip_f m) () ?k" if "item d a" for a n'
      by (rule Suc.IH [OF that]) (use Suc.prems n lim in auto)
  qed (use Suc.prems in simp)
  then show ?case
    unfolding n bs Skip_f.simps skip_body_def by (rule yields_withDepth) (use Suc.prems in simp_all)
qed


section \<open>Skip and DecodeRaw\<close>

lemma Skip_delivers:
  assumes "Skip d = (Inr (), d')" and "d_r d \<noteq> None" and "0 \<le> d_depth d"
  obtains bs where "item (budget d) bs" and "advanced bs d d'" and "dconf_of d' = dconf_of d"
proof -
  have k: "k_depth (dconf_of d) = d_depth d" "k_limit (dconf_of d) = depth_limit d"
    by (simp_all add: dconf_of_def k_limit_def depth_limit_def)
  show thesis
    by (rule deliversD [OF delivers_Skip_f [of "dconf_of d" "Suc (budget d)"]])
      (use assms k that in \<open>auto simp: Skip_def budget_def simp del: Skip_f.simps\<close>)
qed

lemma Skip_yields:
  assumes "item (budget d) bs" and "roomy (dconf_of d)" and "0 \<le> d_depth d" and "d_r d \<noteq> None"
    and "pending d = bs @ rest"
  obtains d' where "Skip d = (Inr (), d')" and "advanced bs d d'" and "dconf_of d' = dconf_of d"
proof -
  have k: "k_depth (dconf_of d) = d_depth d" "k_limit (dconf_of d) = depth_limit d"
    by (simp_all add: dconf_of_def k_limit_def depth_limit_def)
  have b: "0 < budget d" using assms(1) item_0 by (cases "budget d") auto
  have "yields (dconf_of d) bs 0 (Skip_f (Suc (budget d))) () (dconf_of d)"
    by (rule yields_Skip_f [OF assms(1)]) (use assms(2,3) k b in \<open>auto simp: budget_def\<close>)
  moreover have "ready bs 0 d" using assms(4,5) by (simp add: ready_def)
  ultimately show thesis
    by (rule yieldsD [OF _ _ refl]) (use that in \<open>auto simp: Skip_def simp del: Skip_f.simps\<close>)
qed

text \<open>Deeper items contain shallower ones.\<close>

lemma item_mono: "item n bs \<Longrightarrow> n \<le> m \<Longrightarrow> item m bs"
proof (induction n bs arbitrary: m rule: item.induct)
  case (items c l as d)
  then obtain j where "m = Suc j" "d \<le> j" by (cases m) auto
  with items show ?case by (auto intro!: item.items)
next
  case (sized_items c w f h as d)
  then obtain j where "m = Suc j" "d \<le> j" by (cases m) auto
  with sized_items show ?case by (auto intro!: item.sized_items)
qed (auto dest!: Suc_le_D intro: item.intros)

text \<open>
  C6: \<open>Skip\<close> recognises the wire format. On a 64-bit build, with an input of known size (or with
  allocation limits disabled), it succeeds exactly when the input starts with one encoded value
  whose containers nest no deeper than the decoder may still go; it then consumes exactly this
  value and restores the nesting depth and every option.
\<close>

theorem Skip_iff_item:
  assumes "roomy (dconf_of d)" and "d_r d \<noteq> None" and "0 \<le> d_depth d"
  shows "(\<exists>d'. Skip d = (Inr (), d') \<and> pending d' = rest \<and> dconf_of d' = dconf_of d) \<longleftrightarrow>
    (\<exists>bs. item (budget d) bs \<and> pending d = bs @ rest)" (is "?L \<longleftrightarrow> ?R")
proof
  assume ?L
  then obtain d' where d': "Skip d = (Inr (), d')" "pending d' = rest" by blast
  obtain bs where "item (budget d) bs" "advanced bs d d'" by (rule Skip_delivers [OF d'(1) assms(2,3)])
  with d'(2) show ?R by (auto simp: advanced_def)
next
  assume ?R
  then obtain bs where bs: "item (budget d) bs" "pending d = bs @ rest" by blast
  obtain d' where "Skip d = (Inr (), d')" "advanced bs d d'" "dconf_of d' = dconf_of d"
    by (rule Skip_yields [OF bs(1) assms(1,3,2) bs(2)])
  with bs(2) show ?L by (auto simp: advanced_def)
qed

text \<open>A decoder over the bytes \<open>bs\<close>, as \<^verbatim>\<open>NewDecoder(bytes.NewReader(bs))\<close>.\<close>

definition decoder_on :: "byte list \<Rightarrow> decoder" where
  "decoder_on bs = NewDecoder amd64 (Some \<lparr>r_rest = bs, r_last = None, r_end = EOF, r_hasLen = True\<rparr>)"

lemma decoder_on [simp]:
  "d_r (decoder_on bs) = Some \<lparr>r_rest = bs, r_last = None, r_end = EOF, r_hasLen = True\<rparr>"
  "d_depth (decoder_on bs) = 0" "d_rec (decoder_on bs) = None" "budget (decoder_on bs) = 10000"
  "roomy (dconf_of (decoder_on bs))" "d_plat (decoder_on bs) = amd64" "d_flags (decoder_on bs) = 0"
  "d_dict (decoder_on bs) = []" "d_mapDecoder (decoder_on bs) = None"
  by (simp_all add: decoder_on_def NewDecoder_def dec_Reset_def dec_ResetDict_def dec_ResetReader_def
      budget_def depth_limit_def defaultDecodeDepthLimit_def roomy_def dconf_of_def amd64_def)

lemma pending_decoder_on [simp]: "pending (decoder_on bs) = bs"
  by (simp add: pending_def)

lemma item_example: "item 10000 [0x92, 0x01, 0xa1, 0x61]"
proof -
  have "item 1 [0x01]" "item 1 [0xa1, 0x61]"
    unfolding One_nat_def by (rule item.plain; simp add: shape_of_def)+
  then have "item (Suc 1) (0x92 # concat [[0x01], [0xa1, 0x61]])"
    by (intro item.items [where m = 2]) (simp_all add: shape_of_def)
  then show ?thesis using item_mono [of "Suc 1" _ 10000] by simp
qed

theorem Skip_iff_item_witness:
  "\<exists>d'. Skip (decoder_on [0x92, 0x01, 0xa1, 0x61, 0xc0]) = (Inr (), d') \<and> pending d' = [0xc0]"
  using Skip_iff_item [of "decoder_on [0x92, 0x01, 0xa1, 0x61, 0xc0]" "[0xc0]"] item_example by auto

text \<open>
  \<open>Skip\<close> always terminates within the depth limit. The model satisfies the recursion equation of
  the source (\<open>enterDepth\<close>, one code, the recursive calls of its containers, \<open>leaveDepth\<close>) and every
  function that satisfies this equation and restores the depth is equal to it, so the fuel of the
  model never decides the result.
\<close>

theorem Skip_recursion:
  assumes "0 \<le> d_depth d"
  shows "Skip d = skip_body Skip d \<and>
    (\<forall>m. keeps frame m \<longrightarrow> (\<forall>d. 0 \<le> d_depth d \<longrightarrow> m d = skip_body m d) \<longrightarrow> m d = Skip d)"
proof -
  have "m d = Skip d" if "keeps frame m" "\<And>d. 0 \<le> d_depth d \<Longrightarrow> m d = skip_body m d" for m
    by (rule skip.unique [where m = "\<lambda>_. m", OF that assms])
  then show ?thesis using skip.unfold [OF assms] by blast
qed

theorem Skip_recursion_witness:
  "Skip (decoder_on [0x91, 0x91, 0x05]) = skip_body Skip (decoder_on [0x91, 0x91, 0x05])"
  using Skip_recursion [of "decoder_on [0x91, 0x91, 0x05]"] by simp

lemma DecodeRaw_Inr:
  assumes "DecodeRaw d = (Inr raw, d')" and "d_r d \<noteq> None" and "0 \<le> d_depth d"
  obtains bs where "raw = Some bs" and "item (budget d) bs" and "pending d = bs @ pending d'"
proof -
  let ?d = "d\<lparr>d_rec := Some (make_slice 0 0 0)\<rparr>"
  obtain d1 where s: "Skip ?d = (Inr (), d1)" and d': "d' = d1\<lparr>d_rec := None\<rparr>" "raw = map_option vis (d_rec d1)"
    using assms(1) by (auto simp: DecodeRaw_def bindE_def deferE_def split: sum.splits prod.splits)
  obtain bs where "item (budget ?d) bs" "advanced bs ?d d1"
    by (rule Skip_delivers [OF s]) (use assms in simp_all)
  moreover have "budget ?d = budget d" by (simp add: budget_def depth_limit_def)
  ultimately show thesis
    by (intro that [of bs]) (auto simp: d' advanced_def pending_def vis_def make_slice_def)
qed

text \<open>
  C15: \<open>DecodeRaw\<close> returns exactly the bytes of the next value: on success the raw message is one
  encoded value within the depth limit, it is what was consumed, and nothing else of the decoder
  has changed; on every exit path, errors included, recording is off again and the nesting depth is
  what it was.
\<close>

theorem DecodeRaw_exact:
  assumes "d_r d \<noteq> None" and "0 \<le> d_depth d" and "DecodeRaw d = (res, d')"
  shows "d_rec d' = None \<and> d_depth d' = d_depth d \<and>
    (\<forall>raw. res = Inr raw \<longrightarrow> (\<exists>bs. raw = Some bs \<and> item (budget d) bs \<and> pending d = bs @ pending d'))"
proof -
  let ?d = "d\<lparr>d_rec := Some (make_slice 0 0 0)\<rparr>"
  obtain r d1 where s: "Skip ?d = (r, d1)" by fastforce
  then have d': "d' = d1\<lparr>d_rec := None\<rparr>"
    using assms(3) by (auto simp: DecodeRaw_def bindE_def deferE_def split: sum.splits)
  have "frame ?d d1" using keepsD [OF keeps_Skip s] .
  then have depth: "d_depth d' = d_depth d" using assms(2) by (simp add: frame_def d')
  have "\<exists>bs. raw = Some bs \<and> item (budget d) bs \<and> pending d = bs @ pending d'" if "res = Inr raw" for raw
    using DecodeRaw_Inr [OF assms(3) [unfolded that] assms(1,2)] by metis
  with depth d' show ?thesis by simp
qed

theorem DecodeRaw_exact_witness:
  "\<exists>d'. DecodeRaw (decoder_on [0x92, 0x01, 0xa1, 0x61, 0xc0]) = (Inr (Some [0x92, 0x01, 0xa1, 0x61]), d') \<and>
    d_rec d' = None"
proof -
  let ?d = "decoder_on [0x92, 0x01, 0xa1, 0x61, 0xc0]" and ?bs = "[0x92, 0x01, 0xa1, 0x61] :: byte list"
  let ?e = "?d\<lparr>d_rec := Some (make_slice 0 0 0)\<rparr>"
  have e: "budget ?e = 10000" "roomy (dconf_of ?e)" "pending ?e = ?bs @ [0xc0]"
    by (simp_all add: decoder_on_def NewDecoder_def dec_Reset_def dec_ResetDict_def dec_ResetReader_def
        budget_def depth_limit_def defaultDecodeDepthLimit_def roomy_def dconf_of_def amd64_def)
  obtain d1 where "Skip ?e = (Inr (), d1)" "advanced ?bs ?e d1"
    by (rule Skip_yields [of ?e ?bs "[0xc0]"]) (use e item_example in simp_all)
  then have run: "DecodeRaw ?d = (Inr (map_option vis (d_rec d1)), d1\<lparr>d_rec := None\<rparr>)" "pending d1 = [0xc0]"
    by (simp_all add: DecodeRaw_def bindE_def deferE_def advanced_def)
  from DecodeRaw_exact [OF _ _ run(1)] run show ?thesis by (auto simp: pending_def)
qed

end
