(* ===== verification/Decode_Interface.thy ===== *)
theory Decode_Interface
  imports Decode_Skip Encode_Value
begin

text \<open>
  Decoding into \<^verbatim>\<open>any\<close>: \<open>decodeInterfaceCond\<close>, \<open>DecodeInterface\<close> and \<open>DecodeInterfaceLoose\<close> of
  \<^verbatim>\<open>decode.go\<close>, \<open>decodeSlice\<close> and \<open>DecodeSlice\<close> of \<^verbatim>\<open>decode_slice.go\<close>, \<open>DecodeMap\<close>,
  \<open>DecodeUntypedMap\<close> and \<open>decodeMapDefault\<close> of \<^verbatim>\<open>decode_map.go\<close>, \<open>decodeInterfaceExt\<close> of \<^verbatim>\<open>ext.go\<close>.
\<close>

section \<open>What the program installs\<close>

text \<open>
  The functions a program hands to the decoder are parameters: \<open>env_mapDecoder i\<close> is the \<open>i\<close>-th
  function passed to \<open>SetMapDecoder\<close>; it may call back into the decoder, which it does through the
  recursive \<open>decodeInterfaceCond\<close> it gets as argument. \<open>env_extTypes\<close> are the registered extension
  decoders, applied to the extension's length.
\<close>

record denv =
  env_mapDecoder :: "nat \<Rightarrow> (decoder, gval) go \<Rightarrow> (decoder, gval) go"
  env_extTypes :: "byte \<Rightarrow> (int \<Rightarrow> (decoder, gval) go) option"

section \<open>Maps and slices of interfaces\<close>

text \<open>
  \<^verbatim>\<open>m[k] = v\<close> on the entries of a map, in the order of insertion. Keys are compared by \<open>eq\<close>; Go
  replaces the key of an existing entry too.
\<close>

fun map_set :: "('k \<Rightarrow> 'k \<Rightarrow> bool) \<Rightarrow> 'k \<Rightarrow> 'v \<Rightarrow> ('k \<times> 'v) list \<Rightarrow> ('k \<times> 'v) list" where
  "map_set eq k v [] = [(k, v)]"
| "map_set eq k v ((k', v') # m) = (if eq k' k then (k, v) # m else (k', v') # map_set eq k v m)"

text \<open>
  Interface keys are equal when their dynamic types and values are: floats by \<^verbatim>\<open>==\<close> (a NaN is not equal
  to itself), pointers by identity (two decoded pointers are the same only when both are nil).
\<close>

definition key_eq :: "gval \<Rightarrow> gval \<Rightarrow> bool" where
  "key_eq a b =
     (case a of
        GFloat32 x \<Rightarrow> (case b of GFloat32 y \<Rightarrow> f32_eq x y | _ \<Rightarrow> False)
      | GFloat64 x \<Rightarrow> (case b of GFloat64 y \<Rightarrow> f64_eq x y | _ \<Rightarrow> False)
      | GPtr p \<Rightarrow> p = None \<and> b = GPtr None
      | _ \<Rightarrow> a = b)"

text \<open>\<^verbatim>\<open>reflect.TypeOf(v).Comparable()\<close>: slices and maps are not, nor what contains them.\<close>

fun Comparable :: "gval \<Rightarrow> bool" where
  "Comparable (GBytes _) = False"
| "Comparable (GStrings _) = False"
| "Comparable (GSlice _) = False"
| "Comparable (GMapSS _) = False"
| "Comparable (GMapSB _) = False"
| "Comparable (GMapSI _) = False"
| "Comparable (GMap _) = False"
| "Comparable (GRaw _) = False"
| "Comparable GUnsupported = False"
| "Comparable (GArray xs) = list_all Comparable xs"
| "Comparable (GStruct _ fs) = list_all (\<lambda>f. case snd f of None \<Rightarrow> True | Some v \<Rightarrow> Comparable v) fs"
| "Comparable _ = True"

text \<open>In the following \<open>rec\<close> is \<open>decodeInterfaceCond\<close>.\<close>

definition decodeSlice :: "(decoder, gval) go \<Rightarrow> byte \<Rightarrow> (decoder, gval list option) go" where
  "decodeSlice rec c =
     bindE (arrayLen c) (\<lambda>n.
       if n = - 1 then ret None
       else bindE (collectE (nat n) rec) (\<lambda>s. ret (Some s)))"

definition DecodeMap :: "(decoder, gval) go \<Rightarrow> (decoder, (gostring \<times> gval) list option) go" where
  "DecodeMap rec =
     bindE DecodeMapLen (\<lambda>n.
       if n = - 1 then ret None
       else bindE (foldE (nat n) (\<lambda>m.
              bindE DecodeString (\<lambda>mk. bindE rec (\<lambda>mv. ret (map_set (=) mk mv m)))) [])
            (\<lambda>m. ret (Some m)))"

definition untyped_key :: "gval \<Rightarrow> gval" where
  "untyped_key mk = (case mk of GBytes b \<Rightarrow> GString (case b of None \<Rightarrow> [] | Some x \<Rightarrow> x) | _ \<Rightarrow> mk)"

definition DecodeUntypedMap :: "(decoder, gval) go \<Rightarrow> (decoder, (gval \<times> gval) list option) go" where
  "DecodeUntypedMap rec =
     bindE DecodeMapLen (\<lambda>n.
       if n = - 1 then ret None
       else bindE (foldE (nat n) (\<lambda>m.
              bindE rec (\<lambda>mk.
                if untyped_key mk \<noteq> GNil \<and> \<not> Comparable (untyped_key mk) then fail UnhashableKey
                else bindE rec (\<lambda>mv. ret (map_set key_eq (untyped_key mk) mv m)))) [])
            (\<lambda>m. ret (Some m)))"

definition decodeMapDefault :: "denv \<Rightarrow> (decoder, gval) go \<Rightarrow> (decoder, gval) go" where
  "decodeMapDefault env rec =
     bindE (getS d_mapDecoder) (\<lambda>md. case md of
       Some i \<Rightarrow> env_mapDecoder env i rec
     | None \<Rightarrow> bindE (DecodeMap rec) (\<lambda>m. ret (GMapSI m)))"

definition decodeInterfaceExt :: "denv \<Rightarrow> byte \<Rightarrow> (decoder, gval) go" where
  "decodeInterfaceExt env c =
     bindE (extHeader c) (\<lambda>(extID, extLen).
       case env_extTypes env extID of None \<Rightarrow> fail (UnknownExt extID) | Some dec \<Rightarrow> dec extLen)"

section \<open>Interfaces\<close>

definition interface_code :: "denv \<Rightarrow> (decoder, gval) go \<Rightarrow> byte \<Rightarrow> (decoder, gval) go" where
  "interface_code env rec c =
     (if IsFixedNum c then ret (GInt8 c)
      else if IsFixedMap c then bindE dec_UnreadByte (\<lambda>_. decodeMapDefault env rec)
      else if IsFixedArray c then bindE (decodeSlice rec c) (\<lambda>s. ret (GSlice s))
      else if IsFixedString c then bindE (dec_string c) (\<lambda>s. ret (GString s))
      else if c = Nil_c then ret GNil
      else if c = False_c \<or> c = True_c then bindE (dec_bool c) (\<lambda>b. ret (GBool b))
      else if c = Float_c then bindE (dec_float32 c) (\<lambda>f. ret (GFloat32 f))
      else if c = Double_c then bindE (dec_float64 c) (\<lambda>f. ret (GFloat64 f))
      else if c = Uint8_c then bindE dec_uint8 (\<lambda>n. ret (GUint8 n))
      else if c = Uint16_c then bindE dec_uint16 (\<lambda>n. ret (GUint16 n))
      else if c = Uint32_c then bindE dec_uint32 (\<lambda>n. ret (GUint32 n))
      else if c = Uint64_c then bindE dec_uint64 (\<lambda>n. ret (GUint64 n))
      else if c = Int8_c then bindE dec_int8 (\<lambda>n. ret (GInt8 n))
      else if c = Int16_c then bindE dec_int16 (\<lambda>n. ret (GInt16 n))
      else if c = Int32_c then bindE dec_int32 (\<lambda>n. ret (GInt32 n))
      else if c = Int64_c then bindE dec_int64 (\<lambda>n. ret (GInt64 n))
      else if c = Bin8_c \<or> c = Bin16_c \<or> c = Bin32_c then
        bindE (dec_bytes c None) (\<lambda>b. ret (GBytes (map_option vis b)))
      else if c = Str8_c \<or> c = Str16_c \<or> c = Str32_c then bindE (dec_string c) (\<lambda>s. ret (GString s))
      else if c = Array16_c \<or> c = Array32_c then bindE (decodeSlice rec c) (\<lambda>s. ret (GSlice s))
      else if c = Map16_c \<or> c = Map32_c then bindE dec_UnreadByte (\<lambda>_. decodeMapDefault env rec)
      else if c = FixExt1_c \<or> c = FixExt2_c \<or> c = FixExt4_c \<or> c = FixExt8_c \<or> c = FixExt16_c \<or>
              c = Ext8_c \<or> c = Ext16_c \<or> c = Ext32_c then decodeInterfaceExt env c
      else fail (InvalidCode c ''interface{}''))"

definition loose_code :: "denv \<Rightarrow> (decoder, gval) go \<Rightarrow> byte \<Rightarrow> (decoder, gval) go" where
  "loose_code env rec c =
     (if IsFixedNum c then ret (GInt64 (scast c))
      else if IsFixedMap c then bindE dec_UnreadByte (\<lambda>_. decodeMapDefault env rec)
      else if IsFixedArray c then bindE (decodeSlice rec c) (\<lambda>s. ret (GSlice s))
      else if IsFixedString c then bindE (dec_string c) (\<lambda>s. ret (GString s))
      else if c = Nil_c then ret GNil
      else if c = False_c \<or> c = True_c then bindE (dec_bool c) (\<lambda>b. ret (GBool b))
      else if c = Float_c \<or> c = Double_c then bindE (dec_float64 c) (\<lambda>f. ret (GFloat64 f))
      else if c = Uint8_c \<or> c = Uint16_c \<or> c = Uint32_c \<or> c = Uint64_c then
        bindE (dec_uint c) (\<lambda>n. ret (GUint64 n))
      else if c = Int8_c \<or> c = Int16_c \<or> c = Int32_c \<or> c = Int64_c then
        bindE (dec_int c) (\<lambda>n. ret (GInt64 n))
      else if c = Str8_c \<or> c = Str16_c \<or> c = Str32_c \<or> c = Bin8_c \<or> c = Bin16_c \<or> c = Bin32_c then
        bindE (dec_string c) (\<lambda>s. ret (GString s))
      else if c = Array16_c \<or> c = Array32_c then bindE (decodeSlice rec c) (\<lambda>s. ret (GSlice s))
      else if c = Map16_c \<or> c = Map32_c then bindE dec_UnreadByte (\<lambda>_. decodeMapDefault env rec)
      else if c = FixExt1_c \<or> c = FixExt2_c \<or> c = FixExt4_c \<or> c = FixExt8_c \<or> c = FixExt16_c \<or>
              c = Ext8_c \<or> c = Ext16_c \<or> c = Ext32_c then decodeInterfaceExt env c
      else fail (InvalidCode c ''interface{}''))"

definition interface_body :: "denv \<Rightarrow> (decoder, gval) go \<Rightarrow> (decoder, gval) go" where
  "interface_body env rec =
     withDepth (bindE (dec_flag looseInterfaceDecodingFlag) (\<lambda>loose.
       if loose then bindE readCode (loose_code env rec) else bindE readCode (interface_code env rec)))"

primrec decodeInterfaceCond_f :: "denv \<Rightarrow> nat \<Rightarrow> (decoder, gval) go" where
  "decodeInterfaceCond_f env 0 = fail OutOfFuel"
| "decodeInterfaceCond_f env (Suc n) = interface_body env (decodeInterfaceCond_f env n)"

definition decodeInterfaceCond :: "denv \<Rightarrow> (decoder, gval) go" where
  "decodeInterfaceCond env d = decodeInterfaceCond_f env (Suc (budget d)) d"

definition DecodeInterface :: "denv \<Rightarrow> (decoder, gval) go" where
  "DecodeInterface env = bindE readCode (interface_code env (decodeInterfaceCond env))"

definition DecodeInterfaceLoose :: "denv \<Rightarrow> (decoder, gval) go" where
  "DecodeInterfaceLoose env = bindE readCode (loose_code env (decodeInterfaceCond env))"

definition DecodeSlice :: "denv \<Rightarrow> (decoder, gval list option) go" where
  "DecodeSlice env = bindE readCode (decodeSlice (decodeInterfaceCond env))"

section \<open>The package's own registrations\<close>

text \<open>\<open>decodeInternedStringExt\<close> of \<^verbatim>\<open>intern.go\<close>, the decoder of the interned-string extension.\<close>

definition decodeInternedStringExt :: "int \<Rightarrow> (decoder, gostring) go" where
  "decodeInternedStringExt extLen = bindE (decodeInternedStringIndex extLen) internedStringAtIndex"

text \<open>
  The environment after the package's \<^verbatim>\<open>init\<close> functions, with \<open>DecodeUntypedMap\<close> as the map decoder a
  program may choose.
\<close>

definition package_env :: denv where
  "package_env =
     \<lparr>env_mapDecoder = (\<lambda>_ rec. bindE (DecodeUntypedMap rec) (\<lambda>m. ret (GMap m))),
      env_extTypes = (\<lambda>extID.
        if extID = timeExtID then Some (\<lambda>n. bindE (timeDecoder n) (\<lambda>t. ret (GTime t)))
        else if extID = internedStringExtID then Some (\<lambda>n. bindE (decodeInternedStringExt n) (\<lambda>s. ret (GString s)))
        else None)\<rparr>"

section \<open>The recursion\<close>

text \<open>
  What the decoder relies on of the installed functions: they leave the options, the depth and the
  recording state of the decoder as they found them, and a map decoder's result depends on the
  recursive decoder only through its results at the current depth.
\<close>

definition env_ok :: "denv \<Rightarrow> bool" where
  "env_ok env \<longleftrightarrow>
     (\<forall>i rec. keeps frame rec \<longrightarrow> keeps frame (env_mapDecoder env i rec)) \<and>
     (\<forall>i rec rec' k l. keeps frame rec \<longrightarrow> keeps frame rec' \<longrightarrow> agrees (at_depth k l) rec rec' \<longrightarrow>
        agrees (at_depth k l) (env_mapDecoder env i rec) (env_mapDecoder env i rec')) \<and>
     (\<forall>extID dec n. env_extTypes env extID = Some dec \<longrightarrow> keeps frame (dec n))"

lemma keeps_decodeSlice: "keeps frame rec \<Longrightarrow> keeps frame (decodeSlice rec c)"
  unfolding decodeSlice_def by (intro frame_intros frames)

lemma keeps_DecodeMap: "keeps frame rec \<Longrightarrow> keeps frame (DecodeMap rec)"
  unfolding DecodeMap_def by (intro frame_intros frames)

lemma keeps_DecodeUntypedMap: "keeps frame rec \<Longrightarrow> keeps frame (DecodeUntypedMap rec)"
  unfolding DecodeUntypedMap_def by (intro frame_intros frames)

lemma agrees_containers:
  assumes "agrees (at_depth k l) rec rec'" and "keeps frame rec"
  shows "agrees (at_depth k l) (decodeSlice rec c) (decodeSlice rec' c)"
    and "agrees (at_depth k l) (DecodeMap rec) (DecodeMap rec')"
    and "agrees (at_depth k l) (DecodeUntypedMap rec) (DecodeUntypedMap rec')"
  unfolding decodeSlice_def DecodeMap_def DecodeUntypedMap_def
  by (intro at_depth.agrees_bindE at_depth.agrees_if at_depth.agrees_refl at_depth.agrees_collectE
      at_depth.agrees_foldE assms frames frame_intros)+

locale decode_env =
  fixes env :: denv
  assumes env: "env_ok env"
begin

lemma keeps_mapDefault: "keeps frame rec \<Longrightarrow> keeps frame (decodeMapDefault env rec)"
  unfolding decodeMapDefault_def
  by (intro frame_intros, split option.split) (use env keeps_DecodeMap in \<open>auto simp: env_ok_def intro!: frame_intros\<close>)

lemma keeps_interfaceExt: "keeps frame (decodeInterfaceExt env c)"
  unfolding decodeInterfaceExt_def
  by (intro frame_intros frames) (use env in \<open>auto simp: env_ok_def intro: frame_intros split: prod.split option.split\<close>)

lemma keeps_codes:
  assumes "keeps frame rec"
  shows "keeps frame (interface_code env rec c)" and "keeps frame (loose_code env rec c)"
  unfolding interface_code_def loose_code_def
  by (intro frame_intros frames keeps_mapDefault keeps_interfaceExt keeps_decodeSlice assms)+

lemma agrees_mapDefault:
  assumes "agrees (at_depth k l) rec rec'" and "keeps frame rec" and "keeps frame rec'"
  shows "agrees (at_depth k l) (decodeMapDefault env rec) (decodeMapDefault env rec')"
  unfolding decodeMapDefault_def
  by (intro at_depth.agrees_bind_same frame_intros, split option.split)
    (use assms env agrees_containers(2) [OF assms(1,2)] keeps_DecodeMap in
      \<open>auto simp: env_ok_def intro!: at_depth.agrees_bindE at_depth.agrees_refl\<close>)

lemma agrees_codes:
  assumes "agrees (at_depth k l) rec rec'" and "keeps frame rec" and "keeps frame rec'"
  shows "agrees (at_depth k l) (interface_code env rec c) (interface_code env rec' c)"
    and "agrees (at_depth k l) (loose_code env rec c) (loose_code env rec' c)"
  unfolding interface_code_def loose_code_def
  by (intro at_depth.agrees_bindE at_depth.agrees_if at_depth.agrees_refl agrees_mapDefault
      agrees_containers(1) assms frames frame_intros keeps_decodeSlice)+

end

sublocale decode_env \<subseteq> iface: depth_recursion
  "\<lambda>m i. interface_body env (m i)" "\<lambda>n _. decodeInterfaceCond_f env n" "\<lambda>_ :: unit. decodeInterfaceCond env"
proof
  show "keeps frame (interface_body env (m i))" if "\<And>j. keeps frame (m j)" for m :: "unit \<Rightarrow> _" and i
    unfolding interface_body_def by (intro keeps_withDepth frame_intros frames keeps_codes that)
  show "agrees (at_depth k l) (interface_body env (m i)) (interface_body env (m' i))"
    if "\<And>j. keeps frame (m j)" "\<And>j. keeps frame (m' j)" "k < l \<Longrightarrow> (\<And>j. agrees (at_depth (k + 1) l) (m j) (m' j))"
    for m m' :: "unit \<Rightarrow> _" and k l i
    unfolding interface_body_def
    by (intro agrees_withDepth at_depth.agrees_bind_same at_depth.agrees_if agrees_codes that frames)
qed (simp_all add: decodeInterfaceCond_def)

interpretation package: decode_env package_env
proof
  have "keeps frame (decodeInternedStringExt n)" for n
    unfolding decodeInternedStringExt_def by (intro frame_intros frames)
  then show "env_ok package_env"
    unfolding env_ok_def package_env_def
    by (auto intro!: frame_intros frames keeps_DecodeUntypedMap at_depth.agrees_bindE at_depth.agrees_refl
        agrees_containers split: if_splits)
qed

context decode_env
begin

lemma keeps_any: "keeps frame (decodeInterfaceCond env)"
  by (rule iface.keeps_full)

lemma any_unfold: "0 \<le> d_depth d \<Longrightarrow> decodeInterfaceCond env d = interface_body env (decodeInterfaceCond env) d"
  by (rule iface.unfold)

lemma any_unique:
  assumes "keeps frame m" and "\<And>d. 0 \<le> d_depth d \<Longrightarrow> m d = interface_body env m d" and "0 \<le> d_depth d"
  shows "m d = decodeInterfaceCond env d"
  by (rule iface.unique [where m = "\<lambda>_. m", OF assms])

end

section \<open>Termination and restoration\<close>

text \<open>
  C9: decoding into \<^verbatim>\<open>any\<close> always terminates within the depth limit, whatever map decoder and
  extension decoders the program has installed, as long as they leave the decoder's depth and
  options alone: the model satisfies the recursion equation of the source and is the only function
  that does, so its fuel (one more than the levels still allowed) never decides the result.
\<close>

theorem decodeInterfaceCond_recursion:
  assumes "env_ok env" and "0 \<le> d_depth d"
  shows "decodeInterfaceCond env d = interface_body env (decodeInterfaceCond env) d \<and>
    (\<forall>m. keeps frame m \<longrightarrow> (\<forall>d. 0 \<le> d_depth d \<longrightarrow> m d = interface_body env m d) \<longrightarrow> m d = decodeInterfaceCond env d)"
proof -
  have e: "decode_env env" by (rule decode_env.intro) (rule assms(1))
  have "m d = decodeInterfaceCond env d" if "keeps frame m" "\<And>d. 0 \<le> d_depth d \<Longrightarrow> m d = interface_body env m d" for m
    by (rule decode_env.any_unique [OF e that assms(2)])
  then show ?thesis using decode_env.any_unfold [OF e assms(2)] by blast
qed

lemma package_env_ok: "env_ok package_env"
  by (rule package.env)

theorem decodeInterfaceCond_recursion_witness:
  "decodeInterfaceCond package_env (decoder_on [0x91, 0x81, 0xa1, 0x61, 0x05]) =
     interface_body package_env (decodeInterfaceCond package_env) (decoder_on [0x91, 0x81, 0xa1, 0x61, 0x05])"
  using decodeInterfaceCond_recursion [OF package_env_ok, of "decoder_on [0x91, 0x81, 0xa1, 0x61, 0x05]"] by simp

text \<open>
  C12: decoding into \<^verbatim>\<open>any\<close> leaves the decoder usable on every exit path, errors included: the nesting
  depth is what it was, the options, the limits and the installed map decoder are unchanged, no
  recording is left running, and the interned strings seen so far are kept.
\<close>

theorem decode_any_restores:
  assumes "env_ok env" and "0 \<le> d_depth d"
    and "m \<in> {decodeInterfaceCond env, DecodeInterface env, DecodeInterfaceLoose env,
      bindE (DecodeSlice env) (\<lambda>s. ret (GSlice s)), decodeMapDefault env (decodeInterfaceCond env)}"
    and "m d = (res, d')"
  shows "d_depth d' = d_depth d \<and> d_maxDepth d' = d_maxDepth d \<and> d_flags d' = d_flags d \<and>
    d_mapDecoder d' = d_mapDecoder d \<and> (d_rec d = None \<longrightarrow> d_rec d' = None) \<and> prefix (d_dict d) (d_dict d')"
proof -
  have e: "decode_env env" by (rule decode_env.intro) (rule assms(1))
  have k: "keeps frame (decodeInterfaceCond env)" by (rule decode_env.keeps_any [OF e])
  have "keeps frame (DecodeInterface env)" "keeps frame (DecodeInterfaceLoose env)"
    "keeps frame (bindE (DecodeSlice env) (\<lambda>s. ret (GSlice s)))" "keeps frame (decodeMapDefault env (decodeInterfaceCond env))"
    unfolding DecodeInterface_def DecodeInterfaceLoose_def DecodeSlice_def
    by (intro frame_intros frames decode_env.keeps_codes [OF e k] keeps_decodeSlice decode_env.keeps_mapDefault [OF e] k)+
  with k assms(3) have "keeps frame m" by auto
  from keepsD [OF this assms(4)] show ?thesis using assms(2) by (simp add: frame_def)
qed

theorem decode_any_restores_witness:
  "d_depth (snd (DecodeInterface package_env (decoder_on [0x91, 0xc1]))) = 0"
  using decode_any_restores [OF package_env_ok, of "decoder_on [0x91, 0xc1]" "DecodeInterface package_env"
      "fst (DecodeInterface package_env (decoder_on [0x91, 0xc1]))"
      "snd (DecodeInterface package_env (decoder_on [0x91, 0xc1]))"]
  by simp

end
