(* ===== verification/Decode_Query.thy ===== *)
theory Decode_Query
  imports Decode_Interface
begin

text \<open>
  \<^verbatim>\<open>decode_query.go\<close>: extracting the values at a path of map keys and array indexes from an encoded
  value, without decoding the rest.
\<close>

section \<open>The query state\<close>

record queryResult =
  q_query :: gostring
  q_key :: gostring
  q_values :: "gval list"
  q_hasAsterisk :: bool

definition dot :: byte where "dot = 46"
definition asterisk :: gostring where "asterisk = [42]"

text \<open>\<open>nextKey\<close>: up to the first dot, which is dropped.\<close>

definition nextKey :: "queryResult \<Rightarrow> queryResult" where
  "nextKey q =
     (if dot \<notin> set (q_query q) then q\<lparr>q_key := q_query q, q_query := []\<rparr>
      else let key = takeWhile (\<lambda>c. c \<noteq> dot) (q_query q)
           in q\<lparr>q_key := key, q_query := drop (length key + 1) (q_query q)\<rparr>)"

text \<open>
  \<^verbatim>\<open>strconv.Atoi\<close>: an optional sign and decimal digits, at least one, with a value that fits \<^verbatim>\<open>int\<close>.
\<close>

definition digits :: "gostring \<Rightarrow> int" where
  "digits s = foldl (\<lambda>n c. 10 * n + (uint c - 48)) 0 s"

definition is_digit :: "byte \<Rightarrow> bool" where
  "is_digit c \<longleftrightarrow> 48 \<le> c \<and> c \<le> 57"

definition Atoi :: "platform \<Rightarrow> gostring \<Rightarrow> int option" where
  "Atoi P s =
     (let neg = (case s of c # _ \<Rightarrow> c = 45 | [] \<Rightarrow> False);
          ds = (case s of c # cs \<Rightarrow> if c = 45 \<or> c = 43 then cs else s | [] \<Rightarrow> []);
          n = (if neg then - digits ds else digits ds)
      in if ds = [] \<or> \<not> list_all is_digit ds then None
         else if n < - (2 ^ (p_intBits P - 1)) \<or> n > maxInt P then None
         else Some n)"

section \<open>Walking\<close>

text \<open>In the following \<open>rec\<close> is \<open>query\<close>.\<close>

definition skipNext :: "nat \<Rightarrow> (decoder, unit) go" where
  "skipNext n = repeatE n Skip"

text \<open>The loop of \<open>queryMapKey\<close>, with \<open>r\<close> entries to go.\<close>

primrec queryMapKey_loop ::
  "(queryResult \<Rightarrow> (decoder, queryResult) go) \<Rightarrow> queryResult \<Rightarrow> nat \<Rightarrow> (decoder, queryResult) go" where
  "queryMapKey_loop rec q 0 = ret q"
| "queryMapKey_loop rec q (Suc r) =
     bindE decodeStringTemp (\<lambda>key.
       if key = q_key q then
         bindE (rec q) (\<lambda>q.
           if q_hasAsterisk q then bindE (skipNext (r * 2)) (\<lambda>_. ret q) else ret q)
       else bindE Skip (\<lambda>_. queryMapKey_loop rec q r))"

definition queryMapKey ::
  "(queryResult \<Rightarrow> (decoder, queryResult) go) \<Rightarrow> queryResult \<Rightarrow> (decoder, queryResult) go" where
  "queryMapKey rec q =
     bindE DecodeMapLen (\<lambda>n. if n = - 1 then ret q else queryMapKey_loop rec q (nat n))"

text \<open>The loop of \<open>queryArrayIndex\<close> over the indexes from \<open>i\<close>, with \<open>r\<close> elements to go.\<close>

primrec queryArrayIndex_loop ::
  "(queryResult \<Rightarrow> (decoder, queryResult) go) \<Rightarrow> queryResult \<Rightarrow> int \<Rightarrow> nat \<Rightarrow> nat \<Rightarrow> (decoder, queryResult) go" where
  "queryArrayIndex_loop rec q ind i 0 = ret q"
| "queryArrayIndex_loop rec q ind i (Suc r) =
     (if int i = ind then
        bindE (rec q) (\<lambda>q.
          if q_hasAsterisk q then bindE (skipNext r) (\<lambda>_. ret q) else ret q)
      else bindE Skip (\<lambda>_. queryArrayIndex_loop rec q ind (Suc i) r))"

definition queryArrayIndex_elems ::
  "(queryResult \<Rightarrow> (decoder, queryResult) go) \<Rightarrow> queryResult \<Rightarrow> nat \<Rightarrow> (decoder, queryResult) go" where
  "queryArrayIndex_elems rec q n =
     (if q_key q = asterisk then
        bindE (foldE n (\<lambda>p. rec (p\<lparr>q_query := q_query q\<rparr>)) (q\<lparr>q_hasAsterisk := True\<rparr>))
          (\<lambda>p. ret (p\<lparr>q_hasAsterisk := False\<rparr>))
      else bindE (getS d_plat) (\<lambda>P.
        case Atoi P (q_key q) of
          None \<Rightarrow> fail (AtoiError (q_key q))
        | Some ind \<Rightarrow> queryArrayIndex_loop rec q ind 0 n))"

definition queryArrayIndex ::
  "(queryResult \<Rightarrow> (decoder, queryResult) go) \<Rightarrow> queryResult \<Rightarrow> (decoder, queryResult) go" where
  "queryArrayIndex rec q =
     bindE DecodeArrayLen (\<lambda>n. if n = - 1 then ret q else queryArrayIndex_elems rec q (nat n))"

definition query_body ::
  "denv \<Rightarrow> (queryResult \<Rightarrow> (decoder, queryResult) go) \<Rightarrow> queryResult \<Rightarrow> (decoder, queryResult) go" where
  "query_body env rec q0 =
     (let q = nextKey q0
      in if q_key q = [] then
           bindE (decodeInterfaceCond env) (\<lambda>v. ret (q\<lparr>q_values := q_values q @ [v]\<rparr>))
         else bindE PeekCode (\<lambda>code.
           if code = Map16_c \<or> code = Map32_c \<or> IsFixedMap code then queryMapKey rec q
           else if code = Array16_c \<or> code = Array32_c \<or> IsFixedArray code then queryArrayIndex rec q
           else fail (UnsupportedQueryCode code (q_key q))))"

primrec query_f :: "denv \<Rightarrow> nat \<Rightarrow> queryResult \<Rightarrow> (decoder, queryResult) go" where
  "query_f env 0 q = fail OutOfFuel"
| "query_f env (Suc n) q = query_body env (query_f env n) q"

text \<open>Every key that leads to another call takes at least one character off the query.\<close>

definition query :: "denv \<Rightarrow> queryResult \<Rightarrow> (decoder, queryResult) go" where
  "query env q = query_f env (Suc (length (q_query q))) q"

definition Query :: "denv \<Rightarrow> gostring \<Rightarrow> (decoder, gval list) go" where
  "Query env s =
     bindE (query env \<lparr>q_query = s, q_key = [], q_values = [], q_hasAsterisk = False\<rparr>) (\<lambda>q. ret (q_values q))"

section \<open>Termination\<close>

lemma nextKey_shorter: "q_key (nextKey q) \<noteq> [] \<Longrightarrow> length (q_query (nextKey q)) < length (q_query q)"
proof (cases "dot \<in> set (q_query q)")
  case True
  then show ?thesis using length_pos_if_in_set [OF True] by (simp add: nextKey_def Let_def)
qed (simp add: nextKey_def)

lemma queryMapKey_cong: "rec q = rec' q \<Longrightarrow> queryMapKey rec q = queryMapKey rec' q"
proof -
  assume r: "rec q = rec' q"
  have "queryMapKey_loop rec q n = queryMapKey_loop rec' q n" for n
    by (induction n) (simp_all add: r cong: if_cong)
  then show ?thesis by (simp add: queryMapKey_def cong: if_cong)
qed

lemma queryArrayIndex_cong:
  assumes "\<And>p. q_query p = q_query q \<Longrightarrow> rec p = rec' p"
  shows "queryArrayIndex rec q = queryArrayIndex rec' q"
proof -
  have "queryArrayIndex_loop rec q ind i n = queryArrayIndex_loop rec' q ind i n" for ind i n
    by (induction n arbitrary: i) (simp_all add: assms cong: if_cong)
  then show ?thesis
    by (simp add: queryArrayIndex_def queryArrayIndex_elems_def assms cong: if_cong option.case_cong)
qed

lemma query_body_cong:
  assumes "\<And>p. length (q_query p) < length (q_query q) \<Longrightarrow> rec p = rec' p"
  shows "query_body env rec q = query_body env rec' q"
proof (cases "q_key (nextKey q) = []")
  case False
  then have "queryMapKey rec (nextKey q) = queryMapKey rec' (nextKey q)"
    "queryArrayIndex rec (nextKey q) = queryArrayIndex rec' (nextKey q)"
    using nextKey_shorter assms by (auto intro!: queryMapKey_cong queryArrayIndex_cong)
  then show ?thesis by (simp add: query_body_def Let_def cong: if_cong)
qed (simp add: query_body_def Let_def)

lemma query_fuel: "length (q_query q) < n \<Longrightarrow> length (q_query q) < n' \<Longrightarrow> query_f env n q = query_f env n' q"
proof (induction n arbitrary: n' q)
  case (Suc n)
  then obtain b where b: "n' = Suc b" by (cases n') auto
  show ?case unfolding b query_f.simps by (rule query_body_cong, rule Suc.IH) (use Suc.prems b in auto)
qed simp

text \<open>
  \<open>query\<close> terminates on every path and input: the model satisfies the recursion equation of the
  source, so the fuel, one more than the length of the path, never decides the result.
\<close>

theorem query_recursion: "query env q = query_body env (query env) q"
proof -
  have "query_body env (query_f env (length (q_query q))) q = query_body env (query env) q"
    by (rule query_body_cong) (auto simp only: query_def intro: query_fuel)
  then show ?thesis by (simp add: query_def)
qed

end
