(* ===== verification/Conformance.thy ===== *)
theory Conformance
  imports Decode_Skip Encode_Value
begin

text \<open>
  The encoder against the grammar of the wire format: everything \<open>Encode\<close> writes for a value of the
  built-in kinds is one item, nested as deep as the value. With the theorem on \<open>Skip\<close> this
  composes the two sides.
\<close>

section \<open>Headers and scalars\<close>

lemma unat_of_uint: "uint x = int l \<Longrightarrow> unat x = l"
  by (metis nat_int unat_eq_nat_uint)

lemma be_lanes: "be (lanes16 h) = unat h" "be (lanes32 w) = unat w" "be [b] = unat b"
proof -
  have "uint h = int (be (lanes16 h))" "uint w = int (be (lanes32 w))"
    using be_join_length(2) [of "lanes16 h"] be_join_length(3) [of "lanes32 w"] by simp_all
  then show "be (lanes16 h) = unat h" "be (lanes32 w) = unat w" by (simp_all only: unat_of_uint)
  show "be [b] = unat b" by (simp add: be_def)
qed

lemma unat_of_length:
  "n < 256 \<Longrightarrow> unat (word_of_nat n :: byte) = n" "n < 65536 \<Longrightarrow> unat (word_of_nat n :: u16) = n"
  "n < 4294967296 \<Longrightarrow> unat (word_of_nat n :: u32) = n"
  by (simp_all add: unsigned_of_nat take_bit_nat_eq_self)

lemma shape_fix_hdr:
  "l < 32 \<Longrightarrow> shape_of (FixedStrLow_c OR word_of_nat l) = Some (Plain l)"
  "l < 16 \<Longrightarrow> shape_of (FixedArrayLow_c OR word_of_nat l) = Some (Items l)"
  "l < 16 \<Longrightarrow> shape_of (FixedMapLow_c OR word_of_nat l) = Some (Items (2 * l))"
proof -
  show "shape_of (FixedStrLow_c OR word_of_nat l) = Some (Plain l)" if "l < 32"
    using fixstr_code [of "int l"] that
    by (simp add: shape_codes(4) unat_of_uint [of "(FixedStrLow_c OR word_of_nat l) AND FixedStrMask_c" l])
  show "shape_of (FixedArrayLow_c OR word_of_nat l) = Some (Items l)" if "l < 16"
    using fixarr_code [of "int l"] that
    by (simp add: shape_codes(3) unat_of_uint [of "(FixedArrayLow_c OR word_of_nat l) AND FixedArrayMask_c" l])
  show "shape_of (FixedMapLow_c OR word_of_nat l) = Some (Items (2 * l))" if "l < 16"
    using fixmap_code [of "int l"] that
    by (simp add: shape_codes(2) unat_of_uint [of "(FixedMapLow_c OR word_of_nat l) AND FixedMapMask_c" l])
qed

lemma item_str_wire: "length s < 4294967296 \<Longrightarrow> item (Suc n) (str_wire s)"
  using shape_fix_hdr(1) [of "length s"] item.plain [of "FixedStrLow_c OR word_of_nat (length s)" "length s" s n]
    item.sized [of Str8_c 1 0 "[word_of_nat (length s)]" s n]
    item.sized [of Str16_c 2 0 "lanes16 (word_of_nat (length s))" s n]
    item.sized [of Str32_c 4 0 "lanes32 (word_of_nat (length s))" s n]
  by (auto simp: str_wire_def str_hdr_def shape_fixed_codes be_lanes unat_of_length)

lemma item_nil: "item (Suc n) [Nil_c]"
  by (rule item.plain) (simp_all add: shape_fixed_codes)

lemma item_bool: "item (Suc n) [if b then True_c else False_c]"
  by (rule item.plain [where n = 0]) (simp_all add: shape_fixed_codes)

lemma item_bin_wire: "case b of None \<Rightarrow> True | Some x \<Rightarrow> length x < 4294967296 \<Longrightarrow> item (Suc n) (bin_wire b)"
  using item.sized [of Bin8_c 1 0 "[word_of_nat (length (the b))]" "the b" n]
    item.sized [of Bin16_c 2 0 "lanes16 (word_of_nat (length (the b)))" "the b" n]
    item.sized [of Bin32_c 4 0 "lanes32 (word_of_nat (length (the b)))" "the b" n] item_nil
  by (auto simp: bin_wire_def bin_hdr_def shape_fixed_codes be_lanes unat_of_length split: option.splits)

lemma item_arr:
  assumes "length as < 4294967296" and "\<forall>a\<in>set as. item n a"
  shows "item (Suc n) (arr_hdr (int (length as)) @ concat as)"
  using assms item.items [OF shape_fix_hdr(2), of "length as" as n]
    item.sized_items [of Array16_c 2 1 "lanes16 (word_of_nat (length as))" as n]
    item.sized_items [of Array32_c 4 1 "lanes32 (word_of_nat (length as))" as n]
  by (auto simp: arr_hdr_def shape_fixed_codes be_lanes unat_of_length)

lemma item_map:
  assumes "length kvs < 4294967296" and "\<forall>kv\<in>set kvs. item n (f kv) \<and> item n (g kv)"
  shows "item (Suc n) (map_hdr (int (length kvs)) @ concat (map (\<lambda>kv. f kv @ g kv) kvs))"
proof -
  let ?as = "concat (map (\<lambda>kv. [f kv, g kv]) kvs)"
  have as: "length ?as = 2 * length kvs" "concat ?as = concat (map (\<lambda>kv. f kv @ g kv) kvs)"
    by (induction kvs) simp_all
  have it: "\<forall>a\<in>set ?as. item n a" using assms(2) by auto
  show ?thesis
    using assms(1) it as item.items [OF shape_fix_hdr(3), of "length kvs" ?as n]
      item.sized_items [of Map16_c 2 2 "lanes16 (word_of_nat (length kvs))" ?as n]
      item.sized_items [of Map32_c 4 2 "lanes32 (word_of_nat (length kvs))" ?as n]
    by (auto simp: map_hdr_def shape_fixed_codes be_lanes unat_of_length)
qed

lemma item_sized_nums:
  "item (Suc n) [Uint8_c, b]" "item (Suc n) [Int8_c, b]" "item (Suc n) (Uint16_c # lanes16 h)"
  "item (Suc n) (Int16_c # lanes16 h)" "item (Suc n) (Uint32_c # lanes32 w)" "item (Suc n) (Int32_c # lanes32 w)"
  "item (Suc n) (Uint64_c # lanes64 q)" "item (Suc n) (Int64_c # lanes64 q)" "item (Suc n) (Float_c # lanes32 w)"
  "item (Suc n) (Double_c # lanes64 q)"
  by (rule item.plain; simp add: shape_fixed_codes)+

lemma item_fixnum: "IsFixedNum c \<Longrightarrow> item (Suc n) [c]"
  by (rule item.plain [OF shape_codes(1)]) simp_all

lemma item_int_wire: "item (Suc n) (uint_wire x)" "item (Suc n) (int_wire x)"
  using fixnum_pos(1) [of x] fixnum_neg(1) [of x]
  by (auto simp: uint_wire_def int_wire_def item_sized_nums item_fixnum)

lemma item_time_wire: "item (Suc n) (time_wire tm)"
proof -
  let ?b = "time_bytes (t_sec tm) (word_of_nat (t_nsec tm))"
  have "length ?b \<in> {4, 8, 12}" by (rule length_time_bytes)
  then show ?thesis
    using item.plain [of FixExt4_c 5 "timeExtID # ?b" n] item.plain [of FixExt8_c 9 "timeExtID # ?b" n]
      item.sized [of Ext8_c 1 1 "[12]" "timeExtID # ?b" n]
    by (auto simp: time_wire_def Let_def ext_len_hdr_def shape_fixed_codes be_def)
qed

section \<open>Values of the built-in kinds\<close>

text \<open>
  \<open>data_val n v\<close>: \<open>v\<close> is built from the predeclared kinds, byte slices, times and structs without
  interned fields, with containers nested at most \<open>n\<close> deep, lengths that fit 32 bits and distinct
  map keys.
\<close>

definition short :: "'a list \<Rightarrow> bool" where
  "short xs \<longleftrightarrow> length xs < 4294967296"

definition scalar_val :: "gval \<Rightarrow> bool" where
  "scalar_val v =
     (case v of
        GNil \<Rightarrow> True | GBool _ \<Rightarrow> True
      | GInt _ \<Rightarrow> True | GInt8 _ \<Rightarrow> True | GInt16 _ \<Rightarrow> True | GInt32 _ \<Rightarrow> True | GInt64 _ \<Rightarrow> True
      | GUint _ \<Rightarrow> True | GUint8 _ \<Rightarrow> True | GUint16 _ \<Rightarrow> True | GUint32 _ \<Rightarrow> True | GUint64 _ \<Rightarrow> True
      | GDuration _ \<Rightarrow> True | GFloat32 _ \<Rightarrow> True | GFloat64 _ \<Rightarrow> True
      | GString s \<Rightarrow> short s
      | GBytes b \<Rightarrow> (case b of None \<Rightarrow> True | Some x \<Rightarrow> short x)
      | GByteArray _ b \<Rightarrow> short b
      | GTime t \<Rightarrow> time_wf t
      | GStrings s \<Rightarrow> s = None | GSlice s \<Rightarrow> s = None | GMapSS m \<Rightarrow> m = None | GMapSB m \<Rightarrow> m = None
      | GMapSI m \<Rightarrow> m = None | GPtr p \<Rightarrow> p = None
      | _ \<Rightarrow> False)"

inductive data_val :: "nat \<Rightarrow> gval \<Rightarrow> bool" where
  scalar: "scalar_val v \<Longrightarrow> data_val (Suc n) v"
| strings: "short ss \<Longrightarrow> \<forall>s\<in>set ss. short s \<Longrightarrow> data_val (Suc (Suc n)) (GStrings (Some ss))"
| slice: "short xs \<Longrightarrow> \<forall>x\<in>set xs. data_val n x \<Longrightarrow> data_val (Suc n) (GSlice (Some xs))"
| array: "short xs \<Longrightarrow> \<forall>x\<in>set xs. data_val n x \<Longrightarrow> data_val (Suc n) (GArray xs)"
| mapSS: "short kvs \<Longrightarrow> distinct (map fst kvs) \<Longrightarrow> \<forall>kv\<in>set kvs. short (fst kv) \<and> short (snd kv) \<Longrightarrow>
    data_val (Suc (Suc n)) (GMapSS (Some kvs))"
| mapSB: "short kvs \<Longrightarrow> distinct (map fst kvs) \<Longrightarrow> \<forall>kv\<in>set kvs. short (fst kv) \<Longrightarrow>
    data_val (Suc (Suc n)) (GMapSB (Some kvs))"
| mapSI: "short kvs \<Longrightarrow> distinct (map fst kvs) \<Longrightarrow> \<forall>kv\<in>set kvs. short (fst kv) \<and> data_val (Suc n) (snd kv) \<Longrightarrow>
    data_val (Suc (Suc n)) (GMapSI (Some kvs))"
| ptr: "data_val n v \<Longrightarrow> data_val n (GPtr (Some v))"
| struct: "short fs \<Longrightarrow> distinct (map (f_name \<circ> fst) fs) \<Longrightarrow>
    \<forall>f\<in>set fs. \<not> f_intern (fst f) \<and> short (f_name (fst f)) \<and> (\<forall>v. snd f = Some v \<longrightarrow> data_val (Suc n) v) \<Longrightarrow>
    data_val (Suc (Suc n)) (GStruct a fs)"

lemma data_val_plain: "data_val n v \<Longrightarrow> plain_val v"
proof (induction rule: data_val.induct)
  case (scalar v n)
  then show ?case by (cases v) (auto simp: scalar_val_def split: option.splits)
qed (auto simp: list_all_iff split: option.splits)

lemma item_scalar: "scalar_val v \<Longrightarrow> item (Suc n) (wire fl P v)"
  by (cases v)
    (auto simp: scalar_val_def short_def wire_simps f32_wire_def f64_wire_def item_nil item_bool item_int_wire
      item_sized_nums item_time_wire item_str_wire item_bin_wire split: option.splits)

lemma length_sorted_entries: "length (sorted_entries kvs) = length kvs"
  by (simp add: sorted_entries_def)

lemma length_map_order: "length (map_order fl kvs) = length kvs"
  by (simp add: map_order_def length_sorted_entries)

lemma item_map_order:
  assumes "short kvs" and "\<And>kv. kv \<in> set kvs \<Longrightarrow> item n (f kv) \<and> item n (g kv)"
  shows "item (Suc n) (map_hdr (int (length kvs)) @ concat (map (\<lambda>kv. f kv @ g kv) (map_order fl kvs)))"
  using item_map [of "map_order fl kvs" n f g] assms set_map_order [of _ fl kvs]
  by (auto simp: short_def length_map_order)

lemma item_wire: "data_val n v \<Longrightarrow> item n (wire fl P v)"
proof (induction rule: data_val.induct)
  case (scalar v n)
  then show ?case by (rule item_scalar)
next
  case (strings ss n)
  then show ?case using item_arr [of "map str_wire ss" "Suc n"] by (auto simp: short_def wire_simps item_str_wire)
next
  case (slice xs n)
  then show ?case using item_arr [of "map (wire fl P) xs" n] by (auto simp: short_def wire_simps)
next
  case (array xs n)
  then show ?case using item_arr [of "map (wire fl P) xs" n] by (auto simp: short_def wire_simps)
next
  case (mapSS kvs n)
  then show ?case by (auto simp: wire_simps short_def item_str_wire intro!: item_map_order)
next
  case (mapSB kvs n)
  then show ?case by (auto simp: wire_simps short_def item_str_wire item_bool [of _ True, simplified]
        item_bool [of _ False, simplified] intro!: item_map_order)
next
  case (mapSI kvs n)
  then show ?case by (auto simp: wire_simps short_def item_str_wire intro!: item_map_order)
next
  case (ptr n v)
  then show ?case by (simp add: wire_simps)
next
  case (struct fs n a)
  have f: "item (Suc n) (field_wire (wire fl P) f)" if "f \<in> set fs" for f
    using struct that by (auto simp: field_wire_def item_nil split: option.split)
  let ?o = "OmitEmpty (hasFlag fl omitEmptyFlag) fs"
  have "length ?o \<le> length fs" by (simp add: OmitEmpty_def)
  then have "item (Suc (Suc n)) (map_hdr (int (length ?o)) @
      concat (map (\<lambda>f. str_wire (f_name (fst f)) @ field_wire (wire fl P) f) ?o))"
    using struct f by (intro item_map) (auto simp: short_def item_str_wire dest!: set_OmitEmpty)
  moreover have "item (Suc (Suc n)) (arr_hdr (int (length fs)) @ concat (map (field_wire (wire fl P)) fs))"
    using item_arr [of "map (field_wire (wire fl P)) fs" "Suc n"] f struct by (auto simp: short_def)
  ultimately show ?case by (simp add: wire_simps)
qed

section \<open>Encoding conforms\<close>

lemma Encode_wire:
  assumes "enc_ok out e" and "plain_strings (conf e)" and "data_val n v" and "Encode v e = (Inr (), e')"
  shows "written out e' = written out e @ wire (e_flags e) (e_plat e) v"
proof -
  have "emits out (conf e) (Encode v) (wire (e_flags e) (e_plat e) v) (conf e)"
    using emits_EncodeValue [OF conf_def assms(2) data_val_plain [OF assms(3)]]
    by (simp add: Encode_EncodeValue)
  from emitsD [OF this assms(1) refl] show ?thesis using assms(4) by simp
qed

text \<open>An encoder that appends to a buffer, as \<open>Marshal\<close> uses it, cannot fail to write; an example.\<close>

definition append_encoder :: "unit encoder" where
  "append_encoder = (NewEncoder amd64 None)\<lparr>e_w := AppendWriter\<rparr>"

lemma append_encoder:
  "enc_ok (\<lambda>_. []) append_encoder" "plain_strings (conf append_encoder)" "e_w append_encoder = AppendWriter"
  "e_flags append_encoder = 0" "e_plat append_encoder = amd64" "conf append_encoder = (0, [], amd64, [])"
  by (simp_all add: append_encoder_def enc_ok_def enc_inv_def writer_ok_def NewEncoder_def Reset_def ResetDict_def
      ResetWriter_def plain_strings_def conf_def hasFlag_def)

lemma append_encoder_run:
  assumes "emits out (conf e) m bs k'" and "enc_ok out e" and "e_w e = AppendWriter"
  obtains x e' where "m e = (Inr x, e')" and "written out e' = written out e @ bs"
proof -
  obtain r e' where run: "m e = (r, e')" by fastforce
  have em: "emitted out e bs k' (r, e')" using emitsD [OF assms(1,2) refl] run by simp
  obtain x where r: "r = Inr x" using em assms(3) by (cases r) (simp_all add: emitted_def)
  have "written out e' = written out e @ bs" using em unfolding r emitted_Inr by blast
  with run r that show thesis by blast
qed

definition example_value :: gval where
  "example_value = GSlice (Some [GInt 5, GString [0x68, 0x69]])"

lemma example_data: "data_val 2 example_value"
  unfolding numeral_2_eq_2 example_value_def
  by (rule data_val.slice) (auto simp: short_def scalar_val_def intro!: data_val.scalar)

lemma example_encoded:
  obtains e' where "Encode example_value append_encoder = (Inr (), e')"
    and "written (\<lambda>_. []) e' = written (\<lambda>_. []) append_encoder @ [0x92, 0x05, 0xa2, 0x68, 0x69]"
proof -
  have w: "wire 0 amd64 example_value = [0x92, 0x05, 0xa2, 0x68, 0x69]"
    by (simp add: example_value_def wire_simps arr_hdr_def int_wire_def uint_wire_def str_wire_def str_hdr_def opcode_values)
  have "emits (\<lambda>_. []) (conf append_encoder) (Encode example_value) [0x92, 0x05, 0xa2, 0x68, 0x69] (conf append_encoder)"
    using emits_EncodeValue [OF conf_def append_encoder(2) data_val_plain [OF example_data], of "\<lambda>_. []"]
    unfolding append_encoder(4,5) w by (simp add: Encode_EncodeValue)
  then show thesis
    by (rule append_encoder_run [OF _ append_encoder(1,3)]) (use that in auto)
qed



end
