(* ===== verification/Interface_Codec.thy ===== *)
theory Interface_Codec
  imports Conformance Decode_Interface String_Codec
begin

text \<open>
  The encoder against the decoder into \<^verbatim>\<open>any\<close>: what each value is decoded to (\<open>seen\<close>), by induction on
  the value, one lemma per code of the two dispatchers and one per kind of container, and the round
  trip through \<open>Encode\<close> and \<open>decodeInterfaceCond\<close>.
\<close>


section \<open>What an encoded value decodes to\<close>

text \<open>The value of an integer of any kind.\<close>

definition int_value :: "gval \<Rightarrow> int option" where
  "int_value v =
     (case v of
        GInt n \<Rightarrow> Some (sint n) | GInt8 n \<Rightarrow> Some (sint n) | GInt16 n \<Rightarrow> Some (sint n)
      | GInt32 n \<Rightarrow> Some (sint n) | GInt64 n \<Rightarrow> Some (sint n) | GDuration n \<Rightarrow> Some (sint n)
      | GUint n \<Rightarrow> Some (uint n) | GUint8 n \<Rightarrow> Some (uint n) | GUint16 n \<Rightarrow> Some (uint n)
      | GUint32 n \<Rightarrow> Some (uint n) | GUint64 n \<Rightarrow> Some (uint n)
      | _ \<Rightarrow> None)"

text \<open>
  \<open>seen fl loose v w\<close>: a value \<open>v\<close> written with the options \<open>fl\<close> may be decoded into \<^verbatim>\<open>any\<close> as \<open>w\<close>. Numbers
  keep their value but not their kind, strings and bytes their contents, containers become
  \<^verbatim>\<open>[]any\<close> and \<^verbatim>\<open>map[string]any\<close> of what their parts become, pointers vanish, nil is nil.
\<close>

definition field_val :: "fmeta \<times> gval option \<Rightarrow> gval" where
  "field_val f = (case snd f of None \<Rightarrow> GNil | Some v \<Rightarrow> v)"

inductive seen :: "u32 \<Rightarrow> bool \<Rightarrow> gval \<Rightarrow> gval \<Rightarrow> bool" for fl loose where
  int: "int_value v = Some i \<Longrightarrow> int_value w = Some i \<Longrightarrow> seen fl loose v w"
| nil: "v \<in> {GNil, GBytes None, GStrings None, GSlice None, GMapSS None, GMapSB None, GMapSI None, GPtr None} \<Longrightarrow>
    seen fl loose v GNil"
| bool: "seen fl loose (GBool b) (GBool b)"
| f32: "seen fl loose (GFloat32 f) (if loose then GFloat64 (f64_of_f32 f) else GFloat32 f)"
| f32_int: "int_value w = Some i \<Longrightarrow> f32_eq (f32_of_int i) f \<Longrightarrow> seen fl loose (GFloat32 f) w"
| f64: "seen fl loose (GFloat64 f) (GFloat64 f)"
| f64_int: "int_value w = Some i \<Longrightarrow> f64_eq (f64_of_int i) f \<Longrightarrow> seen fl loose (GFloat64 f) w"
| str: "seen fl loose (GString s) (GString s)"
| bytes: "w = (if loose then GString b else GBytes (Some b)) \<Longrightarrow> seen fl loose (GBytes (Some b)) w"
| byteArray: "w = (if loose then GString b else GBytes (Some b)) \<Longrightarrow> seen fl loose (GByteArray a b) w"
| time: "seen fl loose (GTime t) (GTime \<lparr>t_sec = t_sec t, t_nsec = t_nsec t, t_utc = time_IsZero t\<rparr>)"
| strings: "seen fl loose (GStrings (Some ss)) (GSlice (Some (map GString ss)))"
| slice: "list_all2 (seen fl loose) xs ys \<Longrightarrow> seen fl loose (GSlice (Some xs)) (GSlice (Some ys))"
| array: "list_all2 (seen fl loose) xs ys \<Longrightarrow> seen fl loose (GArray xs) (GSlice (Some ys))"
| mapSS: "seen fl loose (GMapSS (Some kvs)) (GMapSI (Some (map (\<lambda>kv. (fst kv, GString (snd kv))) (map_order fl kvs))))"
| mapSB: "seen fl loose (GMapSB (Some kvs)) (GMapSI (Some (map (\<lambda>kv. (fst kv, GBool (snd kv))) (map_order fl kvs))))"
| mapSI: "list_all2 (\<lambda>a b. fst a = fst b \<and> seen fl loose (snd a) (snd b)) (map_order fl kvs) ws \<Longrightarrow>
    seen fl loose (GMapSI (Some kvs)) (GMapSI (Some ws))"
| ptr: "seen fl loose v w \<Longrightarrow> seen fl loose (GPtr (Some v)) w"
| struct: "\<not> (hasFlag fl arrayEncodedStructsFlag \<or> a) \<Longrightarrow>
    list_all2 (\<lambda>f b. f_name (fst f) = fst b \<and> seen fl loose (field_val f) (snd b))
      (OmitEmpty (hasFlag fl omitEmptyFlag) fs) ws \<Longrightarrow>
    seen fl loose (GStruct a fs) (GMapSI (Some ws))"
| struct_array: "hasFlag fl arrayEncodedStructsFlag \<or> a \<Longrightarrow>
    list_all2 (\<lambda>f w. seen fl loose (field_val f) w) fs ws \<Longrightarrow>
    seen fl loose (GStruct a fs) (GSlice (Some ws))"
monos list_all2_mono

section \<open>One code at a time\<close>

definition any_code :: "denv \<Rightarrow> bool \<Rightarrow> (decoder, gval) go \<Rightarrow> byte \<Rightarrow> (decoder, gval) go" where
  "any_code env loose rec c = (if loose then loose_code env rec c else interface_code env rec c)"

text \<open>The codes, decided once: no condition of the two dispatchers is left for a given code.\<close>

lemma any_code_fixnum:
  "IsFixedNum c \<Longrightarrow> any_code env loose rec c = ret (if loose then GInt64 (scast c) else GInt8 c)"
  by (simp add: any_code_def loose_code_def interface_code_def)

lemma any_code_nums:
  "any_code env loose rec Uint8_c = (if loose then bindE (dec_uint Uint8_c) (\<lambda>n. ret (GUint64 n)) else bindE dec_uint8 (\<lambda>n. ret (GUint8 n)))"
  "any_code env loose rec Uint16_c = (if loose then bindE (dec_uint Uint16_c) (\<lambda>n. ret (GUint64 n)) else bindE dec_uint16 (\<lambda>n. ret (GUint16 n)))"
  "any_code env loose rec Uint32_c = (if loose then bindE (dec_uint Uint32_c) (\<lambda>n. ret (GUint64 n)) else bindE dec_uint32 (\<lambda>n. ret (GUint32 n)))"
  "any_code env loose rec Uint64_c = (if loose then bindE (dec_uint Uint64_c) (\<lambda>n. ret (GUint64 n)) else bindE dec_uint64 (\<lambda>n. ret (GUint64 n)))"
  "any_code env loose rec Int8_c = (if loose then bindE (dec_int Int8_c) (\<lambda>n. ret (GInt64 n)) else bindE dec_int8 (\<lambda>n. ret (GInt8 n)))"
  "any_code env loose rec Int16_c = (if loose then bindE (dec_int Int16_c) (\<lambda>n. ret (GInt64 n)) else bindE dec_int16 (\<lambda>n. ret (GInt16 n)))"
  "any_code env loose rec Int32_c = (if loose then bindE (dec_int Int32_c) (\<lambda>n. ret (GInt64 n)) else bindE dec_int32 (\<lambda>n. ret (GInt32 n)))"
  "any_code env loose rec Int64_c = (if loose then bindE (dec_int Int64_c) (\<lambda>n. ret (GInt64 n)) else bindE dec_int64 (\<lambda>n. ret (GInt64 n)))"
  "any_code env loose rec Float_c = (if loose then bindE (dec_float64 Float_c) (\<lambda>f. ret (GFloat64 f)) else bindE (dec_float32 Float_c) (\<lambda>f. ret (GFloat32 f)))"
  "any_code env loose rec Double_c = bindE (dec_float64 Double_c) (\<lambda>f. ret (GFloat64 f))"
  "any_code env loose rec Nil_c = ret GNil"
  "any_code env loose rec True_c = bindE (dec_bool True_c) (\<lambda>b. ret (GBool b))"
  "any_code env loose rec False_c = bindE (dec_bool False_c) (\<lambda>b. ret (GBool b))"
  by (simp_all add: any_code_def loose_code_def interface_code_def class_defs opcode_values word_le_nat_alt)

lemma yields_any_code:
  assumes "any_code env loose rec c = bindE p (\<lambda>x. ret (f x))" and "yields k bs r p x k"
  shows "yields k (c # bs) r (bindE readCode (any_code env loose rec)) (f x) k"
  by (rule yields_code) (simp only: assms(1), rule yields_bind_ret [OF assms(2)], rule refl)

lemma yields_int_payload:
  "yields k [b] n (dec_uint Uint8_c) (ucast b) k" "yields k [b] n (dec_int Int8_c) (scast b) k"
  "yields k (lanes16 h) n (dec_uint Uint16_c) (ucast h) k" "yields k (lanes16 h) n (dec_int Int16_c) (scast h) k"
  "yields k (lanes32 w) n (dec_uint Uint32_c) (ucast w) k" "yields k (lanes32 w) n (dec_int Int32_c) (scast w) k"
  "yields k (lanes64 q) n (dec_uint Uint64_c) q k" "yields k (lanes64 q) n (dec_int Int64_c) q k"
  unfolding dec_uint_codes dec_int_codes
  by ((rule yields_bind_ret, rule yields_fixed, rule refl) | rule yields_fixed)+

lemma int_value_widen:
  "uint (ucast (b :: byte) :: u64) = uint b" "sint (scast (b :: byte) :: u64) = sint b"
  "uint (ucast (h :: u16) :: u64) = uint h" "sint (scast (h :: u16) :: u64) = sint h"
  "uint (ucast (w :: u32) :: u64) = uint w" "sint (scast (w :: u32) :: u64) = sint w"
  using uint_lt2p [of b] uint_lt2p [of h] uint_lt2p [of w] sint_ge [of b] sint_ge [of h] sint_ge [of w]
    sint_lt [of b] sint_lt [of h] sint_lt [of w]
  by (simp_all add: unsigned_ucast_eq signed_scast_eq take_bit_int_eq_self signed_take_bit_int_eq_self)

lemma yields_signed:
  "yields k [b] n dec_int8 b k" "yields k (lanes16 h) n dec_int16 h k"
  "yields k (lanes32 w) n dec_int32 w k" "yields k (lanes64 q) n dec_int64 q k"
  unfolding dec_int8_def dec_int16_def dec_int32_def dec_int64_def by (rule yields_fixed)+

definition reads_int :: "(decoder, gval) go \<Rightarrow> byte list \<Rightarrow> int \<Rightarrow> bool" where
  "reads_int m bs i \<longleftrightarrow> (\<exists>w. int_value w = Some i \<and> (\<forall>k r. yields k bs r m w k))"

lemma reads_int_code:
  assumes "any_code env loose rec c =
      (if loose then bindE p (\<lambda>x. ret (f x)) else bindE q (\<lambda>x. ret (g x)))"
    and "\<And>k r. yields k bs r p x k" and "\<And>k r. yields k bs r q y k"
    and "int_value (f x) = Some i" and "int_value (g y) = Some i"
  shows "reads_int (bindE readCode (any_code env loose rec)) (c # bs) i"
  using yields_any_code [where p = p and f = f, OF _ assms(2)] yields_any_code [where p = q and f = g, OF _ assms(3)] assms(1,4,5)
  unfolding reads_int_def by (cases loose) (auto simp del: ret_apply)

lemma reads_int_forms:
  "IsFixedNum c \<Longrightarrow> reads_int (bindE readCode (any_code env loose rec)) [c] (sint c)"
  "reads_int (bindE readCode (any_code env loose rec)) [Uint8_c, b] (uint b)"
  "reads_int (bindE readCode (any_code env loose rec)) [Int8_c, b] (sint b)"
  "reads_int (bindE readCode (any_code env loose rec)) (Uint16_c # lanes16 h) (uint h)"
  "reads_int (bindE readCode (any_code env loose rec)) (Int16_c # lanes16 h) (sint h)"
  "reads_int (bindE readCode (any_code env loose rec)) (Uint32_c # lanes32 w) (uint w)"
  "reads_int (bindE readCode (any_code env loose rec)) (Int32_c # lanes32 w) (sint w)"
  "reads_int (bindE readCode (any_code env loose rec)) (Uint64_c # lanes64 q) (uint q)"
  "reads_int (bindE readCode (any_code env loose rec)) (Int64_c # lanes64 q) (sint q)"
proof -
  show "reads_int (bindE readCode (any_code env loose rec)) [c] (sint c)" if "IsFixedNum c"
  proof -
    have "yields k [c] r (bindE readCode (any_code env loose rec)) (if loose then GInt64 (scast c) else GInt8 c) k" for k r
      by (rule yields_bind_ret [OF yields_readCode]) (rule any_code_fixnum [OF that])
    then show ?thesis unfolding reads_int_def
      by (intro exI [of _ "if loose then GInt64 (scast c) else GInt8 c"]) (auto simp: int_value_def int_value_widen)
  qed
qed (rule reads_int_code [OF any_code_nums(1) yields_int_payload(1) yields_fixed(1)]
    reads_int_code [OF any_code_nums(5) yields_int_payload(2) yields_signed(1)]
    reads_int_code [OF any_code_nums(2) yields_int_payload(3) yields_fixed(2)]
    reads_int_code [OF any_code_nums(6) yields_int_payload(4) yields_signed(2)]
    reads_int_code [OF any_code_nums(3) yields_int_payload(5) yields_fixed(3)]
    reads_int_code [OF any_code_nums(7) yields_int_payload(6) yields_signed(3)]
    reads_int_code [OF any_code_nums(4) yields_int_payload(7) yields_fixed(4)]
    reads_int_code [OF any_code_nums(8) yields_int_payload(8) yields_signed(4)];
    simp add: int_value_def int_value_widen)+

lemma narrow_uint:
  fixes n :: u64
  shows "unat n \<le> 255 \<Longrightarrow> uint (ucast n :: byte) = uint n" "unat n \<le> 65535 \<Longrightarrow> uint (ucast n :: u16) = uint n"
    "unat n \<le> 4294967295 \<Longrightarrow> uint (ucast n :: u32) = uint n"
  using ucast_narrow_widen [of n, where 'b = 8] ucast_narrow_widen [of n, where 'b = 16]
    ucast_narrow_widen [of n, where 'b = 32]
    int_value_widen(1) [of "ucast n"] int_value_widen(3) [of "ucast n"] int_value_widen(5) [of "ucast n"]
  by simp_all

lemma narrow_sint:
  fixes n :: u64
  assumes "sint n < 0"
  shows "- 128 \<le> sint n \<Longrightarrow> sint (ucast n :: byte) = sint n" "- 32768 \<le> sint n \<Longrightarrow> sint (ucast n :: u16) = sint n"
    "- 2147483648 \<le> sint n \<Longrightarrow> sint (ucast n :: u32) = sint n"
  by (rule sint_ucast_narrow; use assms in simp)+

lemma reads_int_wire:
  "reads_int (bindE readCode (any_code env loose rec)) (uint_wire n) (uint n)"
  "reads_int (bindE readCode (any_code env loose rec)) (int_wire n) (sint n)"
proof -
  let ?m = "bindE readCode (any_code env loose rec)"
  have small: "sint (ucast n :: byte) = uint n" if "unat n \<le> 127"
    using fixnum_pos(2) [OF that] int_value_widen(2) [of "ucast n"] sint_small [of n] that by simp
  show u: "reads_int ?m (uint_wire n) (uint n)"
    using reads_int_forms(1) [OF fixnum_pos(1), of n env loose rec] reads_int_forms(2) [of env loose rec "ucast n"]
      reads_int_forms(4) [of env loose rec "ucast n"] reads_int_forms(6) [of env loose rec "ucast n"]
      reads_int_forms(8) [of env loose rec n]
    using narrow_uint [of n] by (auto simp: uint_wire_def small)
  have "uint n = sint n" if "0 \<le> sint n"
    using that sint_lt [of n] by (simp add: uint_sint take_bit_int_eq_self)
  then show "reads_int ?m (int_wire n) (sint n)"
    using u reads_int_forms(1) [OF fixnum_neg(1), of n env loose rec] reads_int_forms(3) [of env loose rec "ucast n"]
      reads_int_forms(5) [of env loose rec "ucast n"] reads_int_forms(7) [of env loose rec "ucast n"]
      reads_int_forms(9) [of env loose rec n]
    by (auto simp: int_wire_def narrow_sint)
qed


lemma class_disjoint:
  "IsFixedMap c \<Longrightarrow> \<not> IsFixedNum c" "IsFixedArray c \<Longrightarrow> \<not> IsFixedNum c \<and> \<not> IsFixedMap c"
  "IsFixedString c \<Longrightarrow> \<not> IsFixedNum c \<and> \<not> IsFixedMap c \<and> \<not> IsFixedArray c"
  using unat_lt_byte [of c] by (auto simp: code_arith)

lemma any_code_fixed:
  "IsFixedString c \<Longrightarrow> any_code env loose rec c = bindE (dec_string c) (\<lambda>s. ret (GString s))"
  "IsFixedArray c \<Longrightarrow> any_code env loose rec c = bindE (decodeSlice rec c) (\<lambda>s. ret (GSlice s))"
  "IsFixedMap c \<Longrightarrow> any_code env loose rec c = bindE dec_UnreadByte (\<lambda>_. decodeMapDefault env rec)"
  by (simp_all add: any_code_def loose_code_def interface_code_def class_disjoint)

lemma any_code_sized:
  "any_code env loose rec Str8_c = bindE (dec_string Str8_c) (\<lambda>s. ret (GString s))"
  "any_code env loose rec Str16_c = bindE (dec_string Str16_c) (\<lambda>s. ret (GString s))"
  "any_code env loose rec Str32_c = bindE (dec_string Str32_c) (\<lambda>s. ret (GString s))"
  "any_code env loose rec Bin8_c = (if loose then bindE (dec_string Bin8_c) (\<lambda>s. ret (GString s))
     else bindE (dec_bytes Bin8_c None) (\<lambda>b. ret (GBytes (map_option vis b))))"
  "any_code env loose rec Bin16_c = (if loose then bindE (dec_string Bin16_c) (\<lambda>s. ret (GString s))
     else bindE (dec_bytes Bin16_c None) (\<lambda>b. ret (GBytes (map_option vis b))))"
  "any_code env loose rec Bin32_c = (if loose then bindE (dec_string Bin32_c) (\<lambda>s. ret (GString s))
     else bindE (dec_bytes Bin32_c None) (\<lambda>b. ret (GBytes (map_option vis b))))"
  "any_code env loose rec Array16_c = bindE (decodeSlice rec Array16_c) (\<lambda>s. ret (GSlice s))"
  "any_code env loose rec Array32_c = bindE (decodeSlice rec Array32_c) (\<lambda>s. ret (GSlice s))"
  "any_code env loose rec Map16_c = bindE dec_UnreadByte (\<lambda>_. decodeMapDefault env rec)"
  "any_code env loose rec Map32_c = bindE dec_UnreadByte (\<lambda>_. decodeMapDefault env rec)"
  "any_code env loose rec FixExt4_c = decodeInterfaceExt env FixExt4_c"
  "any_code env loose rec FixExt8_c = decodeInterfaceExt env FixExt8_c"
  "any_code env loose rec Ext8_c = decodeInterfaceExt env Ext8_c"
  by (simp_all add: any_code_def loose_code_def interface_code_def class_defs opcode_values word_le_nat_alt)

lemma hdr_codes:
  assumes "0 \<le> l"
  shows "\<exists>c bs. str_hdr l = c # bs \<and> (IsFixedString c \<or> c = Str8_c \<or> c = Str16_c \<or> c = Str32_c)"
    and "\<exists>c bs. bin_hdr l = c # bs \<and> (c = Bin8_c \<or> c = Bin16_c \<or> c = Bin32_c)"
    and "\<exists>c bs. arr_hdr l = c # bs \<and> (IsFixedArray c \<or> c = Array16_c \<or> c = Array32_c)"
    and "\<exists>c bs. map_hdr l = c # bs \<and> (IsFixedMap c \<or> c = Map16_c \<or> c = Map32_c)"
  using assms fixstr_code [of l] fixarr_code [of l] fixmap_code [of l]
  by (simp_all add: str_hdr_def bin_hdr_def arr_hdr_def map_hdr_def)

lemma time_hdr_code: "l \<in> {4, 8, 12} \<Longrightarrow> \<exists>c bs. ext_len_hdr (int l) = c # bs \<and> (c = FixExt4_c \<or> c = FixExt8_c \<or> c = Ext8_c)"
  by (auto simp: ext_len_hdr_def)

section \<open>Scalars\<close>

definition can_read :: "dconf \<Rightarrow> (decoder, 'a) go \<Rightarrow> byte list \<Rightarrow> 'a \<Rightarrow> bool" where
  "can_read k m bs w \<longleftrightarrow> (\<forall>r. yields k bs r m w k)"

lemma can_read_code:
  assumes "\<And>r. yields k (c # bs) r (bindE readCode f) w k" and "any_code env loose rec c = f c"
  shows "can_read k (bindE readCode (any_code env loose rec)) (c # bs) w"
  unfolding can_read_def by (intro allI yields_code_cong [OF assms(1)]) (rule assms(2))

lemma can_read_str:
  assumes "len_ok k (int (length s))"
  shows "can_read k (bindE readCode (any_code env loose rec)) (str_wire s) (GString s)"
proof -
  obtain c bs where c: "str_hdr (int (length s)) = c # bs" "IsFixedString c \<or> c = Str8_c \<or> c = Str16_c \<or> c = Str32_c"
    using hdr_codes(1) [of "int (length s)"] by auto
  have "yields k (c # bs @ s) r (bindE readCode (\<lambda>c. bindE (dec_string c) (\<lambda>s. ret (GString s)))) (GString s) k" for r
    using yields_bind_ret [OF yields_plain_string [OF assms, of r], of "\<lambda>s. ret (GString s)"] c
    by (simp add: bindE_assoc str_wire_def)
  then show ?thesis
    unfolding str_wire_def c(1) append_Cons by (rule can_read_code) (use c(2) in \<open>auto simp only: any_code_fixed any_code_sized\<close>)
qed

lemma can_read_bin:
  assumes "\<not> k_rec k" and "len_ok k (int (length s))"
  shows "can_read k (bindE readCode (any_code env loose rec)) (bin_wire (Some s))
    (if loose then GString s else GBytes (Some s))"
proof -
  obtain c bs where c: "bin_hdr (int (length s)) = c # bs" "c = Bin8_c \<or> c = Bin16_c \<or> c = Bin32_c"
    using hdr_codes(2) [of "int (length s)"] by auto
  let ?f = "\<lambda>c. bindE (dec_string c) (\<lambda>s. ret (GString s))"
    and ?g = "\<lambda>c. bindE (dec_bytes c None) (\<lambda>b. ret (GBytes (map_option vis b)))"
  have "yields k (c # bs @ s) r (bindE readCode ?f) (GString s) k" for r
    using yields_bind_ret [OF yields_bin_string [OF assms(2), of r], of "\<lambda>s. ret (GString s)"] c
    by (simp add: bindE_assoc bin_wire_def)
  moreover have "yields k (c # bs @ s) r (bindE readCode ?g) (GBytes (Some s)) k" for r
    using yields_bind_ret [OF yields_DecodeBytes [of k "Some s" r], of "\<lambda>b. ret (GBytes b)", OF _ _ refl] assms c
    by (simp add: bindE_assoc bin_wire_def DecodeBytes_v_def DecodeBytes_def bindE_ret del: ret_apply)
  ultimately have "yields k (c # bs @ s) r (bindE readCode (\<lambda>c. if loose then ?f c else ?g c))
      (if loose then GString s else GBytes (Some s)) k" for r
    by (cases loose) (simp_all del: ret_apply)
  then show ?thesis
    unfolding bin_wire_def option.case c(1) append_Cons
    by (rule can_read_code) (use c(2) in \<open>auto simp only: any_code_sized\<close>)
qed

definition time_env :: "denv \<Rightarrow> bool" where
  "time_env env \<longleftrightarrow> env_extTypes env timeExtID = Some (\<lambda>n. bindE (timeDecoder n) (\<lambda>t. ret (GTime t)))"

lemma can_read_time:
  assumes "time_env env" and "time_wf tm" and "32 < p_intBits (k_plat k)"
  shows "can_read k (bindE readCode (any_code env loose rec)) (time_wire tm)
    (GTime \<lparr>t_sec = t_sec tm, t_nsec = t_nsec tm, t_utc = time_IsZero tm\<rparr>)"
proof -
  let ?b = "time_bytes (t_sec tm) (word_of_nat (t_nsec tm))"
  have l: "length ?b \<in> {4, 8, 12}" by (rule length_time_bytes)
  obtain c bs where c: "ext_len_hdr (int (length ?b)) = c # bs" "c = FixExt4_c \<or> c = FixExt8_c \<or> c = Ext8_c"
    using time_hdr_code [OF l] by blast
  have h: "yields k (ext_len_hdr (int (length ?b)) @ [timeExtID]) (length ?b + n) (bindE readCode extHeader)
      (timeExtID, int (length ?b)) k" for n
    unfolding DecodeExtHeader_def [symmetric]
    by (rule yields_ext_header) (use assms(3) l in \<open>auto intro!: len_ok_intBits\<close>)
  have "yields k ?b n (bindE (timeDecoder (int (length ?b))) (\<lambda>t. ret (GTime t)))
      (GTime \<lparr>t_sec = t_sec tm, t_nsec = t_nsec tm, t_utc = time_IsZero tm\<rparr>) k" for n
    by (rule yields_bind_ret [OF yields_timeDecoder [OF assms(2)]]) (rule refl)
  then have "yields k (c # bs @ timeExtID # ?b) n (bindE readCode (decodeInterfaceExt env))
      (GTime \<lparr>t_sec = t_sec tm, t_nsec = t_nsec tm, t_utc = time_IsZero tm\<rparr>) k" for n
    using yields_bind [OF h [of n], of "\<lambda>(extID, extLen).
       case env_extTypes env extID of None \<Rightarrow> fail (UnknownExt extID) | Some dec \<Rightarrow> dec extLen"] assms(1) c(1)
    by (simp add: bindE_assoc decodeInterfaceExt_def [abs_def] time_env_def)
  then show ?thesis
    unfolding time_wire_def Let_def c(1) append_Cons append_assoc append_Nil
    by (rule can_read_code) (use c(2) in \<open>auto simp only: any_code_sized\<close>)
qed

lemma can_read_plain:
  "can_read k (bindE readCode (any_code env loose rec)) [Nil_c] GNil"
  "can_read k (bindE readCode (any_code env loose rec)) [if b then True_c else False_c] (GBool b)"
  "can_read k (bindE readCode (any_code env loose rec)) (Double_c # lanes64 q) (GFloat64 q)"
  "can_read k (bindE readCode (any_code env loose rec)) (Float_c # lanes32 f)
     (if loose then GFloat64 (f64_of_f32 f) else GFloat32 f)"
proof -
  let ?m = "bindE readCode (any_code env loose rec)"
  show "can_read k ?m [Nil_c] GNil"
    unfolding can_read_def by (intro allI yields_bind_ret [OF yields_readCode]) (rule any_code_nums)
  have "yields k [] r (dec_bool (if b then True_c else False_c)) b k" for r
    using yields_ret [of k r b] by (auto simp: dec_bool_def opcode_values simp del: ret_apply)
  then show "can_read k ?m [if b then True_c else False_c] (GBool b)"
    unfolding can_read_def by (cases b) (auto intro: yields_any_code [OF any_code_nums(12)] yields_any_code [OF any_code_nums(13)])
  have "yields k (lanes64 q) r (dec_float64 Double_c) q k" for r
    by (simp add: dec_float64_def Float_c_def Double_c_def yields_fixed)
  then show "can_read k ?m (Double_c # lanes64 q) (GFloat64 q)"
    unfolding can_read_def by (intro allI yields_any_code [OF any_code_nums(10)])
  have f: "yields k (lanes32 f) r (dec_float32 Float_c) f k" for r
    by (simp add: dec_float32_def yields_fixed)
  have "yields k (lanes32 f) r (dec_float64 Float_c) (f64_of_f32 f) k" for r
    unfolding dec_float64_def by (simp del: ret_apply) (rule yields_bind_ret [OF f], rule refl)
  from yields_any_code [OF _ this, of env loose rec Float_c GFloat64] yields_any_code [OF _ f, of env loose rec Float_c GFloat32]
  show "can_read k ?m (Float_c # lanes32 f) (if loose then GFloat64 (f64_of_f32 f) else GFloat32 f)"
    unfolding can_read_def by (cases loose) (auto simp: any_code_nums(9) simp del: ret_apply)
qed

lemma reads_int_compact:
  "reads_int (bindE readCode (any_code env loose rec)) (uint_wire (ucast (b :: byte))) (uint b)"
  "reads_int (bindE readCode (any_code env loose rec)) (int_wire (scast (b :: byte))) (sint b)"
  "reads_int (bindE readCode (any_code env loose rec)) (uint_wire (ucast (h :: u16))) (uint h)"
  "reads_int (bindE readCode (any_code env loose rec)) (int_wire (scast (h :: u16))) (sint h)"
  "reads_int (bindE readCode (any_code env loose rec)) (uint_wire (ucast (w :: u32))) (uint w)"
  "reads_int (bindE readCode (any_code env loose rec)) (int_wire (scast (w :: u32))) (sint w)"
  by (metis int_value_widen reads_int_wire)+

lemma can_read_int:
  assumes "reads_int (bindE readCode (any_code env loose rec)) bs i"
  shows "\<exists>w. int_value w = Some i \<and> can_read k (bindE readCode (any_code env loose rec)) bs w"
  using assms by (auto simp: reads_int_def can_read_def)

text \<open>The decoder's configuration: no interning, no recording, no map decoder installed, lengths not capped.\<close>

definition iconf :: "dconf \<Rightarrow> bool" where
  "iconf k \<longleftrightarrow> plain_dec k \<and> roomy k \<and> \<not> k_rec k \<and> k_mapDecoder k = None"

lemma iconf_len: "iconf k \<Longrightarrow> length s < 4294967296 \<Longrightarrow> len_ok k (int (length s))"
  by (rule len_ok_intBits) (simp_all add: iconf_def roomy_def)

lemma read_scalar:
  assumes "scalar_val v" and "iconf k" and "time_env env"
  shows "\<exists>w. seen fl loose v w \<and> can_read k (bindE readCode (any_code env loose rec)) (wire fl P v) w"
proof -
  let ?m = "bindE readCode (any_code env loose rec)"
  have i: "\<exists>w. seen fl loose v w \<and> can_read k ?m (wire fl P v) w"
    if "int_value v = Some i" "reads_int ?m (wire fl P v) i" for i
    using can_read_int [OF that(2)] seen.int [OF that(1)] by blast
  have ints: "\<exists>w. seen fl loose v w \<and> can_read k ?m (wire fl P v) w" if "int_value v = Some j" for j
    by (rule i [OF that], insert that [symmetric], cases v)
      (simp_all add: int_value_def wire_simps reads_int_forms reads_int_wire reads_int_compact)
  have f: "\<exists>w. seen fl loose v w \<and> can_read k ?m (wire fl P v) w" if "v = GFloat32 x" for x
    using can_read_int [OF reads_int_wire(2) [of env loose rec "f64_to_i64 P (f64_of_f32 x)"], of k] that
      can_read_plain(4) [of k env loose rec x] seen.f32 [of fl loose x] seen.f32_int [of _ _ x fl loose]
    by (auto simp: wire_simps f32_wire_def f32_compacts_def split: if_splits)
  have g: "\<exists>w. seen fl loose v w \<and> can_read k ?m (wire fl P v) w" if "v = GFloat64 x" for x
    using can_read_int [OF reads_int_wire(2) [of env loose rec "f64_to_i64 P x"], of k] that
      can_read_plain(3) [of k env loose rec x] seen.f64 [of fl loose x] seen.f64_int [of _ _ x fl loose]
    by (auto simp: wire_simps f64_wire_def f64_compacts_def)
  have b: "\<exists>w. seen fl loose v w \<and> can_read k ?m (wire fl P v) w" if "v = GBytes (Some x) \<or> v = GByteArray a x" for x a
    using can_read_bin [of k x env loose rec] that assms(1,2) iconf_len [OF assms(2), of x]
      seen.bytes [of "if loose then GString x else GBytes (Some x)" loose x fl]
      seen.byteArray [of "if loose then GString x else GBytes (Some x)" loose x fl a]
    by (cases loose) (auto simp: wire_simps scalar_val_def short_def iconf_def)
  have n: "\<exists>w. seen fl loose v w \<and> can_read k ?m (wire fl P v) w" 
    if "v \<in> {GNil, GBytes None, GStrings None, GSlice None, GMapSS None, GMapSB None, GMapSI None, GPtr None}"
    using seen.nil [OF that, of fl loose] can_read_plain(1) [of k env loose rec] that by (auto simp: wire_simps bin_wire_def)
  have t: "\<exists>w. seen fl loose v w \<and> can_read k ?m (wire fl P v) w" if "v = GTime x" for x
    using can_read_time [OF assms(3), of x k loose rec] seen.time [of fl loose x] that assms(1,2)
    by (auto simp: wire_simps scalar_val_def iconf_def roomy_def)
  have s: "\<exists>w. seen fl loose v w \<and> can_read k ?m (wire fl P v) w" if "v = GString x" for x
    using can_read_str [OF iconf_len [OF assms(2)], of x env loose rec] seen.str [of fl loose x] that assms(1)
    by (auto simp: wire_simps scalar_val_def short_def)
  have o: "\<exists>w. seen fl loose v w \<and> can_read k ?m (wire fl P v) w" if "v = GBool x" for x
    using can_read_plain(2) [of k env loose rec x] seen.bool [of fl loose x] that by (auto simp: wire_simps)
  have "(\<exists>j. int_value v = Some j) \<or> (\<exists>x. v = GFloat32 x) \<or> (\<exists>x. v = GFloat64 x) \<or>
      (\<exists>x a. v = GBytes (Some x) \<or> v = GByteArray a x) \<or>
      v \<in> {GNil, GBytes None, GStrings None, GSlice None, GMapSS None, GMapSB None, GMapSI None, GPtr None} \<or>
      (\<exists>x. v = GTime x) \<or> (\<exists>x. v = GString x) \<or> (\<exists>x. v = GBool x)"
    using assms(1) by (cases v) (auto simp: scalar_val_def int_value_def split: option.splits)
  then show ?thesis using ints f g b n t s o by blast
qed

section \<open>Containers\<close>

lemma map_set_new: "k \<notin> fst ` set m \<Longrightarrow> map_set (=) k v m = m @ [(k, v)]"
  by (induction m) auto

lemma length_concat_ge: "(\<And>x. x \<in> set xs \<Longrightarrow> j \<le> length (f x)) \<Longrightarrow> j * length xs \<le> length (concat (map f xs))"
proof (induction xs)
  case (Cons x xs)
  then have "j \<le> length (f x)" "j * length xs \<le> length (concat (map f xs))" by auto
  then show ?case by simp
qed simp

lemma yields_elements:
  assumes "\<And>x. x \<in> set xs \<Longrightarrow> can_read k rec (enc x) (val x)"
  shows "yields k (concat (map enc xs)) r (collectE (length xs) rec) (map val xs) k"
  using assms
proof (induction xs)
  case Nil
  show ?case by (simp only: list.size collectE.simps list.map concat.simps yields_ret)
next
  case (Cons x xs)
  have x: "yields k (enc x) n rec (val x) k" for n using Cons.prems by (simp add: can_read_def)
  have "yields k (concat (map enc xs)) r (bindE (collectE (length xs) rec) (\<lambda>ys. ret (val x # ys))) (val x # map val xs) k"
    by (rule yields_bind_ret [OF Cons.IH]) (use Cons.prems in auto)
  then show ?case
    unfolding list.size list.map concat.simps add_Suc_right add_0_right collectE.simps by (rule yields_bind [OF x])
qed

lemma can_read_slice:
  assumes k: "iconf k" and n: "length xs < 4294967296"
    and xs: "\<And>x. x \<in> set xs \<Longrightarrow> can_read k rec (enc x) (val x) \<and> enc x \<noteq> []"
  shows "can_read k (bindE readCode (any_code env loose rec)) (arr_hdr (int (length xs)) @ concat (map enc xs))
    (GSlice (Some (map val xs)))"
proof -
  let ?l = "int (length xs)"
  obtain c bs where c: "arr_hdr ?l = c # bs" "IsFixedArray c \<or> c = Array16_c \<or> c = Array32_c"
    using hdr_codes(3) [of ?l] by auto
  have len: "length xs \<le> length (concat (map enc xs))"
    using length_concat_ge [of xs 1 enc] xs by (simp add: Suc_le_eq)
  have h: "yields k (arr_hdr ?l) (length (concat (map enc xs)) + r) (bindE readCode arrayLen) ?l k" for r
    unfolding DecodeArrayLen_def [symmetric]
    by (rule yields_arr_hdr) (use k n len in \<open>auto simp: container_ok_def iconf_def roomy_def intro!: len_ok_intBits\<close>)
  have "yields k (concat (map enc xs)) r (bindE (if ?l = - 1 then ret None else
      bindE (collectE (nat ?l) rec) (\<lambda>s. ret (Some s))) (\<lambda>s. ret (GSlice s))) (GSlice (Some (map val xs))) k" for r
    using yields_elements [of xs k rec enc val r] xs
    by (simp del: ret_apply add: bindE_assoc bindE_ret) (rule yields_bind_ret; simp del: ret_apply)
  from yields_bind [where f = "\<lambda>l. bindE (if l = - 1 then ret None else
      bindE (collectE (nat l) rec) (\<lambda>s. ret (Some s))) (\<lambda>s. ret (GSlice s))", OF h this]
  have "yields k (c # bs @ concat (map enc xs)) r (bindE readCode (\<lambda>c. bindE (decodeSlice rec c) (\<lambda>s. ret (GSlice s))))
      (GSlice (Some (map val xs))) k" for r
    by (simp add: bindE_assoc decodeSlice_def c(1) del: ret_apply)
  then show ?thesis
    unfolding c(1) append_Cons
    by (rule can_read_code) (use c(2) in \<open>auto simp only: any_code_fixed any_code_sized\<close>)
qed

lemma yields_entries:
  assumes "plain_dec k" and "\<And>x. x \<in> set xs \<Longrightarrow> can_read k rec (enc x) (val x) \<and> len_ok k (int (length (key x)))"
    and "distinct (map key xs)" and "fst ` set acc \<inter> key ` set xs = {}"
  shows "yields k (concat (map (\<lambda>x. str_wire (key x) @ enc x) xs)) r (foldE (length xs) (\<lambda>m.
      bindE DecodeString (\<lambda>mk. bindE rec (\<lambda>mv. ret (map_set (=) mk mv m)))) acc)
    (acc @ map (\<lambda>x. (key x, val x)) xs) k"
  using assms(2-4)
proof (induction xs arbitrary: acc)
  case Nil
  show ?case using yields_ret by (simp del: ret_apply)
next
  case (Cons x xs)
  let ?step = "\<lambda>m. bindE DecodeString (\<lambda>mk. bindE rec (\<lambda>mv. ret (map_set (=) mk mv m)))"
  have v: "yields k (enc x) n rec (val x) k" for n using Cons.prems by (simp add: can_read_def)
  have s: "yields k (str_wire (key x)) n DecodeString (key x) k" for n
    by (rule yields_DecodeString_plain [OF assms(1)]) (use Cons.prems in simp)
  have "key x \<notin> fst ` set acc" using Cons.prems(3) by auto
  then have "yields k (enc x) n (bindE rec (\<lambda>mv. ret (map_set (=) (key x) mv acc))) (acc @ [(key x, val x)]) k" for n
    by (intro yields_bind_ret [OF v]) (simp add: map_set_new del: ret_apply)
  then have e: "yields k (str_wire (key x) @ enc x) n (?step acc) (acc @ [(key x, val x)]) k" for n
    by (rule yields_bind [OF s])
  have "yields k (concat (map (\<lambda>x. str_wire (key x) @ enc x) xs)) r (foldE (length xs) ?step (acc @ [(key x, val x)]))
      ((acc @ [(key x, val x)]) @ map (\<lambda>x. (key x, val x)) xs) k"
    by (rule Cons.IH) (use Cons.prems in auto)
  from yields_bind [where f = "foldE (length xs) ?step", OF e this] show ?case
    by (simp del: ret_apply)
qed

lemma str_wire_nonempty: "str_wire s \<noteq> []"
  by (simp add: str_wire_def str_hdr_def)

lemma can_read_map:
  assumes k: "iconf k" and n: "length xs < 4294967296"
    and xs: "\<And>x. x \<in> set xs \<Longrightarrow> can_read k rec (enc x) (val x) \<and> enc x \<noteq> [] \<and> length (key x) < 4294967296"
    and key: "distinct (map key xs)"
  shows "can_read k (bindE readCode (any_code env loose rec))
    (map_hdr (int (length xs)) @ concat (map (\<lambda>x. str_wire (key x) @ enc x) xs))
    (GMapSI (Some (map (\<lambda>x. (key x, val x)) xs)))"
proof -
  let ?l = "int (length xs)" and ?b = "concat (map (\<lambda>x. str_wire (key x) @ enc x) xs)"
    and ?w = "map (\<lambda>x. (key x, val x)) xs"
  obtain c bs where c: "map_hdr ?l = c # bs" "IsFixedMap c \<or> c = Map16_c \<or> c = Map32_c"
    using hdr_codes(4) [of ?l] by auto
  have "2 \<le> length (str_wire (key x) @ enc x)" if "x \<in> set xs" for x
    using xs [OF that] str_wire_nonempty [of "key x"] by (cases "str_wire (key x)"; cases "enc x") auto
  then have len: "2 * length xs \<le> length ?b" by (rule length_concat_ge)
  have h: "yields k (map_hdr ?l) (length ?b + r) DecodeMapLen ?l k" for r
    by (rule yields_map_hdr) (use k n len in \<open>auto simp: container_ok_def iconf_def roomy_def intro!: len_ok_intBits\<close>)
  have e: "yields k ?b r (foldE (length xs) (\<lambda>m.
      bindE DecodeString (\<lambda>mk. bindE rec (\<lambda>mv. ret (map_set (=) mk mv m)))) []) ?w k" for r
    using yields_entries [of k xs rec enc val key "[]" r, OF _ _ key] k xs iconf_len [OF k]
    by (auto simp: iconf_def simp del: ret_apply)
  have "yields k (map_hdr ?l @ ?b) r (DecodeMap rec) (Some ?w) k" for r
    unfolding DecodeMap_def
    by (rule yields_bind [OF h]) (use yields_bind_ret [where f = "\<lambda>m. ret (Some m)", OF e refl] in \<open>simp del: ret_apply\<close>)
  then have "yields k (map_hdr ?l @ ?b) r (decodeMapDefault env rec) (GMapSI (Some ?w)) k" for r
    unfolding decodeMapDefault_def
    by (intro yields_getS [where v = None]) (use k in \<open>auto simp: iconf_def dconf_of_def simp del: ret_apply intro: yields_bind_ret\<close>)
  then have "yields k (c # bs @ ?b) r (bindE readCode (\<lambda>_. bindE dec_UnreadByte (\<lambda>_. decodeMapDefault env rec)))
      (GMapSI (Some ?w)) k" for r
    using k unfolding c(1) by (intro yields_unread) (simp_all add: iconf_def)
  then show ?thesis
    unfolding c(1) append_Cons
    by (rule can_read_code) (use c(2) in \<open>auto simp only: any_code_fixed any_code_sized\<close>)
qed

section \<open>The recursion\<close>

lemma can_read_Suc:
  assumes "can_read (k\<lparr>k_depth := k_depth k + 1\<rparr>)
      (bindE readCode (any_code env (hasFlag (k_flags k) looseInterfaceDecodingFlag) (decodeInterfaceCond_f env m))) bs w"
    and "0 \<le> k_depth k" and "k_depth k < k_limit k"
  shows "can_read k (decodeInterfaceCond_f env (Suc m)) bs w"
proof -
  let ?k = "k\<lparr>k_depth := k_depth k + 1\<rparr>" and ?l = "hasFlag (k_flags k) looseInterfaceDecodingFlag"
  have "yields ?k bs r (if ?l then bindE readCode (loose_code env (decodeInterfaceCond_f env m))
      else bindE readCode (interface_code env (decodeInterfaceCond_f env m))) w ?k" for r
    using assms(1) by (cases ?l) (simp_all add: can_read_def any_code_def [abs_def])
  then show ?thesis
    unfolding can_read_def decodeInterfaceCond_f.simps interface_body_def
    by (intro allI yields_withDepth yields_dec_flag) (use assms(2,3) in simp_all)
qed

text \<open>The decoder may still go \<open>n\<close> levels deeper, with fuel \<open>m\<close>.\<close>

definition deep :: "bool \<Rightarrow> nat \<Rightarrow> dconf \<Rightarrow> nat \<Rightarrow> bool" where
  "deep loose n k m \<longleftrightarrow>
     hasFlag (k_flags k) looseInterfaceDecodingFlag = loose \<and> iconf k \<and> 0 \<le> k_depth k \<and> k_depth k + int n \<le> k_limit k \<and> n \<le> m"

lemma can_read_body:
  assumes "deep loose (Suc n) k m"
  obtains k' m' where "deep loose n k' m'"
    and "\<And>bs w. can_read k' (bindE readCode (any_code env loose (decodeInterfaceCond_f env m'))) bs w \<Longrightarrow>
      can_read k (decodeInterfaceCond_f env m) bs w"
proof -
  obtain m' where m: "m = Suc m'" using assms by (cases m) (auto simp: deep_def)
  have l: "hasFlag (k_flags k) looseInterfaceDecodingFlag = loose" using assms by (simp add: deep_def)
  have "deep loose n (k\<lparr>k_depth := k_depth k + 1\<rparr>) m'"
    using assms by (auto simp: deep_def m iconf_def plain_dec_def roomy_def k_limit_def)
  then show thesis
    by (rule that) (use can_read_Suc [of k env m', unfolded l] assms in \<open>auto simp: deep_def m\<close>)
qed

lemma read_body:
  assumes "deep loose (Suc n) k m"
    and "\<And>k' m'. deep loose n k' m' \<Longrightarrow>
      \<exists>w. seen fl loose v w \<and> can_read k' (bindE readCode (any_code env loose (decodeInterfaceCond_f env m'))) bs w"
  shows "\<exists>w. seen fl loose v w \<and> can_read k (decodeInterfaceCond_f env m) bs w"
  using can_read_body [OF assms(1), of env] assms(2) by metis

lemma deep_iconf: "deep loose n k m \<Longrightarrow> iconf k"
  by (simp add: deep_def)

lemma read_str: "deep loose (Suc n) k m \<Longrightarrow> short s \<Longrightarrow> can_read k (decodeInterfaceCond_f env m) (str_wire s) (GString s)"
  by (erule can_read_body [where env = env]) (simp add: can_read_str iconf_len deep_def short_def)

lemma read_bool: "deep loose (Suc n) k m \<Longrightarrow> can_read k (decodeInterfaceCond_f env m) [if b then True_c else False_c] (GBool b)"
  by (erule can_read_body [where env = env]) (simp add: can_read_plain)

lemma read_choice:
  assumes "\<And>x. x \<in> set xs \<Longrightarrow> \<exists>w. seen fl loose (f x) w \<and> can_read k rec (enc x) w"
  obtains val where "\<And>x. x \<in> set xs \<Longrightarrow> seen fl loose (f x) (val x)" and "\<And>x. x \<in> set xs \<Longrightarrow> can_read k rec (enc x) (val x)"
  using bchoice [of "set xs" "\<lambda>x w. seen fl loose (f x) w \<and> can_read k rec (enc x) w"] assms by blast

lemma wire_nonempty: "data_val n v \<Longrightarrow> wire fl P v \<noteq> []"
  using item_wire item_nonempty by blast

text \<open>What the containers share: an array or a map of parts that can be read one level deeper.\<close>

lemma read_slice:
  assumes "deep loose (Suc n) k m" and "short xs"
    and x: "\<And>x k m. x \<in> set xs \<Longrightarrow> deep loose n k m \<Longrightarrow> \<exists>w. seen fl loose (f x) w \<and> can_read k (decodeInterfaceCond_f env m) (enc x) w"
    and "\<And>x. x \<in> set xs \<Longrightarrow> enc x \<noteq> []" and "bs = arr_hdr (int (length xs)) @ concat (map enc xs)"
    and seen: "\<And>ws. list_all2 (\<lambda>x w. seen fl loose (f x) w) xs ws \<Longrightarrow> seen fl loose v (GSlice (Some ws))"
  shows "\<exists>w. seen fl loose v w \<and> can_read k (decodeInterfaceCond_f env m) bs w"
  using assms(1)
proof (rule read_body)
  fix k m
  assume d: "deep loose n k m"
  let ?rec = "decodeInterfaceCond_f env m"
  obtain val where val: "\<And>x. x \<in> set xs \<Longrightarrow> seen fl loose (f x) (val x)" "\<And>x. x \<in> set xs \<Longrightarrow> can_read k ?rec (enc x) (val x)"
    by (rule read_choice [OF x [OF _ d]]) auto
  have "seen fl loose v (GSlice (Some (map val xs)))"
    by (rule seen) (use val(1) in \<open>auto simp: list_all2_map2 intro!: list.rel_refl_strong\<close>)
  moreover have "can_read k (bindE readCode (any_code env loose ?rec)) bs (GSlice (Some (map val xs)))"
    unfolding assms(5) by (rule can_read_slice) (use d assms(2,4) val(2) in \<open>auto simp: deep_def short_def\<close>)
  ultimately show "\<exists>w. seen fl loose v w \<and> can_read k (bindE readCode (any_code env loose ?rec)) bs w" by blast
qed

lemma read_map:
  assumes "deep loose (Suc n) k m" and "short xs"
    and x: "\<And>x k m. x \<in> set xs \<Longrightarrow> deep loose n k m \<Longrightarrow> \<exists>w. seen fl loose (f x) w \<and> can_read k (decodeInterfaceCond_f env m) (enc x) w"
    and "\<And>x. x \<in> set xs \<Longrightarrow> enc x \<noteq> [] \<and> short (key x)" and "distinct (map key xs)"
    and "bs = map_hdr (int (length xs)) @ concat (map (\<lambda>x. str_wire (key x) @ enc x) xs)"
    and seen: "\<And>ws. list_all2 (\<lambda>x b. key x = fst b \<and> seen fl loose (f x) (snd b)) xs ws \<Longrightarrow> seen fl loose v (GMapSI (Some ws))"
  shows "\<exists>w. seen fl loose v w \<and> can_read k (decodeInterfaceCond_f env m) bs w"
  using assms(1)
proof (rule read_body)
  fix k m
  assume d: "deep loose n k m"
  let ?rec = "decodeInterfaceCond_f env m"
  obtain val where val: "\<And>x. x \<in> set xs \<Longrightarrow> seen fl loose (f x) (val x)" "\<And>x. x \<in> set xs \<Longrightarrow> can_read k ?rec (enc x) (val x)"
    by (rule read_choice [OF x [OF _ d]]) auto
  let ?w = "map (\<lambda>x. (key x, val x)) xs"
  have "seen fl loose v (GMapSI (Some ?w))"
    by (rule seen) (use val(1) in \<open>auto simp: list_all2_map2 intro!: list.rel_refl_strong\<close>)
  moreover have "can_read k (bindE readCode (any_code env loose ?rec)) bs (GMapSI (Some ?w))"
    unfolding assms(6) by (rule can_read_map) (use d assms(2,4,5) val(2) in \<open>auto simp: deep_def short_def\<close>)
  ultimately show "\<exists>w. seen fl loose v w \<and> can_read k (bindE readCode (any_code env loose ?rec)) bs w" by blast
qed

lemma map_order_facts:
  "short (map_order fl kvs) = short kvs" "distinct (map fst (map_order fl kvs)) = distinct (map fst kvs)"
  by (simp_all add: short_def length_map_order, simp add: map_order_def sorted_entries_def comp_def)

inductive_simps seen_str [simp]: "seen fl loose (GString s) w"
inductive_simps seen_bool [simp]: "seen fl loose (GBool b) w"

lemma list_all2_function:
  "list_all2 (\<lambda>x w. w = f x) xs ws \<longleftrightarrow> ws = map f xs"
  "list_all2 (\<lambda>x b. g x = fst b \<and> snd b = f x) xs bs \<longleftrightarrow> bs = map (\<lambda>x. (g x, f x)) xs"
  by (auto simp: list_eq_iff_nth_eq list_all2_conv_all_nth prod_eq_iff)

lemma field_wire_val: "\<not> f_intern (fst f) \<Longrightarrow> field_wire (wire fl P) f = wire fl P (field_val f)"
  by (simp add: field_wire_def field_val_def wire_simps split: option.split)

lemma read_wire:
  assumes "data_val n v" and "time_env env" and "deep loose n k m"
  shows "\<exists>w. seen fl loose v w \<and> can_read k (decodeInterfaceCond_f env m) (wire fl P v) w"
  using assms(1,3)
proof (induction arbitrary: k m rule: data_val.induct)
  case (scalar v n)
  from scalar.prems show ?case
    by (rule read_body) (use scalar.hyps assms(2) in \<open>auto intro!: read_scalar dest: deep_iconf\<close>)
next
  case (strings ss n)
  show ?case
    by (rule read_slice [OF strings.prems strings.hyps(1), where f = GString and enc = str_wire])
      (use strings read_str seen.strings in \<open>auto simp: wire_simps str_wire_nonempty list_all2_function int_value_def\<close>)
next
  case (slice xs n)
  show ?case
    by (rule read_slice [OF slice.prems slice.hyps(1), where f = "\<lambda>x. x" and enc = "wire fl P"])
      (use slice wire_nonempty seen.slice in \<open>auto simp: wire_simps\<close>)
next
  case (array xs n)
  show ?case
    by (rule read_slice [OF array.prems array.hyps(1), where f = "\<lambda>x. x" and enc = "wire fl P"])
      (use array wire_nonempty seen.array in \<open>auto simp: wire_simps\<close>)
next
  case (mapSS kvs n)
  have kv: "short (fst kv) \<and> short (snd kv)" if "kv \<in> set (map_order fl kvs)" for kv
    using mapSS.hyps(3) set_map_order [OF that] by blast
  show ?case
    by (rule read_map [OF mapSS.prems, of "map_order fl kvs", where f = "\<lambda>kv. GString (snd kv)" and enc = "\<lambda>kv. str_wire (snd kv)" and key = fst])
      (use mapSS.hyps(1,2) kv read_str seen.mapSS in \<open>auto simp: map_order_facts length_map_order wire_simps str_wire_nonempty
        list_all2_function int_value_def dest: set_map_order\<close>)
next
  case (mapSB kvs n)
  show ?case
    by (rule read_map [OF mapSB.prems, of "map_order fl kvs", where f = "\<lambda>kv. GBool (snd kv)"
          and enc = "\<lambda>kv. [if snd kv then True_c else False_c]" and key = fst])
      (use mapSB read_bool seen.mapSB in \<open>auto simp: map_order_facts length_map_order wire_simps
        list_all2_function int_value_def dest: set_map_order\<close>)
next
  case (mapSI kvs n)
  have kv: "short (fst kv) \<and> wire fl P (snd kv) \<noteq> [] \<and> (\<forall>k m. deep loose (Suc n) k m \<longrightarrow>
      (\<exists>w. seen fl loose (snd kv) w \<and> can_read k (decodeInterfaceCond_f env m) (wire fl P (snd kv)) w))"
    if "kv \<in> set (map_order fl kvs)" for kv
    using mapSI.IH set_map_order [OF that] wire_nonempty by blast
  show ?case
    by (rule read_map [OF mapSI.prems, of "map_order fl kvs", where f = snd and enc = "\<lambda>kv. wire fl P (snd kv)" and key = fst])
      (use mapSI.hyps(1,2) kv seen.mapSI in \<open>auto simp: map_order_facts length_map_order wire_simps\<close>)
next
  case (ptr n v)
  then show ?case using seen.ptr by (fastforce simp: wire_simps)
next
  case (struct fs n a)
  have f: "wire fl P (field_val f) \<noteq> [] \<and> \<not> f_intern (fst f) \<and> short (f_name (fst f))" if "f \<in> set fs" for f
    using struct.IH that wire_nonempty [of "Suc n"] wire_nonempty [OF data_val.scalar [of GNil n]]
    by (auto simp: field_val_def scalar_val_def split: option.split)
  have IH: "\<exists>w. seen fl loose (field_val f) w \<and> can_read k (decodeInterfaceCond_f env m) (wire fl P (field_val f)) w"
    if "f \<in> set fs" "deep loose (Suc n) k m" for f k m
  proof (cases "snd f")
    case None
    from that(2) show ?thesis
      by (rule read_body) (use None assms(2) in \<open>auto simp: field_val_def scalar_val_def intro!: read_scalar dest: deep_iconf\<close>)
  next
    case (Some v)
    then show ?thesis using struct that by (auto simp: field_val_def)
  qed
  show ?case
  proof (cases "hasFlag fl arrayEncodedStructsFlag \<or> a")
    case True
    show ?thesis
      by (rule read_slice [OF struct.prems struct.hyps(1), where f = field_val and enc = "\<lambda>f. wire fl P (field_val f)"])
        (use IH True f seen.struct_array in \<open>auto simp: wire_simps field_wire_val cong: map_cong\<close>)
  next
    case False
    let ?o = "OmitEmpty (hasFlag fl omitEmptyFlag) fs"
    have o: "short ?o" "distinct (map (f_name \<circ> fst) ?o)"
      using struct.hyps(1,2) by (auto simp: OmitEmpty_def short_def distinct_map_filter intro: le_less_trans [OF length_filter_le])
    have w: "map (\<lambda>f. str_wire (f_name (fst f)) @ field_wire (wire fl P) f) ?o =
        map (\<lambda>f. str_wire ((f_name \<circ> fst) f) @ wire fl P (field_val f)) ?o"
      using f by (auto simp: field_wire_val dest: set_OmitEmpty)
    show ?thesis
      by (rule read_map [OF struct.prems o(1), where f = field_val and enc = "\<lambda>f. wire fl P (field_val f)"
            and key = "f_name \<circ> fst"])
        (use IH False f o seen.struct in \<open>auto simp: wire_simps w [unfolded comp_def] dest: set_OmitEmpty\<close>)
  qed
qed
lemma data_val_pos: "data_val n v \<Longrightarrow> 0 < n"
  by (induction rule: data_val.induct) simp_all

lemma yields_cong: "(\<And>d. dconf_of d = k \<Longrightarrow> m d = m' d) \<Longrightarrow> yields k bs r m x k' = yields k bs r m' x k'"
  by (simp add: yields_def)

definition k_budget :: "dconf \<Rightarrow> nat" where
  "k_budget k = nat (k_limit k - k_depth k)"

lemma budget_conf: "budget d = k_budget (dconf_of d)"
  by (simp add: budget_def k_budget_def dconf_of_def k_limit_def depth_limit_def)

lemma deep_budget:
  assumes "data_val n v" and "0 \<le> d_depth d" and "iconf (dconf_of d)" and "n \<le> budget d"
  shows "deep (hasFlag (d_flags d) looseInterfaceDecodingFlag) n (dconf_of d) n"
proof -
  have "0 < n" using assms(1) by (rule data_val_pos)
  then have "d_depth d + int n \<le> depth_limit d" using assms(4) unfolding budget_def by linarith
  then show ?thesis
    using assms(2,3) by (simp add: deep_def, simp add: dconf_of_def k_limit_def depth_limit_def split: if_splits)
qed

lemma can_any:
  assumes "data_val n v" and "time_env env" and "deep loose n k m"
  shows "\<exists>w. seen fl loose v w \<and> can_read k (decodeInterfaceCond env) (wire fl P v) w"
proof -
  have "deep loose n k (Suc (k_budget k))" using assms(3) by (auto simp: deep_def k_budget_def)
  from read_wire [OF assms(1,2) this] obtain w where w: "seen fl loose v w"
    "can_read k (decodeInterfaceCond_f env (Suc (k_budget k))) (wire fl P v) w" by blast
  have "yields k (wire fl P v) r (decodeInterfaceCond env) w k =
      yields k (wire fl P v) r (decodeInterfaceCond_f env (Suc (k_budget k))) w k" for r
    by (rule yields_cong) (simp only: decodeInterfaceCond_def budget_conf)
  with w show ?thesis by (auto simp: can_read_def)
qed

section \<open>The round trip\<close>


lemma time_env_package: "time_env package_env"
  by (simp add: time_env_def package_env_def)

lemma decoder_on_iconf: "iconf (dconf_of (decoder_on bs))"
  by (simp add: iconf_def plain_dec_def, simp add: dconf_of_def hasFlag_def)


end
