(* ===== verification/Query_Codec.thy ===== *)
theory Query_Codec
  imports Decode_Query Interface_Codec
begin

text \<open>
  What queries return. The specification \<open>select\<close> says what a path selects of a value; \<open>Query\<close> is
  proved to return the decoded selection for paths with at most one asterisk, and a concrete input
  shows that it does not for two.
\<close>

section \<open>What a path selects\<close>

datatype node = KMap "(gostring \<times> gval) list" | KArr "gval list" | KLeaf

fun kids :: "u32 \<Rightarrow> gval \<Rightarrow> node" where
  "kids fl v =
     (case v of
        GSlice (Some xs) \<Rightarrow> KArr xs
      | GArray xs \<Rightarrow> KArr xs
      | GStrings (Some ss) \<Rightarrow> KArr (map GString ss)
      | GMapSS (Some kvs) \<Rightarrow> KMap (map (\<lambda>kv. (fst kv, GString (snd kv))) (map_order fl kvs))
      | GMapSB (Some kvs) \<Rightarrow> KMap (map (\<lambda>kv. (fst kv, GBool (snd kv))) (map_order fl kvs))
      | GMapSI (Some kvs) \<Rightarrow> KMap (map_order fl kvs)
      | GStruct a fs \<Rightarrow>
          (if hasFlag fl arrayEncodedStructsFlag \<or> a then KArr (map field_val fs)
           else KMap (map (\<lambda>f. (f_name (fst f), field_val f)) (OmitEmpty (hasFlag fl omitEmptyFlag) fs)))
      | GPtr (Some x) \<Rightarrow> kids fl x
      | _ \<Rightarrow> KLeaf)"

declare kids.simps [simp del]

text \<open>
  \<open>select\<close>: the values at a path, \<open>None\<close> when a step cannot be made: a key applied to something that
  is no container, or an array index that is no number. A missing key or index selects nothing.
\<close>

fun select :: "u32 \<Rightarrow> platform \<Rightarrow> gostring list \<Rightarrow> gval \<Rightarrow> gval list option" where
  "select fl P [] v = Some [v]"
| "select fl P (key # ks) v =
     (if key = [] then Some [v]
      else case kids fl v of
        KMap kvs \<Rightarrow> (case map_of kvs key of None \<Rightarrow> Some [] | Some x \<Rightarrow> select fl P ks x)
      | KArr xs \<Rightarrow>
          if key = asterisk then map_option concat (those (map (select fl P ks) xs))
          else (case Atoi P key of None \<Rightarrow> None
                | Some i \<Rightarrow> if 0 \<le> i \<and> i < int (length xs) then select fl P ks (xs ! nat i) else Some [])
      | KLeaf \<Rightarrow> None)"

text \<open>The keys of a query.\<close>

function keys_of :: "gostring \<Rightarrow> gostring list" where
  "keys_of s =
     (if s = [] then []
      else if dot \<notin> set s then [s]
      else takeWhile (\<lambda>c. c \<noteq> dot) s # keys_of (drop (length (takeWhile (\<lambda>c. c \<noteq> dot) s) + 1) s))"
  by pat_completeness auto
termination by (relation "measure length") auto

declare keys_of.simps [simp del]

lemma keys_of_nextKey:
  "keys_of (q_query q) =
     (if q_query q = [] then [] else q_key (nextKey q) # keys_of (q_query (nextKey q)))"
  by (subst keys_of.simps) (auto simp: nextKey_def Let_def keys_of.simps [of "[]"])

lemma nextKey_empty: "q_query q = [] \<Longrightarrow> q_key (nextKey q) = []"
  by (simp add: nextKey_def)

lemma nextKey_rest [simp]:
  "q_values (nextKey q) = q_values q" "q_hasAsterisk (nextKey q) = q_hasAsterisk q"
  by (simp_all add: nextKey_def Let_def)

section \<open>Containers on the wire\<close>

definition laid_out :: "u32 \<Rightarrow> platform \<Rightarrow> nat \<Rightarrow> byte list \<Rightarrow> node \<Rightarrow> bool" where
  "laid_out fl P n bs nd \<longleftrightarrow>
     (case nd of
        KArr xs \<Rightarrow> bs = arr_hdr (int (length xs)) @ concat (map (wire fl P) xs) \<and> short xs \<and>
          (\<forall>x\<in>set xs. 0 < n \<and> data_val (n - 1) x)
      | KMap kvs \<Rightarrow>
          bs = map_hdr (int (length kvs)) @ concat (map (\<lambda>kv. str_wire (fst kv) @ wire fl P (snd kv)) kvs) \<and>
          short kvs \<and> distinct (map fst kvs) \<and> (\<forall>kv\<in>set kvs. short (fst kv) \<and> 0 < n \<and> data_val (n - 1) (snd kv))
      | KLeaf \<Rightarrow> True)"

lemma data_val_atoms: "short s \<Longrightarrow> data_val (Suc n) (GString s)" "data_val (Suc n) (GBool b)" "data_val (Suc n) GNil"
  by (simp_all add: data_val.scalar scalar_val_def)

lemma kids_wire: "data_val n v \<Longrightarrow> laid_out fl P n (wire fl P v) (kids fl v)"
proof (induction rule: data_val.induct)
  case (scalar v n)
  then show ?case by (cases v) (auto simp: scalar_val_def kids.simps laid_out_def)
next
  case (strings ss n)
  then show ?case by (auto simp: kids.simps wire_simps laid_out_def short_def data_val_atoms comp_def)
next
  case (slice xs n)
  then show ?case by (auto simp: kids.simps wire_simps laid_out_def)
next
  case (array xs n)
  then show ?case by (auto simp: kids.simps wire_simps laid_out_def)
next
  case (mapSS kvs n)
  have "short (fst kv) \<and> data_val (Suc n) (GString (snd kv))" if "kv \<in> set (map_order fl kvs)" for kv
    using mapSS.hyps(3) set_map_order [OF that] by (auto intro: data_val_atoms)
  with mapSS.hyps(1,2) show ?case
    by (auto simp: kids.simps wire_simps laid_out_def map_order_facts length_map_order short_def comp_def)
next
  case (mapSB kvs n)
  have "short (fst kv)" if "kv \<in> set (map_order fl kvs)" for kv
    using mapSB.hyps(3) set_map_order [OF that] by blast
  with mapSB.hyps(1,2) show ?case
    by (auto simp: kids.simps wire_simps laid_out_def map_order_facts length_map_order data_val_atoms short_def comp_def)
next
  case (mapSI kvs n)
  have "short (fst kv) \<and> data_val (Suc n) (snd kv)" if "kv \<in> set (map_order fl kvs)" for kv
    using mapSI.IH set_map_order [OF that] by blast
  with mapSI.hyps(1,2) show ?case
    by (auto simp: kids.simps wire_simps laid_out_def map_order_facts length_map_order)
next
  case (ptr n v)
  have "kids fl (GPtr (Some v)) = kids fl v" by (subst kids.simps) simp
  with ptr.IH show ?case by (simp add: wire_simps)
next
  case (struct fs n a)
  let ?o = "OmitEmpty (hasFlag fl omitEmptyFlag) fs"
  have f: "field_wire (wire fl P) f = wire fl P (field_val f) \<and> short (f_name (fst f)) \<and> data_val (Suc n) (field_val f)"
    if "f \<in> set fs" for f
    using struct.IH that data_val_atoms(3) by (auto simp: field_wire_val field_val_def split: option.split)
  have "length ?o \<le> length fs" "distinct (map (f_name \<circ> fst) ?o)"
    using struct.hyps(2) by (auto simp: OmitEmpty_def distinct_map_filter)
  moreover have "map (\<lambda>f. str_wire (f_name (fst f)) @ field_wire (wire fl P) f) ?o =
      map (\<lambda>f. str_wire (f_name (fst f)) @ wire fl P (field_val f)) ?o"
    using f by (auto dest: set_OmitEmpty)
  ultimately show ?case
    using struct.hyps(1) f by (auto simp: kids.simps wire_simps laid_out_def short_def comp_def dest: set_OmitEmpty cong: map_cong)
qed

section \<open>Walking a known input\<close>

lemma can_skip:
  assumes "data_val n v" and "deep loose n k m"
  shows "can_read k Skip (wire fl P v) ()"
proof -
  have "yields k (wire fl P v) r (Skip_f (Suc (k_budget k))) () k" for r
    by (rule yields_Skip_f [OF item_wire [OF assms(1)]])
      (use assms(2) in \<open>auto simp: deep_def iconf_def k_budget_def\<close>)
  then show ?thesis
    unfolding can_read_def Skip_def
    by (intro allI) (subst yields_cong [where m' = "Skip_f (Suc (k_budget k))"], auto simp: budget_conf simp del: Skip_f.simps)
qed

lemma can_key:
  assumes "iconf k" and "short s"
  shows "can_read k decodeStringTemp (str_wire s) s"
proof -
  have s: "yields k s r (if int (length s) = - 1 then ret [] else dec_readN (nat (int (length s)))) s k" for r
    using yields_readN [of s "length s" k r] by simp
  have h: "yields k (str_hdr (int (length s))) (length s + r) (bindE readCode bytesLen) (int (length s)) k" for r
    using yields_str_hdr [of k "int (length s)" "length s + r"] iconf_len [OF assms(1), of s] assms(2)
    by (simp add: DecodeBytesLen_def short_def)
  have "yields k (str_wire s) r (bindE readCode (\<lambda>c. bindE (bytesLen c) (\<lambda>n.
              if n = - 1 then ret [] else dec_readN (nat n)))) s k" for r
    using yields_bind [where f = "\<lambda>n. if n = - 1 then ret [] else dec_readN (nat n)", OF h s]
    by (simp add: bindE_assoc str_wire_def del: ret_apply)
  then show ?thesis
    unfolding can_read_def decodeStringTemp_def
    by (intro allI yields_dec_flag yields_dict) (use assms(1) in \<open>simp add: iconf_def plain_dec_def del: ret_apply\<close>)
qed

text \<open>
  \<open>finds\<close> is the specification of a run whose result is known but not how far it reads: without an
  asterisk a query stops at its answer.
\<close>

definition finds :: "dconf \<Rightarrow> (decoder, 'a) go \<Rightarrow> byte list \<Rightarrow> 'a \<Rightarrow> bool" where
  "finds k m bs x \<longleftrightarrow> (\<forall>d. ready bs 0 d \<longrightarrow> dconf_of d = k \<longrightarrow> (\<exists>d'. m d = (Inr x, d')))"

lemma can_finds: "can_read k m bs x \<Longrightarrow> finds k m bs x"
  by (fastforce simp: can_read_def finds_def yields_def)

lemma header_bind:
  assumes "\<And>r. yields k h (length b + r) m x k"
  shows "can_read k (f x) b y \<Longrightarrow> can_read k (bindE m f) (h @ b) y" and "finds k (f x) b y \<Longrightarrow> finds k (bindE m f) (h @ b) y"
proof -
  show "can_read k (f x) b y \<Longrightarrow> can_read k (bindE m f) (h @ b) y"
    unfolding can_read_def by (intro allI yields_bind [OF assms]) simp
  show "finds k (bindE m f) (h @ b) y" if f: "finds k (f x) b y"
    unfolding finds_def
  proof (intro allI impI)
    fix d
    assume d: "ready (h @ b) 0 d" "dconf_of d = k"
    obtain d1 where 1: "m d = (Inr x, d1)" "advanced h d d1" "dconf_of d1 = k"
      using yieldsD [OF assms [of 0] ready_split [OF d(1)] d(2)] by metis
    then show "\<exists>d'. bindE m f d = (Inr y, d')"
      using f ready_after [OF d(1) 1(2)] by (simp add: finds_def bindE_Inr)
  qed
qed

lemma finds_bind: "can_read k m a x \<Longrightarrow> finds k (f x) b y \<Longrightarrow> finds k (bindE m f) (a @ b) y"
  by (rule header_bind(2)) (auto simp only: can_read_def)

lemma finds_bind_ret: "finds k m a x \<Longrightarrow> f x = ret y \<Longrightarrow> finds k (bindE m f) a y"
  by (fastforce simp: finds_def bindE_def)

lemma finds_prefix: "finds k m a x \<Longrightarrow> finds k m (a @ b) x"
  using ready_split [of a b 0] by (auto simp: finds_def ready_def prefix_def)

lemma finds_getS: "(\<And>d. dconf_of d = k \<Longrightarrow> g d = v) \<Longrightarrow> finds k (f v) bs x \<Longrightarrow> finds k (bindE (getS g) f) bs x"
  by (simp add: finds_def bindE_getS)

lemma finds_peek:
  assumes "finds k (f c) (c # bs) x"
  shows "finds k (bindE PeekCode f) (c # bs) x"
  unfolding finds_def
proof (intro allI impI)
  fix d
  assume d: "ready (c # bs) 0 d" "dconf_of d = k"
  then obtain r t where r: "d_r d = Some r" "r_rest r = c # t"
    by (auto elim: ready_reader)
  let ?d = "d\<lparr>d_r := Some (r\<lparr>r_rest := c # t, r_last := None\<rparr>)\<rparr>"
  have run: "bindE PeekCode f d = f c ?d"
    using r by (simp add: bindE_def PeekCode_def ReadByte_def dec_UnreadByte_def UnreadByte_def werr_def)
  have "ready (c # bs) 0 ?d" "dconf_of ?d = k" using d r by (simp_all add: ready_def dconf_reader)
  then show "\<exists>d'. bindE PeekCode f d = (Inr x, d')" using assms unfolding run finds_def by blast
qed

lemma can_read_ret: "can_read k (ret x) [] x"
  by (simp add: can_read_def yields_ret del: ret_apply)

lemma can_read_bind: "can_read k m a x \<Longrightarrow> can_read k (f x) b y \<Longrightarrow> can_read k (bindE m f) (a @ b) y"
  unfolding can_read_def by (blast intro: yields_bind)

lemma can_read_bind_ret: "can_read k m a x \<Longrightarrow> f x = ret y \<Longrightarrow> can_read k (bindE m f) a y"
  unfolding can_read_def by (blast intro: yields_bind_ret)

lemma can_read_getS: "(\<And>d. dconf_of d = k \<Longrightarrow> g d = v) \<Longrightarrow> can_read k (f v) bs x \<Longrightarrow> can_read k (bindE (getS g) f) bs x"
  unfolding can_read_def by (blast intro: yields_getS)

lemma can_read_peek: "can_read k (f c) (c # bs) x \<Longrightarrow> can_read k (bindE PeekCode f) (c # bs) x"
  unfolding can_read_def by (blast intro: yields_peek)

section \<open>The loops\<close>

lemma can_skipNext:
  assumes "\<And>a. a \<in> set as \<Longrightarrow> can_read k Skip a ()" and "n = length as"
  shows "can_read k (skipNext n) (concat as) ()"
  using assms yields_repeat [of as k Skip] by (simp add: skipNext_def can_read_def)

definition entry :: "u32 \<Rightarrow> platform \<Rightarrow> gostring \<times> gval \<Rightarrow> byte list" where
  "entry fl P kv = str_wire (fst kv) @ wire fl P (snd kv)"

lemma can_skip_entries:
  assumes "\<forall>kv\<in>set kvs. short (fst kv) \<and> data_val n (snd kv)" and "deep loose n k m"
  shows "can_read k (skipNext (length kvs * 2)) (concat (map (entry fl P) kvs)) ()"
proof (cases n)
  case 0
  then have "kvs = []" using assms(1) data_val_pos by (cases kvs) auto
  then show ?thesis by (simp add: skipNext_def can_read_ret del: ret_apply)
next
  case (Suc n')
  let ?as = "concat (map (\<lambda>kv. [str_wire (fst kv), wire fl P (snd kv)]) kvs)"
  have "can_read k Skip (str_wire s) ()" if "short s" for s
    using can_skip [OF data_val_atoms(1) [OF that] assms(2) [unfolded Suc], of fl P] by (simp add: wire_simps)
  then have "can_read k (skipNext (length kvs * 2)) (concat ?as) ()"
    using assms can_skip [OF _ assms(2), of _ fl P] by (intro can_skipNext) (auto simp: length_concat comp_def sum_list_triv)
  moreover have "concat ?as = concat (map (entry fl P) kvs)" by (induction kvs) (simp_all add: entry_def)
  ultimately show ?thesis by simp
qed

lemma map_step:
  assumes "\<forall>kv\<in>set (kv # kvs). short (fst kv) \<and> data_val n (snd kv)" and "deep loose n k m"
  shows "can_read k decodeStringTemp (str_wire (fst kv)) (fst kv)" and "can_read k Skip (wire fl P (snd kv)) ()"
    and "can_read k (skipNext (length kvs * 2)) (concat (map (entry fl P) kvs)) ()"
    and "concat (map (entry fl P) (kv # kvs)) = str_wire (fst kv) @ wire fl P (snd kv) @ concat (map (entry fl P) kvs)"
  using assms can_skip [OF _ assms(2), of "snd kv" fl P] can_skip_entries [of kvs n loose k m fl P]
  by (auto simp: entry_def intro!: can_key dest: deep_iconf)

lemma map_loop_none:
  assumes "\<forall>kv\<in>set kvs. short (fst kv) \<and> data_val n (snd kv)" and k: "deep loose n k m" and "map_of kvs (q_key q) = None"
  shows "can_read k (queryMapKey_loop rec q (length kvs)) (concat (map (entry fl P) kvs)) q"
  using assms(1,3)
proof (induction kvs)
  case (Cons kv kvs)
  note s = map_step [OF Cons.prems(1) k]
  have "can_read k (queryMapKey_loop rec q (length kvs)) (concat (map (entry fl P) kvs)) q"
    by (rule Cons.IH) (use Cons.prems in \<open>auto split: if_splits\<close>)
  then show ?case
    unfolding s(4) list.size add_0_right add_Suc_right queryMapKey_loop.simps
    by (intro can_read_bind [OF s(1)]) (use Cons.prems(2) in \<open>auto split: if_splits intro!: can_read_bind [OF s(2)]\<close>)
qed (simp add: can_read_ret del: ret_apply)

lemma map_loop_star:
  assumes "\<forall>kv\<in>set kvs. short (fst kv) \<and> data_val n (snd kv)" and k: "deep loose n k m"
    and "map_of kvs (q_key q) = Some x" and "q_hasAsterisk q'" and x: "can_read k (rec q) (wire fl P x) q'"
  shows "can_read k (queryMapKey_loop rec q (length kvs)) (concat (map (entry fl P) kvs)) q'"
  using assms(1,3)
proof (induction kvs)
  case (Cons kv kvs)
  note s = map_step [OF Cons.prems(1) k]
  show ?case
  proof (cases "fst kv = q_key q")
    case True
    then have "can_read k (rec q) (wire fl P (snd kv)) q'" using Cons.prems(2) x by simp
    then have "can_read k (bindE (rec q) (\<lambda>q. if q_hasAsterisk q then bindE (skipNext (length kvs * 2)) (\<lambda>_. ret q) else ret q))
        (wire fl P (snd kv) @ concat (map (entry fl P) kvs)) q'"
      by (rule can_read_bind) (use assms(4) can_read_bind_ret [where f = "\<lambda>_. ret q'", OF s(3) refl] in \<open>simp del: ret_apply\<close>)
    then show ?thesis
      unfolding s(4) list.size add_0_right add_Suc_right queryMapKey_loop.simps
      by (intro can_read_bind [OF s(1)]) (simp add: True del: ret_apply)
  next
    case False
    then have "can_read k (queryMapKey_loop rec q (length kvs)) (concat (map (entry fl P) kvs)) q'"
      by (intro Cons.IH) (use Cons.prems in \<open>auto split: if_splits\<close>)
    then show ?thesis
      unfolding s(4) list.size add_0_right add_Suc_right queryMapKey_loop.simps
      by (intro can_read_bind [OF s(1)]) (simp add: False can_read_bind [OF s(2)])
  qed
qed simp

lemma map_loop_finds:
  assumes "\<forall>kv\<in>set kvs. short (fst kv) \<and> data_val n (snd kv)" and k: "deep loose n k m"
    and "map_of kvs (q_key q) = Some x" and "\<not> q_hasAsterisk q'" and x: "finds k (rec q) (wire fl P x) q'"
  shows "finds k (queryMapKey_loop rec q (length kvs)) (concat (map (entry fl P) kvs)) q'"
  using assms(1,3)
proof (induction kvs)
  case (Cons kv kvs)
  note s = map_step [OF Cons.prems(1) k]
  show ?case
  proof (cases "fst kv = q_key q")
    case True
    then have "finds k (rec q) (wire fl P (snd kv)) q'" using Cons.prems(2) x by simp
    then have "finds k (bindE (rec q) (\<lambda>q. if q_hasAsterisk q then bindE (skipNext (length kvs * 2)) (\<lambda>_. ret q) else ret q))
        (wire fl P (snd kv) @ concat (map (entry fl P) kvs)) q'"
      by (rule finds_prefix [OF finds_bind_ret]) (simp only: assms(4) if_False)
    then show ?thesis
      unfolding s(4) list.size add_0_right add_Suc_right queryMapKey_loop.simps
      by (intro finds_bind [OF s(1)]) (simp add: True del: ret_apply)
  next
    case False
    then have "finds k (queryMapKey_loop rec q (length kvs)) (concat (map (entry fl P) kvs)) q'"
      by (intro Cons.IH) (use Cons.prems in \<open>auto split: if_splits\<close>)
    then show ?thesis
      unfolding s(4) list.size add_0_right add_Suc_right queryMapKey_loop.simps
      by (intro finds_bind [OF s(1)]) (simp add: False finds_bind [OF s(2)])
  qed
qed simp

lemma array_step:
  assumes "\<forall>x\<in>set (x # xs). data_val n x" and "deep loose n k m"
  shows "can_read k Skip (wire fl P x) ()" and "can_read k (skipNext (length xs)) (concat (map (wire fl P) xs)) ()"
  using assms can_skip [OF _ assms(2), of _ fl P] by (auto intro!: can_skipNext)

lemma array_loop_none:
  assumes "\<forall>x\<in>set xs. data_val n x" and k: "deep loose n k m" and "ind < int i \<or> int i + int (length xs) \<le> ind"
  shows "can_read k (queryArrayIndex_loop rec q ind i (length xs)) (concat (map (wire fl P) xs)) q"
  using assms(1,3)
proof (induction xs arbitrary: i)
  case (Cons x xs)
  note s = array_step [OF Cons.prems(1) k]
  have "can_read k (queryArrayIndex_loop rec q ind (Suc i) (length xs)) (concat (map (wire fl P) xs)) q"
    by (rule Cons.IH) (use Cons.prems in auto)
  then show ?case
    using Cons.prems(2) by (auto intro!: can_read_bind [OF s(1)])
qed (simp add: can_read_ret del: ret_apply)

lemma array_loop_star:
  assumes "\<forall>x\<in>set xs. data_val n x" and k: "deep loose n k m"
    and "int i \<le> ind" and "ind < int i + int (length xs)" and "q_hasAsterisk q'"
    and x: "can_read k (rec q) (wire fl P (xs ! nat (ind - int i))) q'"
  shows "can_read k (queryArrayIndex_loop rec q ind i (length xs)) (concat (map (wire fl P) xs)) q'"
  using assms(1,3,4,6)
proof (induction xs arbitrary: i)
  case (Cons x xs)
  note s = array_step [OF Cons.prems(1) k]
  show ?case
  proof (cases "int i = ind")
    case True
    then have "can_read k (rec q) (wire fl P x) q'" using Cons.prems(4) by simp
    then have "can_read k (bindE (rec q) (\<lambda>q. if q_hasAsterisk q then bindE (skipNext (length xs)) (\<lambda>_. ret q) else ret q))
        (wire fl P x @ concat (map (wire fl P) xs)) q'"
      by (rule can_read_bind) (use assms(5) can_read_bind_ret [where f = "\<lambda>_. ret q'", OF s(2) refl] in \<open>simp del: ret_apply\<close>)
    then show ?thesis using True by (simp del: ret_apply)
  next
    case False
    have "nat (ind - int i) = Suc (nat (ind - int (Suc i)))" using False Cons.prems(2) by linarith
    then have "can_read k (queryArrayIndex_loop rec q ind (Suc i) (length xs)) (concat (map (wire fl P) xs)) q'"
      using False Cons.prems by (intro Cons.IH) auto
    then show ?thesis using False by (simp add: can_read_bind [OF s(1)])
  qed
qed simp

lemma array_loop_finds:
  assumes "\<forall>x\<in>set xs. data_val n x" and k: "deep loose n k m"
    and "int i \<le> ind" and "ind < int i + int (length xs)" and "\<not> q_hasAsterisk q'"
    and x: "finds k (rec q) (wire fl P (xs ! nat (ind - int i))) q'"
  shows "finds k (queryArrayIndex_loop rec q ind i (length xs)) (concat (map (wire fl P) xs)) q'"
  using assms(1,3,4,6)
proof (induction xs arbitrary: i)
  case (Cons x xs)
  note s = array_step [OF Cons.prems(1) k]
  show ?case
  proof (cases "int i = ind")
    case True
    then have "finds k (rec q) (wire fl P x) q'" using Cons.prems(4) by simp
    then have "finds k (bindE (rec q) (\<lambda>q. if q_hasAsterisk q then bindE (skipNext (length xs)) (\<lambda>_. ret q) else ret q))
        (wire fl P x @ concat (map (wire fl P) xs)) q'"
      by (rule finds_prefix [OF finds_bind_ret]) (simp only: assms(5) if_False)
    then show ?thesis using True by (simp del: ret_apply)
  next
    case False
    have "nat (ind - int i) = Suc (nat (ind - int (Suc i)))" using False Cons.prems(2) by linarith
    then have "finds k (queryArrayIndex_loop rec q ind (Suc i) (length xs)) (concat (map (wire fl P) xs)) q'"
      using False Cons.prems by (intro Cons.IH) auto
    then show ?thesis using False by (simp add: finds_bind [OF s(1)])
  qed
qed simp

text \<open>An answer: the selected values, decoded and added to the result.\<close>

definition answers :: "u32 \<Rightarrow> bool \<Rightarrow> queryResult \<Rightarrow> gval list \<Rightarrow> bool \<Rightarrow> queryResult \<Rightarrow> bool" where
  "answers fl loose q vs star q' \<longleftrightarrow>
     (\<exists>ws. list_all2 (seen fl loose) vs ws \<and> q_values q' = q_values q @ ws) \<and> q_hasAsterisk q' = star"

lemma answers_trans:
  "answers fl loose q vs s p \<Longrightarrow> q_values p' = q_values p \<Longrightarrow> answers fl loose p' us t q' \<Longrightarrow> answers fl loose q (vs @ us) t q'"
  by (fastforce simp: answers_def intro: list_all2_appendI)

lemma star_loop:
  assumes "\<And>x p. x \<in> set xs \<Longrightarrow> q_hasAsterisk p \<Longrightarrow> q_query p = s \<Longrightarrow> 
      \<exists>p'. answers fl loose p (sel x) True p' \<and> can_read k (rec p) (enc x) p'"
    and "q_hasAsterisk q"
  shows "\<exists>q'. answers fl loose q (concat (map sel xs)) True q' \<and>
    can_read k (foldE (length xs) (\<lambda>p. rec (p\<lparr>q_query := s\<rparr>)) q) (concat (map enc xs)) q'"
  using assms
proof (induction xs arbitrary: q)
  case Nil
  then show ?case by (intro exI [of _ q]) (simp add: answers_def can_read_ret del: ret_apply)
next
  case (Cons x xs)
  obtain p where p: "answers fl loose (q\<lparr>q_query := s\<rparr>) (sel x) True p" "can_read k (rec (q\<lparr>q_query := s\<rparr>)) (enc x) p"
    using Cons.prems(1) [of x "q\<lparr>q_query := s\<rparr>"] Cons.prems(2) by auto
  have "\<exists>q'. answers fl loose p (concat (map sel xs)) True q' \<and>
      can_read k (foldE (length xs) (\<lambda>p. rec (p\<lparr>q_query := s\<rparr>)) p) (concat (map enc xs)) q'"
    by (rule Cons.IH) (use Cons.prems(1) p(1) in \<open>auto simp: answers_def\<close>)
  then obtain q' where q': "answers fl loose p (concat (map sel xs)) True q'"
    "can_read k (foldE (length xs) (\<lambda>p. rec (p\<lparr>q_query := s\<rparr>)) p) (concat (map enc xs)) q'" by blast
  have "answers fl loose (q\<lparr>q_query := s\<rparr>) (sel x @ concat (map sel xs)) True q'"
    using answers_trans [OF p(1) refl q'(1)] .
  then have "answers fl loose q (concat (map sel (x # xs))) True q'" by (simp add: answers_def)
  moreover have "can_read k (foldE (length (x # xs)) (\<lambda>p. rec (p\<lparr>q_query := s\<rparr>)) q) (concat (map enc (x # xs))) q'"
    using can_read_bind [where f = "foldE (length xs) (\<lambda>p. rec (p\<lparr>q_query := s\<rparr>))", OF p(2) q'(2)] by simp
  ultimately show ?case by blast
qed

section \<open>Headers\<close>

lemma array_len:
  assumes "iconf k" and "short xs" and "\<forall>x\<in>set xs. data_val n x"
  shows "yields k (arr_hdr (int (length xs))) (length (concat (map (wire fl P) xs)) + r) DecodeArrayLen (int (length xs)) k"
proof (rule yields_arr_hdr)
  have "1 * length xs \<le> length (concat (map (wire fl P) xs))"
    by (rule length_concat_ge) (use assms(3) wire_nonempty in \<open>auto simp: Suc_le_eq\<close>)
  then show "int (length xs) \<le> int (length (concat (map (wire fl P) xs)) + r)" by simp
qed (use assms in \<open>auto simp: container_ok_def iconf_def roomy_def short_def intro!: len_ok_intBits\<close>)

lemma map_len:
  assumes "iconf k" and "short kvs" and "\<forall>kv\<in>set kvs. short (fst kv) \<and> data_val n (snd kv)"
  shows "yields k (map_hdr (int (length kvs))) (length (concat (map (entry fl P) kvs)) + r) DecodeMapLen (int (length kvs)) k"
proof (rule yields_map_hdr)
  have "2 \<le> length (entry fl P kv)" if "kv \<in> set kvs" for kv
    using wire_nonempty [of n "snd kv" fl P] assms(3) that str_wire_nonempty [of "fst kv"]
    by (cases "str_wire (fst kv)"; cases "wire fl P (snd kv)") (auto simp: entry_def)
  then have "2 * length kvs \<le> length (concat (map (entry fl P) kvs))" by (rule length_concat_ge)
  then show "2 * int (length kvs) \<le> int (length (concat (map (entry fl P) kvs)) + r)" by simp
qed (use assms in \<open>auto simp: container_ok_def iconf_def roomy_def short_def intro!: len_ok_intBits\<close>)

section \<open>Queries\<close>

lemma query_leaf:
  "q_key (nextKey q) = [] \<Longrightarrow> query env q =
     bindE (decodeInterfaceCond env) (\<lambda>v. ret ((nextKey q)\<lparr>q_values := q_values q @ [v]\<rparr>))"
  by (subst query_recursion) (simp add: query_body_def)

lemma query_step:
  assumes "q_key (nextKey q) \<noteq> []"
  shows "query env q = bindE PeekCode (\<lambda>code.
    if code = Map16_c \<or> code = Map32_c \<or> IsFixedMap code then queryMapKey (query env) (nextKey q)
    else if code = Array16_c \<or> code = Array32_c \<or> IsFixedArray code then queryArrayIndex (query env) (nextKey q)
    else fail (UnsupportedQueryCode code (q_key (nextKey q))))"
  using assms by (subst query_recursion) (simp add: query_body_def Let_def)

lemma array_code_no_map: "IsFixedArray c \<or> c = Array16_c \<or> c = Array32_c \<Longrightarrow> \<not> (c = Map16_c \<or> c = Map32_c \<or> IsFixedMap c)"
  using class_disjoint(2) [of c] by (auto simp: class_defs opcode_values word_le_nat_alt)

lemma query_map:
  assumes "q_key (nextKey q) \<noteq> []" and k: "iconf k" and "short kvs"
    and "\<forall>kv\<in>set kvs. short (fst kv) \<and> data_val n (snd kv)"
    and "bs = map_hdr (int (length kvs)) @ concat (map (entry fl P) kvs)"
  shows "can_read k (queryMapKey_loop (query env) (nextKey q) (length kvs)) (concat (map (entry fl P) kvs)) q' \<Longrightarrow>
      can_read k (query env q) bs q'"
    and "finds k (queryMapKey_loop (query env) (nextKey q) (length kvs)) (concat (map (entry fl P) kvs)) q' \<Longrightarrow>
      finds k (query env q) bs q'"
proof -
  obtain c t where c: "map_hdr (int (length kvs)) = c # t" "IsFixedMap c \<or> c = Map16_c \<or> c = Map32_c"
    using hdr_codes(4) [of "int (length kvs)"] by auto
  note h = header_bind [OF map_len [OF k assms(3,4), of fl P],
      where f = "\<lambda>n. if n = - 1 then ret (nextKey q) else queryMapKey_loop (query env) (nextKey q) (nat n)"]
  show "can_read k (query env q) bs q'"
    if "can_read k (queryMapKey_loop (query env) (nextKey q) (length kvs)) (concat (map (entry fl P) kvs)) q'"
    unfolding query_step [OF assms(1)] assms(5) c(1) append_Cons
    by (rule can_read_peek) (use h(1) c that in \<open>auto simp: queryMapKey_def\<close>)
  show "finds k (query env q) bs q'"
    if "finds k (queryMapKey_loop (query env) (nextKey q) (length kvs)) (concat (map (entry fl P) kvs)) q'"
    unfolding query_step [OF assms(1)] assms(5) c(1) append_Cons
    by (rule finds_peek) (use h(2) c that in \<open>auto simp: queryMapKey_def\<close>)
qed

lemma query_array:
  assumes "q_key (nextKey q) \<noteq> []" and k: "iconf k" and "short xs" and "\<forall>x\<in>set xs. data_val n x"
    and "bs = arr_hdr (int (length xs)) @ concat (map (wire fl P) xs)"
  shows "can_read k (queryArrayIndex_elems (query env) (nextKey q) (length xs)) (concat (map (wire fl P) xs)) q' \<Longrightarrow>
      can_read k (query env q) bs q'"
    and "finds k (queryArrayIndex_elems (query env) (nextKey q) (length xs)) (concat (map (wire fl P) xs)) q' \<Longrightarrow>
      finds k (query env q) bs q'"
proof -
  obtain c t where c: "arr_hdr (int (length xs)) = c # t" "IsFixedArray c \<or> c = Array16_c \<or> c = Array32_c"
    using hdr_codes(3) [of "int (length xs)"] by auto
  note h = header_bind [OF array_len [OF k assms(3,4), of fl P],
      where f = "\<lambda>n. if n = - 1 then ret (nextKey q) else queryArrayIndex_elems (query env) (nextKey q) (nat n)"]
  show "can_read k (query env q) bs q'"
    if "can_read k (queryArrayIndex_elems (query env) (nextKey q) (length xs)) (concat (map (wire fl P) xs)) q'"
    unfolding query_step [OF assms(1)] assms(5) c(1) append_Cons
    by (rule can_read_peek) (use h(1) c array_code_no_map [OF c(2)] that in \<open>auto simp: queryArrayIndex_def\<close>)
  show "finds k (query env q) bs q'"
    if "finds k (queryArrayIndex_elems (query env) (nextKey q) (length xs)) (concat (map (wire fl P) xs)) q'"
    unfolding query_step [OF assms(1)] assms(5) c(1) append_Cons
    by (rule finds_peek) (use h(2) c array_code_no_map [OF c(2)] that in \<open>auto simp: queryArrayIndex_def\<close>)
qed

lemma deep_less: "deep loose n k m \<Longrightarrow> deep loose (n - 1) k m"
  by (auto simp: deep_def)

lemma conf_plat: "dconf_of d = k \<Longrightarrow> d_plat d = k_plat k"
  by (auto simp: dconf_of_def)

text \<open>Under an asterisk a query reads exactly its value, otherwise it may stop short of the end.\<close>

definition walks :: "bool \<Rightarrow> dconf \<Rightarrow> (decoder, 'a) go \<Rightarrow> byte list \<Rightarrow> 'a \<Rightarrow> bool" where
  "walks star k m bs x \<longleftrightarrow> (if star then can_read k m bs x else finds k m bs x)"

lemma can_walks: "can_read k m bs x \<Longrightarrow> walks star k m bs x"
  by (simp add: walks_def can_finds)

lemma walks_plat: "walks star k (f (k_plat k)) bs x \<Longrightarrow> walks star k (bindE (getS d_plat) f) bs x"
  unfolding walks_def by (cases star) (auto intro!: can_read_getS finds_getS intro: conf_plat)

lemma query_here:
  assumes "time_env env" and "q_key (nextKey q) = []" and "data_val n v" and "deep loose n k m"
  shows "\<exists>q'. answers fl loose q [v] (q_hasAsterisk q) q' \<and> walks star k (query env q) (wire fl P v) q'"
proof -
  obtain w where w: "seen fl loose v w" "can_read k (decodeInterfaceCond env) (wire fl P v) w"
    using can_any [OF assms(3,1,4)] by blast
  have "answers fl loose q [v] (q_hasAsterisk q) ((nextKey q)\<lparr>q_values := q_values q @ [w]\<rparr>)"
    using w(1) by (auto simp: answers_def)
  moreover have "can_read k (query env q) (wire fl P v) ((nextKey q)\<lparr>q_values := q_values q @ [w]\<rparr>)"
    unfolding query_leaf [OF assms(2)] by (rule can_read_bind_ret [OF w(2)]) (rule refl)
  ultimately show ?thesis using can_walks [of k "query env q"] by auto
qed

lemma map_loop_some:
  assumes "\<forall>kv\<in>set kvs. short (fst kv) \<and> data_val n (snd kv)" and "deep loose n k m"
    and "map_of kvs (q_key q) = Some x" and "q_hasAsterisk q' = star" and "walks star k (query env q) (wire fl P x) q'"
  shows "walks star k (queryMapKey_loop (query env) q (length kvs)) (concat (map (entry fl P) kvs)) q'"
  using map_loop_star [OF assms(1-3), of q' "query env" fl P] map_loop_finds [OF assms(1-3), of q' "query env" fl P] assms(4,5)
  by (auto simp: walks_def)

lemma array_loop_some:
  assumes "\<forall>x\<in>set xs. data_val n x" and "deep loose n k m" and "0 \<le> ind" and "ind < int (length xs)"
    and "q_hasAsterisk q' = star" and "walks star k (query env q) (wire fl P (xs ! nat ind)) q'"
  shows "walks star k (queryArrayIndex_loop (query env) q ind 0 (length xs)) (concat (map (wire fl P) xs)) q'"
  using array_loop_star [OF assms(1,2), of 0 ind q' "query env" q fl P]
    array_loop_finds [OF assms(1,2), of 0 ind q' "query env" q fl P] assms(3-6)
  by (auto simp: walks_def)

lemma walks_map:
  assumes "q_key (nextKey q) \<noteq> []" and "iconf k" and "short kvs"
    and "\<forall>kv\<in>set kvs. short (fst kv) \<and> data_val n (snd kv)"
    and "bs = map_hdr (int (length kvs)) @ concat (map (entry fl P) kvs)"
    and "walks star k (queryMapKey_loop (query env) (nextKey q) (length kvs)) (concat (map (entry fl P) kvs)) q'"
  shows "walks star k (query env q) bs q'"
  using query_map [OF assms(1-5), of env q'] assms(6) by (simp add: walks_def split: if_splits)

lemma walks_array:
  assumes "q_key (nextKey q) \<noteq> []" and "iconf k" and "short xs" and "\<forall>x\<in>set xs. data_val n x"
    and "bs = arr_hdr (int (length xs)) @ concat (map (wire fl P) xs)"
    and "walks star k (queryArrayIndex_elems (query env) (nextKey q) (length xs)) (concat (map (wire fl P) xs)) q'"
  shows "walks star k (query env q) bs q'"
  using query_array [OF assms(1-5), of env q'] assms(6) by (simp add: walks_def split: if_splits)

text \<open>Paths the implementation handles: at most one asterisk.\<close>

definition stars :: "gostring list \<Rightarrow> nat" where
  "stars ks = length (filter (\<lambda>key. key = asterisk) ks)"

lemma those_map: "those (map f xs) = Some ys \<Longrightarrow> ys = map (the \<circ> f) xs \<and> (\<forall>x\<in>set xs. \<exists>y. f x = Some y)"
  by (induction xs arbitrary: ys) (auto split: option.splits)

lemma walk_entry:
  assumes key: "key = q_key (nextKey q)" "key \<noteq> []" and k: "deep loose n k m" and star: "q_hasAsterisk q = star"
    and kvs: "\<forall>kv\<in>set kvs. short (fst kv) \<and> data_val n (snd kv)" "short kvs"
      "bs = map_hdr (int (length kvs)) @ concat (map (entry fl P) kvs)"
    and IH: "\<And>x us. sel x = Some us \<Longrightarrow> data_val n x \<Longrightarrow>
      \<exists>q'. answers fl loose q us star q' \<and> walks star k (query env (nextKey q)) (wire fl P x) q'"
    and sel: "(case map_of kvs key of None \<Rightarrow> Some [] | Some x \<Rightarrow> sel x) = Some vs"
  shows "\<exists>q'. answers fl loose q vs star q' \<and> walks star k (query env q) bs q'"
proof -
  note walk = walks_map [OF key(2) [unfolded key(1)] deep_iconf [OF k] kvs(2,1,3)]
  show ?thesis
  proof (cases "map_of kvs key")
    case None
    have "walks star k (query env q) bs (nextKey q)"
      by (rule walk, rule can_walks, rule map_loop_none [OF kvs(1) k]) (use None key in simp)
    moreover have "answers fl loose q vs star (nextKey q)" using star sel None by (simp add: answers_def)
    ultimately show ?thesis by blast
  next
    case (Some x)
    have "data_val n x" using kvs(1) map_of_SomeD [OF Some] by fastforce
    then obtain q' where q': "answers fl loose q vs star q'" "walks star k (query env (nextKey q)) (wire fl P x) q'"
      using IH sel Some by auto
    have "walks star k (query env q) bs q'"
      by (rule walk, rule map_loop_some [OF kvs(1) k Some [unfolded key(1)] _ q'(2)]) (use q'(1) in \<open>simp add: answers_def\<close>)
    with q'(1) show ?thesis by blast
  qed
qed

lemma walk_index:
  assumes key: "key = q_key (nextKey q)" "key \<noteq> []" "key \<noteq> asterisk" and k: "deep loose n k m"
    and star: "q_hasAsterisk q = star"
    and xs: "\<forall>x\<in>set xs. data_val n x" "short xs" "bs = arr_hdr (int (length xs)) @ concat (map (wire fl P) xs)"
    and IH: "\<And>x us. sel x = Some us \<Longrightarrow> data_val n x \<Longrightarrow>
      \<exists>q'. answers fl loose q us star q' \<and> walks star k (query env (nextKey q)) (wire fl P x) q'"
    and sel: "(case Atoi (k_plat k) key of None \<Rightarrow> None
      | Some i \<Rightarrow> if 0 \<le> i \<and> i < int (length xs) then sel (xs ! nat i) else Some []) = Some vs"
  shows "\<exists>q'. answers fl loose q vs star q' \<and> walks star k (query env q) bs q'"
proof -
  obtain i where i: "Atoi (k_plat k) key = Some i" using sel by (auto split: option.splits)
  have walk: "walks star k (query env q) bs q'"
    if "walks star k (queryArrayIndex_loop (query env) (nextKey q) i 0 (length xs)) (concat (map (wire fl P) xs)) q'" for q'
    by (rule walks_array [OF key(2) [unfolded key(1)] deep_iconf [OF k] xs(2,1,3)])
      (use that key(3) i in \<open>auto simp: queryArrayIndex_elems_def key(1) intro!: walks_plat\<close>)
  show ?thesis
  proof (cases "0 \<le> i \<and> i < int (length xs)")
    case True
    then have "data_val n (xs ! nat i)" using xs(1) by (simp add: nat_less_iff)
    then obtain q' where q': "answers fl loose q vs star q'" "walks star k (query env (nextKey q)) (wire fl P (xs ! nat i)) q'"
      using IH sel i True by auto
    have "walks star k (query env q) bs q'"
      by (rule walk, rule array_loop_some [OF xs(1) k _ _ _ q'(2)]) (use q'(1) True in \<open>auto simp: answers_def\<close>)
    with q'(1) show ?thesis by blast
  next
    case False
    have "walks star k (query env q) bs (nextKey q)"
      by (rule walk, rule can_walks, rule array_loop_none [OF xs(1) k]) (use False in auto)
    moreover have "answers fl loose q vs star (nextKey q)" using star sel i False by (auto simp: answers_def)
    ultimately show ?thesis by blast
  qed
qed

lemma walk_star:
  assumes key: "asterisk = q_key (nextKey q)" and k: "deep loose n k m"
    and xs: "\<forall>x\<in>set xs. data_val n x" "short xs" "bs = arr_hdr (int (length xs)) @ concat (map (wire fl P) xs)"
    and IH: "\<And>x us p. sel x = Some us \<Longrightarrow> data_val n x \<Longrightarrow> q_hasAsterisk p \<Longrightarrow> q_query p = q_query (nextKey q) \<Longrightarrow>
      \<exists>q'. answers fl loose p us True q' \<and> can_read k (query env p) (wire fl P x) q'"
    and sel: "map_option concat (those (map sel xs)) = Some vs"
  shows "\<exists>q'. answers fl loose q vs False q' \<and> walks False k (query env q) bs q'"
proof -
  let ?p = "(nextKey q)\<lparr>q_hasAsterisk := True\<rparr>"
  obtain ys where "those (map sel xs) = Some ys" "vs = concat ys" using sel by auto
  then have vs: "vs = concat (map (the \<circ> sel) xs)" "\<forall>x\<in>set xs. \<exists>us. sel x = Some us" using those_map by blast+
  have "\<exists>q'. answers fl loose ?p (concat (map (the \<circ> sel) xs)) True q' \<and>
      can_read k (foldE (length xs) (\<lambda>p. query env (p\<lparr>q_query := q_query (nextKey q)\<rparr>)) ?p) (concat (map (wire fl P) xs)) q'"
    by (rule star_loop) (use IH vs(2) xs(1) in fastforce)+
  then obtain p where p: "answers fl loose ?p vs True p"
    "can_read k (foldE (length xs) (\<lambda>p. query env (p\<lparr>q_query := q_query (nextKey q)\<rparr>)) ?p) (concat (map (wire fl P) xs)) p"
    using vs(1) by blast
  let ?q = "p\<lparr>q_hasAsterisk := False\<rparr>"
  have "can_read k (queryArrayIndex_elems (query env) (nextKey q) (length xs)) (concat (map (wire fl P) xs)) ?q"
    using can_read_bind_ret [where f = "\<lambda>p. ret (p\<lparr>q_hasAsterisk := False\<rparr>)", OF p(2) refl] key
    by (simp add: queryArrayIndex_elems_def del: ret_apply)
  then have "walks False k (query env q) bs ?q"
    by (intro walks_array [OF _ deep_iconf [OF k] xs(2,1,3)] can_walks) (use key in \<open>auto simp: asterisk_def\<close>)
  moreover have "answers fl loose q vs False ?q" using p(1) by (simp add: answers_def)
  ultimately show ?thesis by blast
qed

lemma query_walk:
  assumes "time_env env"
  shows "keys_of (q_query q) = ks \<Longrightarrow> stars ks \<le> (if star then 0 else 1) \<Longrightarrow> q_hasAsterisk q = star \<Longrightarrow>
    select fl (k_plat k) ks v = Some vs \<Longrightarrow> data_val n v \<Longrightarrow> deep loose n k m \<Longrightarrow>
    \<exists>q'. answers fl loose q vs star q' \<and> walks star k (query env q) (wire fl P v) q'"
proof (induction ks arbitrary: star q v vs n)
  case Nil
  then have "q_key (nextKey q) = []" using keys_of_nextKey [of q] nextKey_empty by (auto split: if_splits)
  from query_here [OF assms this Nil.prems(5,6)] show ?case using Nil.prems by auto
next
  case (Cons key ks)
  have q: "key = q_key (nextKey q)" "ks = keys_of (q_query (nextKey q))"
    using Cons.prems(1) keys_of_nextKey [of q] by (auto split: if_splits)
  note d = deep_less [OF Cons.prems(6)]
  have IH: "\<exists>q'. answers fl loose p us s q' \<and> walks s k (query env p) (wire fl P x) q'"
    if "select fl (k_plat k) ks x = Some us" "data_val (n - 1) x" "q_hasAsterisk p = s" "q_query p = q_query (nextKey q)"
      "stars ks \<le> (if s then 0 else 1)" for x us s p
    using Cons.IH [OF _ that(5,3,1,2) d] that(4) q(2) by simp
  have IH': "\<exists>q'. answers fl loose q us star q' \<and> walks star k (query env (nextKey q)) (wire fl P x) q'"
    if "select fl (k_plat k) ks x = Some us" "data_val (n - 1) x" for x us
    using IH [OF that, of "nextKey q" star] Cons.prems(2,3) by (auto simp: answers_def stars_def split: if_splits)
  show ?case
  proof (cases "key = []")
    case True
    from query_here [OF assms True [unfolded q] Cons.prems(5,6)] show ?thesis
      using Cons.prems(3,4) True by auto
  next
    case key: False
    note lay = kids_wire [OF Cons.prems(5), of fl P, unfolded laid_out_def]
    show ?thesis
    proof (cases "kids fl v")
      case (KMap kvs)
      show ?thesis
        by (rule walk_entry [OF q(1) key d Cons.prems(3) _ _ _ IH', where kvs = kvs])
          (use lay KMap Cons.prems(4) key in \<open>auto simp: entry_def [abs_def]\<close>)
    next
      case (KArr xs)
      show ?thesis
      proof (cases "key = asterisk")
        case True
        then have s: "star = False" "stars ks \<le> 0" using Cons.prems(2) by (auto simp: stars_def split: if_splits)
        show ?thesis
          unfolding s(1)
          by (rule walk_star [OF q(1) [unfolded True] d, where xs = xs and sel = "select fl (k_plat k) ks"])
            (use lay KArr Cons.prems(4) key True IH [where s = True] s(2) in \<open>auto simp: walks_def\<close>)
      next
        case False
        show ?thesis
          by (rule walk_index [OF q(1) key False d Cons.prems(3) _ _ _ IH', where xs = xs])
            (use lay KArr Cons.prems(4) key False in auto)
      qed
    next
      case KLeaf
      then show ?thesis using Cons.prems(4) key by simp
    qed
  qed
qed

text \<open>
  C13: \<open>Query\<close> finds what a path selects. On the encoding of any value of the built-in kinds, for every
  path with at most one asterisk that can be followed in the value, it returns the decoded values at
  the selected places, in order, whatever follows the encoded value: a map key picks the entry, an
  index the element, an asterisk all elements, a missing key or index nothing.
\<close>

theorem Query_selects:
  assumes "enc_ok out e" and "plain_strings (conf e)" and "data_val n v" and "Encode v e = (Inr (), e')"
    and "d_r d \<noteq> None" and "0 \<le> d_depth d" and "iconf (dconf_of d)" and "n \<le> budget d" and "time_env env"
    and "pending d = drop (length (written out e)) (written out e') @ rest"
    and "stars (keys_of path) \<le> 1" and "select (e_flags e) (d_plat d) (keys_of path) v = Some vs"
  shows "\<exists>ws d'. Query env path d = (Inr ws, d') \<and>
    list_all2 (seen (e_flags e) (hasFlag (d_flags d) looseInterfaceDecodingFlag)) vs ws"
proof -
  let ?w = "wire (e_flags e) (e_plat e) v" and ?l = "hasFlag (d_flags d) looseInterfaceDecodingFlag"
  let ?q = "\<lparr>q_query = path, q_key = [], q_values = [], q_hasAsterisk = False\<rparr>"
  have p: "pending d = ?w @ rest" using Encode_wire [OF assms(1-4)] assms(10) by simp
  have d: "deep ?l n (dconf_of d) n" by (rule deep_budget [OF assms(3,6-8)])
  have "k_plat (dconf_of d) = d_plat d" by (simp add: dconf_of_def)
  then have "\<exists>q'. answers (e_flags e) ?l ?q vs False q' \<and> walks False (dconf_of d) (query env ?q) ?w q'"
    by (intro query_walk [OF assms(9) refl _ _ _ assms(3) d]) (use assms(11,12) in simp_all)
  then obtain q' where q': "answers (e_flags e) ?l ?q vs False q'" "finds (dconf_of d) (query env ?q) ?w q'"
    by (auto simp: walks_def)
  then obtain d' where "query env ?q d = (Inr q', d')"
    using p assms(5) by (auto simp: finds_def ready_def)
  then have "Query env path d = (Inr (q_values q'), d')" by (simp add: Query_def bindE_def)
  with q'(1) show ?thesis by (auto simp: answers_def)
qed

theorem Query_selects_witness:
  "\<exists>ws d'. Query package_env [49] (decoder_on [0x92, 0x05, 0xa2, 0x68, 0x69]) = (Inr ws, d') \<and>
    list_all2 (seen 0 False) [GString [0x68, 0x69]] ws"
proof -
  let ?d = "decoder_on [0x92, 0x05, 0xa2, 0x68, 0x69]"
  obtain e' where e': "Encode example_value append_encoder = (Inr (), e')"
    "written (\<lambda>_. []) e' = written (\<lambda>_. []) append_encoder @ [0x92, 0x05, 0xa2, 0x68, 0x69]"
    by (rule example_encoded)
  have "keys_of [49] = [[49]]" by (simp add: keys_of.simps dot_def)
  moreover have "Atoi amd64 [49] = Some 1" by code_simp
  ultimately have "select 0 amd64 (keys_of [49]) example_value = Some [GString [0x68, 0x69]]"
    by (simp add: example_value_def kids.simps asterisk_def)
  then have "\<exists>ws d'. Query package_env [49] ?d = (Inr ws, d') \<and>
      list_all2 (seen (e_flags append_encoder) (hasFlag (d_flags ?d) looseInterfaceDecodingFlag)) [GString [0x68, 0x69]] ws"
    by (intro Query_selects [OF append_encoder(1,2) example_data e'(1) _ _ decoder_on_iconf _ time_env_package])
      (simp_all add: e'(2) append_encoder(4) \<open>keys_of [49] = [[49]]\<close> stars_def asterisk_def)
  then show ?thesis by (simp add: append_encoder hasFlag_def)
qed

text \<open>
  C14: the bound of one asterisk is needed. On the encoding of \<^verbatim>\<open>[{"a": [1], "b": 2}, {"a": [3]}]\<close> the
  path \<^verbatim>\<open>*.a.*\<close> selects 1 and 3, but \<open>Query\<close> fails: the inner asterisk clears \<open>hasAsterisk\<close>, so
  \<open>queryMapKey\<close> does not skip the entry \<^verbatim>\<open>"b"\<close> and the outer loop goes on in the middle of the first
  element.
\<close>

theorem Query_nested_asterisk:
  "select 0 amd64 (keys_of [42, 46, 97, 46, 42])
     (GSlice (Some [GMapSI (Some [([97], GSlice (Some [GInt8 1])), ([98], GInt8 2)]),
                    GMapSI (Some [([97], GSlice (Some [GInt8 3]))])])) = Some [GInt8 1, GInt8 3] \<and>
   fst (Query package_env [42, 46, 97, 46, 42]
     (SetDecodeDepthLimit 4 (decoder_on [0x92, 0x82, 0xa1, 97, 0x91, 1, 0xa1, 98, 2, 0x81, 0xa1, 97, 0x91, 3]))) =
     Inl (UnsupportedQueryCode 0xa1 [97])"
proof (rule conjI)
  show "fst (Query package_env [42, 46, 97, 46, 42]
     (SetDecodeDepthLimit 4 (decoder_on [0x92, 0x82, 0xa1, 97, 0x91, 1, 0xa1, 98, 2, 0x81, 0xa1, 97, 0x91, 3]))) =
     Inl (UnsupportedQueryCode 0xa1 [97])"
    by code_simp
  have "keys_of [42, 46, 97, 46, 42] = [[42], [97], [42]]" by (simp add: keys_of.simps dot_def)
  then show "select 0 amd64 (keys_of [42, 46, 97, 46, 42])
     (GSlice (Some [GMapSI (Some [([97], GSlice (Some [GInt8 1])), ([98], GInt8 2)]),
                    GMapSI (Some [([97], GSlice (Some [GInt8 3]))])])) = Some [GInt8 1, GInt8 3]"
    by (simp add: kids.simps asterisk_def map_order_def hasFlag_def)
qed

end
