(* ===== verification/Reflect.thy ===== *)
theory Reflect
  imports Decode_Interface
begin

text \<open>
  What the decoder uses of Go's \<^verbatim>\<open>reflect\<close>: types, addressable values with their spare slice capacity,
  zero values, dynamic types of interface contents, comparison and hashing of map keys. Types are
  finite trees; parts of a destination do not alias each other.
\<close>

section \<open>Types\<close>

datatype ikind = KInt | K8 | K16 | K32 | K64

text \<open>
  Struct types carry the Go types of their fields in order and what \<open>structs.Fields\<close> computes of
  them: the list of encoded fields, each with its name, its index path and whether it is interned,
  and the lookup from names to fields, which has aliases and inlined structs in it too. \<open>TIface True\<close> is the type
  \<^verbatim>\<open>error\<close>. \<open>TNamed i t\<close> is the \<open>i\<close>-th of the program's types whose pointer has a decoding method of
  its own, with the underlying type \<open>t\<close>. \<open>TUnsupported\<close> stands for channels, functions, complex numbers and unsafe pointers.
\<close>

type_synonym fdesc = "gostring \<times> nat list \<times> bool"

datatype gtype =
    TBool
  | TInt ikind | TUint ikind
  | TFloat32 | TFloat64
  | TString
  | TBytes | TByteArray nat
  | TStrings
  | TSlice gtype | TArray nat gtype
  | TMapSS | TMapSI | TMap gtype gtype
  | TPtr gtype
  | TStruct "gtype list" "fdesc list" "(gostring \<times> fdesc) list"
  | TIface bool
  | TTime
  | TNamed nat gtype
  | TUnsupported

text \<open>\<^verbatim>\<open>Kind()\<close> sees the underlying type.\<close>

definition underlying :: "gtype \<Rightarrow> gtype" where
  "underlying t = (case t of TNamed i u \<Rightarrow> u | _ \<Rightarrow> t)"

section \<open>Values\<close>

text \<open>
  Integers are kept as the 64-bit word that \<^verbatim>\<open>Int()\<close> or \<^verbatim>\<open>Uint()\<close> returns. A slice is its backing
  array and its length; an interface holds a dynamic type and a value, a map its entries in order of
  insertion.
\<close>

datatype rv =
    VBool bool
  | VInt u64 | VUint u64
  | VFloat32 u32 | VFloat64 u64
  | VString gostring
  | VBytes "byte slice option" | VByteArray "byte list"
  | VStrings "gostring slice option"
  | VSlice "(rv list \<times> nat) option" | VArray "rv list"
  | VMapSS "(gostring \<times> gostring) list option"
  | VMapSI "(gostring \<times> gval) list option"
  | VMap "(rv \<times> rv) list option"
  | VPtr "rv option"
  | VStruct "rv list"
  | VIface "(gtype \<times> rv) option"
  | VTime gotime
  | VUnsupported

text \<open>\<^verbatim>\<open>reflect.Zero\<close>\<close>

definition zero_time :: gotime where
  "zero_time = \<lparr>t_sec = word_of_int (- 62135596800), t_nsec = 0, t_utc = True\<rparr>"

primrec zero_rv :: "gtype \<Rightarrow> rv" where
  "zero_rv TBool = VBool False"
| "zero_rv (TInt k) = VInt 0"
| "zero_rv (TUint k) = VUint 0"
| "zero_rv TFloat32 = VFloat32 0"
| "zero_rv TFloat64 = VFloat64 0"
| "zero_rv TString = VString []"
| "zero_rv TBytes = VBytes None"
| "zero_rv (TByteArray n) = VByteArray (replicate n 0)"
| "zero_rv TStrings = VStrings None"
| "zero_rv (TSlice t) = VSlice None"
| "zero_rv (TArray n t) = VArray (replicate n (zero_rv t))"
| "zero_rv TMapSS = VMapSS None"
| "zero_rv TMapSI = VMapSI None"
| "zero_rv (TMap k t) = VMap None"
| "zero_rv (TPtr t) = VPtr None"
| "zero_rv (TStruct ts fs m) = VStruct (map zero_rv ts)"
| "zero_rv (TIface e) = VIface None"
| "zero_rv TTime = VTime zero_time"
| "zero_rv (TNamed i t) = zero_rv t"
| "zero_rv TUnsupported = VUnsupported"

text \<open>The kinds that have nil, and \<^verbatim>\<open>IsNil()\<close> on values of them.\<close>

definition nilable :: "gtype \<Rightarrow> bool" where
  "nilable t =
     (case underlying t of
        TIface e \<Rightarrow> True | TMapSS \<Rightarrow> True | TMapSI \<Rightarrow> True | TMap k u \<Rightarrow> True | TPtr u \<Rightarrow> True
      | TSlice u \<Rightarrow> True | TBytes \<Rightarrow> True | TStrings \<Rightarrow> True | _ \<Rightarrow> False)"

definition rv_IsNil :: "rv \<Rightarrow> bool" where
  "rv_IsNil v \<longleftrightarrow> v \<in> {VBytes None, VStrings None, VSlice None, VMapSS None, VMapSI None, VMap None, VPtr None, VIface None}"

section \<open>Conversions on assignment\<close>

text \<open>\<^verbatim>\<open>SetInt\<close> and \<^verbatim>\<open>SetUint\<close> keep the low bits of the destination's width.\<close>

definition SetInt :: "platform \<Rightarrow> ikind \<Rightarrow> u64 \<Rightarrow> rv" where
  "SetInt P k n = VInt
     (case k of
        KInt \<Rightarrow> word_of_int (signed_take_bit (p_intBits P - 1) (sint n))
      | K8 \<Rightarrow> scast (ucast n :: byte) | K16 \<Rightarrow> scast (ucast n :: u16) | K32 \<Rightarrow> scast (ucast n :: u32) | K64 \<Rightarrow> n)"

definition SetUint :: "platform \<Rightarrow> ikind \<Rightarrow> u64 \<Rightarrow> rv" where
  "SetUint P k n = VUint
     (case k of
        KInt \<Rightarrow> take_bit (p_intBits P) n
      | K8 \<Rightarrow> ucast (ucast n :: byte) | K16 \<Rightarrow> ucast (ucast n :: u16) | K32 \<Rightarrow> ucast (ucast n :: u32) | K64 \<Rightarrow> n)"

text \<open>\<^verbatim>\<open>SetFloat(float64(f))\<close> on a \<^verbatim>\<open>float32\<close>: both conversions are exact, a NaN is quieted.\<close>

definition f32_NaN :: "u32 \<Rightarrow> bool" where
  "f32_NaN f \<longleftrightarrow> take_bit 31 f > 0x7f800000"

definition SetFloat32 :: "u32 \<Rightarrow> rv" where
  "SetFloat32 f = VFloat32 (if f32_NaN f then f OR 0x00400000 else f)"

section \<open>Interface contents\<close>

text \<open>The dynamic type and the value of what \<open>decodeInterfaceCond\<close> returns; nil has none.\<close>

definition new_slice :: "'a list \<Rightarrow> 'a slice" where
  "new_slice xs = \<lparr>sl_arr = xs, sl_len = length xs\<rparr>"

fun of_gval :: "gval \<Rightarrow> (gtype \<times> rv) option" where
  "of_gval GNil = None"
| "of_gval (GBool b) = Some (TBool, VBool b)"
| "of_gval (GInt n) = Some (TInt KInt, VInt n)"
| "of_gval (GInt8 n) = Some (TInt K8, VInt (scast n))"
| "of_gval (GInt16 n) = Some (TInt K16, VInt (scast n))"
| "of_gval (GInt32 n) = Some (TInt K32, VInt (scast n))"
| "of_gval (GInt64 n) = Some (TInt K64, VInt n)"
| "of_gval (GUint n) = Some (TUint KInt, VUint n)"
| "of_gval (GUint8 n) = Some (TUint K8, VUint (ucast n))"
| "of_gval (GUint16 n) = Some (TUint K16, VUint (ucast n))"
| "of_gval (GUint32 n) = Some (TUint K32, VUint (ucast n))"
| "of_gval (GUint64 n) = Some (TUint K64, VUint n)"
| "of_gval (GFloat32 f) = Some (TFloat32, VFloat32 f)"
| "of_gval (GFloat64 f) = Some (TFloat64, VFloat64 f)"
| "of_gval (GString s) = Some (TString, VString s)"
| "of_gval (GBytes b) = Some (TBytes, VBytes (map_option new_slice b))"
| "of_gval (GSlice s) = Some (TSlice (TIface False), VSlice (map_option (\<lambda>xs. (map (\<lambda>x. VIface (of_gval x)) xs, length xs)) s))"
| "of_gval (GMapSI m) = Some (TMapSI, VMapSI m)"
| "of_gval (GMap m) = Some (TMap (TIface False) (TIface False),
     VMap (map_option (map (\<lambda>kv. (VIface (of_gval (fst kv)), VIface (of_gval (snd kv))))) m))"
| "of_gval (GTime t) = Some (TTime, VTime t)"
| "of_gval _ = Some (TUnsupported, VUnsupported)"

section \<open>Map keys\<close>

text \<open>\<^verbatim>\<open>Type.Comparable()\<close>\<close>

primrec type_Comparable :: "gtype \<Rightarrow> bool" where
  "type_Comparable TBool = True"
| "type_Comparable (TInt k) = True"
| "type_Comparable (TUint k) = True"
| "type_Comparable TFloat32 = True"
| "type_Comparable TFloat64 = True"
| "type_Comparable TString = True"
| "type_Comparable TBytes = False"
| "type_Comparable (TByteArray n) = True"
| "type_Comparable TStrings = False"
| "type_Comparable (TSlice t) = False"
| "type_Comparable (TArray n t) = type_Comparable t"
| "type_Comparable TMapSS = False"
| "type_Comparable TMapSI = False"
| "type_Comparable (TMap k t) = False"
| "type_Comparable (TPtr t) = True"
| "type_Comparable (TStruct ts fs m) = list_all id (map type_Comparable ts)"
| "type_Comparable (TIface e) = True"
| "type_Comparable TTime = True"
| "type_Comparable (TNamed i t) = type_Comparable t"
| "type_Comparable TUnsupported = False"

text \<open>A key can be hashed unless an interface in it holds something that is not comparable.\<close>

fun hashable :: "rv \<Rightarrow> bool" where
  "hashable (VIface None) = True"
| "hashable (VIface (Some (t, v))) = (type_Comparable t \<and> hashable v)"
| "hashable (VArray vs) = list_all hashable vs"
| "hashable (VStruct vs) = list_all hashable vs"
| "hashable _ = True"

text \<open>
  \<^verbatim>\<open>==\<close> on keys: floats numerically, pointers by identity (two distinct parts of a destination are
  the same pointer only when both are nil).
\<close>

fun rv_eq :: "rv \<Rightarrow> rv \<Rightarrow> bool" where
  "rv_eq a b =
     (case a of
        VFloat32 x \<Rightarrow> (case b of VFloat32 y \<Rightarrow> f32_eq x y | _ \<Rightarrow> False)
      | VFloat64 x \<Rightarrow> (case b of VFloat64 y \<Rightarrow> f64_eq x y | _ \<Rightarrow> False)
      | VPtr p \<Rightarrow> p = None \<and> b = VPtr None
      | VArray xs \<Rightarrow> (case b of VArray ys \<Rightarrow> list_all2 rv_eq xs ys | _ \<Rightarrow> False)
      | VStruct xs \<Rightarrow> (case b of VStruct ys \<Rightarrow> list_all2 rv_eq xs ys | _ \<Rightarrow> False)
      | VIface (Some (t, x)) \<Rightarrow> (case b of VIface (Some (u, y)) \<Rightarrow> t = u \<and> rv_eq x y | _ \<Rightarrow> False)
      | _ \<Rightarrow> a = b)"

declare rv_eq.simps [simp del]

end
