(* ===== verification/Decode_Value.thy ===== *)
theory Decode_Value
  imports Reflect
begin

text \<open>
  Typed decoding: \<open>DecodeValue\<close> and the decoder functions \<open>getDecoder\<close> picks by type, from
  \<^verbatim>\<open>decode_value.go\<close>, \<^verbatim>\<open>decode_slice.go\<close>, \<^verbatim>\<open>decode_map.go\<close>, \<^verbatim>\<open>decode_number.go\<close>, \<^verbatim>\<open>decode_string.go\<close>,
  \<^verbatim>\<open>intern.go\<close> and \<^verbatim>\<open>types.go\<close>. A decoder function gets the current contents of its destination and
  whether it is addressable, and returns the new contents; assigning to a destination that is not
  addressable is the panic of \<^verbatim>\<open>reflect\<close>. What a destination holds after an error is not modelled.
\<close>

type_synonym dfun = "bool \<Rightarrow> rv \<Rightarrow> (decoder, rv) go"

definition unaddressable :: go_error where
  "unaddressable = Panic ''reflect: unaddressable value''"

definition mismatch :: go_error where
  "mismatch = Panic ''reflect: wrong kind''"

definition set_rv :: "bool \<Rightarrow> rv \<Rightarrow> (decoder, rv) go" where
  "set_rv s v = (if s then ret v else fail unaddressable)"

section \<open>Scalars\<close>

definition decodeBoolValue :: dfun where
  "decodeBoolValue s v = bindE DecodeBool (\<lambda>flag. set_rv s (VBool flag))"

definition decodeInt64Value :: "ikind \<Rightarrow> dfun" where
  "decodeInt64Value k s v =
     bindE DecodeInt64 (\<lambda>n. bindE (getS d_plat) (\<lambda>P. set_rv s (SetInt P k n)))"

definition decodeUint64Value :: "ikind \<Rightarrow> dfun" where
  "decodeUint64Value k s v =
     bindE DecodeUint64 (\<lambda>n. bindE (getS d_plat) (\<lambda>P. set_rv s (SetUint P k n)))"

definition decodeFloat32Value :: dfun where
  "decodeFloat32Value s v = bindE DecodeFloat32 (\<lambda>f. set_rv s (SetFloat32 f))"

definition decodeFloat64Value :: dfun where
  "decodeFloat64Value s v = bindE DecodeFloat64 (\<lambda>f. set_rv s (VFloat64 f))"

definition decodeStringValue :: dfun where
  "decodeStringValue s v = bindE DecodeString (\<lambda>str. set_rv s (VString str))"

definition decodeBytesValue :: dfun where
  "decodeBytesValue s v =
     bindE readCode (\<lambda>c. bindE (dec_bytes c (case v of VBytes b \<Rightarrow> b | _ \<Rightarrow> None)) (\<lambda>b. set_rv s (VBytes b)))"

text \<open>\<^verbatim>\<open>v.Slice(0, n)\<close> panics on an array that is not addressable.\<close>

definition byteArrayValue :: dfun where
  "byteArrayValue s v =
     (case v of
        VByteArray bs \<Rightarrow>
          (if s then bindE (decodeByteArrayValue (length bs)) (\<lambda>b. ret (VByteArray (b @ drop (length b) bs)))
           else bindE readCode (\<lambda>c. bindE (bytesLen c) (\<lambda>n.
             if n = - 1 then ret v
             else if n > int (length bs) then fail (ArrayTooLong (int (length bs)) n)
             else fail unaddressable)))
      | _ \<Rightarrow> fail mismatch)"

definition decodeUnsupportedValue :: dfun where
  "decodeUnsupportedValue s v = fail DecodeUnsupported"

section \<open>Slices and arrays\<close>

definition makeStrings :: "platform \<Rightarrow> gostring slice option \<Rightarrow> nat \<Rightarrow> bool \<Rightarrow> gostring slice" where
  "makeStrings P s n noLimit =
     (let n = (if \<not> noLimit \<and> int n > sliceAllocLimit then nat sliceAllocLimit else n)
      in case s of
           None \<Rightarrow> make_slice [] 0 n
         | Some s \<Rightarrow>
             if cap s \<ge> n then s\<lparr>sl_len := 0\<rparr>
             else (append_slice (p_grow P) [] (s\<lparr>sl_len := cap s\<rparr>) (replicate (n - cap s) []))\<lparr>sl_len := 0\<rparr>)"

definition decodeStringSlicePtr :: "gostring slice option \<Rightarrow> (decoder, gostring slice option) go" where
  "decodeStringSlicePtr ptr =
     bindE DecodeArrayLen (\<lambda>n.
       if n = - 1 then ret ptr
       else bindE (getS d_plat) (\<lambda>P. bindE (dec_flag disableAllocLimitFlag) (\<lambda>noLimit.
         bindE (foldE (nat n) (\<lambda>ss. bindE DecodeString (\<lambda>s. ret (append_slice (p_grow P) [] ss [s])))
            (makeStrings P ptr (nat n) noLimit)) (\<lambda>ss. ret (Some ss)))))"

definition decodeStringSliceValue :: dfun where
  "decodeStringSliceValue s v =
     (if \<not> s then fail unaddressable
      else case v of VStrings ptr \<Rightarrow> bindE (decodeStringSlicePtr ptr) (\<lambda>p. ret (VStrings p)) | _ \<Rightarrow> fail mismatch)"

definition growSliceValue :: "platform \<Rightarrow> gtype \<Rightarrow> rv list \<times> nat \<Rightarrow> nat \<Rightarrow> bool \<Rightarrow> rv list \<times> nat" where
  "growSliceValue P t v n noLimit =
     (let diff = n - snd v;
          diff = (if \<not> noLimit \<and> int diff > sliceAllocLimit then nat sliceAllocLimit else diff);
          s = append_slice (p_grow P) (zero_rv t) \<lparr>sl_arr = fst v, sl_len = snd v\<rparr> (replicate diff (zero_rv t))
      in (sl_arr s, sl_len s))"

text \<open>In the following \<open>rec (t, s, v)\<close> is \<open>DecodeValue\<close> on a destination of type \<open>t\<close>.\<close>

definition slice_elem ::
  "(gtype \<times> bool \<times> rv \<Rightarrow> (decoder, rv) go) \<Rightarrow> gtype \<Rightarrow> bool \<Rightarrow> platform \<Rightarrow> nat \<Rightarrow> bool \<Rightarrow> nat \<Rightarrow>
    rv list \<times> nat \<Rightarrow> (decoder, rv list \<times> nat) go" where
  "slice_elem rec t s P n noLimit i v =
     (if i \<ge> snd v \<and> \<not> s then fail unaddressable
      else let v = (if i \<ge> snd v then growSliceValue P t v n noLimit else v)
           in bindE (rec (t, True, fst v ! i)) (\<lambda>x. ret ((fst v)[i := x], snd v)))"

definition decodeSliceValue :: "(gtype \<times> bool \<times> rv \<Rightarrow> (decoder, rv) go) \<Rightarrow> gtype \<Rightarrow> dfun" where
  "decodeSliceValue rec t s v =
     (case v of
        VSlice sl \<Rightarrow>
          bindE DecodeArrayLen (\<lambda>n.
            if n = - 1 then set_rv s (VSlice None)
            else if n = 0 \<and> sl = None then set_rv s (VSlice (Some ([], 0)))
            else
              let (arr, len) = (case sl of None \<Rightarrow> ([], 0) | Some x \<Rightarrow> x); m = nat n;
                  reslice = (length arr \<ge> m \<or> len < length arr);
                  len = (if length arr \<ge> m then m else length arr)
              in if reslice \<and> \<not> s then fail unaddressable
                 else bindE (getS d_plat) (\<lambda>P. bindE (dec_flag disableAllocLimitFlag) (\<lambda>noLimit.
                   if noLimit \<and> m > len \<and> \<not> s then fail unaddressable
                   else let st = (if noLimit \<and> m > len then growSliceValue P t (arr, len) m noLimit else (arr, len))
                        in bindE (foldlE (slice_elem rec t s P m noLimit) [0..<m] st) (\<lambda>st. ret (VSlice (Some st))))))
      | _ \<Rightarrow> fail mismatch)"

definition decodeArrayValue :: "(gtype \<times> bool \<times> rv \<Rightarrow> (decoder, rv) go) \<Rightarrow> gtype \<Rightarrow> dfun" where
  "decodeArrayValue rec t s v =
     (case v of
        VArray vs \<Rightarrow>
          bindE DecodeArrayLen (\<lambda>n.
            if n = - 1 then ret v
            else if n > int (length vs) then fail (ArrayTooLong (int (length vs)) n)
            else bindE (foldlE (\<lambda>i vs. bindE (rec (t, s, vs ! i)) (\<lambda>x. ret (vs[i := x]))) [0..<nat n] vs)
              (\<lambda>vs. ret (VArray vs)))
      | _ \<Rightarrow> fail mismatch)"

section \<open>Maps\<close>

definition decodeMapStringStringPtr ::
  "(gostring \<times> gostring) list option \<Rightarrow> (decoder, (gostring \<times> gostring) list option) go" where
  "decodeMapStringStringPtr ptr =
     bindE DecodeMapLen (\<lambda>size.
       if size = - 1 then ret None
       else bindE (foldE (nat size) (\<lambda>m.
              bindE DecodeString (\<lambda>mk. bindE DecodeString (\<lambda>mv. ret (map_set (=) mk mv m))))
              (case ptr of None \<Rightarrow> [] | Some m \<Rightarrow> m)) (\<lambda>m. ret (Some m)))"

definition decodeMapStringStringValue :: dfun where
  "decodeMapStringStringValue s v =
     (if \<not> s then fail unaddressable
      else case v of VMapSS m \<Rightarrow> bindE (decodeMapStringStringPtr m) (\<lambda>m. ret (VMapSS m)) | _ \<Rightarrow> fail mismatch)"

definition decodeMapStringInterfacePtr :: "denv \<Rightarrow> (decoder, (gostring \<times> gval) list option) go" where
  "decodeMapStringInterfacePtr env = DecodeMap (decodeInterfaceCond env)"

definition decodeMapStringInterfaceValue :: "denv \<Rightarrow> dfun" where
  "decodeMapStringInterfaceValue env s v =
     (if \<not> s then fail unaddressable
      else bindE (decodeMapStringInterfacePtr env) (\<lambda>m. ret (VMapSI m)))"

text \<open>Keys of an interface type: bin keys become strings, unhashable ones are rejected.\<close>

definition interface_key :: "gtype \<Rightarrow> rv \<Rightarrow> (decoder, rv) go" where
  "interface_key kt mk =
     (case kt of
        TIface e \<Rightarrow>
          (case mk of
             VIface (Some (t, x)) \<Rightarrow>
               if t = TBytes then
                 (if e then fail mismatch
                  else ret (VIface (Some (TString, VString (case x of VBytes (Some b) \<Rightarrow> vis b | _ \<Rightarrow> [])))))
               else if \<not> type_Comparable t then fail UnhashableKey
               else ret mk
           | _ \<Rightarrow> ret mk)
      | _ \<Rightarrow> ret mk)"

definition decodeTypedMapValue ::
  "(gtype \<times> bool \<times> rv \<Rightarrow> (decoder, rv) go) \<Rightarrow> gtype \<Rightarrow> gtype \<Rightarrow> (rv \<times> rv) list \<Rightarrow> nat \<Rightarrow> (decoder, (rv \<times> rv) list) go" where
  "decodeTypedMapValue rec kt vt m n =
     foldE n (\<lambda>m.
       bindE (rec (kt, True, zero_rv kt)) (\<lambda>mk. bindE (interface_key kt mk) (\<lambda>mk.
         bindE (rec (vt, True, zero_rv vt)) (\<lambda>mv.
           if hashable mk then ret (map_set rv_eq mk mv m)
           else fail (Panic ''hash of unhashable type''))))) m"

definition decodeMapValue :: "(gtype \<times> bool \<times> rv \<Rightarrow> (decoder, rv) go) \<Rightarrow> gtype \<Rightarrow> gtype \<Rightarrow> dfun" where
  "decodeMapValue rec kt vt s v =
     (case v of
        VMap m \<Rightarrow>
          bindE DecodeMapLen (\<lambda>n.
            if n = - 1 then set_rv s (VMap None)
            else if m = None \<and> \<not> s then fail unaddressable
            else if n = 0 then ret (VMap (Some (case m of None \<Rightarrow> [] | Some kvs \<Rightarrow> kvs)))
            else bindE (decodeTypedMapValue rec kt vt (case m of None \<Rightarrow> [] | Some kvs \<Rightarrow> kvs) (nat n))
              (\<lambda>m. ret (VMap (Some m))))
      | _ \<Rightarrow> fail mismatch)"

section \<open>Pointers, interfaces and times\<close>

definition ptrValueDecoder :: "gtype \<Rightarrow> dfun \<Rightarrow> dfun" where
  "ptrValueDecoder t dec s v =
     bindE hasNilCode (\<lambda>nil.
       case v of
         VPtr p \<Rightarrow>
           (if nil then
              (if p \<noteq> None \<and> \<not> s then fail unaddressable else bindE DecodeNil_m (\<lambda>_. ret (VPtr None)))
            else (case p of
                    None \<Rightarrow> if \<not> s then fail unaddressable
                            else bindE (dec True (zero_rv t)) (\<lambda>x. ret (VPtr (Some x)))
                  | Some x \<Rightarrow> bindE (dec True x) (\<lambda>x. ret (VPtr (Some x)))))
       | _ \<Rightarrow> fail mismatch)"

text \<open>\<open>interfaceValue\<close>: for the type \<^verbatim>\<open>error\<close> a string becomes \<^verbatim>\<open>errors.New(s)\<close>, a pointer to a one-field struct.\<close>

definition errors_New :: "gostring \<Rightarrow> gtype \<times> rv" where
  "errors_New s = (TPtr (TStruct [TString] [] []), VPtr (Some (VStruct [VString s])))"

definition interfaceValue :: "denv \<Rightarrow> bool \<Rightarrow> dfun" where
  "interfaceValue env e s v =
     bindE (decodeInterfaceCond env) (\<lambda>vv.
       case of_gval vv of
         None \<Rightarrow> ret v
       | Some (t, x) \<Rightarrow>
           if e then (case x of VString str \<Rightarrow> set_rv s (VIface (Some (errors_New str))) | _ \<Rightarrow> fail mismatch)
           else set_rv s (VIface (Some (t, x))))"

definition decodeInterfaceValue :: "denv \<Rightarrow> (gtype \<times> bool \<times> rv \<Rightarrow> (decoder, rv) go) \<Rightarrow> bool \<Rightarrow> dfun" where
  "decodeInterfaceValue env rec e s v =
     (case v of
        VIface None \<Rightarrow> interfaceValue env e s v
      | VIface (Some (t, x)) \<Rightarrow> bindE (rec (t, False, x)) (\<lambda>x. ret (VIface (Some (t, x))))
      | _ \<Rightarrow> fail mismatch)"

definition decodeInternedStringValue :: dfun where
  "decodeInternedStringValue s v = bindE (decodeInternedString True) (\<lambda>str. set_rv s (VString str))"

definition decodeInternedInterfaceValue :: "denv \<Rightarrow> (gtype \<times> bool \<times> rv \<Rightarrow> (decoder, rv) go) \<Rightarrow> bool \<Rightarrow> dfun" where
  "decodeInternedInterfaceValue env rec e s v =
     tryE (decodeInternedString True)
       (\<lambda>str. if e then fail mismatch else set_rv s (VIface (Some (TString, VString str))))
       (\<lambda>err. case err of
          UnexpectedCode _ _ \<Rightarrow> bindE dec_UnreadByte (\<lambda>_. decodeInterfaceValue env rec e s v)
        | _ \<Rightarrow> fail err)"

section \<open>Nil and extensions\<close>

text \<open>
  \<open>nilAwareDecoder\<close> and \<open>decodeNilValue\<close> on a value of underlying type \<open>u\<close> that is decoded in place. On a
  type that has no nil, \<^verbatim>\<open>v.IsNil()\<close> panics; on a nil value of a type that has, what is set is a pointer to
  a new element, which only a pointer type can hold (an interface type has no element type).
\<close>

definition nil_struct :: go_error where
  "nil_struct = Panic ''reflect: call of IsNil on struct''"

definition not_assignable :: go_error where
  "not_assignable = Panic ''reflect.Set: value is not assignable to type''"

definition no_elem :: go_error where
  "no_elem = Panic ''reflect: Elem of invalid type''"

definition decodeNilValue_in :: "gtype \<Rightarrow> dfun" where
  "decodeNilValue_in u s v =
     (if \<not> nilable u then tryE DecodeNil_m (\<lambda>_. fail nil_struct) (\<lambda>_. fail nil_struct)
      else bindE DecodeNil_m (\<lambda>_.
        if rv_IsNil v then ret v
        else case u of TPtr t \<Rightarrow> ret (VPtr (Some (zero_rv t))) | _ \<Rightarrow> set_rv s (zero_rv u)))"

definition nilAwareValue :: "gtype \<Rightarrow> dfun \<Rightarrow> dfun" where
  "nilAwareValue u fn s v =
     bindE hasNilCode (\<lambda>nil.
       if nil then decodeNilValue_in u s v
       else if nilable u \<and> rv_IsNil v then
         (case u of
            TPtr t \<Rightarrow> if s then fn s (VPtr (Some (zero_rv t))) else fail unaddressable
          | TIface e \<Rightarrow> fail no_elem
          | _ \<Rightarrow> if s then fail not_assignable else fail unaddressable)
       else fn s v)"

definition makeExtDecoder :: "byte \<Rightarrow> (int \<Rightarrow> (decoder, 'a) go) \<Rightarrow> (decoder, 'a) go" where
  "makeExtDecoder wantedExtID decoder =
     bindE DecodeExtHeader (\<lambda>(extID, extLen).
       if extID \<noteq> wantedExtID then fail (WrongExtType extID wantedExtID) else decoder extLen)"

text \<open>The decoder that the package registers for \<^verbatim>\<open>time.Time\<close>.\<close>

definition timeValueDecoder :: dfun where
  "timeValueDecoder =
     nilAwareValue TTime (\<lambda>s v.
       makeExtDecoder timeExtID (\<lambda>extLen. bindE (timeDecoder extLen) (\<lambda>tm. set_rv s (VTime tm))))"

lemma timeValueDecoder_run:
  "timeValueDecoder s v =
     bindE hasNilCode (\<lambda>nil.
       if nil then tryE DecodeNil_m (\<lambda>_. fail nil_struct) (\<lambda>_. fail nil_struct)
       else bindE DecodeExtHeader (\<lambda>(extID, extLen).
         if extID \<noteq> timeExtID then fail (WrongExtType extID timeExtID)
         else bindE (timeDecoder extLen) (\<lambda>tm. set_rv s (VTime tm))))"
  by (simp add: timeValueDecoder_def nilAwareValue_def decodeNilValue_in_def makeExtDecoder_def nilable_def underlying_def cong: if_cong)

section \<open>Types with methods of their own\<close>

text \<open>
  The decoding methods of the program's types are parameters: \<open>DecodeMsgpack\<close> gets the decoder and may
  call \<open>DecodeValue\<close> on it, the others get bytes. Each gets the value its receiver points to and
  returns the new one. A method with a value receiver (\<open>t_valueRecv\<close>) gets a copy: what it returns is the
  value with the changes that are visible through it, those in maps and slices it shares.
  \<open>t_elemCached i\<close> says whether the decoder of the \<open>i\<close>-th type was in
  \<open>typeDecMap\<close> when the one of its pointer type was made; from then on the latter stays the same.
\<close>

datatype umethod =
    DecodeMsgpack "(gtype \<times> bool \<times> rv \<Rightarrow> (decoder, rv) go) \<Rightarrow> rv \<Rightarrow> (decoder, rv) go"
  | UnmarshalMsgpack "byte list \<Rightarrow> rv \<Rightarrow> go_error + rv"
  | UnmarshalBinary "byte list \<Rightarrow> rv \<Rightarrow> go_error + rv"
  | UnmarshalText "byte list \<Rightarrow> rv \<Rightarrow> go_error + rv"

text \<open>
  What a program registers for its \<open>i\<close>-th type \<open>T\<close>: a decoder of its own for \<open>T\<close> (\<open>Register\<close>), or the
  decoder of an extension for \<open>T\<close> or for \<open>*T\<close> (\<open>RegisterExtDecoder\<close>). The decoder of an extension gets the
  length of the payload.
\<close>

datatype registration =
    Registered "(gtype \<times> bool \<times> rv \<Rightarrow> (decoder, rv) go) \<Rightarrow> dfun"
  | RegisteredExt byte "(gtype \<times> bool \<times> rv \<Rightarrow> (decoder, rv) go) \<Rightarrow> int \<Rightarrow> dfun"
  | RegisteredExtPtr byte "(gtype \<times> bool \<times> rv \<Rightarrow> (decoder, rv) go) \<Rightarrow> int \<Rightarrow> rv \<Rightarrow> (decoder, rv) go"

record tenv =
  t_env :: denv
  t_method :: "nat \<Rightarrow> umethod"
  t_valueRecv :: "nat \<Rightarrow> bool"
  t_elemCached :: "nat \<Rightarrow> bool"
  t_registered :: "nat \<Rightarrow> registration option"

definition liftE :: "go_error + 'a \<Rightarrow> (decoder, 'a) go" where
  "liftE r = (case r of Inl err \<Rightarrow> fail err | Inr x \<Rightarrow> ret x)"

definition unmarshalValue :: "(byte list \<Rightarrow> rv \<Rightarrow> go_error + rv) \<Rightarrow> rv \<Rightarrow> (decoder, rv) go" where
  "unmarshalValue f v =
     bindE (modS (\<lambda>d. d\<lparr>d_rec := Some (make_slice 0 0 64)\<rparr>)) (\<lambda>_.
       deferE (\<lambda>d. d\<lparr>d_rec := None\<rparr>)
         (bindE Skip (\<lambda>_. bindE (getS d_rec) (\<lambda>b. liftE (f (case b of None \<Rightarrow> [] | Some b \<Rightarrow> vis b) v)))))"

definition unmarshalBinaryValue :: "(byte list \<Rightarrow> rv \<Rightarrow> go_error + rv) \<Rightarrow> rv \<Rightarrow> (decoder, rv) go" where
  "unmarshalBinaryValue f v =
     bindE DecodeBytes (\<lambda>data. liftE (f (case data of None \<Rightarrow> [] | Some b \<Rightarrow> vis b) v))"

definition unmarshalTextValue :: "(byte list \<Rightarrow> rv \<Rightarrow> go_error + rv) \<Rightarrow> rv \<Rightarrow> (decoder, rv) go" where
  "unmarshalTextValue f v =
     bindE DecodeBytes (\<lambda>data. liftE (f (case data of None \<Rightarrow> [] | Some b \<Rightarrow> vis b) v))"

definition decodeCustomValue ::
  "((gtype \<times> bool \<times> rv \<Rightarrow> (decoder, rv) go) \<Rightarrow> rv \<Rightarrow> (decoder, rv) go) \<Rightarrow>
    (gtype \<times> bool \<times> rv \<Rightarrow> (decoder, rv) go) \<Rightarrow> rv \<Rightarrow> (decoder, rv) go" where
  "decodeCustomValue f rec v = f rec v"

definition call_method ::
  "umethod \<Rightarrow> (gtype \<times> bool \<times> rv \<Rightarrow> (decoder, rv) go) \<Rightarrow> rv \<Rightarrow> (decoder, rv) go" where
  "call_method m rec v =
     (case m of
        DecodeMsgpack f \<Rightarrow> decodeCustomValue f rec v
      | UnmarshalMsgpack f \<Rightarrow> unmarshalValue f v
      | UnmarshalBinary f \<Rightarrow> unmarshalBinaryValue f v
      | UnmarshalText f \<Rightarrow> unmarshalTextValue f v)"

text \<open>
  \<open>decodeNilValue\<close> and \<open>nilAwareDecoder\<close> on a pointer: nil is read, a pointer that is not nil has
  what it points to set to the zero value of \<open>t\<close>.
\<close>

definition decodeNilValue :: "gtype \<Rightarrow> rv option \<Rightarrow> (decoder, rv option) go" where
  "decodeNilValue t p =
     bindE DecodeNil_m (\<lambda>_. ret (case p of None \<Rightarrow> None | Some x \<Rightarrow> Some (zero_rv t)))"

definition nilAwareDecoder :: "gtype \<Rightarrow> (rv \<Rightarrow> (decoder, rv) go) \<Rightarrow> bool \<Rightarrow> rv option \<Rightarrow> (decoder, rv option) go" where
  "nilAwareDecoder t fn s p =
     bindE hasNilCode (\<lambda>nil.
       if nil then decodeNilValue t p
       else (case p of
               None \<Rightarrow> if s then bindE (fn (zero_rv t)) (\<lambda>x. ret (Some x)) else fail unaddressable
             | Some x \<Rightarrow> bindE (fn x) (\<lambda>x. ret (Some x))))"

definition addrDecoder :: "(bool \<Rightarrow> rv option \<Rightarrow> (decoder, rv option) go) \<Rightarrow> dfun" where
  "addrDecoder fn s v =
     (if \<not> s then fail DecodeNonAddressable
      else bindE (fn False (Some v)) (\<lambda>p. ret (case p of Some x \<Rightarrow> x | None \<Rightarrow> v)))"

definition makeExtDecoderAddr :: "(bool \<Rightarrow> rv option \<Rightarrow> (decoder, rv option) go) \<Rightarrow> dfun" where
  "makeExtDecoderAddr extDecoder s v =
     (if \<not> s then fail DecodeExtNonAddressable
      else bindE (extDecoder False (Some v)) (\<lambda>p. ret (case p of Some x \<Rightarrow> x | None \<Rightarrow> v)))"

definition namedPtrDecoder :: "gtype \<Rightarrow> (rv \<Rightarrow> (decoder, rv) go) \<Rightarrow> dfun" where
  "namedPtrDecoder t fn s v =
     (case v of VPtr p \<Rightarrow> bindE (nilAwareDecoder t fn s p) (\<lambda>p. ret (VPtr p)) | _ \<Rightarrow> fail mismatch)"

text \<open>
  The decoders of the program's \<open>i\<close>-th type, of underlying type \<open>u\<close>, and of pointers to it; \<open>elem\<close> is the
  decoder of the type itself. What is registered for a type is found before its methods are looked at.
\<close>

definition namedDecoder ::
  "tenv \<Rightarrow> (gtype \<times> bool \<times> rv \<Rightarrow> (decoder, rv) go) \<Rightarrow> nat \<Rightarrow> gtype \<Rightarrow> dfun" where
  "namedDecoder env rec i u =
     (case t_registered env i of
        Some (Registered f) \<Rightarrow> f rec
      | Some (RegisteredExt extID f) \<Rightarrow> nilAwareValue u (\<lambda>s v. makeExtDecoder extID (\<lambda>extLen. f rec extLen s v))
      | Some (RegisteredExtPtr extID f) \<Rightarrow>
          makeExtDecoderAddr (nilAwareDecoder u (\<lambda>v. makeExtDecoder extID (\<lambda>extLen. f rec extLen v)))
      | None \<Rightarrow>
          if t_valueRecv env i then nilAwareValue u (\<lambda>s. call_method (t_method env i) rec)
          else addrDecoder (nilAwareDecoder u (call_method (t_method env i) rec)))"

definition ptrToNamedDecoder ::
  "tenv \<Rightarrow> (gtype \<times> bool \<times> rv \<Rightarrow> (decoder, rv) go) \<Rightarrow> nat \<Rightarrow> gtype \<Rightarrow> dfun \<Rightarrow> dfun" where
  "ptrToNamedDecoder env rec i u elem =
     (case t_registered env i of
        Some (RegisteredExtPtr extID f) \<Rightarrow>
          namedPtrDecoder u (\<lambda>v. makeExtDecoder extID (\<lambda>extLen. f rec extLen v))
      | Some _ \<Rightarrow> ptrValueDecoder (TNamed i u) elem
      | None \<Rightarrow>
          if t_elemCached env i then ptrValueDecoder (TNamed i u) elem
          else namedPtrDecoder u (call_method (t_method env i) rec))"

text \<open>\<open>RawMessage\<close> of \<^verbatim>\<open>msgpack.go\<close>: its \<open>DecodeMsgpack\<close>, and the environment of a program with no other such type.\<close>

definition RawMessage_DecodeMsgpack ::
  "(gtype \<times> bool \<times> rv \<Rightarrow> (decoder, rv) go) \<Rightarrow> rv \<Rightarrow> (decoder, rv) go" where
  "RawMessage_DecodeMsgpack rec v = bindE DecodeRaw (\<lambda>msg. ret (VBytes (map_option new_slice msg)))"

definition RawMessage :: gtype where
  "RawMessage = TNamed 0 TBytes"

definition package_tenv :: "bool \<Rightarrow> tenv" where
  "package_tenv c =
     \<lparr>t_env = package_env, t_method = (\<lambda>_. DecodeMsgpack RawMessage_DecodeMsgpack),
      t_valueRecv = (\<lambda>_. False), t_elemCached = (\<lambda>_. c), t_registered = (\<lambda>_. None)\<rparr>"

section \<open>Structs\<close>

text \<open>The type at an index path, through embedded structs and pointers to structs.\<close>

primrec type_at :: "nat list \<Rightarrow> gtype \<Rightarrow> gtype option" where
  "type_at [] t = None"
| "type_at (i # p) t =
     (case underlying t of
        TStruct ts fs m \<Rightarrow>
          if i < length ts then
            (if p = [] then Some (ts ! i)
             else type_at p (case ts ! i of TPtr u \<Rightarrow> u | u \<Rightarrow> u))
          else None
      | _ \<Rightarrow> None)"

text \<open>
  A step of \<open>fieldByIndexAlloc\<close> into an embedded struct (\<open>indirectNil\<close>): a nil pointer is allocated.
  The result is where the path goes on and how the embedding value is updated.
\<close>

definition indirectNil :: "gtype \<Rightarrow> bool \<Rightarrow> rv \<Rightarrow> go_error + gtype \<times> bool \<times> rv \<times> (rv \<Rightarrow> rv)" where
  "indirectNil t s v =
     (case t of
        TPtr u \<Rightarrow>
          (case v of
             VPtr None \<Rightarrow>
               (case underlying u of
                  TStruct _ _ _ \<Rightarrow> if s then Inr (u, True, zero_rv u, \<lambda>x. VPtr (Some x)) else Inl unaddressable
                | _ \<Rightarrow> Inl mismatch)
           | VPtr (Some x) \<Rightarrow> Inr (u, True, x, \<lambda>x. VPtr (Some x))
           | _ \<Rightarrow> Inl mismatch)
      | _ \<Rightarrow> Inr (t, s, v, \<lambda>x. x))"

text \<open>\<open>field.DecodeValue\<close>: the field's decoder runs on what \<open>fieldByIndexAlloc\<close> reaches.\<close>

primrec field_DecodeValue :: "nat list \<Rightarrow> gtype \<Rightarrow> dfun \<Rightarrow> dfun" where
  "field_DecodeValue [] t dec s v = fail mismatch"
| "field_DecodeValue (i # p) t dec s v =
     (case underlying t of
        TStruct ts fs m \<Rightarrow>
          (case v of
             VStruct vs \<Rightarrow>
               if p = [] then bindE (dec s (vs ! i)) (\<lambda>x. ret (VStruct (vs[i := x])))
               else
                 (case indirectNil (ts ! i) s (vs ! i) of
                    Inl err \<Rightarrow> fail err
                  | Inr (u, s', x, put) \<Rightarrow>
                      bindE (field_DecodeValue p u dec s' x) (\<lambda>x. ret (VStruct (vs[i := put x]))))
           | _ \<Rightarrow> fail mismatch)
      | _ \<Rightarrow> fail mismatch)"

text \<open>\<open>dec f\<close> is the decoder of the field \<open>f\<close>, \<open>fs\<close> is \<open>fields.List\<close> and \<open>fmap\<close> is \<open>fields.Map\<close>.\<close>

definition decodeStruct ::
  "gtype \<Rightarrow> (fdesc \<Rightarrow> dfun) \<Rightarrow> (gostring \<times> fdesc) list \<Rightarrow> bool \<Rightarrow> rv \<Rightarrow> int \<Rightarrow> (decoder, rv) go" where
  "decodeStruct t dec fmap s v n =
     (if n = - 1 then set_rv s (zero_rv t)
      else foldE (nat n) (\<lambda>v.
        bindE decodeStringTemp (\<lambda>name.
          case map_of fmap name of
            Some f \<Rightarrow> field_DecodeValue (fst (snd f)) t (dec f) s v
          | None \<Rightarrow>
              bindE (dec_flag disallowUnknownFieldsFlag) (\<lambda>disallow.
                if disallow then fail (UnknownField name) else bindE Skip (\<lambda>_. ret v)))) v)"

definition decodeStructValue ::
  "gtype \<Rightarrow> (fdesc \<Rightarrow> dfun) \<Rightarrow> fdesc list \<Rightarrow> (gostring \<times> fdesc) list \<Rightarrow> dfun" where
  "decodeStructValue t dec fs fmap s v =
     bindE readCode (\<lambda>c.
       tryE (mapLen c) (decodeStruct t dec fmap s v)
         (\<lambda>err. tryE (arrayLen c)
            (\<lambda>n. if n \<le> 0 then set_rv s (zero_rv t)
                 else if n \<noteq> int (length fs) then fail ArrayStructChanged
                 else foldlE (\<lambda>f v. field_DecodeValue (fst (snd f)) t (dec f) s v) fs v)
            (\<lambda>_. fail err)))"

section \<open>Decoders by type\<close>

lemma type_at_size: "type_at p t = Some u \<Longrightarrow> size u < size t"
proof (induction p arbitrary: t)
  case (Cons i p)
  then obtain ts fs m where t: "underlying t = TStruct ts fs m" "i < length ts" by (auto split: gtype.splits if_splits)
  have "size (underlying t) \<le> size t" by (simp add: underlying_def split: gtype.split)
  then have i: "size (ts ! i) < size t"
    using size_list_estimation' [of "ts ! i" ts "size (ts ! i)" size] t by (simp add: less_Suc_eq_le)
  show ?case
  proof (cases "p = []")
    case True
    then show ?thesis using Cons.prems t i by simp
  next
    case False
    let ?w = "case ts ! i of TPtr u \<Rightarrow> u | u \<Rightarrow> u"
    have "size u < size ?w" by (rule Cons.IH) (use Cons.prems t False in simp)
    moreover have "size ?w \<le> size (ts ! i)" by (simp split: gtype.split)
    ultimately show ?thesis using i by linarith
  qed
qed simp

function (sequential) getDecoder :: "tenv \<Rightarrow> (gtype \<times> bool \<times> rv \<Rightarrow> (decoder, rv) go) \<Rightarrow> gtype \<Rightarrow> dfun" where
  "getDecoder env rec TBool = decodeBoolValue"
| "getDecoder env rec (TInt k) = decodeInt64Value k"
| "getDecoder env rec (TUint k) = decodeUint64Value k"
| "getDecoder env rec TFloat32 = decodeFloat32Value"
| "getDecoder env rec TFloat64 = decodeFloat64Value"
| "getDecoder env rec TString = decodeStringValue"
| "getDecoder env rec TBytes = decodeBytesValue"
| "getDecoder env rec (TByteArray n) = byteArrayValue"
| "getDecoder env rec TStrings = decodeStringSliceValue"
| "getDecoder env rec (TSlice t) = decodeSliceValue rec t"
| "getDecoder env rec (TArray n t) = decodeArrayValue rec t"
| "getDecoder env rec TMapSS = decodeMapStringStringValue"
| "getDecoder env rec TMapSI = decodeMapStringInterfaceValue (t_env env)"
| "getDecoder env rec (TMap kt vt) = decodeMapValue rec kt vt"
| "getDecoder env rec (TPtr t) =
     (case t of
        TNamed i u \<Rightarrow> ptrToNamedDecoder env rec i u (getDecoder env rec t)
      | _ \<Rightarrow> ptrValueDecoder t (getDecoder env rec t))"
| "getDecoder env rec (TStruct ts fs m) =
     decodeStructValue (TStruct ts fs m)
       (\<lambda>f. case type_at (fst (snd f)) (TStruct ts fs m) of
               None \<Rightarrow> decodeUnsupportedValue
             | Some u \<Rightarrow>
                 if snd (snd f) then
                   (case underlying u of TIface e \<Rightarrow> decodeInternedInterfaceValue (t_env env) rec e
                    | TString \<Rightarrow> decodeInternedStringValue | _ \<Rightarrow> decodeUnsupportedValue)
                 else getDecoder env rec u) fs m"
| "getDecoder env rec (TIface e) = decodeInterfaceValue (t_env env) rec e"
| "getDecoder env rec TTime = timeValueDecoder"
| "getDecoder env rec (TNamed i u) = namedDecoder env rec i u"
| "getDecoder env rec TUnsupported = decodeUnsupportedValue"
  by pat_completeness auto

termination
  by (relation "measure (\<lambda>(env, rec, t). size t)") (auto dest: type_at_size)

primrec DecodeValue_f :: "tenv \<Rightarrow> nat \<Rightarrow> gtype \<times> bool \<times> rv \<Rightarrow> (decoder, rv) go" where
  "DecodeValue_f env 0 x = fail OutOfFuel"
| "DecodeValue_f env (Suc n) x =
     withDepth (getDecoder env (DecodeValue_f env n) (fst x) (fst (snd x)) (snd (snd x)))"

definition DecodeValue :: "tenv \<Rightarrow> gtype \<times> bool \<times> rv \<Rightarrow> (decoder, rv) go" where
  "DecodeValue env x d = DecodeValue_f env (Suc (budget d)) x d"

end
