(* ===== verification/Tag_Parser.thy ===== *)
theory Tag_Parser
  imports Go_Prelude "HOL-Library.AList"
begin

text \<open>
  The parser of struct tags, the vendored package \<^verbatim>\<open>tagparser\<close>: its byte reader
  (\<^verbatim>\<open>internal/parser/parser.go\<close>), the segments of a tag (\<^verbatim>\<open>tagparser.go\<close>) and \<open>Parse\<close>. The scratch buffer
  that segments share is not modelled: each segment starts it empty and keeps a copy of what it put in.
\<close>

section \<open>The byte reader\<close>

record parser =
  ps_b :: gostring
  ps_i :: nat

definition parser_Bytes :: "'a parser_scheme \<Rightarrow> gostring" where
  "parser_Bytes p = drop (ps_i p) (ps_b p)"

definition parser_Valid :: "'a parser_scheme \<Rightarrow> bool" where
  "parser_Valid p \<longleftrightarrow> ps_i p < length (ps_b p)"

definition parser_Advance :: "'a parser_scheme \<Rightarrow> 'a parser_scheme" where
  "parser_Advance p = p\<lparr>ps_i := ps_i p + 1\<rparr>"

definition parser_Read :: "'a parser_scheme \<Rightarrow> byte \<times> 'a parser_scheme" where
  "parser_Read p = (if parser_Valid p then (ps_b p ! ps_i p, parser_Advance p) else (0, p))"

definition parser_Peek :: "'a parser_scheme \<Rightarrow> byte" where
  "parser_Peek p = (if parser_Valid p then ps_b p ! ps_i p else 0)"

definition parser_Skip :: "byte \<Rightarrow> 'a parser_scheme \<Rightarrow> bool \<times> 'a parser_scheme" where
  "parser_Skip c p = (if parser_Peek p = c then (True, parser_Advance p) else (False, p))"

definition parser_SkipBytes :: "gostring \<Rightarrow> 'a parser_scheme \<Rightarrow> bool \<times> 'a parser_scheme" where
  "parser_SkipBytes s p =
     (if length s > length (parser_Bytes p) then (False, p)
      else if take (length s) (parser_Bytes p) \<noteq> s then (False, p)
      else (True, p\<lparr>ps_i := ps_i p + length s\<rparr>))"

definition parser_ReadSep :: "byte \<Rightarrow> 'a parser_scheme \<Rightarrow> (gostring \<times> bool) \<times> 'a parser_scheme" where
  "parser_ReadSep sep p =
     (let b = parser_Bytes p; ind = length (takeWhile (\<lambda>c. c \<noteq> sep) b)
      in if ind = length b then ((b, False), p\<lparr>ps_i := length (ps_b p)\<rparr>)
         else ((take ind b, True), p\<lparr>ps_i := ps_i p + (ind + 1)\<rparr>))"

section \<open>White space\<close>

text \<open>
  \<^verbatim>\<open>strings.TrimSpace\<close>: the characters for which \<^verbatim>\<open>unicode.IsSpace\<close> holds, in UTF-8, are cut off at both
  ends.
\<close>

definition space_runes :: "gostring list" where
  "space_runes =
     [[9], [10], [11], [12], [13], [32], [0xC2, 0x85], [0xC2, 0xA0], [0xE1, 0x9A, 0x80],
      [0xE2, 0x80, 0x80], [0xE2, 0x80, 0x81], [0xE2, 0x80, 0x82], [0xE2, 0x80, 0x83], [0xE2, 0x80, 0x84],
      [0xE2, 0x80, 0x85], [0xE2, 0x80, 0x86], [0xE2, 0x80, 0x87], [0xE2, 0x80, 0x88], [0xE2, 0x80, 0x89],
      [0xE2, 0x80, 0x8A], [0xE2, 0x80, 0xA8], [0xE2, 0x80, 0xA9], [0xE2, 0x80, 0xAF], [0xE2, 0x81, 0x9F],
      [0xE3, 0x80, 0x80]]"

lemma space_runes_nonempty: "w \<in> set space_runes \<Longrightarrow> w \<noteq> []"
  by (auto simp: space_runes_def)

function trimLeft :: "gostring \<Rightarrow> gostring" where
  "trimLeft s = (case find (\<lambda>w. prefix w s) space_runes of None \<Rightarrow> s | Some w \<Rightarrow> trimLeft (drop (length w) s))"
  by pat_completeness auto

termination
proof (relation "measure length")
  fix s w
  assume "find (\<lambda>w. prefix w s) space_runes = Some w"
  then have "w \<in> set space_runes" "prefix w s" by (auto simp: find_Some_iff)
  then show "(drop (length w) s, s) \<in> measure length"
    using space_runes_nonempty [of w] by (auto simp: prefix_def)
qed simp

function trimRight :: "gostring \<Rightarrow> gostring" where
  "trimRight s =
     (case find (\<lambda>w. suffix w s) space_runes of None \<Rightarrow> s | Some w \<Rightarrow> trimRight (take (length s - length w) s))"
  by pat_completeness auto

termination
proof (relation "measure length")
  fix s w
  assume "find (\<lambda>w. suffix w s) space_runes = Some w"
  then have "w \<in> set space_runes" "suffix w s" by (auto simp: find_Some_iff)
  then show "(take (length s - length w) s, s) \<in> measure length"
    using space_runes_nonempty [of w] by (auto simp: suffix_def)
qed simp

declare trimLeft.simps [simp del] trimRight.simps [simp del]

definition TrimSpace :: "gostring \<Rightarrow> gostring" where
  "TrimSpace s = trimRight (trimLeft s)"

section \<open>Tags\<close>

text \<open>A nil map of options and an empty one are read alike.\<close>

record tag =
  tag_name :: gostring
  tag_options :: "(gostring \<times> gostring) list"

definition HasOption :: "tag \<Rightarrow> gostring \<Rightarrow> bool" where
  "HasOption t k \<longleftrightarrow> map_of (tag_options t) k \<noteq> None"

record tagParser = parser +
  tp_Tag :: tag
  tp_hasName :: bool

definition setTagOption :: "gostring \<Rightarrow> gostring \<Rightarrow> tagParser \<Rightarrow> tagParser" where
  "setTagOption key value p =
     (let key = TrimSpace key; value = TrimSpace value; t = tp_Tag p
      in if \<not> tp_hasName p \<and> key = [] then p\<lparr>tp_hasName := True, tp_Tag := t\<lparr>tag_name := value\<rparr>\<rparr>
         else p\<lparr>tp_hasName := True,
                tp_Tag := t\<lparr>tag_options :=
                  (if key = [] then AList.update value [] (tag_options t) else AList.update key value (tag_options t))\<rparr>\<rparr>)"

section \<open>Segments\<close>

text \<open>The bytes with a meaning: comma, colon, quote, backslash and parentheses.\<close>

abbreviation "b_comma \<equiv> (44 :: byte)"
abbreviation "b_colon \<equiv> (58 :: byte)"
abbreviation "b_quote \<equiv> (39 :: byte)"
abbreviation "b_backslash \<equiv> (92 :: byte)"
abbreviation "b_open \<equiv> (40 :: byte)"
abbreviation "b_close \<equiv> (41 :: byte)"
abbreviation "b_space \<equiv> (32 :: byte)"

lemma left_less: "parser_Valid p \<Longrightarrow> length (parser_Bytes (parser_Advance p)) < length (parser_Bytes p)"
  by (auto simp: parser_Valid_def parser_Bytes_def parser_Advance_def)

lemma read_less: "parser_Valid p \<Longrightarrow> length (parser_Bytes (snd (parser_Read p))) < length (parser_Bytes p)"
  by (simp add: parser_Read_def left_less)

lemma read_eq: "parser_Valid p \<Longrightarrow> (c, q) = parser_Read p \<Longrightarrow> length (parser_Bytes q) < length (parser_Bytes p)"
  using read_less [of p] by (metis snd_conv)

definition trailingBackslashes :: "gostring \<Rightarrow> nat" where
  "trailingBackslashes b = length (takeWhile (\<lambda>c. c = b_backslash) (rev b))"

function readBrackets :: "int \<Rightarrow> gostring \<Rightarrow> tagParser \<Rightarrow> gostring \<times> tagParser" where
  "readBrackets lvl b p =
     (if \<not> parser_Valid p then (b, p)
      else case parser_Read p of (c, p) \<Rightarrow>
        if c = b_backslash then
          (if parser_Valid p then (case parser_Read p of (c, p) \<Rightarrow> readBrackets lvl (b @ [c]) p)
           else readBrackets lvl (b @ [c]) p)
        else if c = b_open then readBrackets (lvl + 1) (b @ [c]) p
        else if c = b_close then (if lvl - 1 < 0 then (b @ [c], p) else readBrackets (lvl - 1) (b @ [c]) p)
        else readBrackets lvl (b @ [c]) p)"
  by pat_completeness auto

termination
  by (relation "measure (\<lambda>(lvl, b, p). length (parser_Bytes p))") (auto dest: read_eq, meson less_trans read_eq)

declare readBrackets.simps [simp del]

lemma readBrackets_le: "length (parser_Bytes (snd (readBrackets lvl b p))) \<le> length (parser_Bytes p)"
proof (induction "length (parser_Bytes p)" arbitrary: lvl b p rule: less_induct)
  case less
  show ?case
  proof (cases "parser_Valid p")
    case True
    let ?p = "snd (parser_Read p)"
    have 1: "length (parser_Bytes ?p) < length (parser_Bytes p)" by (rule read_less [OF True])
    have 2: "length (parser_Bytes (snd (readBrackets l x ?p))) \<le> length (parser_Bytes p)" for l x
      using less [OF 1, of l x] 1 by simp
    have 3: "length (parser_Bytes (snd (readBrackets l x (snd (parser_Read ?p))))) \<le> length (parser_Bytes p)"
      if "parser_Valid ?p" for l x
      using less [of "snd (parser_Read ?p)" l x] read_less [OF that] 1 by simp
    show ?thesis
      unfolding readBrackets.simps [of lvl b p] using True 1 2 3 by (simp add: split_beta Let_def)
  qed (simp add: readBrackets.simps)
qed

function parseValue_loop :: "gostring \<Rightarrow> gostring \<Rightarrow> tagParser \<Rightarrow> bool \<times> tagParser" where
  "parseValue_loop key b p =
     (if \<not> parser_Valid p then (False, setTagOption key b p)
      else case parser_Read p of (c, p) \<Rightarrow>
        if c = b_backslash then
          (if parser_Valid p then (case parser_Read p of (c, p) \<Rightarrow> parseValue_loop key (b @ [c]) p)
           else parseValue_loop key (b @ [c]) p)
        else if c = b_open then (case readBrackets 0 (b @ [c]) p of (b, p) \<Rightarrow> parseValue_loop key b p)
        else if c = b_comma then (True, setTagOption key b (snd (parser_Skip b_space p)))
        else parseValue_loop key (b @ [c]) p)"
  by pat_completeness auto

termination
proof (relation "measure (\<lambda>(key, b, p). length (parser_Bytes p))", goal_cases)
  case (2 key b p c q c' q')
  then show ?case using read_eq [of p c q] read_eq [of q c' q'] by simp
next
  case (4 key b p c q b' q')
  from 4(5) have "readBrackets 0 (b @ [c]) q = (b', q')" by (rule sym)
  then show ?case using 4(1-3) readBrackets_le [of 0 "b @ [c]" q] read_eq [of p c q] by simp
qed (auto dest: read_eq)

declare parseValue_loop.simps [simp del]

text \<open>
  A quote after an odd number of backslashes stands for itself and the last of them is dropped.
\<close>

lemma sep_less:
  assumes "parser_Valid p" and "((bb, ok), q) = parser_ReadSep sep p" and ok
  shows "length (parser_Bytes q) < length (parser_Bytes p)"
  using assms by (auto simp: parser_Valid_def parser_ReadSep_def parser_Bytes_def Let_def split: if_splits)

function quoted_loop :: "gostring \<Rightarrow> tagParser \<Rightarrow> gostring \<times> tagParser" where
  "quoted_loop b p =
     (if \<not> parser_Valid p then (b, p)
      else case parser_ReadSep b_quote p of ((bb, ok), q) \<Rightarrow>
        if \<not> ok then (b @ bb, q)
        else if odd (trailingBackslashes bb) then quoted_loop (b @ butlast bb @ [b_quote]) q
        else (b @ bb, q))"
  by pat_completeness auto

termination
  by (relation "measure (\<lambda>(b, p). length (parser_Bytes p))") (auto intro: sep_less)

declare quoted_loop.simps [simp del]

definition parseQuotedValue :: "gostring \<Rightarrow> tagParser \<Rightarrow> bool \<times> tagParser" where
  "parseQuotedValue key p =
     (let (b, p) = quoted_loop [] p; p = setTagOption key b p; (comma, q) = parser_Skip b_comma p
      in (True, if comma then snd (parser_Skip b_space q) else p))"

definition parseValue :: "gostring \<Rightarrow> tagParser \<Rightarrow> bool \<times> tagParser" where
  "parseValue key p =
     (if parser_Peek p = b_quote then parseQuotedValue key (snd (parser_Skip b_quote p))
      else parseValue_loop key [] p)"

function parseKey_loop :: "gostring \<Rightarrow> tagParser \<Rightarrow> bool \<times> tagParser" where
  "parseKey_loop b p =
     (if \<not> parser_Valid p then (False, if b \<noteq> [] then setTagOption [] b p else p)
      else case parser_Read p of (c, p) \<Rightarrow>
        if c = b_comma then (True, setTagOption [] b (snd (parser_Skip b_space p)))
        else if c = b_colon then parseValue b p
        else if c = b_quote then parseQuotedValue [] p
        else parseKey_loop (b @ [c]) p)"
  by pat_completeness auto

termination
  by (relation "measure (\<lambda>(b, p). length (parser_Bytes p))")
    (auto dest: read_eq)

declare parseKey_loop.simps [simp del]

definition parseKey :: "tagParser \<Rightarrow> bool \<times> tagParser" where
  "parseKey = parseKey_loop []"

text \<open>Every segment but the last one takes a byte at least, so the loop over them ends.\<close>

lemma set_Bytes [simp]: "parser_Bytes (setTagOption k v p) = parser_Bytes p"
  by (simp add: setTagOption_def parser_Bytes_def Let_def)

lemma skip_le: "length (parser_Bytes (snd (parser_Skip c p))) \<le> length (parser_Bytes p)"
  by (auto simp: parser_Skip_def parser_Advance_def parser_Bytes_def intro: diff_le_mono2)

lemma quoted_le: "length (parser_Bytes (snd (quoted_loop b p))) \<le> length (parser_Bytes p)"
proof (induction b p rule: quoted_loop.induct)
  case (1 b p)
  obtain bb ok q where r: "parser_ReadSep b_quote p = ((bb, ok), q)" by (metis surj_pair)
  have "length (parser_Bytes q) \<le> length (parser_Bytes p)"
    using r by (auto simp: parser_ReadSep_def parser_Bytes_def Let_def split: if_splits)
  then show ?case
    unfolding quoted_loop.simps [of b p] using 1 [OF _ r [symmetric] refl] r by (cases ok) (auto intro: order_trans)
qed

lemma parseQuotedValue_le: "length (parser_Bytes (snd (parseQuotedValue key p))) \<le> length (parser_Bytes p)"
proof -
  obtain b q where q: "quoted_loop [] p = (b, q)" by (metis surj_pair)
  then have "length (parser_Bytes q) \<le> length (parser_Bytes p)" using quoted_le [of "[]" p] by simp
  moreover obtain c r where r: "parser_Skip b_comma (setTagOption key b q) = (c, r)" by (metis surj_pair)
  then have "length (parser_Bytes r) \<le> length (parser_Bytes q)"
    using skip_le [of b_comma "setTagOption key b q"] by simp
  ultimately show ?thesis
    using skip_le [of b_space r] by (simp add: parseQuotedValue_def q r Let_def)
qed

lemma parseValue_le: "length (parser_Bytes (snd (parseValue key p))) \<le> length (parser_Bytes p)"
proof -
  have "length (parser_Bytes (snd (parseValue_loop key b p))) \<le> length (parser_Bytes p)" for b
  proof (induction "length (parser_Bytes p)" arbitrary: b p rule: less_induct)
    case less
    show ?case
    proof (cases "parser_Valid p")
      case True
      let ?p = "snd (parser_Read p)"
      have 1: "length (parser_Bytes ?p) < length (parser_Bytes p)" by (rule read_less [OF True])
      have 2: "length (parser_Bytes (snd (parseValue_loop key x q))) \<le> length (parser_Bytes p)"
        if "length (parser_Bytes q) \<le> length (parser_Bytes ?p)" for x q
        using less [of q x] that 1 by simp
      show ?thesis
        unfolding parseValue_loop.simps [of key b p]
        using True 1 2 [OF order_refl] 2 [OF readBrackets_le] 2 [OF less_imp_le [OF read_less]] skip_le [of b_space ?p]
        by (simp add: split_beta)
    qed (simp add: parseValue_loop.simps)
  qed
  then show ?thesis
    using parseQuotedValue_le [of key "snd (parser_Skip b_quote p)"] skip_le [of b_quote p] by (simp add: parseValue_def)
qed

lemma parseKey_less:
  assumes "parseKey_loop b p = (True, q)"
  shows "length (parser_Bytes q) < length (parser_Bytes p)"
  using assms
proof (induction b p rule: parseKey_loop.induct)
  case (1 b p)
  have v: "parser_Valid p" using 1(2) by (auto simp: parseKey_loop.simps [of b p] split: if_splits)
  obtain c r where r: "parser_Read p = (c, r)" by (metis surj_pair)
  have "length (parser_Bytes r) < length (parser_Bytes p)" using read_less [OF v] r by simp
  then show ?case
    using 1 v r skip_le [of b_space r] parseValue_le [of b r] parseQuotedValue_le [of "[]" r]
    by (fastforce simp: parseKey_loop.simps [of b p] split: if_splits)
qed

function parse_segments :: "tagParser \<Rightarrow> tagParser" where
  "parse_segments p = (case parseKey p of (again, q) \<Rightarrow> if again then parse_segments q else q)"
  by pat_completeness auto

termination
  by (relation "measure (\<lambda>p. length (parser_Bytes p))") (auto simp: parseKey_def intro: parseKey_less dest: sym)

declare parse_segments.simps [simp del]

definition Parse :: "gostring \<Rightarrow> tag" where
  "Parse s = tp_Tag (parse_segments
     \<lparr>ps_b = s, ps_i = 0, tp_Tag = \<lparr>tag_name = [], tag_options = []\<rparr>, tp_hasName = False\<rparr>)"

text \<open>The tag \<^verbatim>\<open>a,alias:'b',n:f(x,y)\<close>: commas between parentheses do not separate.\<close>

lemma Parse_example:
  "Parse [97, 44, 97, 108, 105, 97, 115, 58, 39, 98, 39, 44, 110, 58, 102, 40, 120, 44, 121, 41] =
    \<lparr>tag_name = [97], tag_options = [([97, 108, 105, 97, 115], [98]), ([110], [102, 40, 120, 44, 121, 41])]\<rparr>"
  by code_simp

section \<open>Writing tags\<close>

text \<open>
  A tag is written as its name and then its options, each \<^verbatim>\<open>key\<close> or \<^verbatim>\<open>key:value\<close>, with a backslash in front of the
  bytes of a value that have a meaning. Names and keys have none of the bytes that end them.
\<close>

definition plain_byte :: "byte \<Rightarrow> bool" where
  "plain_byte c \<longleftrightarrow> c \<notin> {b_comma, b_colon, b_quote}"

definition escape :: "gostring \<Rightarrow> gostring" where
  "escape v = concat (map (\<lambda>c. if c \<in> {b_backslash, b_open, b_comma, b_quote} then [b_backslash, c] else [c]) v)"

definition option_text :: "gostring \<times> gostring \<Rightarrow> gostring" where
  "option_text kv = (if snd kv = [] then fst kv else fst kv @ [b_colon] @ escape (snd kv))"

definition options_text :: "(gostring \<times> gostring) list \<Rightarrow> gostring" where
  "options_text kvs = concat (map (\<lambda>kv. b_comma # option_text kv) kvs)"

definition tag_text :: "tag \<Rightarrow> gostring" where
  "tag_text t = tag_name t @ options_text (tag_options t)"

definition word_ok :: "gostring \<Rightarrow> bool" where
  "word_ok s \<longleftrightarrow> list_all plain_byte s \<and> TrimSpace s = s"

definition writable :: "tag \<Rightarrow> bool" where
  "writable t \<longleftrightarrow> word_ok (tag_name t) \<and> distinct (map fst (tag_options t)) \<and>
     list_all (\<lambda>(k, v). k \<noteq> [] \<and> word_ok k \<and> TrimSpace v = v) (tag_options t)"

section \<open>Reading what was written\<close>

definition advance :: "nat \<Rightarrow> tagParser \<Rightarrow> tagParser" where
  "advance n p = p\<lparr>ps_i := ps_i p + n\<rparr>"

lemma advance_simps [simp]:
  "parser_Bytes (advance n p) = drop n (parser_Bytes p)" "tp_Tag (advance n p) = tp_Tag p"
  "tp_hasName (advance n p) = tp_hasName p" "advance m (advance n p) = advance (n + m) p" "advance 0 p = p"
  by (simp_all add: advance_def parser_Bytes_def add_ac)

lemma reader:
  assumes "parser_Bytes p = c # r"
  shows "parser_Valid p" "parser_Read p = (c, advance 1 p)" "parser_Peek p = c"
    "parser_Skip x p = (if c = x then (True, advance 1 p) else (False, p))"
proof -
  have v: "ps_i p < length (ps_b p)" "ps_b p ! ps_i p = c"
    using assms by (auto simp: parser_Bytes_def drop_eq_nths nth_via_drop intro: leI)
      (metis assms drop_all leI list.distinct(1) parser_Bytes_def)
  then show 1: "parser_Valid p" "parser_Peek p = c" by (simp_all add: parser_Valid_def parser_Peek_def)
  then show "parser_Read p = (c, advance 1 p)" "parser_Skip x p = (if c = x then (True, advance 1 p) else (False, p))"
    using v by (simp_all add: parser_Read_def parser_Skip_def parser_Advance_def advance_def)
qed

lemma at_end: "parser_Bytes p = [] \<Longrightarrow> \<not> parser_Valid p"
  by (simp add: parser_Bytes_def parser_Valid_def)

lemma key_run:
  assumes "parser_Bytes p = k @ r" and "list_all plain_byte k"
  shows "parseKey_loop b p = parseKey_loop (b @ k) (advance (length k) p)"
  using assms
proof (induction k arbitrary: b p)
  case (Cons c k)
  then show ?case
    using Cons.IH [of "advance 1 p" "b @ [c]"]
    by (subst parseKey_loop.simps) (simp add: reader plain_byte_def)
qed simp

lemma value_run:
  assumes "parser_Bytes p = escape v @ r"
  shows "parseValue_loop k b p = parseValue_loop k (b @ v) (advance (length (escape v)) p)"
  using assms
proof (induction v arbitrary: b p)
  case (Cons c v)
  show ?case
  proof (cases "c \<in> {b_backslash, b_open, b_comma, b_quote}")
    case True
    then have e: "escape (c # v) = b_backslash # c # escape v" by (simp add: escape_def)
    have p: "parser_Bytes p = b_backslash # c # escape v @ r" using Cons.prems e by simp
    have q: "parser_Bytes (advance 1 p) = c # escape v @ r" using p by simp
    show ?thesis
      using Cons.IH [of "advance 2 p" "b @ [c]"] p
      by (subst parseValue_loop.simps) (simp add: reader [OF p] reader [OF q [unfolded One_nat_def]] e numeral_2_eq_2)
  next
    case False
    then have e: "escape (c # v) = c # escape v" by (simp add: escape_def)
    have p: "parser_Bytes p = c # escape v @ r" using Cons.prems e by simp
    show ?thesis
      using Cons.IH [of "advance 1 p" "b @ [c]"] p False
      by (subst parseValue_loop.simps) (simp add: reader [OF p] e)
  qed
qed (simp add: escape_def)

text \<open>How a segment ends: at a comma, after which one space is dropped, or at the end of the tag.\<close>

definition seg_end :: "gostring \<Rightarrow> gostring \<Rightarrow> tagParser \<Rightarrow> bool \<times> tagParser" where
  "seg_end key b p =
     (if parser_Valid p then (True, setTagOption key b (snd (parser_Skip b_space (advance 1 p))))
      else (False, setTagOption key b p))"

definition at_break :: "tagParser \<Rightarrow> bool" where
  "at_break p \<longleftrightarrow> parser_Bytes p = [] \<or> (\<exists>r. parser_Bytes p = b_comma # r)"

lemma at_break_options: "parser_Bytes p = options_text kvs \<Longrightarrow> at_break p"
  by (cases kvs) (auto simp: at_break_def options_text_def)

lemma key_break: "at_break p \<Longrightarrow> b \<noteq> [] \<or> parser_Valid p \<Longrightarrow> parseKey_loop b p = seg_end [] b p"
  unfolding at_break_def
  by (subst parseKey_loop.simps) (auto simp: at_end reader seg_end_def)

lemma value_break: "at_break p \<Longrightarrow> parseValue_loop key b p = seg_end key b p"
  unfolding at_break_def
  by (subst parseValue_loop.simps) (auto simp: at_end reader seg_end_def)

lemma escape_hd: "v \<noteq> [] \<Longrightarrow> \<exists>c r. escape v = c # r \<and> c \<noteq> b_quote"
  by (cases v) (auto simp: escape_def)

lemma option_run:
  assumes p: "parser_Bytes p = option_text (k, v) @ options_text kvs" and k: "k \<noteq> []" "word_ok k"
  shows "\<exists>q. parser_Bytes q = options_text kvs \<and> tp_Tag q = tp_Tag p \<and> tp_hasName q = tp_hasName p \<and>
    parseKey p = (if v = [] then seg_end [] k q else seg_end k v q)"
proof (cases "v = []")
  case True
  let ?q = "advance (length k) p"
  have p: "parser_Bytes p = k @ options_text kvs" using p True by (simp add: option_text_def)
  then have "parser_Bytes ?q = options_text kvs" by simp
  then show ?thesis
    using key_run [OF p, of "[]"] key_break [OF at_break_options, of ?q kvs k] k True
    by (intro exI [of _ ?q]) (simp add: parseKey_def word_ok_def)
next
  case False
  let ?q = "advance (length k) p" and ?r = "advance (Suc (length k)) p"
  let ?s = "advance (Suc (length k) + length (escape v)) p"
  have p: "parser_Bytes p = k @ b_colon # escape v @ options_text kvs" using p False by (simp add: option_text_def)
  then have q: "parser_Bytes ?q = b_colon # escape v @ options_text kvs" and r: "parser_Bytes ?r = escape v @ options_text kvs"
    and s: "parser_Bytes ?s = options_text kvs" by simp_all
  obtain c e where c: "parser_Bytes ?r = c # e" "c \<noteq> b_quote" using escape_hd [OF False] r by auto
  have "parseKey p = parseKey_loop k ?q"
    using key_run [OF p, of "[]"] k by (simp add: parseKey_def word_ok_def)
  also have "\<dots> = parseValue k ?r" by (subst parseKey_loop.simps) (simp add: reader [OF q])
  also have "\<dots> = parseValue_loop k [] ?r" using c(2) by (simp add: parseValue_def reader [OF c(1)])
  also have "\<dots> = parseValue_loop k v ?s" using value_run [OF r, of k "[]"] by simp
  also have "\<dots> = seg_end k v ?s" by (rule value_break [OF at_break_options [OF s]])
  finally show ?thesis using False s by (intro exI [of _ ?s]) simp
qed

text \<open>The space after a comma is never part of a word.\<close>

lemma word_no_space: "word_ok (c # k) \<Longrightarrow> c \<noteq> b_space"
proof
  assume w: "word_ok (c # k)" and c: "c = b_space"
  have le: "length (trimLeft s) \<le> length s" for s
  proof (induction s rule: trimLeft.induct)
    case (1 s)
    then show ?case by (subst trimLeft.simps) (fastforce split: option.splits)
  qed
  have le': "length (trimRight s) \<le> length s" for s
  proof (induction s rule: trimRight.induct)
    case (1 s)
    then show ?case by (subst trimRight.simps) (fastforce split: option.splits)
  qed
  have "trimLeft (c # k) = trimLeft k" by (subst trimLeft.simps) (simp add: space_runes_def c)
  then have "length (TrimSpace (c # k)) \<le> length k"
    using le [of k] le' [of "trimLeft k"] by (simp add: TrimSpace_def)
  then show False using w by (simp add: word_ok_def)
qed

lemma seg_end_options:
  assumes "parser_Bytes q = options_text kvs" and "list_all (\<lambda>(k, v). k \<noteq> [] \<and> word_ok k \<and> TrimSpace v = v) kvs"
  shows "seg_end key b q =
    (case kvs of [] \<Rightarrow> (False, setTagOption key b q) | _ \<Rightarrow> (True, setTagOption key b (advance 1 q)))"
proof (cases kvs)
  case Nil
  then show ?thesis using assms(1) by (simp add: seg_end_def options_text_def at_end)
next
  case (Cons kv os)
  then obtain c k v where kv: "kv = (c # k, v)" "word_ok (c # k)" using assms(2) by (cases kv; cases "fst kv") auto
  then obtain r where q: "parser_Bytes q = b_comma # c # r"
    using assms(1) Cons by (auto simp: options_text_def option_text_def split: if_splits)
  then have q': "parser_Bytes (advance 1 q) = c # r" by simp
  show ?thesis
    using word_no_space [OF kv(2)] by (simp add: seg_end_def reader [OF q] reader [OF q' [unfolded One_nat_def]] Cons)
qed

lemma set_option:
  assumes "k \<noteq> []" "TrimSpace k = k" "TrimSpace v = v" "k \<notin> fst ` set (tag_options (tp_Tag p))" "tp_hasName p"
  shows "tp_Tag (if v = [] then setTagOption [] k p else setTagOption k v p) =
      (tp_Tag p)\<lparr>tag_options := tag_options (tp_Tag p) @ [(k, v)]\<rparr>"
    "tp_hasName (if v = [] then setTagOption [] k p else setTagOption k v p)"
proof -
  have e: "TrimSpace [] = []" by code_simp
  have u: "AList.update k x xs = xs @ [(k, x)]" if "k \<notin> fst ` set xs" for x :: gostring and xs
    using that by (induction xs) auto
  show "tp_Tag (if v = [] then setTagOption [] k p else setTagOption k v p) =
      (tp_Tag p)\<lparr>tag_options := tag_options (tp_Tag p) @ [(k, v)]\<rparr>"
    using assms by (simp add: setTagOption_def e u Let_def)
  show "tp_hasName (if v = [] then setTagOption [] k p else setTagOption k v p)"
    using assms by (simp add: setTagOption_def e Let_def)
qed

lemma parse_options:
  assumes "parser_Bytes p = option_text kv @ options_text kvs" and "tp_hasName p"
    and "list_all (\<lambda>(k, v). k \<noteq> [] \<and> word_ok k \<and> TrimSpace v = v) (kv # kvs)"
    and "distinct (map fst (tag_options (tp_Tag p) @ kv # kvs))"
  shows "tp_Tag (parse_segments p) = (tp_Tag p)\<lparr>tag_options := tag_options (tp_Tag p) @ kv # kvs\<rparr>"
  using assms
proof (induction kvs arbitrary: kv p)
  case (Cons kv' kvs)
  obtain k v where kv: "kv = (k, v)" by (cases kv)
  have k: "k \<noteq> []" "word_ok k" "TrimSpace k = k" "TrimSpace v = v" using Cons.prems(3) kv by (auto simp: word_ok_def)
  from option_run [OF Cons.prems(1) [unfolded kv] k(1,2)] obtain q where
    q: "parser_Bytes q = options_text (kv' # kvs)" "tp_Tag q = tp_Tag p" "tp_hasName q = tp_hasName p"
      "parseKey p = (if v = [] then seg_end [] k q else seg_end k v q)" by blast
  let ?q = "if v = [] then setTagOption [] k (advance 1 q) else setTagOption k v (advance 1 q)"
  have 1: "parse_segments p = parse_segments ?q"
    by (subst parse_segments.simps) (use q Cons.prems(3) seg_end_options [OF q(1)] in simp)
  have t: "tp_Tag ?q = (tp_Tag p)\<lparr>tag_options := tag_options (tp_Tag p) @ [kv]\<rparr>" "tp_hasName ?q"
    using set_option [OF k(1,3,4), of "advance 1 q"] q(2,3) Cons.prems(2,4) kv by auto
  have b: "parser_Bytes ?q = option_text kv' @ options_text kvs" using q(1) by (simp add: options_text_def)
  have l: "list_all (\<lambda>(k, v). k \<noteq> [] \<and> word_ok k \<and> TrimSpace v = v) (kv' # kvs)" using Cons.prems(3) by simp
  have d: "distinct (map fst (tag_options (tp_Tag ?q) @ kv' # kvs))" unfolding t(1) using Cons.prems(4) by simp
  show ?case unfolding 1 Cons.IH [OF b t(2) l d] t(1) by simp
next
  case Nil
  obtain k v where kv: "kv = (k, v)" by (cases kv)
  have k: "k \<noteq> []" "word_ok k" "TrimSpace k = k" "TrimSpace v = v" using Nil.prems(3) kv by (auto simp: word_ok_def)
  from option_run [OF Nil.prems(1) [unfolded kv] k(1,2)] obtain q where
    q: "parser_Bytes q = options_text []" "tp_Tag q = tp_Tag p" "tp_hasName q = tp_hasName p"
      "parseKey p = (if v = [] then seg_end [] k q else seg_end k v q)" by blast
  have "parse_segments p = (if v = [] then setTagOption [] k q else setTagOption k v q)"
    by (subst parse_segments.simps) (use q seg_end_options [OF q(1)] in simp)
  then show ?case using set_option(1) [OF k(1,3,4), of q] q(2,3) Nil.prems(2,4) kv by simp
qed

text \<open>
  C29: any name and options can be put in a struct tag. Written with a backslash in front of the bytes of a value that
  have a meaning (commas, quotes, parentheses, backslashes), a tag is parsed to exactly the name and
  the options, in their order, that it was written from; names and keys have no comma, colon or
  quote, and nothing has white space at its ends, which the parser cuts off.
\<close>

theorem Parse_tag_text:
  assumes "writable t"
  shows "Parse (tag_text t) = t"
proof -
  obtain n kvs where t: "t = \<lparr>tag_name = n, tag_options = kvs\<rparr>" by (cases t)
  have n: "word_ok n" "list_all plain_byte n" "TrimSpace n = n" and d: "distinct (map fst kvs)"
    and l: "list_all (\<lambda>(k, v). k \<noteq> [] \<and> word_ok k \<and> TrimSpace v = v) kvs"
    using assms by (auto simp: t writable_def word_ok_def)
  let ?p = "\<lparr>ps_b = tag_text t, ps_i = 0, tp_Tag = \<lparr>tag_name = [], tag_options = []\<rparr>, tp_hasName = False\<rparr>"
  let ?q = "advance (length n) ?p"
  have e: "TrimSpace [] = []" by code_simp
  have p: "parser_Bytes ?p = n @ options_text kvs" by (simp add: parser_Bytes_def tag_text_def t)
  have q: "parser_Bytes ?q = options_text kvs" unfolding advance_simps p by simp
  have set: "tp_Tag (setTagOption [] n r) = (tp_Tag r)\<lparr>tag_name := n\<rparr>" "tp_hasName (setTagOption [] n r)"
    if "\<not> tp_hasName r" for r
    using that n(3) by (simp_all add: setTagOption_def e Let_def)
  have run: "parseKey ?p = parseKey_loop n ?q" using key_run [OF p n(2), of "[]"] by (simp add: parseKey_def)
  show ?thesis
  proof (cases kvs)
    case Nil
    have "parseKey ?p = (False, if n \<noteq> [] then setTagOption [] n ?q else ?q)"
      unfolding run by (subst parseKey_loop.simps) (use q Nil in \<open>simp add: at_end options_text_def\<close>)
    then have "Parse (tag_text t) = tp_Tag (if n \<noteq> [] then setTagOption [] n ?q else ?q)"
      unfolding Parse_def by (subst parse_segments.simps) simp
    then show ?thesis using set(1) [of ?q] by (simp add: t Nil)
  next
    case (Cons kv os)
    have v: "parser_Valid ?q" using q Cons reader(1) [of ?q] by (simp add: options_text_def)
    have "parseKey ?p = (True, setTagOption [] n (advance 1 ?q))"
      unfolding run using key_break [OF at_break_options [OF q], of n] v seg_end_options [OF q l] Cons by simp
    then have 1: "Parse (tag_text t) = tp_Tag (parse_segments (setTagOption [] n (advance 1 ?q)))" (is "_ = tp_Tag (parse_segments ?r)")
      unfolding Parse_def by (subst parse_segments.simps) simp
    have r: "parser_Bytes ?r = option_text kv @ options_text os"
      unfolding set_Bytes advance_simps p Cons by (simp add: options_text_def)
    have s: "tp_Tag ?r = \<lparr>tag_name = n, tag_options = []\<rparr>" "tp_hasName ?r" using set [of "advance 1 ?q"] by simp_all
    have "list_all (\<lambda>(k, v). k \<noteq> [] \<and> word_ok k \<and> TrimSpace v = v) (kv # os)" using l Cons by simp
    moreover have "distinct (map fst (tag_options (tp_Tag ?r) @ kv # os))" unfolding s(1) using d Cons by simp
    ultimately have "tp_Tag (parse_segments ?r) = (tp_Tag ?r)\<lparr>tag_options := tag_options (tp_Tag ?r) @ kv # os\<rparr>"
      by (rule parse_options [OF r s(2)])
    then show ?thesis unfolding 1 s(1) by (simp add: t Cons)
  qed
qed

text \<open>A name and the options \<^verbatim>\<open>omitempty\<close> and \<^verbatim>\<open>d\<close>, whose value is a comma between quotes.\<close>

theorem Parse_tag_text_witness:
  "Parse (tag_text \<lparr>tag_name = [97], tag_options =
     [([111, 109, 105, 116, 101, 109, 112, 116, 121], []), ([100], [39, 44, 39])]\<rparr>) =
   \<lparr>tag_name = [97], tag_options = [([111, 109, 105, 116, 101, 109, 112, 116, 121], []), ([100], [39, 44, 39])]\<rparr>"
  by (rule Parse_tag_text) code_simp

end
