(* ===== verification/Struct_Fields.thy ===== *)
theory Struct_Fields
  imports Decode_Value Tag_Parser
begin

text \<open>
  The fields of struct types, \<^verbatim>\<open>types.go\<close>: tags, names, aliases, embedded structs that are inlined, and
  the cache in front of \<open>getFields\<close>.
\<close>

section \<open>Struct types as declared\<close>

text \<open>\<^verbatim>\<open>reflect.StructField\<close>; the struct tag is given by its key-value pairs.\<close>

record sfield =
  sf_name :: gostring
  sf_tags :: "(gostring \<times> gostring) list"
  sf_exported :: bool
  sf_anonymous :: bool

definition tag_Get :: "sfield \<Rightarrow> gostring \<Rightarrow> gostring" where
  "tag_Get f k = (case map_of (sf_tags f) k of None \<Rightarrow> [] | Some v \<Rightarrow> v)"

text \<open>
  Types as far as the fields depend on them. A struct type says whether the encoder picked for it is
  \<open>encodeStructValue\<close>, and which of the program's decoding methods it has, if any; other types are
  leaves.
\<close>

datatype stype = SStruct bool "nat option" "(sfield \<times> stype) list" | SPtr stype | SOther gtype

text \<open>\<^verbatim>\<open>for typ.Kind() == reflect.Pointer { typ = typ.Elem() }\<close>\<close>

primrec strip :: "stype \<Rightarrow> stype" where
  "strip (SStruct e m fs) = SStruct e m fs"
| "strip (SPtr t) = strip t"
| "strip (SOther t) = SOther t"

lemma size_strip: "size (strip t) \<le> size t"
  by (induction t) simp_all

section \<open>The fields record\<close>

text \<open>\<open>field\<close>, without the encoder and decoder, which follow from its type and from \<open>f_intern\<close>.\<close>

record fld =
  fld_name :: gostring
  fld_index :: "nat list"
  fld_intern :: bool
  fld_omitEmpty :: bool

text \<open>\<open>f_warned\<close> says that the log has a message about a name in use.\<close>

record fields =
  f_Map :: "(gostring \<times> fld) list"
  f_List :: "fld list"
  f_AsArray :: bool
  f_hasOmitEmpty :: bool
  f_warned :: bool

definition newFields :: fields where
  "newFields = \<lparr>f_Map = [], f_List = [], f_AsArray = False, f_hasOmitEmpty = False, f_warned = False\<rparr>"

definition warnIfFieldExists :: "gostring \<Rightarrow> fields \<Rightarrow> fields" where
  "warnIfFieldExists n fs = (if map_of (f_Map fs) n \<noteq> None then fs\<lparr>f_warned := True\<rparr> else fs)"

definition set_Map :: "gostring \<Rightarrow> fld \<Rightarrow> fields \<Rightarrow> fields" where
  "set_Map n f fs = fs\<lparr>f_Map := AList.update n f (f_Map fs)\<rparr>"

definition fields_Add :: "fld \<Rightarrow> fields \<Rightarrow> fields" where
  "fields_Add f fs =
     (let fs = set_Map (fld_name f) f (warnIfFieldExists (fld_name f) fs)
      in fs\<lparr>f_List := f_List fs @ [f], f_hasOmitEmpty := (f_hasOmitEmpty fs \<or> fld_omitEmpty f)\<rparr>)"

section \<open>Inlining\<close>

text \<open>The index path of an inlined field starts with that of the embedding field.\<close>

definition under :: "fld \<Rightarrow> fld \<Rightarrow> fld" where
  "under f g = g\<lparr>fld_index := fld_index f @ fld_index g\<rparr>"

definition inlineFields :: "fld \<Rightarrow> fld list \<Rightarrow> fields \<Rightarrow> fields" where
  "inlineFields f inlined fs =
     foldl (\<lambda>fs g. if map_of (f_Map fs) (fld_name g) \<noteq> None then fs else fields_Add (under f g) fs) fs inlined"

definition plain_struct :: "stype \<Rightarrow> bool" where
  "plain_struct t = (case t of SStruct e m _ \<Rightarrow> e \<and> m = None | _ \<Rightarrow> False)"

definition shouldInline :: "stype \<Rightarrow> fld \<Rightarrow> fld list \<Rightarrow> fields \<Rightarrow> bool \<times> fields" where
  "shouldInline t f inlined fs =
     (if \<not> plain_struct (strip t) then (False, fs)
      else if \<exists>g\<in>set inlined. map_of (f_Map fs) (fld_name g) \<noteq> None then (False, fs)
      else (True, foldl (\<lambda>fs g. fields_Add (under f g) fs) fs inlined))"

section \<open>getFields\<close>

definition key_msgpack :: gostring where "key_msgpack = [109, 115, 103, 112, 97, 99, 107]"
definition key_as_array :: gostring where "key_as_array = [97, 115, 95, 97, 114, 114, 97, 121]"
definition key_asArray :: gostring where "key_asArray = [97, 115, 65, 114, 114, 97, 121]"
definition key_omitempty :: gostring where "key_omitempty = [111, 109, 105, 116, 101, 109, 112, 116, 121]"
definition key_intern :: gostring where "key_intern = [105, 110, 116, 101, 114, 110]"
definition key_inline :: gostring where "key_inline = [105, 110, 108, 105, 110, 101]"
definition key_noinline :: gostring where "key_noinline = [110, 111, 105, 110, 108, 105, 110, 101]"
definition key_alias :: gostring where "key_alias = [97, 108, 105, 97, 115]"

definition intern_panic :: go_error where
  "intern_panic = Panic ''msgpack: intern strings are not supported''"

definition not_struct :: go_error where
  "not_struct = Panic ''reflect: NumField of non-struct type''"

definition can_intern :: "stype \<Rightarrow> bool" where
  "can_intern t = (case t of SOther u \<Rightarrow> (case underlying u of TIface _ \<Rightarrow> True | TString \<Rightarrow> True | _ \<Rightarrow> False) | _ \<Rightarrow> False)"

definition is_struct :: "stype \<Rightarrow> bool" where
  "is_struct t = (case t of SStruct _ _ _ \<Rightarrow> True | SOther TTime \<Rightarrow> True | _ \<Rightarrow> False)"

text \<open>
  One turn of the loop: field number \<open>i\<close>, declared as \<open>sf\<close> with type \<open>t\<close>; \<open>inlined\<close> is
  \<open>getFields\<close> of that type without its pointers, which only embedded fields ask for.
\<close>

definition add_field :: "tag \<Rightarrow> fld \<Rightarrow> fields \<Rightarrow> fields" where
  "add_field tg f fs =
     (let fs = fields_Add f fs
      in case map_of (tag_options tg) key_alias of
           None \<Rightarrow> fs
         | Some alias \<Rightarrow> set_Map alias f (warnIfFieldExists alias fs))"

definition inline_field ::
  "tag \<Rightarrow> stype \<Rightarrow> fld \<Rightarrow> (go_error + fields) \<Rightarrow> fields \<Rightarrow> go_error + bool \<times> fields" where
  "inline_field tg t f inlined fs =
     (if HasOption tg key_inline then
        (if \<not> is_struct t then Inl not_struct
         else case inlined of Inl e \<Rightarrow> Inl e | Inr sub \<Rightarrow> Inr (True, inlineFields f (f_List sub) fs))
      else if \<not> plain_struct (strip t) then Inr (False, fs)
      else case inlined of Inl e \<Rightarrow> Inl e | Inr sub \<Rightarrow> Inr (shouldInline t f (f_List sub) fs))"

definition place_field ::
  "tag \<Rightarrow> sfield \<Rightarrow> stype \<Rightarrow> fld \<Rightarrow> (go_error + fields) \<Rightarrow> fields \<Rightarrow> go_error + fields" where
  "place_field tg sf t f inlined fs =
     (if sf_anonymous sf \<and> \<not> HasOption tg key_noinline then
        (case inline_field tg t f inlined fs of
           Inl e \<Rightarrow> Inl e
         | Inr (True, fs) \<Rightarrow> Inr (set_Map (fld_name f) f (warnIfFieldExists (fld_name f) fs))
         | Inr (False, fs) \<Rightarrow> Inr (add_field tg f fs))
      else Inr (add_field tg f fs))"

definition field_step ::
  "gostring \<Rightarrow> nat \<Rightarrow> sfield \<Rightarrow> stype \<Rightarrow> (go_error + fields) \<Rightarrow> fields \<times> bool \<Rightarrow>
    go_error + fields \<times> bool" where
  "field_step fallbackTag i sf t inlined st =
     (let tagStr = tag_Get sf key_msgpack;
          tagStr = (if tagStr = [] \<and> fallbackTag \<noteq> [] then tag_Get sf fallbackTag else tagStr);
          tg = Parse tagStr; fs = fst st; omitEmpty = snd st
      in if tag_name tg = [45] then Inr (fs, omitEmpty)
         else
           let marker = (sf_name sf = [95] @ key_msgpack);
               fs = (if marker then fs\<lparr>f_AsArray := HasOption tg key_as_array \<or> HasOption tg key_asArray\<rparr> else fs);
               omitEmpty = (omitEmpty \<or> marker \<and> HasOption tg key_omitempty)
           in if \<not> sf_exported sf \<and> \<not> sf_anonymous sf then Inr (fs, omitEmpty)
              else if HasOption tg key_intern \<and> \<not> can_intern t then Inl intern_panic
              else
                let name = (if tag_name tg = [] then sf_name sf else tag_name tg);
                    f = \<lparr>fld_name = name, fld_index = [i], fld_intern = HasOption tg key_intern,
                         fld_omitEmpty = omitEmpty \<or> HasOption tg key_omitempty\<rparr>
                in case place_field tg sf t f inlined fs of Inl e \<Rightarrow> Inl e | Inr fs \<Rightarrow> Inr (fs, omitEmpty))"

primrec field_loop ::
  "gostring \<Rightarrow> ((sfield \<times> stype) \<times> (go_error + fields)) list \<Rightarrow> nat \<Rightarrow> fields \<times> bool \<Rightarrow>
    go_error + fields" where
  "field_loop tg [] i st = Inr (fst st)"
| "field_loop tg (x # xs) i st =
     (case field_step tg i (fst (fst x)) (snd (fst x)) (snd x) st of
        Inl e \<Rightarrow> Inl e
      | Inr st \<Rightarrow> field_loop tg xs (Suc i) st)"

lemma field_type_size:
  assumes "f \<in> set fs"
  shows "size (strip (snd f)) < size (SStruct e m fs)"
proof -
  have "size_prod (\<lambda>_. 0) size f \<le> size_list (size_prod (\<lambda>_. 0) size) fs"
    by (rule size_list_estimation' [OF assms]) simp
  moreover have "size (snd f) \<le> size_prod (\<lambda>_. 0) size f" by (cases f) simp
  ultimately show ?thesis using size_strip [of "snd f"] by simp
qed

function (sequential) getFields :: "gostring \<Rightarrow> stype \<Rightarrow> go_error + fields" where
  "getFields tg (SStruct e m fs) =
     field_loop tg (map (\<lambda>f. (f, getFields tg (strip (snd f)))) fs) 0 (newFields, False)"
| "getFields tg (SOther TTime) = Inr newFields"
| "getFields tg _ = Inl not_struct"
  by pat_completeness auto

termination
  by (relation "measure (\<lambda>(_, t). size t)") (simp_all add: field_type_size del: stype.size)

section \<open>The cache\<close>

text \<open>\<open>structCache\<close>: what is stored under a type and a tag is what \<open>getFields\<close> gives for them.\<close>

type_synonym structCache = "(stype \<times> gostring) \<Rightarrow> fields option"

definition structCache_Fields ::
  "stype \<Rightarrow> gostring \<Rightarrow> structCache \<Rightarrow> (go_error + fields) \<times> structCache" where
  "structCache_Fields t tg m =
     (case m (t, tg) of
        Some fs \<Rightarrow> (Inr fs, m)
      | None \<Rightarrow> (case getFields tg t of Inl e \<Rightarrow> (Inl e, m) | Inr fs \<Rightarrow> (Inr fs, m((t, tg) \<mapsto> fs))))"

definition cache_ok :: "structCache \<Rightarrow> bool" where
  "cache_ok m \<longleftrightarrow> (\<forall>t tg fs. m (t, tg) = Some fs \<longrightarrow> getFields tg t = Inr fs)"

section \<open>The type a declaration stands for\<close>

definition fdesc_of :: "fld \<Rightarrow> fdesc" where
  "fdesc_of f = (fld_name f, fld_index f, fld_intern f)"

definition fields_of :: "go_error + fields \<Rightarrow> fdesc list \<times> (gostring \<times> fdesc) list" where
  "fields_of r = (case r of Inl e \<Rightarrow> ([], []) | Inr fs \<Rightarrow> (map fdesc_of (f_List fs), map (\<lambda>x. (fst x, fdesc_of (snd x))) (f_Map fs)))"

fun gtype_of :: "gostring \<Rightarrow> stype \<Rightarrow> gtype" where
  "gtype_of tg (SStruct e m fs) =
     (let (l, mp) = fields_of (getFields tg (SStruct e m fs));
          t = TStruct (map (\<lambda>f. gtype_of tg (snd f)) fs) l mp
      in case m of None \<Rightarrow> t | Some i \<Rightarrow> TNamed i t)"
| "gtype_of tg (SPtr t) = TPtr (gtype_of tg t)"
| "gtype_of tg (SOther t) = t"

section \<open>What the loop keeps\<close>

text \<open>
  Without a warning, every field of the list is found under its name; whether warned or not, every
  name of the list is found.
\<close>

definition names_ok :: "fields \<Rightarrow> bool" where
  "names_ok fs \<longleftrightarrow> fld_name ` set (f_List fs) \<subseteq> dom (map_of (f_Map fs)) \<and>
     (\<not> f_warned fs \<longrightarrow> distinct (map fld_name (f_List fs)) \<and>
        (\<forall>f\<in>set (f_List fs). map_of (f_Map fs) (fld_name f) = Some f))"

lemma names_ok_new: "names_ok newFields"
  by (simp add: names_ok_def newFields_def)

lemma set_Map_fields [simp]:
  "f_Map (set_Map n f fs) = AList.update n f (f_Map fs)" "f_List (set_Map n f fs) = f_List fs"
  "f_warned (set_Map n f fs) = f_warned fs" "f_List (warnIfFieldExists n fs) = f_List fs"
  "f_Map (warnIfFieldExists n fs) = f_Map fs"
  "f_warned (warnIfFieldExists n fs) = (f_warned fs \<or> map_of (f_Map fs) n \<noteq> None)"
  by (simp_all add: set_Map_def warnIfFieldExists_def)

lemma fields_Add_fields:
  "f_Map (fields_Add f fs) = AList.update (fld_name f) f (f_Map fs)" "f_List (fields_Add f fs) = f_List fs @ [f]"
  "f_warned (fields_Add f fs) \<longleftrightarrow> f_warned fs \<or> map_of (f_Map fs) (fld_name f) \<noteq> None"
  by (simp_all add: fields_Add_def Let_def)

lemma names_ok_new_name:
  "names_ok fs \<Longrightarrow> g \<in> set (f_List fs) \<Longrightarrow> map_of (f_Map fs) n = None \<Longrightarrow> fld_name g \<noteq> n"
  unfolding names_ok_def by (metis domIff image_subset_iff)

lemma names_ok_Map: "names_ok fs \<Longrightarrow> names_ok (set_Map n f (warnIfFieldExists n fs))"
  using names_ok_new_name [of fs _ n] by (auto simp: names_ok_def update_conv')

lemma names_ok_Add:
  assumes "names_ok fs"
  shows "names_ok (fields_Add f fs)"
proof -
  have "names_ok (set_Map (fld_name f) f (warnIfFieldExists (fld_name f) fs))" by (rule names_ok_Map [OF assms])
  moreover have "fld_name f \<notin> fld_name ` set (f_List fs)" if "map_of (f_Map fs) (fld_name f) = None"
    using names_ok_new_name [OF assms _ that] by (metis imageE)
  ultimately show ?thesis
    by (auto simp: names_ok_def fields_Add_fields update_conv')
qed

lemma names_ok_AsArray: "names_ok fs \<Longrightarrow> names_ok (fs\<lparr>f_AsArray := b\<rparr>)"
  by (simp add: names_ok_def)

lemma foldl_keeps: "P a \<Longrightarrow> (\<And>a x. x \<in> set xs \<Longrightarrow> P a \<Longrightarrow> P (f a x)) \<Longrightarrow> P (foldl f a xs)"
  by (induction xs arbitrary: a) auto

text \<open>Any invariant that the three ways of adding a field keep is kept by the loop.\<close>

locale fields_invariant =
  fixes inv :: "fields \<Rightarrow> bool" and good :: "fld \<Rightarrow> bool" and at :: "nat \<Rightarrow> sfield \<times> stype \<Rightarrow> bool"
    and sub_ok :: "sfield \<times> stype \<Rightarrow> fields \<Rightarrow> bool"
  assumes inv_new: "inv newFields"
    and inv_Map: "inv fs \<Longrightarrow> good f \<Longrightarrow> inv (set_Map n f (warnIfFieldExists n fs))"
    and inv_Add: "inv fs \<Longrightarrow> good f \<Longrightarrow> inv (fields_Add f fs)"
    and inv_AsArray: "inv fs \<Longrightarrow> inv (fs\<lparr>f_AsArray := b\<rparr>)"
    and good_own: "at i x \<Longrightarrow> fld_index f = [i] \<Longrightarrow> (fld_intern f \<Longrightarrow> can_intern (snd x)) \<Longrightarrow> good f"
    and good_under: "at i x \<Longrightarrow> sf_anonymous (fst x) \<Longrightarrow> sub_ok x sub \<Longrightarrow> g \<in> set (f_List sub) \<Longrightarrow>
      fld_index f = [i] \<Longrightarrow> good (under f g)"
begin

lemma inv_add_field: "inv fs \<Longrightarrow> good f \<Longrightarrow> inv (add_field tg f fs)"
  by (auto simp: add_field_def Let_def inv_Add intro: inv_Map split: option.split)

lemma inv_inline_field:
  assumes "inline_field tg (snd x) f inlined fs = Inr (c, fs')" and "inv fs" and "sf_anonymous (fst x)"
    and "at i x" and "fld_index f = [i]" and "\<And>sub. inlined = Inr sub \<Longrightarrow> sub_ok x sub"
  shows "inv fs'"
proof -
  have "inv (inlineFields f (f_List sub) fs)" if "inlined = Inr sub" for sub
    unfolding inlineFields_def
    by (rule foldl_keeps) (use assms(2-5) assms(6) [OF that] in \<open>auto intro: inv_Add good_under\<close>)
  moreover have "inv (snd (shouldInline t f (f_List sub) fs))" if "inlined = Inr sub" for sub t
    using assms(2-5) assms(6) [OF that]
    by (auto simp: shouldInline_def intro!: foldl_keeps [where P = inv] intro: inv_Add good_under)
  ultimately show ?thesis
    using assms(1,2) by (auto simp: inline_field_def split: if_splits sum.splits) (metis snd_conv)
qed

lemma inv_place_field:
  assumes "place_field tg (fst x) (snd x) f inlined fs = Inr fs'" and "inv fs"
    and f: "at i x" "fld_index f = [i]" and "\<And>sub. inlined = Inr sub \<Longrightarrow> sub_ok x sub"
    and intern: "fld_intern f \<Longrightarrow> can_intern (snd x)"
  shows "inv fs'"
proof (cases "sf_anonymous (fst x) \<and> \<not> HasOption tg key_noinline")
  case True
  then obtain c fs1 where 1: "inline_field tg (snd x) f inlined fs = Inr (c, fs1)"
    using assms(1) by (auto simp: place_field_def split: sum.splits)
  have "inv fs1" by (rule inv_inline_field [OF 1 assms(2) _ f]) (use True assms(5) in auto)
  then show ?thesis
    using assms(1) 1 True by (cases c) (auto simp: place_field_def intro: inv_Map inv_add_field good_own [OF f intern])
next
  case False
  then show ?thesis using assms(1,2) by (auto simp: place_field_def intro!: inv_add_field good_own [OF f intern])
qed

lemma inv_field_step:
  assumes "field_step tg i (fst x) (snd x) inlined st = Inr st'" and "inv (fst st)" and "at i x"
    and "\<And>sub. inlined = Inr sub \<Longrightarrow> sub_ok x sub"
  shows "inv (fst st')"
  using assms(1,2) unfolding field_step_def Let_def
  by (auto simp: inv_AsArray intro: inv_place_field [OF _ _ assms(3) _ assms(4)] split: if_split_asm sum.split_asm)

lemma inv_field_loop:
  assumes "field_loop tg xs i st = Inr fs" and "inv (fst st)"
    and "\<And>k. k < length xs \<Longrightarrow> at (i + k) (fst (xs ! k))"
    and "\<And>x sub. x \<in> set xs \<Longrightarrow> snd x = Inr sub \<Longrightarrow> sub_ok (fst x) sub"
  shows "inv fs"
  using assms
proof (induction xs arbitrary: i st)
  case (Cons x xs)
  then obtain st' where st': "field_step tg i (fst (fst x)) (snd (fst x)) (snd x) st = Inr st'"
    "field_loop tg xs (Suc i) st' = Inr fs" by (auto split: sum.splits)
  have "at i (fst x)" using Cons.prems(3) [of 0] by simp
  from inv_field_step [OF st'(1) Cons.prems(2) this] have inv: "inv (fst st')" using Cons.prems(4) by auto
  have "at (Suc i + k) (fst (xs ! k))" if "k < length xs" for k
    using Cons.prems(3) [of "Suc k"] that by simp
  then show ?case using Cons.IH [OF st'(2) inv] Cons.prems(4) by auto
qed simp

lemma inv_getFields:
  assumes "getFields tg (SStruct e m fs) = Inr r" and "\<And>k. k < length fs \<Longrightarrow> at k (fs ! k)"
    and "\<And>x sub. x \<in> set fs \<Longrightarrow> getFields tg (strip (snd x)) = Inr sub \<Longrightarrow> sub_ok x sub"
  shows "inv r"
  by (rule inv_field_loop [where tg = tg and i = 0 and st = "(newFields, False)"])
    (use assms inv_new in auto)

end

interpretation names: fields_invariant names_ok "\<lambda>_. True" "\<lambda>_ _. True" "\<lambda>_ _. True"
  by unfold_locales (simp_all add: names_ok_new names_ok_Map names_ok_Add names_ok_AsArray)

lemma getFields_cases:
  assumes "getFields tg t = Inr r"
  obtains (struct) e m fs where "t = SStruct e m fs" | (time) "t = SOther TTime" "r = newFields"
  using assms by (induction tg t rule: getFields.induct) auto

section \<open>Lookup\<close>

text \<open>
  C32: the two views of a struct's fields agree. Whatever embedded structs are inlined, every encoded
  field can be found under its name when decoding; and when no message about a name in use was
  logged, the names of the encoded fields are distinct and each name leads back to its own field, so
  that what is encoded from a field is decoded into it.
\<close>

theorem getFields_lookup:
  assumes "getFields tg t = Inr fs" and "f \<in> set (f_List fs)"
  shows "map_of (f_Map fs) (fld_name f) \<noteq> None \<and>
    (\<not> f_warned fs \<longrightarrow> map_of (f_Map fs) (fld_name f) = Some f \<and> distinct (map fld_name (f_List fs)))"
proof -
  from assms(1) have "names_ok fs"
  proof (cases rule: getFields_cases)
    case (struct e m xs)
    show ?thesis by (rule names.inv_getFields [OF assms(1) [unfolded struct]]) simp_all
  qed (simp add: names_ok_new)
  then show ?thesis using assms(2) by (auto simp: names_ok_def)
qed

text \<open>The declaration \<^verbatim>\<open>struct { A int `msgpack:",alias:b"`; Inner }\<close> with \<^verbatim>\<open>Inner struct { C string }\<close>.\<close>

definition plain_field :: "gostring \<Rightarrow> gostring \<Rightarrow> bool \<Rightarrow> sfield" where
  "plain_field n t anon = \<lparr>sf_name = n, sf_tags = [(key_msgpack, t)], sf_exported = True, sf_anonymous = anon\<rparr>"

definition example_struct :: stype where
  "example_struct = SStruct True None
     [(plain_field [65] (b_comma # key_alias @ [b_colon, 98]) False, SOther (TInt KInt)),
      (plain_field [73] [] True, SStruct True None [(plain_field [67] [] False, SOther TString)])]"

lemma example_fields:
  "getFields [] example_struct = Inr
     \<lparr>f_Map = [([65], \<lparr>fld_name = [65], fld_index = [0], fld_intern = False, fld_omitEmpty = False\<rparr>),
        ([98], \<lparr>fld_name = [65], fld_index = [0], fld_intern = False, fld_omitEmpty = False\<rparr>),
        ([67], \<lparr>fld_name = [67], fld_index = [1, 0], fld_intern = False, fld_omitEmpty = False\<rparr>),
        ([73], \<lparr>fld_name = [73], fld_index = [1], fld_intern = False, fld_omitEmpty = False\<rparr>)],
      f_List = [\<lparr>fld_name = [65], fld_index = [0], fld_intern = False, fld_omitEmpty = False\<rparr>,
        \<lparr>fld_name = [67], fld_index = [1, 0], fld_intern = False, fld_omitEmpty = False\<rparr>],
      f_AsArray = False, f_hasOmitEmpty = False, f_warned = False\<rparr>"
  by code_simp

theorem getFields_lookup_witness:
  "map_of (f_Map (projr (getFields [] example_struct))) [67] =
     Some \<lparr>fld_name = [67], fld_index = [1, 0], fld_intern = False, fld_omitEmpty = False\<rparr>"
  using getFields_lookup [OF example_fields,
      of "\<lparr>fld_name = [67], fld_index = [1, 0], fld_intern = False, fld_omitEmpty = False\<rparr>"]
  by (simp add: example_fields)

section \<open>Index paths\<close>

text \<open>Go embeds a struct or a pointer to one, never a pointer to a pointer.\<close>

definition double_ptr :: "stype \<Rightarrow> bool" where
  "double_ptr t = (case t of SPtr (SPtr _) \<Rightarrow> True | _ \<Rightarrow> False)"

fun embeds_ok :: "stype \<Rightarrow> bool" where
  "embeds_ok (SStruct e m fs) = (\<forall>f\<in>set fs. embeds_ok (snd f) \<and> (sf_anonymous (fst f) \<longrightarrow> \<not> double_ptr (snd f)))"
| "embeds_ok (SPtr t) = embeds_ok t"
| "embeds_ok (SOther t) = True"

lemma embeds_ok_strip: "embeds_ok t \<Longrightarrow> embeds_ok (strip t)"
  by (induction t) simp_all

text \<open>Fields reach a type through the struct's field types alone.\<close>

definition reaches :: "gtype list \<Rightarrow> fld \<Rightarrow> bool" where
  "reaches ts f \<longleftrightarrow> (\<exists>u. type_at (fld_index f) (TStruct ts [] []) = Some u)"

lemma type_at_struct: "underlying t = TStruct ts l m \<Longrightarrow> type_at p t = type_at p (TStruct ts [] [])"
  by (cases p) (simp_all add: underlying_def)

lemma underlying_gtype_of:
  "\<exists>l mp. underlying (gtype_of tg (SStruct e m fs)) = TStruct (map (\<lambda>f. gtype_of tg (snd f)) fs) l mp"
  by (cases m; cases "fields_of (getFields tg (SStruct e m fs))") (simp_all add: underlying_def Let_def)

definition field_types :: "gostring \<Rightarrow> stype \<Rightarrow> gtype list" where
  "field_types tg t =
     (case t of SStruct e m fs \<Rightarrow> map (\<lambda>f. gtype_of tg (snd f)) fs | _ \<Rightarrow> [])"

definition all_reach :: "gtype list \<Rightarrow> fields \<Rightarrow> bool" where
  "all_reach ts fs \<longleftrightarrow> (\<forall>f. f \<in> set (f_List fs) \<or> f \<in> ran (map_of (f_Map fs)) \<longrightarrow> reaches ts f)"

lemma ran_update: "f \<in> ran (map_of (AList.update n g m)) \<Longrightarrow> f = g \<or> f \<in> ran (map_of m)"
  by (auto simp: update_conv' ran_def split: if_splits)

interpretation paths: fields_invariant "all_reach (field_types tg (SStruct e m fs))"
  "reaches (field_types tg (SStruct e m fs))" "\<lambda>i x. i < length fs \<and> fs ! i = x \<and> (sf_anonymous (fst x) \<longrightarrow> \<not> double_ptr (snd x))"
  "\<lambda>x sub. all_reach (field_types tg (strip (snd x))) sub"
  for tg e m fs
proof
  let ?ts = "field_types tg (SStruct e m fs)"
  show "all_reach ?ts newFields" by (simp add: all_reach_def newFields_def)
  show "all_reach ?ts (set_Map n f (warnIfFieldExists n r))" "all_reach ?ts (fields_Add f r)"
    if "all_reach ?ts r" "reaches ?ts f" for r f n
    using that ran_update by (fastforce simp: all_reach_def fields_Add_fields)+
  show "all_reach ?ts (r\<lparr>f_AsArray := b\<rparr>)" if "all_reach ?ts r" for r b
    using that by (simp add: all_reach_def)
  show "reaches ?ts f" if "i < length fs \<and> fs ! i = x \<and> (sf_anonymous (fst x) \<longrightarrow> \<not> double_ptr (snd x))" "fld_index f = [i]"
    for i x f
    using that by (simp add: reaches_def field_types_def underlying_def)
  show "reaches ?ts (under f g)"
    if x: "i < length fs \<and> fs ! i = x \<and> (sf_anonymous (fst x) \<longrightarrow> \<not> double_ptr (snd x))" "sf_anonymous (fst x)"
      and sub: "all_reach (field_types tg (strip (snd x))) sub" "g \<in> set (f_List sub)" and f: "fld_index f = [i]"
    for i x f g sub
  proof -
    obtain u where u: "type_at (fld_index g) (TStruct (field_types tg (strip (snd x))) [] []) = Some u"
      using sub by (auto simp: all_reach_def reaches_def)
    then obtain e' m' xs where s: "strip (snd x) = SStruct e' m' xs" "fld_index g \<noteq> []"
      by (cases "strip (snd x)"; cases "fld_index g") (auto simp: field_types_def underlying_def)
    have "snd x = SStruct e' m' xs \<or> snd x = SPtr (SStruct e' m' xs)"
      using s(1) x by (cases "snd x") (auto simp: double_ptr_def split: stype.splits)
    then have "type_at (fld_index g) (case gtype_of tg (snd x) of TPtr v \<Rightarrow> v | v \<Rightarrow> v) =
        type_at (fld_index g) (gtype_of tg (SStruct e' m' xs))"
      by (auto simp: Let_def split: option.split prod.split)
    also have "\<dots> = Some u"
      using underlying_gtype_of [of tg e' m' xs] type_at_struct u s(1) by (fastforce simp: field_types_def)
    finally show ?thesis
      using x f s(2) by (simp add: reaches_def under_def field_types_def underlying_def)
  qed
qed

text \<open>
  C33: decoding never reaches outside a struct. For every declaration, each field that is encoded or
  found by name, through embedded structs and pointers to structs, has an index path that leads to a
  type of the struct.
\<close>

theorem getFields_paths:
  assumes "getFields tg t = Inr fs" and "embeds_ok t"
    and "f \<in> set (f_List fs) \<or> f \<in> ran (map_of (f_Map fs))"
  shows "\<exists>u. type_at (fld_index f) (gtype_of tg t) = Some u"
proof -
  have "all_reach (field_types tg t) fs"
    using assms(1,2)
  proof (induction "size t" arbitrary: t fs rule: less_induct)
    case less
    from less.prems(1) show ?case
    proof (cases rule: getFields_cases)
      case (struct e m xs)
      show ?thesis
        unfolding struct
      proof (rule paths.inv_getFields [OF less.prems(1) [unfolded struct]])
        fix x sub
        assume x: "x \<in> set xs" "getFields tg (strip (snd x)) = Inr sub"
        have "size (strip (snd x)) < size t" using field_type_size x(1) struct by blast
        then show "all_reach (field_types tg (strip (snd x))) sub"
          using less.hyps x struct less.prems(2) embeds_ok_strip by fastforce
      qed (use less.prems(2) struct in auto)
    qed (simp add: all_reach_def newFields_def)
  qed
  then obtain u where u: "type_at (fld_index f) (TStruct (field_types tg t) [] []) = Some u"
    using assms(3) by (auto simp: all_reach_def reaches_def)
  from assms(1) show ?thesis
  proof (cases rule: getFields_cases)
    case (struct e m xs)
    then show ?thesis using underlying_gtype_of [of tg e m xs] type_at_struct u by (fastforce simp: field_types_def)
  qed (use assms(3) in \<open>simp add: newFields_def\<close>)
qed

theorem getFields_paths_witness:
  "type_at [1, 0] (gtype_of [] example_struct) \<noteq> None"
  using getFields_paths [OF example_fields, of "\<lparr>fld_name = [67], fld_index = [1, 0], fld_intern = False, fld_omitEmpty = False\<rparr>"]
  by (simp add: example_struct_def double_ptr_def)

section \<open>Order of declaration\<close>

text \<open>
  Whether an embedded field is shadowed depends on the order of declaration. With the outer field
  declared first, the embedded struct is not inlined and keeps its own name; declared after it, both
  fields called A are encoded, into a map with the same key twice, of which the decoder fills only
  the outer one.
\<close>

theorem shadowing_depends_on_order:
  "let inner = (plain_field [73] [] True, SStruct True None [(plain_field [65] [] False, SOther TString)]);
       outer = (plain_field [65] [] False, SOther TString)
   in map fld_name (f_List (projr (getFields [] (SStruct True None [outer, inner])))) = [[65], [73]] \<and>
      map fld_name (f_List (projr (getFields [] (SStruct True None [inner, outer])))) = [[65], [65]] \<and>
      map_option fld_index (map_of (f_Map (projr (getFields [] (SStruct True None [inner, outer])))) [65]) =
        Some [1]"
  by code_simp

section \<open>The cache gives what it caches\<close>

lemma structCache_refines:
  assumes "cache_ok m" and "structCache_Fields t tg m = (r, m')"
  shows "r = getFields tg t \<and> cache_ok m' \<and> m \<subseteq>\<^sub>m m'"
proof (cases "m (t, tg)")
  case None
  then show ?thesis
    using assms by (cases "getFields tg t") (auto simp: structCache_Fields_def cache_ok_def map_le_def dest: sym split: if_splits)
next
  case (Some fs)
  then show ?thesis using assms by (auto simp: structCache_Fields_def cache_ok_def)
qed

section \<open>Options of the fields\<close>

text \<open>
  \<open>fields.hasOmitEmpty\<close> says whether a field has the option; only strings and interfaces are interned.
\<close>

definition internable :: "gtype \<Rightarrow> bool" where
  "internable t = (case underlying t of TString \<Rightarrow> True | TIface e \<Rightarrow> True | _ \<Rightarrow> False)"

definition interned_ok :: "gtype list \<Rightarrow> fld \<Rightarrow> bool" where
  "interned_ok ts f \<longleftrightarrow>
     fld_index f \<noteq> [] \<and> (fld_intern f \<longrightarrow> (\<forall>u. type_at (fld_index f) (TStruct ts [] []) = Some u \<longrightarrow> internable u))"

definition options_ok :: "gtype list \<Rightarrow> fields \<Rightarrow> bool" where
  "options_ok ts fs \<longleftrightarrow>
     f_hasOmitEmpty fs = list_ex fld_omitEmpty (f_List fs) \<and> (\<forall>f\<in>set (f_List fs). interned_ok ts f)"

lemma internable_gtype_of: "can_intern t \<Longrightarrow> internable (gtype_of tg t)"
  by (cases t) (auto simp: can_intern_def internable_def split: gtype.splits)

lemma type_at_ptr: "type_at p (TPtr u) = None"
  by (cases p) (simp_all add: underlying_def)

lemma interned_ok_under:
  assumes g: "interned_ok (field_types tg (strip t)) g" and s: "strip t = SStruct e m xs"
    and i: "i < length ts" "ts ! i = gtype_of tg t" and f: "fld_index f = [i]"
  shows "interned_ok ts (under f g)"
proof -
  have p: "fld_index g \<noteq> []" using g by (simp add: interned_ok_def)
  have "internable u" if "fld_intern g" and u: "type_at (i # fld_index g) (TStruct ts [] []) = Some u" for u
  proof -
    have u: "type_at (fld_index g) (case gtype_of tg t of TPtr v \<Rightarrow> v | v \<Rightarrow> v) = Some u"
      using u p i by (simp add: underlying_def)
    have "type_at (fld_index g) (gtype_of tg (SStruct e m xs)) = Some u"
    proof (cases t)
      case (SPtr t')
      then show ?thesis using u s by (cases t') (auto simp: type_at_ptr)
    qed (use u s in \<open>auto simp: Let_def split: option.splits prod.splits\<close>)
    then have "type_at (fld_index g) (TStruct (field_types tg (strip t)) [] []) = Some u"
      using underlying_gtype_of [of tg e m xs] type_at_struct s by (fastforce simp: field_types_def)
    then show ?thesis using g that(1) by (simp add: interned_ok_def)
  qed
  then show ?thesis by (simp add: interned_ok_def under_def f)
qed

interpretation options: fields_invariant "options_ok (field_types tg (SStruct e m fs))"
  "interned_ok (field_types tg (SStruct e m fs))" "\<lambda>i x. i < length fs \<and> fs ! i = x"
  "\<lambda>x sub. \<forall>g\<in>set (f_List sub). interned_ok (field_types tg (strip (snd x))) g \<and> (\<exists>e m xs. strip (snd x) = SStruct e m xs)"
  for tg e m fs
proof
  let ?ts = "field_types tg (SStruct e m fs)"
  show "options_ok ?ts newFields" by (simp add: options_ok_def newFields_def)
  show "options_ok ?ts (set_Map n f (warnIfFieldExists n r))" "options_ok ?ts (fields_Add f r)"
    if "options_ok ?ts r" "interned_ok ?ts f" for r f n
    using that by (auto simp: options_ok_def fields_Add_def set_Map_def warnIfFieldExists_def Let_def)
  show "options_ok ?ts (r\<lparr>f_AsArray := b\<rparr>)" if "options_ok ?ts r" for r b
    using that by (simp add: options_ok_def)
  show "interned_ok ?ts f"
    if "i < length fs \<and> fs ! i = x" "fld_index f = [i]" "fld_intern f \<Longrightarrow> can_intern (snd x)" for i x f
    using that internable_gtype_of by (auto simp: interned_ok_def field_types_def underlying_def)
  show "interned_ok ?ts (under f g)"
    if x: "i < length fs \<and> fs ! i = x" and sub: "\<forall>g\<in>set (f_List sub). interned_ok (field_types tg (strip (snd x))) g \<and>
        (\<exists>e m xs. strip (snd x) = SStruct e m xs)" "g \<in> set (f_List sub)" and f: "fld_index f = [i]" for i x f g sub
  proof -
    obtain e' m' xs where s: "strip (snd x) = SStruct e' m' xs" using sub by blast
    show ?thesis
      by (rule interned_ok_under [OF _ s _ _ f]) (use sub x in \<open>auto simp: field_types_def [of tg "SStruct e m fs"]\<close>)
  qed
qed

lemma getFields_options:
  assumes "getFields tg t = Inr fs"
  shows "options_ok (field_types tg' t) fs"
  using assms
proof (induction "size t" arbitrary: t fs rule: less_induct)
  case less
  from less.prems show ?case
  proof (cases rule: getFields_cases)
    case (struct e m xs)
    show ?thesis
      unfolding struct
    proof (rule options.inv_getFields [OF less.prems [unfolded struct]])
      fix x sub
      assume x: "x \<in> set xs" "getFields tg (strip (snd x)) = Inr sub"
      have "size (strip (snd x)) < size t" using field_type_size x(1) struct by blast
      then have o: "options_ok (field_types tg' (strip (snd x))) sub" using less.hyps x(2) by blast
      show "\<forall>g\<in>set (f_List sub). interned_ok (field_types tg' (strip (snd x))) g \<and> (\<exists>e m xs. strip (snd x) = SStruct e m xs)"
        by (rule getFields_cases [OF x(2)]) (use o in \<open>auto simp: options_ok_def newFields_def\<close>)
    qed simp
  qed (simp add: options_ok_def newFields_def)
qed

section \<open>Fields with tags\<close>

text \<open>
  A field that is exported and not embedded, whose tag was written from \<open>t\<close>: its name, the keys it is
  found under, and its descriptor at position \<open>i\<close>.
\<close>

definition tagged :: "gostring \<Rightarrow> (sfield \<times> stype) \<times> tag \<Rightarrow> bool" where
  "tagged tg x \<longleftrightarrow> (let sf = fst (fst x); t = snd x in
     sf_exported sf \<and> \<not> sf_anonymous sf \<and> sf_name sf \<noteq> [95] @ key_msgpack \<and>
     tag_Get sf key_msgpack = tag_text t \<and> (tag_text t = [] \<longrightarrow> tg = []) \<and> writable t \<and> tag_name t \<noteq> [45] \<and>
     (HasOption t key_intern \<longrightarrow> can_intern (snd (fst x))))"

definition tagged_name :: "(sfield \<times> stype) \<times> tag \<Rightarrow> gostring" where
  "tagged_name x = (if tag_name (snd x) = [] then sf_name (fst (fst x)) else tag_name (snd x))"

definition tagged_keys :: "(sfield \<times> stype) \<times> tag \<Rightarrow> gostring list" where
  "tagged_keys x =
     tagged_name x # (case map_of (tag_options (snd x)) key_alias of None \<Rightarrow> [] | Some alias \<Rightarrow> [alias])"

definition tagged_fld :: "nat \<times> (sfield \<times> stype) \<times> tag \<Rightarrow> fld" where
  "tagged_fld ix =
     \<lparr>fld_name = tagged_name (snd ix), fld_index = [fst ix], fld_intern = HasOption (snd (snd ix)) key_intern,
      fld_omitEmpty = HasOption (snd (snd ix)) key_omitempty\<rparr>"

lemma tagged_step:
  assumes "tagged tg x"
  shows "field_step tg i (fst (fst x)) (snd (fst x)) inlined (fs, False) = Inr (add_field (snd x) (tagged_fld (i, x)) fs, False)"
  using assms Parse_tag_text [of "snd x"]
  by (auto simp: field_step_def tagged_def tagged_fld_def tagged_name_def place_field_def Let_def)

lemma add_field_List: "f_List (add_field t f fs) = f_List fs @ [f]"
  by (simp add: add_field_def fields_Add_fields Let_def split: option.split)

lemma add_field_Map:
  "map_of (f_Map (add_field (snd x) (tagged_fld (i, x)) fs)) k =
     (if k \<in> set (tagged_keys x) then Some (tagged_fld (i, x)) else map_of (f_Map fs) k)"
  by (auto simp: add_field_def fields_Add_fields tagged_keys_def tagged_fld_def update_conv' Let_def split: option.split)

lemma tagged_loop:
  assumes "\<And>x. x \<in> set xs \<Longrightarrow> tagged tg x" and "distinct (concat (map tagged_keys xs))"
  shows "\<exists>r. field_loop tg (map (\<lambda>f. (f, getFields tg (strip (snd f)))) (map fst xs)) i (fs, False) = Inr r \<and>
    f_List r = f_List fs @ map tagged_fld (enumerate i xs) \<and>
    (\<forall>k. map_of (f_Map r) k =
      (case find (\<lambda>ix. k \<in> set (tagged_keys (snd ix))) (enumerate i xs) of
         None \<Rightarrow> map_of (f_Map fs) k | Some ix \<Rightarrow> Some (tagged_fld ix)))"
  using assms
proof (induction xs arbitrary: i fs)
  case (Cons x xs)
  have new: "find (\<lambda>ix. k \<in> set (tagged_keys (snd ix))) (enumerate j xs) = None" if "k \<in> set (tagged_keys x)" for k j
    using Cons.prems(2) that by (fastforce simp: find_None_iff in_set_enumerate_eq)
  show ?case
    using Cons.IH [of "Suc i" "add_field (snd x) (tagged_fld (i, x)) fs"] Cons.prems tagged_step [of tg x i _ fs] new
    by (auto simp: add_field_List add_field_Map split: option.split)
qed simp


text \<open>\<^verbatim>\<open>struct { A int `msgpack:"a,omitempty,alias:b"`; B string }\<close>\<close>

definition example_tagged :: "((sfield \<times> stype) \<times> tag) list" where
  "example_tagged =
     (let t = \<lparr>tag_name = [97], tag_options = [(key_omitempty, []), (key_alias, [98])]\<rparr>; u = \<lparr>tag_name = [], tag_options = []\<rparr>
      in [((plain_field [65] (tag_text t) False, SOther (TInt KInt)), t), ((plain_field [66] [] False, SOther TString), u)])"


end
