(* ===== verification/Ext_Registry.thy ===== *)
theory Ext_Registry
  imports Reflect
begin

text \<open>
  The registry of extension types, \<^verbatim>\<open>ext.go\<close>: \<open>RegisterExt\<close>, \<open>RegisterExtEncoder\<close>,
  \<open>RegisterExtDecoder\<close> and what undoes them. The process-wide maps are a record of maps; what a
  program registers, its encoding and decoding functions, is of any types \<^typ>\<open>'e\<close> and \<^typ>\<open>'d\<close>.
\<close>

section \<open>State\<close>

text \<open>
  A registered coder: \<open>makeExtEncoder\<close> or \<open>makeExtDecoder\<close> with the id and the type they were given, or
  the same for the address of a value, \<open>makeExtEncoderAddr\<close> and \<open>makeExtDecoderAddr\<close>.
\<close>

datatype 'c coder = ExtCoder byte gtype 'c | ExtCoderAddr byte gtype 'c

text \<open>
  \<open>typeEncMap\<close> and \<open>typeDecMap\<close> have ids and types as keys: an id leads to its type, a type to its
  coder.
\<close>

record 'c type_map =
  ids :: "byte \<Rightarrow> gtype option"
  coders :: "gtype \<Rightarrow> 'c coder option"

record ('e, 'd) registry =
  typeEncMap :: "'e type_map"
  typeDecMap :: "'d type_map"
  extTypes :: "byte \<Rightarrow> (gtype \<times> 'd) option"

section \<open>Operations\<close>

definition delete_types :: "gtype \<Rightarrow> (gtype \<Rightarrow> 'c option) \<Rightarrow> gtype \<Rightarrow> 'c option" where
  "delete_types typ m =
     (let m = m(typ := None) in case typ of TPtr u \<Rightarrow> m(u := None) | _ \<Rightarrow> m)"

definition store_types :: "byte \<Rightarrow> gtype \<Rightarrow> 'c \<Rightarrow> (gtype \<Rightarrow> 'c coder option) \<Rightarrow> gtype \<Rightarrow> 'c coder option" where
  "store_types extID typ f m =
     (let m = m(typ \<mapsto> ExtCoder extID typ f)
      in case typ of TPtr u \<Rightarrow> m(u \<mapsto> ExtCoderAddr extID typ f) | _ \<Rightarrow> m)"

definition drop_id :: "byte \<Rightarrow> 'c type_map \<Rightarrow> 'c type_map" where
  "drop_id extID m =
     (case ids m extID of
        None \<Rightarrow> m
      | Some typ \<Rightarrow> m\<lparr>ids := (ids m)(extID := None), coders := delete_types typ (coders m)\<rparr>)"

definition put_id :: "byte \<Rightarrow> gtype \<Rightarrow> 'c \<Rightarrow> 'c type_map \<Rightarrow> 'c type_map" where
  "put_id extID typ f m =
     m\<lparr>ids := (ids m)(extID \<mapsto> typ), coders := store_types extID typ f (coders m)\<rparr>"

definition unregisterExtEncoder :: "byte \<Rightarrow> ('e, 'd) registry \<Rightarrow> ('e, 'd) registry" where
  "unregisterExtEncoder extID r = r\<lparr>typeEncMap := drop_id extID (typeEncMap r)\<rparr>"

definition unregisterExtDecoder :: "byte \<Rightarrow> ('e, 'd) registry \<Rightarrow> ('e, 'd) registry" where
  "unregisterExtDecoder extID r =
     (case ids (typeDecMap r) extID of
        None \<Rightarrow> r
      | Some typ \<Rightarrow> r\<lparr>typeDecMap := drop_id extID (typeDecMap r), extTypes := (extTypes r)(extID := None)\<rparr>)"

definition RegisterExtEncoder :: "byte \<Rightarrow> gtype \<Rightarrow> 'e \<Rightarrow> ('e, 'd) registry \<Rightarrow> ('e, 'd) registry" where
  "RegisterExtEncoder extID typ encoder r =
     (let r = unregisterExtEncoder extID r
      in r\<lparr>typeEncMap := put_id extID typ encoder (typeEncMap r)\<rparr>)"

definition RegisterExtDecoder :: "byte \<Rightarrow> gtype \<Rightarrow> 'd \<Rightarrow> ('e, 'd) registry \<Rightarrow> ('e, 'd) registry" where
  "RegisterExtDecoder extID typ decoder r =
     (let r = unregisterExtDecoder extID r
      in r\<lparr>extTypes := (extTypes r)(extID \<mapsto> (typ, decoder)),
           typeDecMap := put_id extID typ decoder (typeDecMap r)\<rparr>)"

definition RegisterExt :: "byte \<Rightarrow> gtype \<Rightarrow> 'e \<Rightarrow> 'd \<Rightarrow> ('e, 'd) registry \<Rightarrow> ('e, 'd) registry" where
  "RegisterExt extID typ marshal unmarshal r =
     RegisterExtDecoder extID typ unmarshal (RegisterExtEncoder extID typ marshal r)"

definition UnregisterExt :: "byte \<Rightarrow> ('e, 'd) registry \<Rightarrow> ('e, 'd) registry" where
  "UnregisterExt extID r = unregisterExtDecoder extID (unregisterExtEncoder extID r)"

definition empty_registry :: "('e, 'd) registry" where
  "empty_registry =
     \<lparr>typeEncMap = \<lparr>ids = \<lambda>_. None, coders = \<lambda>_. None\<rparr>, typeDecMap = \<lparr>ids = \<lambda>_. None, coders = \<lambda>_. None\<rparr>,
      extTypes = \<lambda>_. None\<rparr>"

section \<open>The types a registration claims\<close>

definition claimed :: "gtype \<Rightarrow> gtype set" where
  "claimed typ = insert typ (case typ of TPtr u \<Rightarrow> {u} | _ \<Rightarrow> {})"

lemma store_types_apply:
  "store_types i t f m u =
     (if u \<in> claimed t then Some (if u = t then ExtCoder i t f else ExtCoderAddr i t f) else m u)"
  by (cases t) (auto simp: store_types_def claimed_def)

lemma delete_types_apply: "delete_types t m u = (if u \<in> claimed t then None else m u)"
  by (cases t) (auto simp: delete_types_def claimed_def)

text \<open>
  A map of types is consistent when every id owns the coders of the types it claims, no two ids claim
  the same type, and every coder belongs to an id.
\<close>

definition owns :: "byte \<Rightarrow> gtype \<Rightarrow> 'c type_map \<Rightarrow> bool" where
  "owns i t m \<longleftrightarrow>
     (\<exists>f. \<forall>u\<in>claimed t. coders m u = Some (if u = t then ExtCoder i t f else ExtCoderAddr i t f))"

definition apart :: "'c type_map \<Rightarrow> bool" where
  "apart m \<longleftrightarrow> (\<forall>i j t u. ids m i = Some t \<longrightarrow> ids m j = Some u \<longrightarrow> i \<noteq> j \<longrightarrow> claimed t \<inter> claimed u = {})"

definition map_ok :: "'c type_map \<Rightarrow> bool" where
  "map_ok m \<longleftrightarrow> (\<forall>i t. ids m i = Some t \<longrightarrow> owns i t m) \<and> apart m \<and>
     (\<forall>u. coders m u \<noteq> None \<longrightarrow> (\<exists>i t. ids m i = Some t \<and> u \<in> claimed t))"

definition free_for :: "byte \<Rightarrow> gtype \<Rightarrow> 'c type_map \<Rightarrow> bool" where
  "free_for i t m \<longleftrightarrow> (\<forall>j u. ids m j = Some u \<longrightarrow> j \<noteq> i \<longrightarrow> claimed t \<inter> claimed u = {})"

lemma drop_id_fields:
  "ids (drop_id i m) = (ids m)(i := None)"
  "coders (drop_id i m) u = (if \<exists>t. ids m i = Some t \<and> u \<in> claimed t then None else coders m u)"
  by (auto simp: drop_id_def delete_types_apply split: option.split)

lemma put_id_fields:
  "ids (put_id i t f m) = (ids m)(i \<mapsto> t)"
  "coders (put_id i t f m) u =
     (if u \<in> claimed t then Some (if u = t then ExtCoder i t f else ExtCoderAddr i t f) else coders m u)"
  by (simp_all add: put_id_def store_types_apply)

lemma owns_other:
  assumes "owns j u m" and "\<And>v. v \<in> claimed u \<Longrightarrow> coders m' v = coders m v"
  shows "owns j u m'"
  using assms unfolding owns_def by (metis (no_types, lifting))

lemma apart_drop: "apart m \<Longrightarrow> apart (drop_id i m)"
  unfolding apart_def drop_id_fields by (metis fun_upd_apply option.distinct(1))

lemma map_ok_drop:
  assumes "map_ok m"
  shows "map_ok (drop_id i m)"
  unfolding map_ok_def
proof (intro conjI allI impI)
  fix j t
  assume "ids (drop_id i m) j = Some t"
  then have j: "ids m j = Some t" "j \<noteq> i" by (auto simp: drop_id_fields split: if_splits)
  then have "u \<notin> claimed v" if "ids m i = Some v" "u \<in> claimed t" for u v
    using assms that unfolding map_ok_def apart_def by blast
  then have "coders (drop_id i m) u = coders m u" if "u \<in> claimed t" for u
    using that unfolding drop_id_fields by auto
  moreover have "owns j t m" using assms j(1) unfolding map_ok_def by blast
  ultimately show "owns j t (drop_id i m)" by (metis owns_other)
next
  show "apart (drop_id i m)" using assms apart_drop unfolding map_ok_def by blast
next
  fix u
  assume "coders (drop_id i m) u \<noteq> None"
  then have "coders m u \<noteq> None" and i: "\<And>t. ids m i = Some t \<Longrightarrow> u \<notin> claimed t"
    by (auto simp: drop_id_fields split: if_splits)
  then obtain j t where "ids m j = Some t" "u \<in> claimed t" using assms unfolding map_ok_def by blast
  then show "\<exists>j t. ids (drop_id i m) j = Some t \<and> u \<in> claimed t" using i unfolding drop_id_fields by (metis fun_upd_apply)
qed

lemma map_ok_put:
  assumes "map_ok m" and "ids m i = None" and "free_for i t m"
  shows "map_ok (put_id i t f m)"
  unfolding map_ok_def
proof (intro conjI allI impI)
  have free: "claimed t \<inter> claimed u = {}" if "ids m j = Some u" for j u
    using assms(2,3) that unfolding free_for_def by (metis option.distinct(1))
  show "owns j u (put_id i t f m)" if "ids (put_id i t f m) j = Some u" for j u
  proof (cases "j = i")
    case True
    then show ?thesis using that by (auto simp: put_id_fields owns_def)
  next
    case False
    then have "ids m j = Some u" using that by (simp add: put_id_fields)
    moreover from this have "owns j u m" using assms(1) unfolding map_ok_def by blast
    ultimately show ?thesis using free owns_other put_id_fields(2) by (metis disjoint_iff)
  qed
  show "apart (put_id i t f m)"
    unfolding apart_def put_id_fields
  proof (intro allI impI)
    fix j k u v
    assume "((ids m)(i \<mapsto> t)) j = Some u" "((ids m)(i \<mapsto> t)) k = Some v" "j \<noteq> k"
    moreover have "apart m" using assms(1) unfolding map_ok_def by blast
    ultimately show "claimed u \<inter> claimed v = {}"
      using free unfolding apart_def by (cases "j = i"; cases "k = i") (auto simp: Int_commute)
  qed
  show "\<exists>j u. ids (put_id i t f m) j = Some u \<and> v \<in> claimed u" if "coders (put_id i t f m) v \<noteq> None" for v
  proof (cases "v \<in> claimed t")
    case False
    then have "coders m v \<noteq> None" using that by (simp add: put_id_fields)
    then obtain j u where "ids m j = Some u" "v \<in> claimed u" using assms(1) unfolding map_ok_def by blast
    moreover from this have "j \<noteq> i" using assms(2) by auto
    ultimately show ?thesis unfolding put_id_fields by (metis fun_upd_other)
  qed (auto simp: put_id_fields)
qed

lemma free_for_drop: "free_for i t m \<Longrightarrow> free_for i t (drop_id i m)"
  by (auto simp: free_for_def drop_id_fields split: if_splits)

section \<open>Consistency\<close>

text \<open>What the registry keeps: both maps are consistent and \<open>extTypes\<close> knows exactly the decoder's ids with their types.\<close>

definition registry_ok :: "('e, 'd) registry \<Rightarrow> bool" where
  "registry_ok r \<longleftrightarrow> map_ok (typeEncMap r) \<and> map_ok (typeDecMap r) \<and>
     (\<forall>i. map_option fst (extTypes r i) = ids (typeDecMap r) i)"

inductive reachable :: "('e, 'd) registry \<Rightarrow> bool" where
  start: "reachable empty_registry"
| register: "reachable r \<Longrightarrow> free_for i t (typeEncMap r) \<Longrightarrow> free_for i t (typeDecMap r) \<Longrightarrow>
    reachable (RegisterExt i t e d r)"
| register_encoder: "reachable r \<Longrightarrow> free_for i t (typeEncMap r) \<Longrightarrow> reachable (RegisterExtEncoder i t e r)"
| register_decoder: "reachable r \<Longrightarrow> free_for i t (typeDecMap r) \<Longrightarrow> reachable (RegisterExtDecoder i t d r)"
| unregister: "reachable r \<Longrightarrow> reachable (UnregisterExt i r)"

lemma registry_ok_encoder:
  assumes "registry_ok r" and "free_for i t (typeEncMap r)"
  shows "registry_ok (RegisterExtEncoder i t e r)"
proof -
  have "map_ok (put_id i t e (drop_id i (typeEncMap r)))"
    by (rule map_ok_put) (use assms in \<open>auto simp: registry_ok_def map_ok_drop free_for_drop drop_id_fields\<close>)
  then show ?thesis using assms(1) by (simp add: registry_ok_def RegisterExtEncoder_def unregisterExtEncoder_def Let_def)
qed

lemma registry_ok_unregister:
  "registry_ok r \<Longrightarrow> registry_ok (unregisterExtEncoder i r)"
  "registry_ok r \<Longrightarrow> registry_ok (unregisterExtDecoder i r)"
  by (auto simp: registry_ok_def unregisterExtEncoder_def unregisterExtDecoder_def map_ok_drop drop_id_fields
      split: option.split)

lemma typeDecMap_unregister: "typeDecMap (unregisterExtDecoder i r) = drop_id i (typeDecMap r)"
  by (simp add: unregisterExtDecoder_def drop_id_def split: option.split)

lemma registry_ok_decoder:
  assumes "registry_ok r" and "free_for i t (typeDecMap r)"
  shows "registry_ok (RegisterExtDecoder i t d r)"
proof -
  have r: "registry_ok (unregisterExtDecoder i r)" by (rule registry_ok_unregister(2) [OF assms(1)])
  have "map_ok (put_id i t d (drop_id i (typeDecMap r)))"
    by (rule map_ok_put) (use assms in \<open>auto simp: registry_ok_def map_ok_drop free_for_drop drop_id_fields\<close>)
  with r show ?thesis
    by (auto simp: registry_ok_def RegisterExtDecoder_def Let_def typeDecMap_unregister put_id_fields)
qed

lemma typeMap_encoder [simp]:
  "typeDecMap (RegisterExtEncoder i t e r) = typeDecMap r" "extTypes (RegisterExtEncoder i t e r) = extTypes r"
  "typeDecMap (unregisterExtEncoder i r) = typeDecMap r"
  by (simp_all add: RegisterExtEncoder_def unregisterExtEncoder_def Let_def)

lemma reachable_ok: "reachable r \<Longrightarrow> registry_ok r"
proof (induction rule: reachable.induct)
  case start
  show ?case by (simp add: registry_ok_def empty_registry_def map_ok_def apart_def)
qed (simp_all add: RegisterExt_def UnregisterExt_def registry_ok_encoder registry_ok_decoder registry_ok_unregister)



section \<open>Undoing a registration\<close>

lemma drop_put:
  assumes "ids m i = None" and "\<And>u. u \<in> claimed t \<Longrightarrow> coders m u = None"
  shows "drop_id i (put_id i t f m) = m"
proof -
  have "ids (drop_id i (put_id i t f m)) = ids m" using assms(1) by (auto simp: drop_id_fields put_id_fields)
  moreover have "coders (drop_id i (put_id i t f m)) = coders m"
    using assms(2) by (auto simp: fun_eq_iff drop_id_fields put_id_fields)
  ultimately show ?thesis by (cases m; cases "drop_id i (put_id i t f m)") simp
qed

text \<open>
  C35: \<open>UnregisterExt\<close> undoes \<open>RegisterExt\<close>: for an id that is not in use and a type that has no coder,
  itself or the type it points to, the registry is what it was before.
\<close>

theorem UnregisterExt_RegisterExt:
  assumes "ids (typeEncMap r) i = None" and "ids (typeDecMap r) i = None" and "extTypes r i = None"
    and "\<forall>u\<in>claimed t. coders (typeEncMap r) u = None \<and> coders (typeDecMap r) u = None"
  shows "UnregisterExt i (RegisterExt i t e d r) = r"
proof -
  have "drop_id i (put_id i t e (typeEncMap r)) = typeEncMap r" "drop_id i (put_id i t d (typeDecMap r)) = typeDecMap r"
    by (rule drop_put; use assms in blast)+
  moreover have "drop_id i (typeEncMap r) = typeEncMap r" using assms(1) by (simp add: drop_id_def)
  ultimately show ?thesis
    using assms(2,3)
    by (simp add: UnregisterExt_def RegisterExt_def RegisterExtDecoder_def RegisterExtEncoder_def
        unregisterExtDecoder_def unregisterExtEncoder_def Let_def put_id_fields fun_upd_idem)
qed

theorem UnregisterExt_RegisterExt_witness:
  "UnregisterExt 5 (RegisterExt 5 (TPtr TBool) () () empty_registry) = empty_registry"
  by (rule UnregisterExt_RegisterExt) (simp_all add: empty_registry_def)

text \<open>
  C36: one type under two ids breaks the registry. After the second registration the type is encoded
  under the second id; unregistering the first, whose id no value carries any more, also removes the
  type's encoder and decoder, so that its values are no longer written as an extension although the
  second id is still registered.
\<close>

theorem shared_type_unregistered:
  assumes "i \<noteq> j"
  shows "let r = RegisterExt j t e d (RegisterExt i t e d empty_registry) in
    coders (typeEncMap r) t = Some (ExtCoder j t e) \<and>
    ids (typeEncMap (UnregisterExt i r)) j = Some t \<and> extTypes (UnregisterExt i r) j = Some (t, d) \<and>
    coders (typeEncMap (UnregisterExt i r)) t = None \<and> coders (typeDecMap (UnregisterExt i r)) t = None"
  using assms
  by (simp add: UnregisterExt_def RegisterExt_def RegisterExtDecoder_def RegisterExtEncoder_def
      unregisterExtDecoder_def unregisterExtEncoder_def Let_def put_id_fields drop_id_fields empty_registry_def claimed_def)

theorem shared_type_unregistered_witness:
  "coders (typeEncMap (UnregisterExt 1 (RegisterExt 2 TBool () () (RegisterExt 1 TBool () () empty_registry)))) TBool = None"
  using shared_type_unregistered [of 1 2 TBool "()" "()"] by (simp add: Let_def)

end
