(* ===== verification/Typed_Recursion.thy ===== *)
theory Typed_Recursion
  imports Decode_Value
begin

text \<open>
  Typed decoding keeps the frame of the decoder and recurses only below the depth limit, so
  \<open>DecodeValue\<close> is another instance of \<open>depth_recursion\<close>: over every type, with pointers and struct
  fields that are decoded without entering a level of their own.
\<close>

section \<open>Frames\<close>

lemma keeps_set_rv [frames]: "keeps frame (set_rv s v)"
  unfolding set_rv_def by (intro frame_intros)

lemma keeps_wrappers:
  "keeps frame (decodeBoolValue s v)" "keeps frame (decodeInt64Value k s v)" "keeps frame (decodeUint64Value k s v)"
  "keeps frame (decodeFloat32Value s v)" "keeps frame (decodeFloat64Value s v)" "keeps frame (decodeStringValue s v)"
  "keeps frame (decodeBytesValue s v)" "keeps frame (decodeUnsupportedValue s v)"
  "keeps frame (decodeInternedStringValue s v)"
  unfolding decodeBoolValue_def decodeInt64Value_def decodeUint64Value_def decodeFloat32Value_def
    decodeFloat64Value_def decodeStringValue_def decodeBytesValue_def decodeUnsupportedValue_def
    decodeInternedStringValue_def DecodeBool_def DecodeInt64_def DecodeUint64_def DecodeFloat32_def DecodeFloat64_def
  by (intro frame_intros frames)+

lemma keeps_byteArrayValue: "keeps frame (byteArrayValue s v)"
  unfolding byteArrayValue_def decodeByteArrayValue_def
  by (split rv.split, intro conjI allI impI) (intro frame_intros frames)+

lemma keeps_strings_values:
  "keeps frame (decodeStringSliceValue s v)" "keeps frame (decodeMapStringStringValue s v)"
  unfolding decodeStringSliceValue_def decodeStringSlicePtr_def decodeMapStringStringValue_def decodeMapStringStringPtr_def
  by (intro frame_intros frames; split rv.split; intro conjI allI impI frame_intros frames)+

lemma keeps_interface_key [frames]: "keeps frame (interface_key kt mk)"
  unfolding interface_key_def by (auto intro!: frame_intros split: gtype.split rv.split option.split prod.split)

lemma keeps_DecodeNil [frames]: "keeps frame DecodeNil_m"
  unfolding DecodeNil_m_def by (intro frame_intros frames)

lemma keeps_timeValueDecoder: "keeps frame (timeValueDecoder s v)"
  unfolding timeValueDecoder_run DecodeExtHeader_def
  by (intro frame_intros frames) (auto intro!: frame_intros frames split: prod.split)

lemma keeps_containers:
  assumes rec: "\<And>x. keeps frame (rec x)"
  shows "keeps frame (decodeSliceValue rec t s v)" and "keeps frame (decodeArrayValue rec t s v)"
    and "keeps frame (decodeMapValue rec kt vt s v)"
proof -
  have "keeps frame (slice_elem rec t s P n b i x)" for P n b i x
    unfolding slice_elem_def Let_def by (intro frame_intros rec)
  then show "keeps frame (decodeSliceValue rec t s v)"
    unfolding decodeSliceValue_def Let_def
    by (auto intro!: frame_intros frames split: rv.split option.split prod.split)
  show "keeps frame (decodeArrayValue rec t s v)"
    unfolding decodeArrayValue_def by (auto intro!: frame_intros frames rec split: rv.split)
  show "keeps frame (decodeMapValue rec kt vt s v)"
    unfolding decodeMapValue_def decodeTypedMapValue_def by (auto intro!: frame_intros frames rec split: rv.split)
qed

lemma keeps_ptrValueDecoder: "(\<And>s v. keeps frame (dec s v)) \<Longrightarrow> keeps frame (ptrValueDecoder t dec s v)"
  unfolding ptrValueDecoder_def by (auto intro!: frame_intros frames split: rv.split option.split)

section \<open>Fields\<close>

text \<open>
  Reaching a field reads nothing: \<open>field_DecodeValue\<close> either fails at once or runs the field's decoder
  on one value and puts the result back, whatever that decoder is.
\<close>

lemma bind_ret_fuse: "bindE (bindE m (\<lambda>x. ret (f x))) (\<lambda>y. ret (g y)) = bindE m (\<lambda>x. ret (g (f x)))"
  by (rule ext) (simp add: bindE_def split: prod.split sum.split)

definition through :: "(dfun \<Rightarrow> (decoder, rv) go) \<Rightarrow> bool" where
  "through m \<longleftrightarrow> (\<exists>e. \<forall>dec. m dec = fail e) \<or> (\<exists>s x k. \<forall>dec. m dec = bindE (dec s x) (\<lambda>y. ret (k y)))"

lemma through_fail: "through (\<lambda>dec. fail e)"
  unfolding through_def by (intro disjI1 exI allI) (rule refl)

lemma through_run: "through (\<lambda>dec. bindE (dec s x) (\<lambda>y. ret (k y)))"
  unfolding through_def by (intro disjI2 exI allI) (rule refl)

lemma through_bind:
  assumes "through m"
  shows "through (\<lambda>dec. bindE (m dec) (\<lambda>y. ret (g y)))"
proof -
  consider e where "\<And>dec. m dec = fail e" | s x k where "\<And>dec. m dec = bindE (dec s x) (\<lambda>y. ret (k y))"
    using assms unfolding through_def by blast
  then show ?thesis
  proof cases
    case 1
    have "bindE (m dec) (\<lambda>y. ret (g y)) = fail e" for dec unfolding 1 by (rule ext) (simp add: bindE_def)
    then show ?thesis using through_fail by simp
  next
    case 2
    have "bindE (m dec) (\<lambda>y. ret (g y)) = bindE (dec s x) (\<lambda>y. ret (g (k y)))" for dec
      unfolding 2 by (rule bind_ret_fuse)
    then show ?thesis using through_run by simp
  qed
qed

lemma through_field: "through (\<lambda>dec. field_DecodeValue p t dec s v)"
proof (induction p arbitrary: t s v)
  case Nil
  show ?case unfolding field_DecodeValue.simps by (rule through_fail)
next
  case (Cons i p)
  have embedded: "through (\<lambda>dec. case r of Inl e \<Rightarrow> fail e
    | Inr (u, s', x, put) \<Rightarrow> bindE (field_DecodeValue p u dec s' x) (\<lambda>x. ret (g put x)))" for r g
    by (cases r) (auto simp del: ret_apply fail_apply intro: through_fail through_bind Cons split: prod.split)
  have struct: "through (\<lambda>dec. case v of VStruct vs \<Rightarrow>
      if p = [] then bindE (dec s (vs ! i)) (\<lambda>x. ret (VStruct (vs[i := x])))
      else case indirectNil (ts ! i) s (vs ! i) of Inl e \<Rightarrow> fail e
        | Inr (u, s', x, put) \<Rightarrow> bindE (field_DecodeValue p u dec s' x) (\<lambda>x. ret (VStruct (vs[i := put x])))
    | _ \<Rightarrow> fail mismatch)" for ts
    by (cases v; cases "p = []") (simp_all del: ret_apply fail_apply add: through_fail through_run embedded)
  show ?case
    unfolding field_DecodeValue.simps by (cases "underlying t") (simp_all del: ret_apply fail_apply add: through_fail struct)
qed

lemma keeps_field: "(\<And>s v. keeps frame (dec s v)) \<Longrightarrow> keeps frame (field_DecodeValue p t dec s v)"
  using through_field [of p t s v] unfolding through_def by (auto simp del: ret_apply fail_apply intro!: frame_intros)

lemma agrees_field:
  assumes "\<And>s v. agrees (at_depth k l) (dec s v) (dec' s v)" and "\<And>s v. keeps frame (dec s v)"
  shows "agrees (at_depth k l) (field_DecodeValue p t dec s v) (field_DecodeValue p t dec' s v)"
  using through_field [of p t s v] unfolding through_def
  by (auto simp del: ret_apply fail_apply intro!: at_depth.agrees_bindE at_depth.agrees_refl assms)

lemma keeps_decodeStructValue:
  assumes g: "\<And>f s v. keeps frame (dec f s v)"
  shows "keeps frame (decodeStructValue t dec fs fmap s v)"
proof -
  have "keeps frame (decodeStruct t dec fmap s v n)" for n
    unfolding decodeStruct_def by (auto intro!: frame_intros frames keeps_field g split: option.split)
  then show ?thesis unfolding decodeStructValue_def by (intro frame_intros frames keeps_field g)
qed

lemma agrees_decodeStructValue:
  assumes g: "\<And>f s v. keeps frame (dec f s v)"
    and agree: "\<And>f s v. agrees (at_depth k l) (dec f s v) (dec' f s v)"
  shows "agrees (at_depth k l) (decodeStructValue t dec fs fmap s v) (decodeStructValue t dec' fs fmap s v)"
proof -
  have field: "agrees (at_depth k l) (field_DecodeValue p t (dec f) s v) (field_DecodeValue p t (dec' f) s v)" for f p v
    by (rule agrees_field) (rule agree g)+
  have "agrees (at_depth k l) (decodeStruct t dec fmap s v n) (decodeStruct t dec' fmap s v n)" for n
    unfolding decodeStruct_def
    by (intro at_depth.agrees_if at_depth.agrees_refl at_depth.agrees_foldE at_depth.agrees_bind_same frames)
      (auto intro!: field at_depth.agrees_refl frame_intros frames keeps_field g split: option.split)
  then show ?thesis
    unfolding decodeStructValue_def
    by (intro at_depth.agrees_bind_same at_depth.agrees_tryE at_depth.agrees_refl at_depth.agrees_if
        at_depth.agrees_foldlE field keeps_field g frames)
qed

section \<open>Types with methods\<close>

lemma keeps_liftE [frames]: "keeps frame (liftE r)"
  unfolding liftE_def by (auto intro: frame_intros split: sum.split)

lemma keeps_recording:
  assumes "keeps frame m"
  shows "keeps frame (bindE (modS (\<lambda>d. d\<lparr>d_rec := Some b\<rparr>)) (\<lambda>_. deferE (\<lambda>d. d\<lparr>d_rec := None\<rparr>) m))"
proof (rule keepsI)
  fix d
  obtain res d' where m: "m (d\<lparr>d_rec := Some b\<rparr>) = (res, d')" by fastforce
  have "frame (d\<lparr>d_rec := Some b\<rparr>) d'" by (rule keepsD [OF assms m])
  then show "frame d (snd (bindE (modS (\<lambda>d. d\<lparr>d_rec := Some b\<rparr>)) (\<lambda>_. deferE (\<lambda>d. d\<lparr>d_rec := None\<rparr>) m) d))"
    using m by (simp add: bindE_def deferE_def frame_def)
qed

lemma keeps_DecodeRaw [frames]: "keeps frame DecodeRaw"
  unfolding DecodeRaw_def by (intro frame_intros frames keeps_recording)

lemma keeps_unmarshal:
  "keeps frame (unmarshalValue f v)" "keeps frame (unmarshalBinaryValue f v)" "keeps frame (unmarshalTextValue f v)"
  unfolding unmarshalValue_def unmarshalBinaryValue_def unmarshalTextValue_def DecodeBytes_def
  by (intro frame_intros frames keeps_recording)+

lemma keeps_named:
  assumes "\<And>v. keeps frame (fn v)"
  shows "keeps frame (namedPtrDecoder t fn s v)" and "keeps frame (addrDecoder (nilAwareDecoder t fn) s v)"
    and "keeps frame (makeExtDecoderAddr (nilAwareDecoder t fn) s v)"
proof -
  have "keeps frame (nilAwareDecoder t fn s p)" for s p
    unfolding nilAwareDecoder_def decodeNilValue_def
    by (auto intro!: frame_intros frames assms split: option.split)
  then show "keeps frame (namedPtrDecoder t fn s v)" "keeps frame (addrDecoder (nilAwareDecoder t fn) s v)"
    "keeps frame (makeExtDecoderAddr (nilAwareDecoder t fn) s v)"
    unfolding namedPtrDecoder_def addrDecoder_def makeExtDecoderAddr_def by (auto intro!: frame_intros split: rv.split)
qed

lemma keeps_nilAwareValue:
  assumes "\<And>s v. keeps frame (fn s v)"
  shows "keeps frame (nilAwareValue u fn s v)"
proof -
  have "keeps frame (decodeNilValue_in u s v)"
    unfolding decodeNilValue_in_def by (intro frame_intros frames; split gtype.split; intro conjI allI impI frame_intros frames)
  moreover have "keeps frame (case u of TPtr t \<Rightarrow> if s then fn s (VPtr (Some (zero_rv t))) else fail unaddressable | TIface e \<Rightarrow> fail no_elem | _ \<Rightarrow> if s then fail not_assignable else fail unaddressable)"
    by (split gtype.split, intro conjI allI impI frame_intros assms)
  ultimately show ?thesis
    unfolding nilAwareValue_def by (intro frame_intros frames assms)
qed

lemma keeps_makeExtDecoder:
  assumes "\<And>n. keeps frame (fn n)"
  shows "keeps frame (makeExtDecoder extID fn)"
  unfolding makeExtDecoder_def DecodeExtHeader_def
  by (intro frame_intros frames) (auto intro!: frame_intros frames assms split: prod.split)

lemma agrees_named:
  assumes "\<And>v. keeps frame (fn v)" and "\<And>v. agrees (at_depth k l) (fn v) (fn' v)"
  shows "agrees (at_depth k l) (namedPtrDecoder t fn s v) (namedPtrDecoder t fn' s v)"
    and "agrees (at_depth k l) (addrDecoder (nilAwareDecoder t fn) s v) (addrDecoder (nilAwareDecoder t fn') s v)"
    and "agrees (at_depth k l) (makeExtDecoderAddr (nilAwareDecoder t fn) s v) (makeExtDecoderAddr (nilAwareDecoder t fn') s v)"
proof -
  have "keeps frame (nilAwareDecoder t fn s p)" for s p
    unfolding nilAwareDecoder_def decodeNilValue_def
    by (auto intro!: frame_intros frames assms split: option.split)
  moreover have "agrees (at_depth k l) (nilAwareDecoder t fn s p) (nilAwareDecoder t fn' s p)" for s p
    unfolding nilAwareDecoder_def
    by (cases p) (auto simp del: ret_apply fail_apply
        intro!: at_depth.agrees_bind_same at_depth.agrees_bindE at_depth.agrees_refl frames assms)
  ultimately show "agrees (at_depth k l) (namedPtrDecoder t fn s v) (namedPtrDecoder t fn' s v)"
    "agrees (at_depth k l) (addrDecoder (nilAwareDecoder t fn) s v) (addrDecoder (nilAwareDecoder t fn') s v)"
    "agrees (at_depth k l) (makeExtDecoderAddr (nilAwareDecoder t fn) s v) (makeExtDecoderAddr (nilAwareDecoder t fn') s v)"
    unfolding namedPtrDecoder_def addrDecoder_def makeExtDecoderAddr_def
    by (auto simp del: ret_apply fail_apply intro!: at_depth.agrees_bindE at_depth.agrees_refl split: rv.split)
qed

lemma agrees_nilAwareValue:
  assumes "\<And>s v. agrees (at_depth k l) (fn s v) (fn' s v)"
  shows "agrees (at_depth k l) (nilAwareValue u fn s v) (nilAwareValue u fn' s v)"
proof -
  have "agrees (at_depth k l)
      (case u of TPtr t \<Rightarrow> if s then fn s (VPtr (Some (zero_rv t))) else fail unaddressable | TIface e \<Rightarrow> fail no_elem | _ \<Rightarrow> if s then fail not_assignable else fail unaddressable)
      (case u of TPtr t \<Rightarrow> if s then fn' s (VPtr (Some (zero_rv t))) else fail unaddressable | TIface e \<Rightarrow> fail no_elem | _ \<Rightarrow> if s then fail not_assignable else fail unaddressable)"
    by (cases u; simp only: gtype.case; intro at_depth.agrees_if at_depth.agrees_refl assms)
  then show ?thesis
    unfolding nilAwareValue_def by (intro at_depth.agrees_bind_same at_depth.agrees_if at_depth.agrees_refl frames assms)
qed

lemma agrees_makeExtDecoder:
  assumes "\<And>n. agrees (at_depth k l) (fn n) (fn' n)"
  shows "agrees (at_depth k l) (makeExtDecoder extID fn) (makeExtDecoder extID fn')"
proof -
  have "keeps frame DecodeExtHeader" unfolding DecodeExtHeader_def by (intro frame_intros frames)
  then show ?thesis
    unfolding makeExtDecoder_def
    by (intro at_depth.agrees_bind_same) (auto intro!: at_depth.agrees_if at_depth.agrees_refl assms split: prod.split simp del: fail_apply)
qed

section \<open>Containers, pointers and interfaces\<close>

lemma agrees_typed_containers:
  assumes rec: "\<And>x. keeps frame (rec x)" and agree: "\<And>x. agrees (at_depth k l) (rec x) (rec' x)"
  shows "agrees (at_depth k l) (decodeSliceValue rec t s v) (decodeSliceValue rec' t s v)"
    and "agrees (at_depth k l) (decodeArrayValue rec t s v) (decodeArrayValue rec' t s v)"
    and "agrees (at_depth k l) (decodeMapValue rec kt vt s v) (decodeMapValue rec' kt vt s v)"
proof -
  have elem: "keeps frame (slice_elem rec t s P n b i x)" for P n b i x
    unfolding slice_elem_def Let_def by (intro frame_intros rec)
  have "agrees (at_depth k l) (slice_elem rec t s P n b i x) (slice_elem rec' t s P n b i x)" for P n b i x
    unfolding slice_elem_def Let_def by (intro at_depth.agrees_if at_depth.agrees_refl at_depth.agrees_bindE agree rec)
  with elem show "agrees (at_depth k l) (decodeSliceValue rec t s v) (decodeSliceValue rec' t s v)"
    unfolding decodeSliceValue_def Let_def
    by (cases v) (auto simp del: ret_apply fail_apply
        intro!: at_depth.agrees_refl at_depth.agrees_bind_same at_depth.agrees_bindE at_depth.agrees_foldlE frame_intros frames
        split: option.split prod.split)
  show "agrees (at_depth k l) (decodeArrayValue rec t s v) (decodeArrayValue rec' t s v)"
    unfolding decodeArrayValue_def
    by (cases v) (auto simp del: ret_apply fail_apply
        intro!: at_depth.agrees_refl at_depth.agrees_bindE at_depth.agrees_foldlE agree rec frame_intros frames)
  show "agrees (at_depth k l) (decodeMapValue rec kt vt s v) (decodeMapValue rec' kt vt s v)"
    unfolding decodeMapValue_def decodeTypedMapValue_def
    by (cases v) (auto simp del: ret_apply fail_apply
        intro!: at_depth.agrees_refl at_depth.agrees_bindE at_depth.agrees_foldE agree rec frame_intros frames)
qed

lemma agrees_ptrValueDecoder:
  assumes "\<And>s v. keeps frame (dec s v)" and "\<And>s v. agrees (at_depth k l) (dec s v) (dec' s v)"
  shows "agrees (at_depth k l) (ptrValueDecoder t dec s v) (ptrValueDecoder t dec' s v)"
  unfolding ptrValueDecoder_def
  by (cases v) (auto simp del: ret_apply fail_apply
      intro!: at_depth.agrees_refl at_depth.agrees_bindE assms frame_intros frames split: option.split)

section \<open>The recursion\<close>

text \<open>What the decoder relies on of the program's own methods, as for the functions it installs.\<close>

definition hook_ok :: "((gtype \<times> bool \<times> rv \<Rightarrow> (decoder, rv) go) \<Rightarrow> (decoder, rv) go) \<Rightarrow> bool" where
  "hook_ok f \<longleftrightarrow>
     (\<forall>rec. (\<forall>x. keeps frame (rec x)) \<longrightarrow> keeps frame (f rec)) \<and>
     (\<forall>rec rec' k l. (\<forall>x. keeps frame (rec x)) \<longrightarrow> (\<forall>x. keeps frame (rec' x)) \<longrightarrow>
        (\<forall>x. agrees (at_depth k l) (rec x) (rec' x)) \<longrightarrow> agrees (at_depth k l) (f rec) (f rec'))"

definition registration_ok :: "registration \<Rightarrow> bool" where
  "registration_ok r =
     (case r of
        Registered f \<Rightarrow> \<forall>s v. hook_ok (\<lambda>rec. f rec s v)
      | RegisteredExt extID f \<Rightarrow> \<forall>n s v. hook_ok (\<lambda>rec. f rec n s v)
      | RegisteredExtPtr extID f \<Rightarrow> \<forall>n v. hook_ok (\<lambda>rec. f rec n v))"

definition tenv_ok :: "tenv \<Rightarrow> bool" where
  "tenv_ok env \<longleftrightarrow> env_ok (t_env env) \<and>
     (\<forall>i f v. t_method env i = DecodeMsgpack f \<longrightarrow> hook_ok (\<lambda>rec. f rec v)) \<and>
     (\<forall>i r. t_registered env i = Some r \<longrightarrow> registration_ok r)"

lemma hook_okD:
  assumes "hook_ok f" and "\<And>x. keeps frame (rec x)"
  shows "keeps frame (f rec)"
    and "(\<And>x. keeps frame (rec' x)) \<Longrightarrow> (\<And>x. agrees (at_depth k l) (rec x) (rec' x)) \<Longrightarrow> agrees (at_depth k l) (f rec) (f rec')"
  using assms unfolding hook_ok_def by blast+

text \<open>The decoder of a field, interned or not.\<close>

definition field_decoder :: "tenv \<Rightarrow> (gtype \<times> bool \<times> rv \<Rightarrow> (decoder, rv) go) \<Rightarrow> gtype \<Rightarrow> fdesc \<Rightarrow> dfun" where
  "field_decoder env rec t f =
     (case type_at (fst (snd f)) t of
        None \<Rightarrow> decodeUnsupportedValue
      | Some u \<Rightarrow>
          if snd (snd f) then
            (case underlying u of TIface e \<Rightarrow> decodeInternedInterfaceValue (t_env env) rec e
             | TString \<Rightarrow> decodeInternedStringValue | _ \<Rightarrow> decodeUnsupportedValue)
          else getDecoder env rec u)"

locale typed_env =
  fixes env :: tenv
  assumes tenv: "tenv_ok env"

sublocale typed_env \<subseteq> decode_env "t_env env"
  using tenv by unfold_locales (simp add: tenv_ok_def)

context typed_env
begin

lemma keeps_method: "(\<And>x. keeps frame (rec x)) \<Longrightarrow> keeps frame (call_method (t_method env i) rec v)"
  using tenv unfolding call_method_def decodeCustomValue_def tenv_ok_def
  by (auto simp: keeps_unmarshal split: umethod.split intro: hook_okD(1) [where f = "\<lambda>rec. f rec v" for f])

lemma agrees_method:
  assumes "\<And>x. keeps frame (rec x)" and "\<And>x. keeps frame (rec' x)" and "\<And>x. agrees (at_depth k l) (rec x) (rec' x)"
  shows "agrees (at_depth k l) (call_method (t_method env i) rec v) (call_method (t_method env i) rec' v)"
  using tenv assms unfolding call_method_def decodeCustomValue_def tenv_ok_def
  by (auto simp: at_depth.agrees_refl split: umethod.split intro: hook_okD(2) [where f = "\<lambda>rec. f rec v" for f])

text \<open>What is registered for a type, and its methods.\<close>

lemma registered_hooks:
  shows "t_registered env i = Some (Registered f) \<Longrightarrow> hook_ok (\<lambda>rec. f rec s v)"
    and "t_registered env i = Some (RegisteredExt extID g) \<Longrightarrow> hook_ok (\<lambda>rec. g rec n s v)"
    and "t_registered env i = Some (RegisteredExtPtr extID h) \<Longrightarrow> hook_ok (\<lambda>rec. h rec n v)"
proof -
  have "registration_ok r" if "t_registered env i = Some r" for r using tenv that by (simp add: tenv_ok_def)
  from this [of "Registered f"] this [of "RegisteredExt extID g"] this [of "RegisteredExtPtr extID h"]
  show "t_registered env i = Some (Registered f) \<Longrightarrow> hook_ok (\<lambda>rec. f rec s v)"
    "t_registered env i = Some (RegisteredExt extID g) \<Longrightarrow> hook_ok (\<lambda>rec. g rec n s v)"
    "t_registered env i = Some (RegisteredExtPtr extID h) \<Longrightarrow> hook_ok (\<lambda>rec. h rec n v)"
    by (simp_all add: registration_ok_def)
qed

lemma registered_cases:
  obtains (none) "t_registered env i = None" | (own) f where "t_registered env i = Some (Registered f)"
  | (ext) extID f where "t_registered env i = Some (RegisteredExt extID f)"
  | (ptr) extID f where "t_registered env i = Some (RegisteredExtPtr extID f)"
proof (cases "t_registered env i")
  case (Some r)
  then show thesis using that by (cases r) auto
qed (use that in auto)

lemma keeps_program_type:
  assumes rec: "\<And>x. keeps frame (rec x)"
  shows "keeps frame (namedDecoder env rec i u s v)"
    and "(\<And>s v. keeps frame (elem s v)) \<Longrightarrow> keeps frame (ptrToNamedDecoder env rec i u elem s v)"
proof -
  note hook = registered_hooks [THEN hook_okD(1) [OF _ rec]]
  note i = keeps_nilAwareValue keeps_ptrValueDecoder keeps_named keeps_makeExtDecoder keeps_method rec
  show "keeps frame (namedDecoder env rec i u s v)"
    by (cases rule: registered_cases [of i]; simp add: namedDecoder_def; (intro i conjI impI)?; elim hook)
  show "keeps frame (ptrToNamedDecoder env rec i u elem s v)" if "\<And>s v. keeps frame (elem s v)"
    by (cases rule: registered_cases [of i]; simp add: ptrToNamedDecoder_def; intro i that conjI impI; elim hook)
qed

lemma agrees_program_type:
  assumes rec: "\<And>x. keeps frame (rec x)" "\<And>x. keeps frame (rec' x)" "\<And>x. agrees (at_depth k l) (rec x) (rec' x)"
  shows "agrees (at_depth k l) (namedDecoder env rec i u s v) (namedDecoder env rec' i u s v)"
    and "(\<And>s v. keeps frame (elem s v)) \<Longrightarrow> (\<And>s v. agrees (at_depth k l) (elem s v) (elem' s v)) \<Longrightarrow>
      agrees (at_depth k l) (ptrToNamedDecoder env rec i u elem s v) (ptrToNamedDecoder env rec' i u elem' s v)"
proof -
  note hook = registered_hooks [THEN hook_okD(1) [OF _ rec(1)]] registered_hooks [THEN hook_okD(2) [OF _ rec]]
  note i = agrees_nilAwareValue agrees_ptrValueDecoder agrees_named agrees_makeExtDecoder keeps_makeExtDecoder
    agrees_method keeps_method rec
  show "agrees (at_depth k l) (namedDecoder env rec i u s v) (namedDecoder env rec' i u s v)"
    by (cases rule: registered_cases [of i]; simp add: namedDecoder_def; (intro i conjI impI)?; elim hook)
  show "agrees (at_depth k l) (ptrToNamedDecoder env rec i u elem s v) (ptrToNamedDecoder env rec' i u elem' s v)"
    if "\<And>s v. keeps frame (elem s v)" "\<And>s v. agrees (at_depth k l) (elem s v) (elem' s v)"
    by (cases rule: registered_cases [of i]; simp add: ptrToNamedDecoder_def; intro i that conjI impI; elim hook)
qed

lemma keeps_interfaces:
  assumes "\<And>x. keeps frame (rec x)"
  shows "keeps frame (decodeInterfaceValue (t_env env) rec e s v)"
    and "keeps frame (decodeInternedInterfaceValue (t_env env) rec e s v)"
proof -
  have "keeps frame (interfaceValue (t_env env) e s v)" for v
    unfolding interfaceValue_def
    by (auto intro!: frame_intros frames keeps_any split: option.split rv.split)
  then show "keeps frame (decodeInterfaceValue (t_env env) rec e s v)"
    unfolding decodeInterfaceValue_def by (auto intro!: frame_intros assms split: option.split rv.split)
  then show "keeps frame (decodeInternedInterfaceValue (t_env env) rec e s v)"
    unfolding decodeInternedInterfaceValue_def by (auto intro!: frame_intros frames split: go_error.split)
qed

lemma agrees_interfaces:
  assumes "\<And>x. keeps frame (rec x)" and "\<And>x. agrees (at_depth k l) (rec x) (rec' x)"
  shows "agrees (at_depth k l) (decodeInterfaceValue (t_env env) rec e s v) (decodeInterfaceValue (t_env env) rec' e s v)"
    and "agrees (at_depth k l) (decodeInternedInterfaceValue (t_env env) rec e s v)
      (decodeInternedInterfaceValue (t_env env) rec' e s v)"
proof -
  show *: "agrees (at_depth k l) (decodeInterfaceValue (t_env env) rec e s v) (decodeInterfaceValue (t_env env) rec' e s v)"
    unfolding decodeInterfaceValue_def
    by (cases v) (auto simp del: ret_apply fail_apply intro!: at_depth.agrees_refl at_depth.agrees_bindE assms split: option.split)
  show "agrees (at_depth k l) (decodeInternedInterfaceValue (t_env env) rec e s v)
      (decodeInternedInterfaceValue (t_env env) rec' e s v)"
    unfolding decodeInternedInterfaceValue_def
    by (intro at_depth.agrees_tryE at_depth.agrees_refl frames)
      (auto simp del: ret_apply fail_apply intro!: at_depth.agrees_refl at_depth.agrees_bind_same * frames split: go_error.split)
qed

lemma keeps_getDecoder:
  assumes rec: "\<And>x. keeps frame (rec x)"
  shows "keeps frame (getDecoder env rec t s v)"
proof (induction t arbitrary: s v rule: measure_induct_rule [of size])
  case (less t)
  show ?case
  proof (cases t)
    case (TPtr u)
    have u: "keeps frame (getDecoder env rec u s v)" for s v using TPtr less by simp
    have "keeps frame (ptrValueDecoder u (getDecoder env rec u) s v)"
      by (rule keeps_ptrValueDecoder) (rule u)
    then show ?thesis unfolding TPtr
      by (cases u) (use keeps_program_type(2) [OF rec u] in simp_all)
  next
    case (TStruct ts fs m)
    have "keeps frame (field_decoder env rec t f s v)" for f s v
      unfolding field_decoder_def using less [OF type_at_size]
      by (auto simp: keeps_wrappers keeps_interfaces rec split: option.split gtype.split)
    then show ?thesis
      unfolding TStruct getDecoder.simps field_decoder_def by (rule keeps_decodeStructValue)
  qed (simp_all add: keeps_wrappers keeps_byteArrayValue keeps_strings_values keeps_containers
      keeps_interfaces keeps_timeValueDecoder keeps_program_type rec
      decodeMapStringInterfaceValue_def decodeMapStringInterfacePtr_def keeps_DecodeMap keeps_any
      dec_frame.keeps_intros)
qed

lemma agrees_getDecoder:
  assumes rec: "\<And>x. keeps frame (rec x)" and rec': "\<And>x. keeps frame (rec' x)"
    and agree: "\<And>x. agrees (at_depth k l) (rec x) (rec' x)"
  shows "agrees (at_depth k l) (getDecoder env rec t s v) (getDecoder env rec' t s v)"
proof (induction t arbitrary: s v rule: measure_induct_rule [of size])
  case (less t)
  show ?case
  proof (cases t)
    case (TPtr u)
    have u: "keeps frame (getDecoder env rec u s v)" "agrees (at_depth k l) (getDecoder env rec u s v) (getDecoder env rec' u s v)"
      for s v using TPtr less keeps_getDecoder rec by simp_all
    have "agrees (at_depth k l) (ptrValueDecoder u (getDecoder env rec u) s v) (ptrValueDecoder u (getDecoder env rec' u) s v)"
      by (rule agrees_ptrValueDecoder) (rule u)+
    then show ?thesis unfolding TPtr
      by (cases u) (use agrees_program_type(2) [OF assms u] in simp_all)
  next
    case (TStruct ts fs m)
    have keep: "keeps frame (field_decoder env rec t f s v)" for f s v
      unfolding field_decoder_def
      by (auto simp: keeps_wrappers keeps_interfaces keeps_getDecoder rec split: option.split gtype.split)
    have "agrees (at_depth k l) (field_decoder env rec t f s v) (field_decoder env rec' t f s v)" for f s v
      unfolding field_decoder_def using less [OF type_at_size]
      by (auto simp: agrees_interfaces at_depth.agrees_refl assms split: option.split gtype.split)
    from agrees_decodeStructValue [OF keep this] show ?thesis
      unfolding TStruct getDecoder.simps field_decoder_def .
  qed (simp_all add: at_depth.agrees_refl agrees_typed_containers agrees_interfaces agrees_program_type assms)
qed

end

sublocale typed_env \<subseteq> typed: depth_recursion
  "\<lambda>m x. withDepth (getDecoder env m (fst x) (fst (snd x)) (snd (snd x)))" "DecodeValue_f env" "DecodeValue env"
proof
  show "keeps frame (withDepth (getDecoder env m (fst i) (fst (snd i)) (snd (snd i))))" if "\<And>j. keeps frame (m j)" for m i
    by (intro keeps_withDepth keeps_getDecoder that)
  show "agrees (at_depth k l) (withDepth (getDecoder env m (fst i) (fst (snd i)) (snd (snd i))))
      (withDepth (getDecoder env m' (fst i) (fst (snd i)) (snd (snd i))))"
    if "\<And>j. keeps frame (m j)" "\<And>j. keeps frame (m' j)" "k < l \<Longrightarrow> (\<And>j. agrees (at_depth (k + 1) l) (m j) (m' j))"
    for m m' k l i
    by (intro agrees_withDepth agrees_getDecoder that)
qed (simp_all add: DecodeValue_def)

interpretation package_types: typed_env "package_tenv c" for c
proof
  show "tenv_ok (package_tenv c)"
    using package_env_ok
    by (auto simp: tenv_ok_def hook_ok_def package_tenv_def RawMessage_DecodeMsgpack_def intro!: frame_intros frames at_depth.agrees_refl)
qed

context typed_env
begin

lemma keeps_DecodeValue: "keeps frame (DecodeValue env x)"
  by (rule typed.keeps_full)

lemma DecodeValue_unfold:
  "0 \<le> d_depth d \<Longrightarrow> DecodeValue env (t, s, v) d = withDepth (getDecoder env (DecodeValue env) t s v) d"
  using typed.unfold [of d "(t, s, v)"] by simp

lemma DecodeValue_unique:
  assumes "\<And>x. keeps frame (m x)"
    and "\<And>t s v d. 0 \<le> d_depth d \<Longrightarrow> m (t, s, v) d = withDepth (getDecoder env m t s v) d" and "0 \<le> d_depth d"
  shows "m x d = DecodeValue env x d"
  by (rule typed.unique [where m = m]) (use assms in auto)

end

section \<open>Termination\<close>

text \<open>
  C23: typed decoding terminates within the depth limit, for every type and destination and whatever
  decoding methods the program's types have, as long as these leave the decoder's depth and options
  alone: \<open>DecodeValue\<close> satisfies the recursion equation of the source (enter a level, run the decoder
  \<open>getDecoder\<close> picks for the type, leave the level) and is the only function that does.
\<close>

theorem DecodeValue_recursion:
  assumes "tenv_ok env" and "0 \<le> d_depth d"
  shows "DecodeValue env (t, s, v) d = withDepth (getDecoder env (DecodeValue env) t s v) d \<and>
    (\<forall>m. (\<forall>x. keeps frame (m x)) \<longrightarrow>
      (\<forall>t s v d. 0 \<le> d_depth d \<longrightarrow> m (t, s, v) d = withDepth (getDecoder env m t s v) d) \<longrightarrow>
      m (t, s, v) d = DecodeValue env (t, s, v) d)"
proof -
  have e: "typed_env env" by (rule typed_env.intro) (rule assms(1))
  have "m (t, s, v) d = DecodeValue env (t, s, v) d" if "\<forall>x. keeps frame (m x)"
    "\<forall>t s v d. 0 \<le> d_depth d \<longrightarrow> m (t, s, v) d = withDepth (getDecoder env m t s v) d" for m
    by (rule typed_env.DecodeValue_unique [OF e]) (use that assms(2) in auto)
  then show ?thesis using typed_env.DecodeValue_unfold [OF e assms(2)] by blast
qed

lemma package_tenv_ok: "tenv_ok (package_tenv c)"
  by (rule package_types.tenv)

theorem DecodeValue_recursion_witness:
  "DecodeValue (package_tenv False) (TSlice (TPtr RawMessage), True, VSlice None) (decoder_on [0x91, 0x92, 0x01, 0x02]) =
     withDepth (getDecoder (package_tenv False) (DecodeValue (package_tenv False)) (TSlice (TPtr RawMessage)) True (VSlice None))
       (decoder_on [0x91, 0x92, 0x01, 0x02])"
  using DecodeValue_recursion [OF package_tenv_ok, of "decoder_on [0x91, 0x92, 0x01, 0x02]"] by simp

end
