(* ===== verification/Unmarshal.thy ===== *)
theory Unmarshal
  imports Typed_Recursion
begin

text \<open>
  The entry points of decoding: \<open>Decode\<close> with its fast paths by pointer type, \<open>DecodeMulti\<close>, and
  \<open>Unmarshal\<close> on a pooled decoder (\<^verbatim>\<open>decode.go\<close>).
\<close>

section \<open>Decode\<close>

text \<open>
  The argument of \<open>Decode\<close>: nil, a value that is not a pointer, or a pointer to a destination of a
  type, which may be nil. The flag says that the type itself, and not one declared from it, is among
  those of the type switch.
\<close>

datatype arg = ArgNil | ArgValue gtype | ArgPtr bool gtype "rv option"

definition nil_deref :: go_error where
  "nil_deref = Panic ''invalid memory address or nil pointer dereference''"

definition decodePtr :: "tenv \<Rightarrow> gtype \<Rightarrow> rv \<Rightarrow> (decoder, rv) go" where
  "decodePtr env t v =
     (case v of
        VIface (Some (u, x)) \<Rightarrow>
          (case u of
             TPtr _ \<Rightarrow> bindE (DecodeValue env (u, False, x)) (\<lambda>x. ret (VIface (Some (u, x))))
           | _ \<Rightarrow> fail DecodeNonPointer)
      | _ \<Rightarrow> DecodeValue env (t, True, v))"

definition bytesPtrE :: "byte slice option \<Rightarrow> (decoder, byte slice option) go" where
  "bytesPtrE ptr d =
     (case decodeBytesPtr ptr d of ((Inl err, _), d1) \<Rightarrow> (Inl err, d1) | ((Inr _, b), d1) \<Rightarrow> (Inr b, d1))"

definition fastPath :: "tenv \<Rightarrow> gtype \<Rightarrow> rv \<Rightarrow> (decoder, rv) go" where
  "fastPath env t v =
     (case t of
        TString \<Rightarrow> bindE DecodeString (\<lambda>s. ret (VString s))
      | TBytes \<Rightarrow> bindE (bytesPtrE (case v of VBytes b \<Rightarrow> b | _ \<Rightarrow> None)) (\<lambda>b. ret (VBytes b))
      | TInt KInt \<Rightarrow> bindE DecodeInt (\<lambda>n. ret (VInt n))
      | TInt K8 \<Rightarrow> bindE DecodeInt8 (\<lambda>n. ret (VInt (scast n)))
      | TInt K16 \<Rightarrow> bindE DecodeInt16 (\<lambda>n. ret (VInt (scast n)))
      | TInt K32 \<Rightarrow> bindE DecodeInt32 (\<lambda>n. ret (VInt (scast n)))
      | TInt K64 \<Rightarrow> bindE DecodeInt64 (\<lambda>n. ret (VInt n))
      | TUint KInt \<Rightarrow> bindE DecodeUint (\<lambda>n. ret (VUint n))
      | TUint K8 \<Rightarrow> bindE DecodeUint8 (\<lambda>n. ret (VUint (ucast n)))
      | TUint K16 \<Rightarrow> bindE DecodeUint16 (\<lambda>n. ret (VUint (ucast n)))
      | TUint K32 \<Rightarrow> bindE DecodeUint32 (\<lambda>n. ret (VUint (ucast n)))
      | TUint K64 \<Rightarrow> bindE DecodeUint64 (\<lambda>n. ret (VUint n))
      | TBool \<Rightarrow> bindE DecodeBool (\<lambda>b. ret (VBool b))
      | TFloat32 \<Rightarrow> bindE DecodeFloat32 (\<lambda>f. ret (VFloat32 f))
      | TFloat64 \<Rightarrow> bindE DecodeFloat64 (\<lambda>f. ret (VFloat64 f))
      | TStrings \<Rightarrow> bindE (decodeStringSlicePtr (case v of VStrings p \<Rightarrow> p | _ \<Rightarrow> None)) (\<lambda>p. ret (VStrings p))
      | TMapSS \<Rightarrow> bindE (decodeMapStringStringPtr (case v of VMapSS m \<Rightarrow> m | _ \<Rightarrow> None)) (\<lambda>m. ret (VMapSS m))
      | TMapSI \<Rightarrow> bindE (decodeMapStringInterfacePtr (t_env env)) (\<lambda>m. ret (VMapSI m))
      | TTime \<Rightarrow> bindE DecodeTime (\<lambda>tm. ret (VTime tm))
      | _ \<Rightarrow> decodePtr env t v)"

text \<open>The nil pointers that the switch does not check reach a dereference, if the input gets that far.\<close>

definition nilPath :: "tenv \<Rightarrow> gtype \<Rightarrow> (decoder, rv) go" where
  "nilPath env t =
     (case t of
        TStrings \<Rightarrow> bindE DecodeArrayLen (\<lambda>n. if n = - 1 then ret (VStrings None) else fail nil_deref)
      | TMapSS \<Rightarrow> bindE DecodeMapLen (\<lambda>_. fail nil_deref)
      | TMapSI \<Rightarrow> bindE (decodeMapStringInterfacePtr (t_env env)) (\<lambda>_. fail nil_deref)
      | _ \<Rightarrow> fail DecodeNonSettable)"

definition Decode :: "tenv \<Rightarrow> arg \<Rightarrow> (decoder, rv) go" where
  "Decode env a =
     (case a of
        ArgNil \<Rightarrow> fail DecodeNil
      | ArgValue t \<Rightarrow> fail DecodeNonPointer
      | ArgPtr exact t None \<Rightarrow> if exact then nilPath env t else fail DecodeNonSettable
      | ArgPtr exact t (Some v) \<Rightarrow> if exact then fastPath env t v else decodePtr env t v)"

primrec DecodeMulti :: "tenv \<Rightarrow> arg list \<Rightarrow> (decoder, rv list) go" where
  "DecodeMulti env [] = ret []"
| "DecodeMulti env (a # as) = bindE (Decode env a) (\<lambda>v. bindE (DecodeMulti env as) (\<lambda>vs. ret (v # vs)))"

section \<open>Unmarshal\<close>

text \<open>\<^verbatim>\<open>bytes.NewReader\<close>; the pooled decoder is an argument, the result has it as it goes back to the pool.\<close>

definition bytes_reader :: "byte list \<Rightarrow> reader" where
  "bytes_reader data = \<lparr>r_rest = data, r_last = None, r_end = EOF, r_hasLen = True\<rparr>"

definition Unmarshal :: "tenv \<Rightarrow> byte list \<Rightarrow> arg \<Rightarrow> decoder \<Rightarrow> (go_error + rv) \<times> decoder" where
  "Unmarshal env data a dec =
     (case Decode env a (UsePreallocateValues True (dec_Reset (Some (bytes_reader data)) dec)) of
        (res, dec') \<Rightarrow> (res, PutDecoder dec'))"

section \<open>Restoration\<close>

lemma bytesPtrE_eq: "bytesPtrE p = bindE readCode (\<lambda>c. dec_bytes c p)"
proof (rule ext)
  fix d
  show "bytesPtrE p d = bindE readCode (\<lambda>c. dec_bytes c p) d"
    by (simp add: bytesPtrE_def decodeBytesPtr_def bytesPtr_def dec_bytes_def bindE_def
        split: prod.split sum.split option.split)
qed

lemma keeps_DecodeTime [frames]: "keeps frame DecodeTime"
  unfolding DecodeTime_def by (intro frame_intros frames) (auto intro!: frame_intros frames split: prod.split option.split)

lemma keeps_entries [frames]:
  "keeps frame DecodeInt" "keeps frame DecodeInt8" "keeps frame DecodeInt16" "keeps frame DecodeInt32"
  "keeps frame DecodeInt64" "keeps frame DecodeUint" "keeps frame DecodeUint8" "keeps frame DecodeUint16"
  "keeps frame DecodeUint32" "keeps frame DecodeUint64" "keeps frame DecodeFloat32" "keeps frame DecodeFloat64"
  "keeps frame DecodeBool" "keeps frame (bytesPtrE p)" "keeps frame DecodeArrayLen" "keeps frame DecodeMapLen"
  unfolding DecodeInt_def DecodeInt8_def DecodeInt16_def DecodeInt32_def DecodeInt64_def DecodeUint_def
    DecodeUint8_def DecodeUint16_def DecodeUint32_def DecodeUint64_def DecodeFloat32_def DecodeFloat64_def
    DecodeBool_def bytesPtrE_eq DecodeArrayLen_def DecodeMapLen_def
  by (intro frame_intros frames)+

lemma keeps_Ptrs [frames]: "keeps frame (decodeStringSlicePtr p)" "keeps frame (decodeMapStringStringPtr m)"
  unfolding decodeStringSlicePtr_def decodeMapStringStringPtr_def by (intro frame_intros frames)+

context typed_env
begin

lemma keeps_MapSI: "keeps frame (decodeMapStringInterfacePtr (t_env env))"
  unfolding decodeMapStringInterfacePtr_def by (intro keeps_DecodeMap keeps_any)

lemma keeps_decodePtr: "keeps frame (decodePtr env t v)"
  unfolding decodePtr_def by (auto intro!: frame_intros keeps_DecodeValue split: rv.split option.split gtype.split)

lemma keeps_fastPath: "keeps frame (fastPath env t v)"
  unfolding fastPath_def
  by (cases t) (auto intro!: frame_intros frames keeps_decodePtr keeps_MapSI split: ikind.split)

lemma keeps_Decode: "keeps frame (Decode env a)"
proof -
  have "keeps frame (nilPath env t)" for t
    unfolding nilPath_def by (cases t) (auto intro!: frame_intros frames keeps_MapSI)
  then show ?thesis
    unfolding Decode_def using keeps_fastPath keeps_decodePtr
    by (auto intro!: frame_intros split: arg.split option.split)
qed

lemma keeps_DecodeMulti: "keeps frame (DecodeMulti env as)"
  by (induction as) (auto simp del: ret_apply intro!: frame_intros keeps_Decode)

end

text \<open>
  C24: \<open>Decode\<close> and \<open>DecodeMulti\<close> leave the decoder usable on every exit path, errors and panics of the
  reflection layer included, for every destination: the nesting depth is what it was, the options,
  the limit, the struct tag and the installed map decoder are unchanged, no recording is left
  running, and the interned strings seen so far are kept.
\<close>

theorem Decode_restores:
  assumes "tenv_ok env" and "0 \<le> d_depth d"
    and "m = bindE (Decode env a) (\<lambda>v. ret [v]) \<or> m = DecodeMulti env as" and "m d = (res, d')"
  shows "d_depth d' = d_depth d \<and> d_maxDepth d' = d_maxDepth d \<and> d_flags d' = d_flags d \<and>
    d_structTag d' = d_structTag d \<and> d_mapDecoder d' = d_mapDecoder d \<and>
    (d_rec d = None \<longrightarrow> d_rec d' = None) \<and> prefix (d_dict d) (d_dict d')"
proof -
  have e: "typed_env env" by (rule typed_env.intro) (rule assms(1))
  have "keeps frame m"
    using assms(3) typed_env.keeps_Decode [OF e] typed_env.keeps_DecodeMulti [OF e]
    by (auto simp del: ret_apply intro!: frame_intros)
  from keepsD [OF this assms(4)] show ?thesis using assms(2) by (simp add: frame_def)
qed

theorem Decode_restores_witness:
  "d_depth (snd (DecodeMulti (package_tenv False) [ArgPtr False (TArray 1 TBool) (Some (VArray [VBool False])), ArgNil]
     (decoder_on [0x91, 0xc1]))) = 0"
  using Decode_restores [OF package_tenv_ok, of "decoder_on [0x91, 0xc1]" _ False]
  by (metis decoder_on(2) order_refl prod.collapse)

section \<open>Findings\<close>

lemma fst_Unmarshal:
  "fst (Unmarshal env data a dec) =
     fst (Decode env a (UsePreallocateValues True (dec_Reset (Some (bytes_reader data)) dec)))"
  by (simp add: Unmarshal_def split: prod.split)

text \<open>A decoder that a program has put back to the pool after \<open>SetDecodeDepthLimit\<close>.\<close>

definition pooled_with_limit :: "int \<Rightarrow> decoder" where
  "pooled_with_limit n = PutDecoder (SetDecodeDepthLimit n (NewDecoder amd64 None))"

lemma pooled_with_limit [code]:
  "pooled_with_limit n = SetDecodeDepthLimit n (NewDecoder amd64 None)"
  by (simp add: pooled_with_limit_def PutDecoder_def SetDecodeDepthLimit_def NewDecoder_def dec_Reset_def
      dec_ResetDict_def dec_ResetReader_def slice_cap_def)

text \<open>
  C25: \<open>Unmarshal\<close> depends on the history of the pool. \<open>Reset\<close>, which is documented to reset all state,
  leaves \<open>maxDepth\<close> alone: after a program has set a depth limit on a decoder and returned it with
  \<open>PutDecoder\<close>, an unrelated \<open>Unmarshal\<close> that gets this decoder fails on nested data that it accepts
  with another one.
\<close>

theorem Unmarshal_depth_limit_leaks:
  "fst (Unmarshal (package_tenv True) [0x91, 0x90] (ArgPtr False (TSlice (TSlice TBool)) (Some (VSlice None)))
     (pooled_with_limit 1)) = Inl (DepthExceeded 1) \<and>
   fst (Unmarshal (package_tenv True) [0x91, 0x90] (ArgPtr False (TSlice (TSlice TBool)) (Some (VSlice None)))
     (pooled_with_limit 2)) = Inr (VSlice (Some ([VSlice (Some ([], 0))], 1)))"
  unfolding fst_Unmarshal by (rule conjI) code_simp+

text \<open>
  C26: what nil does to a pointer depends on what the program has decoded before. For a type whose
  pointer has a decoding method, here \<open>RawMessage\<close>, nil makes the pointer nil if the type's decoder
  was cached before the pointer type's, and otherwise leaves the pointer and zeroes what it points
  to.
\<close>

theorem nil_pointer_depends_on_cache:
  "fst (Unmarshal (package_tenv cached) [0xc0]
       (ArgPtr False (TPtr RawMessage) (Some (VPtr (Some (VBytes (Some (new_slice [1]))))))) (pooled_with_limit 4)) =
     Inr (VPtr (if cached then None else Some (VBytes None)))"
proof -
  have "fst (Unmarshal (package_tenv True) [0xc0]
       (ArgPtr False (TPtr RawMessage) (Some (VPtr (Some (VBytes (Some (new_slice [1]))))))) (pooled_with_limit 4)) =
     Inr (VPtr None)"
    unfolding fst_Unmarshal by code_simp
  moreover have "fst (Unmarshal (package_tenv False) [0xc0]
       (ArgPtr False (TPtr RawMessage) (Some (VPtr (Some (VBytes (Some (new_slice [1]))))))) (pooled_with_limit 4)) =
     Inr (VPtr (Some (VBytes None)))"
    unfolding fst_Unmarshal by code_simp
  ultimately show ?thesis by (cases cached) simp_all
qed

text \<open>
  C27: input can make the decoder panic. A nil where a \<^verbatim>\<open>time.Time\<close> is expected inside a container
  reaches \<open>decodeNilValue\<close>, which calls \<^verbatim>\<open>IsNil\<close> on a struct; and decoding into a slice of interfaces
  that already holds a value that is not a pointer, as when a destination is reused, sets a value
  that is not addressable.
\<close>

theorem decoding_panics:
  "fst (Unmarshal (package_tenv True) [0x91, 0xc0] (ArgPtr False (TSlice TTime) (Some (VSlice None)))
     (pooled_with_limit 4)) = Inl nil_struct \<and>
   fst (Unmarshal (package_tenv True) [0x91, 0x05]
     (ArgPtr False (TSlice (TIface False)) (Some (VSlice (Some ([VIface (Some (TInt KInt, VInt 1))], 1)))))
     (pooled_with_limit 4)) = Inl unaddressable \<and>
   fst (Unmarshal (package_tenv True) [0x91, 0xa0] (ArgPtr True TStrings None) (pooled_with_limit 4)) = Inl nil_deref"
  unfolding fst_Unmarshal by (intro conjI) code_simp+

end
