(* ===== verification/Typed_Codec.thy ===== *)
theory Typed_Codec
  imports Interface_Codec Unmarshal
begin

text \<open>
  The encoder against typed decoding: what a value written by \<open>Encode\<close> is decoded to in a destination
  of a given type (\<open>holds\<close>), for which values and types (\<open>fits\<close>), and the round trip through
  \<open>DecodeValue\<close>, \<open>Decode\<close> and \<open>Unmarshal\<close>.
\<close>

section \<open>Successful runs with a known kind of result\<close>

definition gives :: "dconf \<Rightarrow> byte list \<Rightarrow> nat \<Rightarrow> (decoder, 'a) go \<Rightarrow> 'a set \<Rightarrow> bool" where
  "gives k bs n m W \<longleftrightarrow>
     (\<forall>d. ready bs n d \<longrightarrow> dconf_of d = k \<longrightarrow>
        (\<exists>w d'. m d = (Inr w, d') \<and> w \<in> W \<and> advanced bs d d' \<and> dconf_of d' = k))"

lemma gives_yields: "yields k bs n m w k \<Longrightarrow> w \<in> W \<Longrightarrow> gives k bs n m W"
  unfolding gives_def yields_def by blast

lemma gives_mono: "gives k bs n m V \<Longrightarrow> V \<subseteq> W \<Longrightarrow> gives k bs n m W"
  unfolding gives_def by blast

lemma gives_ret: "w \<in> W \<Longrightarrow> gives k [] n (ret w) W"
  by (rule gives_yields [OF yields_ret])

lemma gives_bind:
  assumes "gives k a (length b + n) m V" and "\<And>v. v \<in> V \<Longrightarrow> gives k b n (f v) W"
  shows "gives k (a @ b) n (bindE m f) W"
  unfolding gives_def
proof (intro allI impI)
  fix d
  assume d: "ready (a @ b) n d" "dconf_of d = k"
  obtain v d1 where 1: "m d = (Inr v, d1)" "v \<in> V" "advanced a d d1" "dconf_of d1 = k"
    using assms(1) ready_split [OF d(1)] d(2) unfolding gives_def by blast
  obtain w d2 where 2: "f v d1 = (Inr w, d2)" "w \<in> W" "advanced b d1 d2" "dconf_of d2 = k"
    using assms(2) [OF 1(2)] ready_after [OF d(1) 1(3)] 1(4) unfolding gives_def by blast
  show "\<exists>w d'. bindE m f d = (Inr w, d') \<and> w \<in> W \<and> advanced (a @ b) d d' \<and> dconf_of d' = k"
    using 1 2 advanced_trans by (auto simp: bindE_Inr)
qed

lemma gives_bind_ret: "gives k a n m V \<Longrightarrow> (\<And>v. v \<in> V \<Longrightarrow> g v \<in> W) \<Longrightarrow> gives k a n (bindE m (\<lambda>v. ret (g v))) W"
  using gives_bind [of k a "[]" n m V "\<lambda>v. ret (g v)" W] gives_ret by (metis append_Nil2 list.size(3) add_0)

lemma gives_yields_ret: "yields k a n m x k \<Longrightarrow> g x \<in> W \<Longrightarrow> gives k a n (bindE m (\<lambda>v. ret (g v))) W"
  by (rule gives_bind_ret [OF gives_yields [where W = "{x}"]]) auto

lemma gives_after:
  "yields k a (length b + n) m v k \<Longrightarrow> gives k b n (f v) W \<Longrightarrow> gives k (a @ b) n (bindE m f) W"
  by (rule gives_bind [OF gives_yields [where W = "{v}"]]) auto

lemma gives_getS:
  "(\<And>d. dconf_of d = k \<Longrightarrow> g d = v) \<Longrightarrow> gives k bs n (f v) W \<Longrightarrow> gives k bs n (bindE (getS g) f) W"
  by (simp add: gives_def bindE_getS)

lemma gives_plat: "gives k bs n (f (k_plat k)) W \<Longrightarrow> gives k bs n (bindE (getS d_plat) f) W"
  by (rule gives_getS) (auto simp: dconf_of_def)

lemma gives_flag: "gives k bs n (f (hasFlag (k_flags k) fl)) W \<Longrightarrow> gives k bs n (bindE (dec_flag fl) f) W"
  unfolding dec_flag_def bindE_assoc
  by (rule gives_getS [where v = "k_flags k"]) (auto simp: dconf_of_def bindE_ret simp del: ret_apply)

lemma gives_nilCode:
  assumes "gives k (c # bs) n (f (c = Nil_c)) W"
  shows "gives k (c # bs) n (bindE hasNilCode f) W"
  unfolding gives_def
proof (intro allI impI)
  fix d
  assume d: "ready (c # bs) n d" "dconf_of d = k"
  then obtain r t where r: "d_r d = Some r" "r_rest r = c # t"
    by (auto elim: ready_reader)
  let ?d = "d\<lparr>d_r := Some (r\<lparr>r_rest := c # t, r_last := None\<rparr>)\<rparr>"
  have run: "bindE hasNilCode f d = f (c = Nil_c) ?d"
    using r by (auto simp: bindE_def hasNilCode_def PeekCode_def ReadByte_def dec_UnreadByte_def UnreadByte_def werr_def)
  have "ready (c # bs) n ?d" "dconf_of ?d = k" using d r by (simp_all add: ready_def dconf_reader)
  then obtain w d' where "f (c = Nil_c) ?d = (Inr w, d')" "w \<in> W" "advanced (c # bs) ?d d'" "dconf_of d' = k"
    using assms unfolding gives_def by blast
  then show "\<exists>w d'. bindE hasNilCode f d = (Inr w, d') \<and> w \<in> W \<and> advanced (c # bs) d d' \<and> dconf_of d' = k"
    unfolding run using r by (auto simp: advanced_def)
qed

lemma gives_withDepth:
  assumes "gives (k\<lparr>k_depth := k_depth k + 1\<rparr>) bs n m W" and "0 \<le> k_depth k" and "k_depth k < k_limit k"
  shows "gives k bs n (withDepth m) W"
  unfolding gives_def
proof (intro allI impI)
  fix d
  assume d: "ready bs n d" "dconf_of d = k"
  let ?k = "k\<lparr>k_depth := k_depth k + 1\<rparr>"
  have "ready bs n (d\<lparr>d_depth := d_depth d + 1\<rparr>)" "dconf_of (d\<lparr>d_depth := d_depth d + 1\<rparr>) = ?k"
    using d by (auto simp: ready_def pending_def dconf_of_def)
  then obtain w d' where w: "m (d\<lparr>d_depth := d_depth d + 1\<rparr>) = (Inr w, d')" "w \<in> W"
      "advanced bs (d\<lparr>d_depth := d_depth d + 1\<rparr>) d'" "dconf_of d' = ?k"
    using assms(1) unfolding gives_def by blast
  have e: "enterDepth d = (Inr (), d\<lparr>d_depth := d_depth d + 1\<rparr>)"
    using assms(3) d(2) by (auto simp: enterDepth_def Let_def k_limit_def depth_limit_def dconf_of_def)
  have "d_depth d' = k_depth k + 1" using arg_cong [OF w(4), of k_depth] by (simp add: dconf_of_def)
  then have l: "leaveDepth d' = d'\<lparr>d_depth := k_depth k\<rparr>" using assms(2) by (simp add: leaveDepth_def)
  have "dconf_of (d'\<lparr>d_depth := k_depth k\<rparr>) = (dconf_of d')\<lparr>k_depth := k_depth k\<rparr>" by (simp add: dconf_of_def)
  also have "\<dots> = k" unfolding w(4) by simp
  finally have "dconf_of (d'\<lparr>d_depth := k_depth k\<rparr>) = k" .
  moreover have "withDepth m d = (Inr w, d'\<lparr>d_depth := k_depth k\<rparr>)"
    using w(1) l e by (simp add: withDepth_def bindE_def deferE_def)
  moreover have "advanced bs d (d'\<lparr>d_depth := k_depth k\<rparr>)" using w(3) by (simp add: advanced_def pending_def)
  ultimately show "\<exists>w d'. withDepth m d = (Inr w, d') \<and> w \<in> W \<and> advanced bs d d' \<and> dconf_of d' = k"
    using w(2) by blast
qed

text \<open>A loop over elements: an invariant of the accumulator, indexed by how many are done.\<close>

lemma gives_foldlE:
  assumes "length bss = length xs" and "I 0 a"
    and "\<And>i a n. i < length xs \<Longrightarrow> I i a \<Longrightarrow> gives k (bss ! i) n (f (xs ! i) a) (Collect (I (Suc i)))"
  shows "gives k (concat bss) n (foldlE f xs a) (Collect (I (length xs)))"
  using assms
proof (induction xs arbitrary: bss a I)
  case Nil
  then show ?case by (simp only: foldlE.simps list.size length_0_conv concat.simps) (rule gives_ret, simp)
next
  case (Cons x xs)
  from Cons.prems(1) obtain bs bt where b: "bss = bs # bt" "length bt = length xs" by (cases bss) auto
  have "gives k bs m (f x a) (Collect (I (Suc 0)))" for m using Cons.prems(2) Cons.prems(3) [of 0] b(1) by simp
  then have x: "gives k bs (length (concat bt) + n) (f x a) (Collect (I (Suc 0)))" .
  have "gives k (concat bt) n (foldlE f xs c) (Collect (I (Suc (length xs))))" if "I (Suc 0) c" for c
    by (rule Cons.IH [OF b(2), where I = "\<lambda>i. I (Suc i)"]) (use Cons.prems(3) [of "Suc i" for i] b(1) that in auto)
  then show ?case
    unfolding b(1) foldlE.simps concat.simps list.size add_0_right add_Suc_right
    by (intro gives_bind [OF x]) simp
qed

lemma bindE_rest_cong: "(\<And>x. g x = h x) \<Longrightarrow> bindE m g = bindE m h"
  by (rule arg_cong [where f = "bindE m"]) (rule ext)

lemma foldE_foldlE: "foldE (length xs) f a = foldlE (\<lambda>_. f) xs a"
proof (induction xs arbitrary: a)
  case (Cons x xs)
  show ?case
    unfolding list.size add_0_right add_Suc_right foldE.simps foldlE.simps by (rule bindE_rest_cong) (rule Cons)
qed (simp only: list.size foldE.simps foldlE.simps)

section \<open>Integers of every form\<close>

lemma word_of_sint: "sint (a :: u64) = sint b \<Longrightarrow> a = b"
  by (rule signed_word_eqI)

lemma word_of_uint: "uint (a :: u64) = uint b \<Longrightarrow> a = b"
  by (rule unsigned_word_eqI)

lemma uint_of_sint: "0 \<le> sint w \<Longrightarrow> uint w = sint (w :: u64)"
  using sint_lt [of w] by (simp add: uint_sint take_bit_int_eq_self)

lemma sint_widen: "uint (w :: u64) < 2 ^ 63 \<Longrightarrow> sint w = uint w"
proof -
  assume "uint w < 2 ^ 63"
  then have "int (unat w) < 2 ^ 63" by (simp only: uint_nat)
  then have "int (unat w) < int (2 ^ 63)" by simp
  then have "unat w < 2 ^ 63" by (simp only: of_nat_less_iff)
  from sint_small [OF this] show "sint w = uint w" by (simp only: uint_nat)
qed

lemma same_word:
  fixes w :: u64
  shows "sint x = sint w \<Longrightarrow> scast (x :: byte) = w" "sint y = sint w \<Longrightarrow> scast (y :: u16) = w"
    "sint z = sint w \<Longrightarrow> scast (z :: u32) = w"
    "uint x = uint w \<Longrightarrow> ucast (x :: byte) = w" "uint y = uint w \<Longrightarrow> ucast (y :: u16) = w"
    "uint z = uint w \<Longrightarrow> ucast (z :: u32) = w"
  by (rule word_of_sint word_of_uint; simp add: int_value_widen)+

lemma same_word_nonneg:
  fixes w q :: u64
  shows "uint q = sint w \<Longrightarrow> q = w" "uint (x :: byte) = sint w \<Longrightarrow> ucast x = w"
    "uint (y :: u16) = sint w \<Longrightarrow> ucast y = w" "uint (z :: u32) = sint w \<Longrightarrow> ucast z = w"
    "sint q = uint w \<Longrightarrow> q = w" "sint x = uint w \<Longrightarrow> scast x = w"
    "sint y = uint w \<Longrightarrow> scast y = w" "sint z = uint w \<Longrightarrow> scast z = w"
proof -
  have u: "q = w" if "uint q = sint w" for q w :: u64
  proof (rule word_of_uint)
    have "0 \<le> sint w" using that uint_ge_0 [of q] by simp
    then show "uint q = uint w" using uint_of_sint [of w] that by simp
  qed
  show "uint q = sint w \<Longrightarrow> q = w" "uint (x :: byte) = sint w \<Longrightarrow> ucast x = w"
    "uint (y :: u16) = sint w \<Longrightarrow> ucast y = w" "uint (z :: u32) = sint w \<Longrightarrow> ucast z = w"
    by (rule u; simp add: int_value_widen)+
  show "sint q = uint w \<Longrightarrow> q = w" "sint x = uint w \<Longrightarrow> scast x = w"
    "sint y = uint w \<Longrightarrow> scast y = w" "sint z = uint w \<Longrightarrow> scast z = w"
    by (rule u [symmetric]; simp add: int_value_widen)+
qed

lemma yields_DecodeInt64:
  assumes "int_value v = Some (sint w)"
  shows "yields k (wire fl P v) n DecodeInt64 w k"
proof -
  note forms = yields_int_forms(2-9) [of k _ n] yields_int_wire [of k _ n] yields_uint_wire(2) [of k _ n]
  show ?thesis
    using assms forms
    by (cases v) (auto simp: int_value_def wire_simps dest!: same_word same_word_nonneg word_of_sint simp del: ret_apply)
qed

lemma int_wire_nonneg:
  fixes w q :: u64
  shows "sint q = uint w \<Longrightarrow> int_wire q = uint_wire w" "sint (x :: byte) = uint w \<Longrightarrow> int_wire (scast x) = uint_wire w"
    "sint (y :: u16) = uint w \<Longrightarrow> int_wire (scast y) = uint_wire w" "sint (z :: u32) = uint w \<Longrightarrow> int_wire (scast z) = uint_wire w"
proof -
  have i: "int_wire q = uint_wire w" if "sint q = uint w" for q w :: u64
    using same_word_nonneg(5) [OF that] that by (simp add: int_wire_def)
  show "sint q = uint w \<Longrightarrow> int_wire q = uint_wire w" by (rule i)
  show "sint x = uint w \<Longrightarrow> int_wire (scast x) = uint_wire w" "sint y = uint w \<Longrightarrow> int_wire (scast y) = uint_wire w"
    "sint z = uint w \<Longrightarrow> int_wire (scast z) = uint_wire w"
    by (rule i; simp add: int_value_widen)+
qed

lemma yields_DecodeUint64:
  assumes "int_value v = Some (uint w)"
  shows "yields k (wire fl P v) n DecodeUint64 w k"
proof -
  note forms = yields_uint_forms(2-9) [of k _ n] yields_uint_wire(1) [of k _ n]
  show ?thesis
    using assms forms
    by (cases v) (auto simp: int_value_def wire_simps int_wire_nonneg dest: same_word same_word_nonneg word_of_uint simp del: ret_apply)
qed

section \<open>What a value is at a type\<close>

text \<open>
  \<open>holds fl loose t v w\<close>: a destination of type \<open>t\<close> that holds \<open>w\<close> has the contents of the Go value \<open>v\<close>,
  encoded with the options \<open>fl\<close>. Fields that were omitted hold zero values; a signalling \<^verbatim>\<open>float32\<close> NaN
  may have been quieted.
\<close>

definition field_at :: "(gostring \<times> fdesc) list \<Rightarrow> fmeta \<times> gval option \<Rightarrow> nat \<Rightarrow> bool" where
  "field_at fmap f i \<longleftrightarrow> (\<exists>nm. map_of fmap (f_name (fst f)) = Some (nm, [i], False))"

inductive holds :: "u32 \<Rightarrow> bool \<Rightarrow> gtype \<Rightarrow> gval \<Rightarrow> rv \<Rightarrow> bool" for fl loose where
  bool: "holds fl loose TBool (GBool b) (VBool b)"
| int: "int_value v = Some (sint n) \<Longrightarrow> holds fl loose (TInt ik) v (VInt n)"
| uint: "int_value v = Some (uint n) \<Longrightarrow> holds fl loose (TUint ik) v (VUint n)"
| f32: "w \<in> {VFloat32 f, SetFloat32 f} \<Longrightarrow> holds fl loose TFloat32 (GFloat32 f) w"
| f64: "holds fl loose TFloat64 (GFloat64 f) (VFloat64 f)"
| str: "holds fl loose TString (GString s) (VString s)"
| bytes_nil: "holds fl loose TBytes (GBytes None) (VBytes None)"
| bytes: "vis b = bs \<Longrightarrow> holds fl loose TBytes (GBytes (Some bs)) (VBytes (Some b))"
| byteArray: "holds fl loose (TByteArray n) (GByteArray a bs) (VByteArray bs)"
| time: "holds fl loose TTime (GTime t) (VTime \<lparr>t_sec = t_sec t, t_nsec = t_nsec t, t_utc = time_IsZero t\<rparr>)"
| strings_nil: "holds fl loose TStrings (GStrings None) (VStrings None)"
| strings: "vis sl = ss \<Longrightarrow> holds fl loose TStrings (GStrings (Some ss)) (VStrings (Some sl))"
| slice_nil: "holds fl loose (TSlice t) (GSlice None) (VSlice None)"
| slice: "list_all2 (holds fl loose t) xs (take (length xs) arr) \<Longrightarrow>
    holds fl loose (TSlice t) (GSlice (Some xs)) (VSlice (Some (arr, length xs)))"
| array: "list_all2 (holds fl loose t) xs ws \<Longrightarrow> holds fl loose (TArray n t) (GArray xs) (VArray ws)"
| mapSS_nil: "holds fl loose TMapSS (GMapSS None) (VMapSS None)"
| mapSS: "holds fl loose TMapSS (GMapSS (Some kvs)) (VMapSS (Some (map_order fl kvs)))"
| mapSI_nil: "holds fl loose TMapSI (GMapSI None) (VMapSI None)"
| mapSI: "list_all2 (\<lambda>a b. fst a = fst b \<and> seen fl loose (snd a) (snd b)) (map_order fl kvs) ws \<Longrightarrow>
    holds fl loose TMapSI (GMapSI (Some kvs)) (VMapSI (Some ws))"
| ptr_nil: "holds fl loose (TPtr t) (GPtr None) (VPtr None)"
| ptr: "holds fl loose t v w \<Longrightarrow> holds fl loose (TPtr t) (GPtr (Some v)) (VPtr (Some w))"
| iface: "seen fl loose v w \<Longrightarrow> holds fl loose (TIface False) v (VIface (of_gval w))"
| struct: "\<not> (hasFlag fl arrayEncodedStructsFlag \<or> a) \<Longrightarrow>
    list_all2 (\<lambda>f i. field_at m f i \<and> i < length ts \<and> holds fl loose (ts ! i) (field_val f) (ws ! i))
      (OmitEmpty (hasFlag fl omitEmptyFlag) fs) js \<Longrightarrow>
    length ws = length ts \<Longrightarrow> \<forall>i<length ts. i \<notin> set js \<longrightarrow> ws ! i = zero_rv (ts ! i) \<Longrightarrow>
    holds fl loose (TStruct ts l m) (GStruct a fs) (VStruct ws)"
| struct_array: "hasFlag fl arrayEncodedStructsFlag \<or> a \<Longrightarrow>
    list_all2 (\<lambda>d i. fst (snd d) = [i]) l js \<Longrightarrow>
    list_all2 (\<lambda>f i. i < length ts \<and> holds fl loose (ts ! i) (field_val f) (ws ! i)) fs js \<Longrightarrow>
    length ws = length ts \<Longrightarrow> \<forall>i<length ts. i \<notin> set js \<longrightarrow> ws ! i = zero_rv (ts ! i) \<Longrightarrow>
    holds fl loose (TStruct ts l m) (GStruct a fs) (VStruct ws)"
monos list_all2_mono

text \<open>
  \<open>fits fl Q P n t v\<close>: the value \<open>v\<close>, encoded with the options \<open>fl\<close> on platform \<open>Q\<close>, fits into a zero value
  of type \<open>t\<close> on platform \<open>P\<close>, going \<open>n\<close> levels deeper. Numbers are in the range of the destination,
  pointers do not point to what is encoded as nil, struct fields are found under distinct names.
\<close>

definition kind_bits :: "platform \<Rightarrow> ikind \<Rightarrow> nat" where
  "kind_bits P ik = (case ik of KInt \<Rightarrow> min 64 (p_intBits P) | K8 \<Rightarrow> 8 | K16 \<Rightarrow> 16 | K32 \<Rightarrow> 32 | K64 \<Rightarrow> 64)"

inductive fits :: "u32 \<Rightarrow> platform \<Rightarrow> platform \<Rightarrow> nat \<Rightarrow> gtype \<Rightarrow> gval \<Rightarrow> bool" for fl Q P where
  bool: "fits fl Q P n TBool (GBool b)"
| int: "int_value v = Some i \<Longrightarrow> - (2 ^ (kind_bits P ik - 1)) \<le> i \<Longrightarrow> i < 2 ^ (kind_bits P ik - 1) \<Longrightarrow>
    fits fl Q P n (TInt ik) v"
| uint: "int_value v = Some i \<Longrightarrow> 0 \<le> i \<Longrightarrow> i < 2 ^ kind_bits P ik \<Longrightarrow> fits fl Q P n (TUint ik) v"
| f32: "\<not> hasFlag fl useCompactFloatsFlag \<Longrightarrow> fits fl Q P n TFloat32 (GFloat32 f)"
| f64: "\<not> hasFlag fl useCompactFloatsFlag \<Longrightarrow> fits fl Q P n TFloat64 (GFloat64 f)"
| str: "short s \<Longrightarrow> fits fl Q P n TString (GString s)"
| bytes_nil: "fits fl Q P n TBytes (GBytes None)"
| bytes: "short b \<Longrightarrow> fits fl Q P n TBytes (GBytes (Some b))"
| byteArray: "short b \<Longrightarrow> fits fl Q P n (TByteArray (length b)) (GByteArray a b)"
| time: "time_wf t \<Longrightarrow> fits fl Q P n TTime (GTime t)"
| strings_nil: "fits fl Q P n TStrings (GStrings None)"
| strings: "short ss \<Longrightarrow> \<forall>s\<in>set ss. short s \<Longrightarrow> fits fl Q P n TStrings (GStrings (Some ss))"
| slice_nil: "fits fl Q P n (TSlice t) (GSlice None)"
| slice: "short xs \<Longrightarrow> \<forall>x\<in>set xs. fits fl Q P n t x \<Longrightarrow> fits fl Q P (Suc n) (TSlice t) (GSlice (Some xs))"
| array: "short xs \<Longrightarrow> \<forall>x\<in>set xs. fits fl Q P n t x \<Longrightarrow> fits fl Q P (Suc n) (TArray (length xs) t) (GArray xs)"
| mapSS_nil: "fits fl Q P n TMapSS (GMapSS None)"
| mapSS: "short kvs \<Longrightarrow> distinct (map fst kvs) \<Longrightarrow> \<forall>kv\<in>set kvs. short (fst kv) \<and> short (snd kv) \<Longrightarrow>
    fits fl Q P n TMapSS (GMapSS (Some kvs))"
| mapSI_nil: "fits fl Q P n TMapSI (GMapSI None)"
| mapSI: "short kvs \<Longrightarrow> distinct (map fst kvs) \<Longrightarrow> \<forall>kv\<in>set kvs. short (fst kv) \<and> data_val n (snd kv) \<Longrightarrow>
    fits fl Q P n TMapSI (GMapSI (Some kvs))"
| ptr_nil: "underlying t = t \<Longrightarrow> fits fl Q P n (TPtr t) (GPtr None)"
| ptr: "underlying t = t \<Longrightarrow> fits fl Q P n t v \<Longrightarrow> hd (wire fl Q v) \<noteq> Nil_c \<Longrightarrow> fits fl Q P n (TPtr t) (GPtr (Some v))"
| iface: "data_val n v \<Longrightarrow> fits fl Q P n (TIface False) v"
| struct: "\<not> (hasFlag fl arrayEncodedStructsFlag \<or> a) \<Longrightarrow> short fs \<Longrightarrow> plain_val (GStruct a fs) \<Longrightarrow>
    list_all2 (\<lambda>f i. \<not> f_intern (fst f) \<and> short (f_name (fst f)) \<and> field_at m f i \<and> i < length ts \<and>
      fits fl Q P n (ts ! i) (field_val f)) (OmitEmpty (hasFlag fl omitEmptyFlag) fs) js \<Longrightarrow> distinct js \<Longrightarrow>
    fits fl Q P n (TStruct ts l m) (GStruct a fs)"
| struct_array: "hasFlag fl arrayEncodedStructsFlag \<or> a \<Longrightarrow> short fs \<Longrightarrow>
    list_all2 (\<lambda>d i. \<exists>nm. d = (nm, [i], False)) l js \<Longrightarrow>
    list_all2 (\<lambda>f i. \<not> f_intern (fst f) \<and> i < length ts \<and> fits fl Q P n (ts ! i) (field_val f)) fs js \<Longrightarrow> distinct js \<Longrightarrow>
    fits fl Q P n (TStruct ts l m) (GStruct a fs)"
monos list_all2_mono

section \<open>Scalars\<close>

lemma SetInt_fits:
  assumes "- (2 ^ (kind_bits P ik - 1)) \<le> sint n" and "sint n < 2 ^ (kind_bits P ik - 1)"
  shows "SetInt P ik n = VInt n"
proof (cases ik)
  case KInt
  let ?b = "p_intBits P"
  have e: "(2::int) ^ (min 64 ?b - 1) \<le> 2 ^ (?b - 1)" by (intro power_increasing) auto
  have "signed_take_bit (?b - 1) (sint n) = sint n"
    by (rule signed_take_bit_int_eq_self) (use assms e in \<open>simp_all add: KInt kind_bits_def del: power_increasing_iff\<close>)
  then show ?thesis by (simp add: SetInt_def KInt)
qed (use assms in \<open>auto simp: SetInt_def kind_bits_def intro!: scast_narrow_widen\<close>)

lemma unat_less_pow:
  assumes "uint (w :: u64) < 2 ^ j"
  shows "unat w < 2 ^ j"
proof -
  have "int (unat w) < 2 ^ j" using assms by (simp only: uint_nat)
  then have "int (unat w) < int (2 ^ j)" by (simp only: of_nat_power of_nat_numeral)
  then show ?thesis by (simp only: of_nat_less_iff)
qed

lemma SetUint_fits:
  assumes "uint n < 2 ^ kind_bits P ik"
  shows "SetUint P ik n = VUint n"
proof -
  have n: "take_bit j n = n" if "uint n < 2 ^ j" for j
    using that by (intro word_of_uint) (simp add: unsigned_take_bit_eq take_bit_int_eq_self)
  show ?thesis
  proof (cases ik)
    case KInt
    have e: "(2::int) ^ min 64 (p_intBits P) \<le> 2 ^ p_intBits P" by (intro power_increasing) auto
    have "uint n < 2 ^ min 64 (p_intBits P)" using assms by (simp add: KInt kind_bits_def)
    from less_le_trans [OF this e] have "uint n < 2 ^ p_intBits P" .
    from n [OF this] show ?thesis by (simp add: SetUint_def KInt)
  next
    case K8
    then have "uint n < 2 ^ 8" using assms by (simp add: kind_bits_def)
    then have "unat n < 2 ^ 8" by (rule unat_less_pow)
    then show ?thesis using K8 by (simp add: SetUint_def ucast_narrow_widen)
  next
    case K16
    then have "uint n < 2 ^ 16" using assms by (simp add: kind_bits_def)
    then have "unat n < 2 ^ 16" by (rule unat_less_pow)
    then show ?thesis using K16 by (simp add: SetUint_def ucast_narrow_widen)
  next
    case K32
    then have "uint n < 2 ^ 32" using assms by (simp add: kind_bits_def)
    then have "unat n < 2 ^ 32" by (rule unat_less_pow)
    then show ?thesis using K32 by (simp add: SetUint_def ucast_narrow_widen)
  next
    case K64
    then show ?thesis by (simp add: SetUint_def)
  qed
qed

lemma gives_ints:
  "int_value v = Some (sint n) \<Longrightarrow> SetInt (k_plat k) ik n = VInt n \<Longrightarrow>
    gives k (wire fl Q v) r (decodeInt64Value ik True v0) {VInt n}"
  "int_value v = Some (uint n) \<Longrightarrow> SetUint (k_plat k) ik n = VUint n \<Longrightarrow>
    gives k (wire fl Q v) r (decodeUint64Value ik True v0) {VUint n}"
proof -
  assume a: "SetInt (k_plat k) ik n = VInt n" and "int_value v = Some (sint n)"
  have "gives k [] r (bindE (getS d_plat) (\<lambda>P. ret (SetInt P ik n))) {VInt n}"
    by (intro gives_plat gives_ret) (simp add: a)
  from gives_after [where f = "\<lambda>n. bindE (getS d_plat) (\<lambda>P. ret (SetInt P ik n))" and b = "[]", OF yields_DecodeInt64 this]
  show "gives k (wire fl Q v) r (decodeInt64Value ik True v0) {VInt n}"
    using \<open>int_value v = Some (sint n)\<close> by (simp add: decodeInt64Value_def set_rv_def del: ret_apply)
next
  assume a: "SetUint (k_plat k) ik n = VUint n" and "int_value v = Some (uint n)"
  have "gives k [] r (bindE (getS d_plat) (\<lambda>P. ret (SetUint P ik n))) {VUint n}"
    by (intro gives_plat gives_ret) (simp add: a)
  from gives_after [where f = "\<lambda>n. bindE (getS d_plat) (\<lambda>P. ret (SetUint P ik n))" and b = "[]", OF yields_DecodeUint64 this]
  show "gives k (wire fl Q v) r (decodeUint64Value ik True v0) {VUint n}"
    using \<open>int_value v = Some (uint n)\<close> by (simp add: decodeUint64Value_def set_rv_def del: ret_apply)
qed

lemma gives_set: "yields k bs n m x k \<Longrightarrow> f x \<in> W \<Longrightarrow> gives k bs n (bindE m (\<lambda>x. set_rv True (f x))) W"
  unfolding set_rv_def if_True by (rule gives_yields_ret)

lemma yields_DecodeBool: "yields k [if b then True_c else False_c] n DecodeBool b k"
  unfolding DecodeBool_def
  by (rule yields_bind_ret [OF yields_readCode]) (auto simp: dec_bool_def opcode_values)

lemma gives_bytes:
  assumes "\<not> k_rec k" and "case v of None \<Rightarrow> True | Some b \<Rightarrow> len_ok k (int (length b))"
  shows "gives k (bin_wire v) n DecodeBytes {w. map_option vis w = v}"
  unfolding gives_def
proof (intro allI impI)
  fix d
  assume d: "ready (bin_wire v) n d" "dconf_of d = k"
  obtain d' where d': "DecodeBytes_v d = (Inr v, d')" "advanced (bin_wire v) d d'" "dconf_of d' = k"
    using yieldsD [OF yields_DecodeBytes [OF assms] d] by blast
  then obtain w where "DecodeBytes d = (Inr w, d')" "map_option vis w = v"
    by (auto simp: DecodeBytes_v_def bindE_def split: prod.splits sum.splits)
  then show "\<exists>w d'. DecodeBytes d = (Inr w, d') \<and> w \<in> {w. map_option vis w = v} \<and> advanced (bin_wire v) d d' \<and> dconf_of d' = k"
    using d' by auto
qed

lemma gives_byteArray:
  assumes "len_ok k (int (length b))"
  shows "gives k (bin_wire (Some b)) n (byteArrayValue True (VByteArray (replicate (length b) 0))) {VByteArray b}"
proof -
  have "yields k b n (if int (length b) = - 1 then ret [] else if int (length b) > int (length b)
      then fail (ArrayTooLong (int (length b)) (int (length b))) else readFull (nat (int (length b)))) b k"
    using yields_readFull [OF refl, of k b n] by simp
  from yields_bind [where f = "\<lambda>n. if n = - 1 then ret [] else if n > int (length b)
      then fail (ArrayTooLong (int (length b)) n) else readFull (nat n)", OF yields_bin_hdr [OF assms] this]
  have "yields k (bin_wire (Some b)) n (decodeByteArrayValue (length b)) b k"
    by (simp add: bin_wire_def decodeByteArrayValue_def DecodeBytesLen_def bindE_assoc)
  from gives_bind_ret [where g = "\<lambda>a. VByteArray (a @ drop (length a) (replicate (length b) 0))" and W = "{VByteArray b}",
      OF gives_yields [where W = "{b}", OF this]]
  show ?thesis unfolding byteArrayValue_def by (simp del: ret_apply)
qed

lemma gives_time:
  assumes "time_wf tm" and "32 < p_intBits (k_plat k)"
  shows "gives k (time_wire tm) n (timeValueDecoder True v0)
    {VTime \<lparr>t_sec = t_sec tm, t_nsec = t_nsec tm, t_utc = time_IsZero tm\<rparr>}"
proof -
  let ?b = "time_bytes (t_sec tm) (word_of_nat (t_nsec tm))"
  have l: "length ?b \<in> {4, 8, 12}" by (rule length_time_bytes)
  obtain c bs where c: "ext_len_hdr (int (length ?b)) = c # bs" "c = FixExt4_c \<or> c = FixExt8_c \<or> c = Ext8_c"
    using time_hdr_code [OF l] by blast
  have nil: "c \<noteq> Nil_c" using c(2) by (auto simp: opcode_values)
  have h: "yields k (ext_len_hdr (int (length ?b)) @ [timeExtID]) (length ?b + n) DecodeExtHeader (timeExtID, int (length ?b)) k"
    by (rule yields_ext_header) (use assms(2) l in \<open>auto intro!: len_ok_intBits\<close>)
  let ?W = "{VTime \<lparr>t_sec = t_sec tm, t_nsec = t_nsec tm, t_utc = time_IsZero tm\<rparr>}"
  have "gives k ?b n (bindE (timeDecoder (int (length ?b))) (\<lambda>tm. set_rv True (VTime tm))) ?W"
    by (rule gives_set [OF yields_timeDecoder [OF assms(1)]]) simp
  then have "gives k ((ext_len_hdr (int (length ?b)) @ [timeExtID]) @ ?b) n (bindE DecodeExtHeader (\<lambda>(extID, extLen).
         if extID \<noteq> timeExtID then fail (WrongExtType extID timeExtID)
         else bindE (timeDecoder extLen) (\<lambda>tm. set_rv True (VTime tm)))) ?W"
    by (intro gives_after [OF h]) simp
  then have "gives k (c # bs @ timeExtID # ?b) n (timeValueDecoder True v0) ?W"
    unfolding timeValueDecoder_run by (intro gives_nilCode) (use nil c(1) in simp)
  then show ?thesis using c(1) by (simp add: time_wire_def Let_def)
qed

end
