(* ===== verification/Typed_Roundtrip.thy ===== *)
theory Typed_Roundtrip
  imports Typed_Codec Query_Codec Marshal
begin

text \<open>
  The round trip through typed decoding: every value that \<open>fits\<close> a type is read back into a zero value of
  it as something that \<open>holds\<close> its contents.
\<close>

section \<open>Strings, bytes and floats\<close>

lemma gives_strings_values:
  assumes "iconf k" and "short s"
  shows "gives k (str_wire s) r (decodeStringValue True v0) {VString s}"
  unfolding decodeStringValue_def
  by (rule gives_set [OF yields_DecodeString_plain])
    (use assms iconf_len [OF assms(1), of s] in \<open>auto simp: iconf_def short_def\<close>)

lemma gives_floats:
  assumes "\<not> hasFlag fl useCompactFloatsFlag"
  shows "gives k (f32_wire fl Q f) r (decodeFloat32Value True v0) {SetFloat32 f}"
    and "gives k (f64_wire fl Q g) r (decodeFloat64Value True v0) {VFloat64 g}"
  unfolding decodeFloat32Value_def decodeFloat64Value_def f32_wire_def f64_wire_def
  using assms by (auto intro!: gives_set [OF yields_raw_floats(2)] gives_set [OF yields_raw_floats(1)])

lemma gives_bytes_value:
  assumes "iconf k" and "case v of None \<Rightarrow> True | Some b \<Rightarrow> short b"
  shows "gives k (bin_wire v) r (decodeBytesValue True (VBytes None)) {VBytes w |w. map_option vis w = v}"
proof -
  have "gives k (bin_wire v) r (bindE DecodeBytes (\<lambda>b. ret (VBytes b))) {VBytes w |w. map_option vis w = v}"
    by (rule gives_bind_ret [OF gives_bytes])
      (use assms iconf_len [OF assms(1)] in \<open>auto simp: iconf_def short_def split: option.split\<close>)
  then show ?thesis by (simp add: decodeBytesValue_def DecodeBytes_def bindE_assoc set_rv_def del: ret_apply)
qed

section \<open>Headers of containers\<close>

lemma yields_nil_lens: "yields k [Nil_c] r DecodeArrayLen (- 1) k" "yields k [Nil_c] r DecodeMapLen (- 1) k"
  unfolding DecodeArrayLen_def DecodeMapLen_def
  by (rule yields_bind_ret [OF yields_readCode]; simp add: arrayLen_def mapLen_def IsExt_def IsFixedExt_def opcode_values del: ret_apply)+

lemma gives_array:
  assumes "iconf k" and "short xs" and "length xs \<le> length body"
    and "gives k body r (f (int (length xs))) W"
  shows "gives k (arr_hdr (int (length xs)) @ body) r (bindE DecodeArrayLen f) W"
  by (rule gives_after [where f = f and W = W, OF yields_arr_hdr assms(4)])
    (use assms(1-3) in \<open>auto simp: container_ok_def iconf_def roomy_def short_def intro!: len_ok_intBits\<close>)

lemma yields_map_len:
  assumes "iconf k" and "short xs" and "2 * length xs \<le> length body"
  shows "yields k (map_hdr (int (length xs))) (length body + r) DecodeMapLen (int (length xs)) k"
  by (rule yields_map_hdr)
    (use assms in \<open>auto simp: container_ok_def iconf_def roomy_def short_def intro!: len_ok_intBits\<close>)

lemma gives_map:
  assumes "iconf k" and "short xs" and "2 * length xs \<le> length body"
    and "gives k body r (f (int (length xs))) W"
  shows "gives k (map_hdr (int (length xs)) @ body) r (bindE DecodeMapLen f) W"
  by (rule gives_after [where f = f and W = W, OF yields_map_len [OF assms(1-3)] assms(4)])

lemma length_strs: "length ss \<le> length (concat (map str_wire ss))"
  using length_concat_ge [of ss 1 str_wire] str_wire_nonempty by (simp add: Suc_le_eq)

lemma vis_makeStrings: "vis (makeStrings P None n l) = []"
  by (simp add: makeStrings_def Let_def)

lemma gives_string_slice:
  assumes "iconf k" and "short ss" and "\<forall>s\<in>set ss. short s"
  shows "gives k (arr_hdr (int (length ss)) @ concat (map str_wire ss)) r (decodeStringSlicePtr None)
    {p. map_option vis p = Some ss}"
proof -
  let ?I = "\<lambda>i sl. vis sl = take i ss"
  have step: "gives k (map str_wire ss ! i) n (bindE DecodeString (\<lambda>s. ret (append_slice g [] sl [s]))) (Collect (?I (Suc i)))"
    if "i < length ss" "?I i sl" for i sl n g
  proof -
    have "yields k (str_wire (ss ! i)) n DecodeString (ss ! i) k"
      by (rule yields_DecodeString_plain)
        (use assms that iconf_len [OF assms(1), of "ss ! i"] in \<open>auto simp: iconf_def short_def\<close>)
    then show ?thesis
      using that by (intro gives_yields_ret [where x = "ss ! i"]) (simp_all add: take_Suc_conv_app_nth)
  qed
  have "gives k (concat (map str_wire ss)) r (foldE (length ss)
      (\<lambda>sl. bindE DecodeString (\<lambda>s. ret (append_slice (p_grow P) [] sl [s]))) (makeStrings P None (length ss) l))
      {sl. vis sl = ss}" for P l
    using gives_foldlE [where I = ?I and xs = ss and bss = "map str_wire ss" and k = k and n = r
        and f = "\<lambda>_ sl. bindE DecodeString (\<lambda>s. ret (append_slice (p_grow P) [] sl [s]))" and a = "makeStrings P None (length ss) l"]
      step by (simp add: foldE_foldlE vis_makeStrings del: ret_apply)
  then show ?thesis
    unfolding decodeStringSlicePtr_def
    by (intro gives_array [OF assms(1,2) length_strs]) (auto intro!: gives_plat gives_flag gives_bind_ret simp del: ret_apply)
qed

section \<open>Slices and arrays\<close>

text \<open>The first \<open>i\<close> elements are read, the others are still zero.\<close>

definition filled :: "('a \<Rightarrow> 'b \<Rightarrow> bool) \<Rightarrow> 'a list \<Rightarrow> 'b \<Rightarrow> nat \<Rightarrow> 'b list \<Rightarrow> bool" where
  "filled R xs z i arr \<longleftrightarrow>
     i \<le> length arr \<and> list_all2 R (take i xs) (take i arr) \<and> (\<forall>j. i \<le> j \<and> j < length arr \<longrightarrow> arr ! j = z)"

lemma filled_step:
  assumes "filled R xs z i arr" and "i < length xs" and "i < length arr" and "R (xs ! i) x"
  shows "filled R xs z (Suc i) (arr[i := x])"
  using assms by (auto simp: filled_def take_Suc_conv_app_nth intro: list_all2_appendI)

lemma filled_next: "filled R xs z i arr \<Longrightarrow> i < length arr \<Longrightarrow> arr ! i = z"
  by (simp add: filled_def)

lemma append_slice_shape:
  assumes "len \<le> length arr"
  obtains rest where
    "append_slice g z \<lparr>sl_arr = arr, sl_len = len\<rparr> xs = \<lparr>sl_arr = take len arr @ xs @ rest, sl_len = len + length xs\<rparr>"
    and "set rest \<subseteq> insert z (set (drop (len + length xs) arr))"
proof -
  have v: "vis \<lparr>sl_arr = arr, sl_len = len\<rparr> = take len arr" "length (take len arr) = len"
    using assms by (simp_all add: vis_def)
  show thesis
  proof (cases "len + length xs \<le> length arr")
    case True
    show thesis
      by (rule that [of "drop (len + length xs) arr"])
        (use True in \<open>auto simp only: append_slice_def Let_def v cap_def slice.simps if_True length_append\<close>)
  next
    case False
    show thesis
      by (rule that [of "replicate (g (length arr) (len + length xs) - (len + length xs)) z"])
        (use False in \<open>auto simp only: append_slice_def Let_def v cap_def slice.simps if_False length_append set_replicate_conv_if
          split: if_splits\<close>)
  qed
qed

lemma growSliceValue_grows:
  assumes "len \<le> length arr" and "len < n" and z: "\<And>j. len \<le> j \<Longrightarrow> j < length arr \<Longrightarrow> arr ! j = zero_rv t"
  obtains arr' len' where "growSliceValue P t (arr, len) n l = (arr', len')" and "len < len'" and "len' \<le> n"
    and "len' \<le> length arr'" and "take len arr' = take len arr"
    and "\<And>j. len \<le> j \<Longrightarrow> j < length arr' \<Longrightarrow> arr' ! j = zero_rv t" and "l \<Longrightarrow> len' = n"
proof -
  define diff where "diff = (if \<not> l \<and> int (n - len) > sliceAllocLimit then nat sliceAllocLimit else n - len)"
  have d: "0 < diff" "len + diff \<le> n" "l \<Longrightarrow> len + diff = n"
    using assms(2) by (auto simp: diff_def sliceAllocLimit_def)
  define s where "s = append_slice (p_grow P) (zero_rv t) \<lparr>sl_arr = arr, sl_len = len\<rparr> (replicate diff (zero_rv t))"
  obtain rest where s: "s = \<lparr>sl_arr = take len arr @ replicate diff (zero_rv t) @ rest, sl_len = len + diff\<rparr>"
    and r: "set rest \<subseteq> insert (zero_rv t) (set (drop (len + diff) arr))"
    unfolding s_def by (rule append_slice_shape [OF assms(1), of "p_grow P" "zero_rv t" "replicate diff (zero_rv t)"]) simp
  have "set (drop (len + diff) arr) \<subseteq> {zero_rv t}" using z by (auto simp: in_set_conv_nth)
  with r have r: "set rest \<subseteq> {zero_rv t}" by auto
  show thesis
  proof (rule that)
    show "growSliceValue P t (arr, len) n l = (sl_arr s, sl_len s)" by (simp add: growSliceValue_def Let_def s_def diff_def)
    have "drop len (sl_arr s) = replicate diff (zero_rv t) @ rest" using assms(1) by (simp add: s)
    then have "set (drop len (sl_arr s)) \<subseteq> {zero_rv t}" using r by auto
    moreover have "sl_arr s ! j \<in> set (drop len (sl_arr s))" if "len \<le> j" "j < length (sl_arr s)" for j
      using that by (auto simp: in_set_conv_nth intro!: exI [of _ "j - len"])
    ultimately show "sl_arr s ! j = zero_rv t" if "len \<le> j" "j < length (sl_arr s)" for j
      using that by blast
  qed (use d s assms(1) in auto)
qed

definition slice_state :: "('a \<Rightarrow> rv \<Rightarrow> bool) \<Rightarrow> 'a list \<Rightarrow> rv \<Rightarrow> nat \<Rightarrow> rv list \<times> nat \<Rightarrow> bool" where
  "slice_state R xs z i st \<longleftrightarrow> filled R xs z i (fst st) \<and> i \<le> snd st \<and> snd st \<le> length (fst st) \<and> snd st \<le> length xs"

lemma slice_state_grow:
  assumes "slice_state R xs (zero_rv t) i st" and "i < length xs" and "snd st = i"
  shows "slice_state R xs (zero_rv t) i (growSliceValue P t st (length xs) l) \<and> i < snd (growSliceValue P t st (length xs) l)"
proof -
  obtain arr where st: "st = (arr, i)" using assms(3) by (cases st) auto
  have f: "i \<le> length arr" "list_all2 R (take i xs) (take i arr)" "\<And>j. i \<le> j \<Longrightarrow> j < length arr \<Longrightarrow> arr ! j = zero_rv t"
    using assms(1) by (auto simp: st slice_state_def filled_def)
  obtain arr' len' where g: "growSliceValue P t st (length xs) l = (arr', len')" "i < len'" "len' \<le> length xs"
      "len' \<le> length arr'" "take i arr' = take i arr" "\<And>j. i \<le> j \<Longrightarrow> j < length arr' \<Longrightarrow> arr' ! j = zero_rv t"
    using growSliceValue_grows [OF f(1) assms(2) f(3), of P l] unfolding st by blast
  show ?thesis unfolding g(1) slice_state_def filled_def fst_conv snd_conv using g(2-) f(2) by simp
qed

lemma gives_slice_elem:
  assumes "slice_state R xs (zero_rv t) i st" and "i < length xs"
    and "gives k bs n (rec (t, True, zero_rv t)) {w. R (xs ! i) w}"
  shows "gives k bs n (slice_elem rec t True P (length xs) l i st) (Collect (slice_state R xs (zero_rv t) (Suc i)))"
proof -
  let ?st = "if i \<ge> snd st then growSliceValue P t st (length xs) l else st"
  have "i \<ge> snd st \<Longrightarrow> snd st = i" using assms(1) by (auto simp: slice_state_def)
  then have st: "slice_state R xs (zero_rv t) i ?st" "i < snd ?st"
    using slice_state_grow [OF assms(1,2)] assms(1) by auto
  then have i: "i < length (fst ?st)" by (auto simp: slice_state_def)
  have f: "filled R xs (zero_rv t) i (fst ?st)" using st(1) by (simp only: slice_state_def)
  then have z: "fst ?st ! i = zero_rv t" using i by (rule filled_next)
  have step: "slice_state R xs (zero_rv t) (Suc i) ((fst ?st)[i := x], snd ?st)" if "R (xs ! i) x" for x
    unfolding slice_state_def fst_conv snd_conv
    using st filled_step [where R = R, OF f assms(2) i that] by (simp add: slice_state_def Suc_leI)
  have "gives k bs n (bindE (rec (t, True, zero_rv t)) (\<lambda>x. ret ((fst ?st)[i := x], snd ?st)))
      (Collect (slice_state R xs (zero_rv t) (Suc i)))"
    by (rule gives_bind_ret [OF assms(3)]) (use step in blast)
  then show ?thesis unfolding slice_elem_def Let_def z by simp
qed

lemma gives_slice:
  assumes "iconf k" and "short xs" and "\<And>x. x \<in> set xs \<Longrightarrow> enc x \<noteq> []"
    and "\<And>x r. x \<in> set xs \<Longrightarrow> gives k (enc x) r (rec (t, True, zero_rv t)) {w. R x w}"
  shows "gives k (arr_hdr (int (length xs)) @ concat (map enc xs)) r (decodeSliceValue rec t True (VSlice None))
    {VSlice (Some (arr, length xs)) |arr. list_all2 R xs (take (length xs) arr)}" (is "gives k _ r _ ?W")
proof -
  let ?I = "slice_state R xs (zero_rv t)" and ?m = "length xs"
  have body: "gives k (concat (map enc xs)) r (bindE (foldlE (slice_elem rec t True P ?m l) [0..<?m] st)
      (\<lambda>st. ret (VSlice (Some st)))) ?W" if "?I 0 st" for P l st
  proof (rule gives_bind_ret)
    show "gives k (concat (map enc xs)) r (foldlE (slice_elem rec t True P ?m l) [0..<?m] st) (Collect (?I (length [0..<?m])))"
      by (rule gives_foldlE) (use that assms(4) in \<open>auto intro!: gives_slice_elem\<close>)
    show "VSlice (Some st) \<in> ?W" if "st \<in> Collect (?I (length [0..<?m]))" for st
      using that by (cases st) (auto simp: slice_state_def filled_def)
  qed
  have I0: "?I 0 ([], 0)" by (simp add: slice_state_def filled_def)
  have grown: "?I 0 (if l \<and> 0 < ?m then growSliceValue P t ([], 0) ?m l else ([], 0))" for P l
    using slice_state_grow [OF I0] I0 by auto
  have len: "?m \<le> length (concat (map enc xs))"
    using length_concat_ge [of xs 1 enc] assms(3) by (simp add: Suc_le_eq)
  show ?thesis
  proof (cases "xs = []")
    case True
    have "gives k [] r (set_rv True (VSlice (Some ([], 0)))) ?W"
      unfolding set_rv_def if_True by (rule gives_ret) (simp add: True)
    then show ?thesis
      unfolding decodeSliceValue_def rv.case by (intro gives_array [OF assms(1,2) len]) (simp add: True)
  next
    case False
    have "gives k (concat (map enc xs)) r (bindE (getS d_plat) (\<lambda>P. bindE (dec_flag disableAllocLimitFlag) (\<lambda>noLimit.
        bindE (foldlE (slice_elem rec t True P ?m noLimit) [0..<?m]
          (if noLimit \<and> 0 < ?m then growSliceValue P t ([], 0) ?m noLimit else ([], 0))) (\<lambda>st. ret (VSlice (Some st)))))) ?W"
      by (intro gives_plat gives_flag body grown)
    then show ?thesis
      unfolding decodeSliceValue_def rv.case
      by (intro gives_array [OF assms(1,2) len]) (use False in \<open>simp add: Let_def del: ret_apply cong: if_cong\<close>)
  qed
qed

lemma gives_array_value:
  assumes "iconf k" and "short xs" and "\<And>x. x \<in> set xs \<Longrightarrow> enc x \<noteq> []"
    and "\<And>x r. x \<in> set xs \<Longrightarrow> gives k (enc x) r (rec (t, True, z)) {w. R x w}"
  shows "gives k (arr_hdr (int (length xs)) @ concat (map enc xs)) r
    (decodeArrayValue rec t True (VArray (replicate (length xs) z))) {VArray ws |ws. list_all2 R xs ws}"
proof -
  let ?m = "length xs"
  let ?I = "\<lambda>i vs. length vs = ?m \<and> filled R xs z i vs"
  have len: "?m \<le> length (concat (map enc xs))"
    using length_concat_ge [of xs 1 enc] assms(3) by (simp add: Suc_le_eq)
  have step: "gives k (map enc xs ! i) n (bindE (rec (t, True, vs ! ([0..<?m] ! i))) (\<lambda>x. ret (vs[[0..<?m] ! i := x])))
      (Collect (?I (Suc i)))" if "i < length [0..<?m]" "?I i vs" for i vs n
  proof -
    have "vs ! i = z" using filled_next that by (metis length_upt minus_nat.diff_0)
    then show ?thesis
      using that assms(4) by (intro gives_bind_ret [where V = "{w. R (xs ! i) w}"]) (auto intro: filled_step)
  qed
  have "gives k (concat (map enc xs)) r
      (bindE (foldlE (\<lambda>i vs. bindE (rec (t, True, vs ! i)) (\<lambda>x. ret (vs[i := x]))) [0..<?m] (replicate ?m z))
        (\<lambda>vs. ret (VArray vs))) {VArray ws |ws. list_all2 R xs ws}"
  proof (rule gives_bind_ret)
    show "gives k (concat (map enc xs)) r (foldlE (\<lambda>i vs. bindE (rec (t, True, vs ! i)) (\<lambda>x. ret (vs[i := x])))
        [0..<?m] (replicate ?m z)) (Collect (?I (length [0..<?m])))"
      by (rule gives_foldlE [OF _ _ step]) (auto simp: filled_def)
  qed (auto simp: filled_def)
  then show ?thesis
    unfolding decodeArrayValue_def rv.case by (intro gives_array [OF assms(1,2) len]) (simp del: ret_apply)
qed

section \<open>Maps\<close>

lemma length_entries:
  assumes "\<And>x. x \<in> set xs \<Longrightarrow> enc x \<noteq> []"
  shows "2 * length xs \<le> length (concat (map (\<lambda>x. str_wire (key x) @ enc x) xs))"
proof (rule length_concat_ge)
  fix x
  assume "x \<in> set xs"
  then show "2 \<le> length (str_wire (key x) @ enc x)"
    using assms str_wire_nonempty [of "key x"] by (cases "str_wire (key x)"; cases "enc x") auto
qed

lemma gives_entries:
  assumes "iconf k" and "short xs"
    and "\<And>x. x \<in> set xs \<Longrightarrow> can_read k rec (enc x) (val x) \<and> enc x \<noteq> [] \<and> short (key x)" and "distinct (map key xs)"
    and "g (Some (map (\<lambda>x. (key x, val x)) xs)) \<in> W"
  shows "gives k (map_hdr (int (length xs)) @ concat (map (\<lambda>x. str_wire (key x) @ enc x) xs)) r
    (bindE (bindE DecodeMapLen (\<lambda>size. if size = - 1 then ret None
       else bindE (foldE (nat size) (\<lambda>m. bindE DecodeString (\<lambda>mk. bindE rec (\<lambda>mv. ret (map_set (=) mk mv m)))) [])
         (\<lambda>m. ret (Some m)))) (\<lambda>m. ret (g m))) W"
proof (rule gives_bind_ret)
  let ?w = "map (\<lambda>x. (key x, val x)) xs"
  have "yields k (concat (map (\<lambda>x. str_wire (key x) @ enc x) xs)) r (foldE (length xs) (\<lambda>m.
      bindE DecodeString (\<lambda>mk. bindE rec (\<lambda>mv. ret (map_set (=) mk mv m)))) []) ([] @ ?w) k"
    by (rule yields_entries) (use assms(1-4) iconf_len [OF assms(1)] in \<open>auto simp: iconf_def short_def\<close>)
  then have "gives k (concat (map (\<lambda>x. str_wire (key x) @ enc x) xs)) r (bindE (foldE (length xs) (\<lambda>m.
      bindE DecodeString (\<lambda>mk. bindE rec (\<lambda>mv. ret (map_set (=) mk mv m)))) []) (\<lambda>m. ret (Some m))) {Some ?w}"
    by (rule gives_yields_ret) simp
  then show "gives k (map_hdr (int (length xs)) @ concat (map (\<lambda>x. str_wire (key x) @ enc x) xs)) r
    (bindE DecodeMapLen (\<lambda>size. if size = - 1 then ret None
       else bindE (foldE (nat size) (\<lambda>m. bindE DecodeString (\<lambda>mk. bindE rec (\<lambda>mv. ret (map_set (=) mk mv m)))) [])
         (\<lambda>m. ret (Some m)))) {Some ?w}"
    by (intro gives_map [OF assms(1,2)] length_entries) (use assms(3) in \<open>simp_all del: ret_apply\<close>)
  show "g v \<in> W" if "v \<in> {Some ?w}" for v using that assms(5) by simp
qed

lemma gives_mapSS:
  assumes "iconf k" and "short kvs" and "distinct (map fst kvs)" and "\<forall>kv\<in>set kvs. short (fst kv) \<and> short (snd kv)"
  shows "gives k (map_hdr (int (length kvs)) @ concat (map (\<lambda>kv. str_wire (fst kv) @ str_wire (snd kv)) kvs)) r
    (decodeMapStringStringValue True (VMapSS None)) {VMapSS (Some kvs)}"
proof -
  have "can_read k DecodeString (str_wire (snd kv)) (snd kv)" if "kv \<in> set kvs" for kv
    unfolding can_read_def using assms(1,4) iconf_len [OF assms(1), of "snd kv"] that
    by (auto simp: iconf_def short_def intro!: yields_DecodeString_plain)
  then show ?thesis
    unfolding decodeMapStringStringValue_def decodeMapStringStringPtr_def rv.case option.case
    using gives_entries [where key = fst and enc = "\<lambda>kv. str_wire (snd kv)" and val = snd and g = VMapSS, OF assms(1,2)]
      assms(3,4) str_wire_nonempty by simp
qed

lemma gives_mapSI:
  assumes "iconf k" and "short kvs" and "distinct (map fst kvs)"
    and "\<And>kv. kv \<in> set kvs \<Longrightarrow> short (fst kv) \<and> enc kv \<noteq> [] \<and> can_read k (decodeInterfaceCond env) (enc kv) (val kv)"
    and "VMapSI (Some (map (\<lambda>kv. (fst kv, val kv)) kvs)) \<in> W"
  shows "gives k (map_hdr (int (length kvs)) @ concat (map (\<lambda>kv. str_wire (fst kv) @ enc kv) kvs)) r
    (decodeMapStringInterfaceValue env True (VMapSI None)) W"
  unfolding decodeMapStringInterfaceValue_def decodeMapStringInterfacePtr_def DecodeMap_def
  using gives_entries [where key = fst and enc = enc and val = val and g = VMapSI, OF assms(1,2) _ assms(3,5)]
    assms(4) by simp

section \<open>Pointers, interfaces and structs\<close>

lemma gives_ptr:
  assumes "gives k bs r (dec True (zero_rv t)) W" and "bs \<noteq> []" and "hd bs \<noteq> Nil_c"
  shows "gives k bs r (ptrValueDecoder t dec True (VPtr None)) ((\<lambda>w. VPtr (Some w)) ` W)"
proof -
  obtain c cs where bs: "bs = c # cs" "c \<noteq> Nil_c" using assms(2,3) by (cases bs) auto
  have "gives k bs r (bindE (dec True (zero_rv t)) (\<lambda>x. ret (VPtr (Some x)))) ((\<lambda>w. VPtr (Some w)) ` W)"
    by (rule gives_bind_ret [OF assms(1)]) auto
  then show ?thesis
    unfolding ptrValueDecoder_def bs(1) by (intro gives_nilCode) (simp add: bs(2) del: ret_apply)
qed

lemma gives_ptr_nil: "gives k [Nil_c] r (ptrValueDecoder t dec True (VPtr None)) {VPtr None}"
proof -
  have "yields k [Nil_c] r DecodeNil_m () k"
    unfolding DecodeNil_m_def by (rule yields_bind_ret [OF yields_readCode]) simp
  then have "gives k [Nil_c] r (bindE DecodeNil_m (\<lambda>_. ret (VPtr None))) {VPtr None}"
    by (rule gives_yields_ret) simp
  then show ?thesis
    unfolding ptrValueDecoder_def by (intro gives_nilCode) (simp del: ret_apply)
qed

lemma gives_iface:
  assumes "can_read k (decodeInterfaceCond env) bs w"
  shows "gives k bs r (decodeInterfaceValue env rec False True (VIface None)) {VIface (of_gval w)}"
proof -
  have "(case of_gval vv of None \<Rightarrow> ret (VIface None)
      | Some (t, x) \<Rightarrow> if False then (case x of VString str \<Rightarrow> set_rv True (VIface (Some (errors_New str))) | _ \<Rightarrow> fail mismatch)
        else set_rv True (VIface (Some (t, x)))) = ret (VIface (of_gval vv))" for vv
    by (auto simp: set_rv_def split: option.split prod.split)
  then have "decodeInterfaceValue env rec False True (VIface None) =
      bindE (decodeInterfaceCond env) (\<lambda>vv. ret (VIface (of_gval vv)))"
    by (simp add: decodeInterfaceValue_def interfaceValue_def del: ret_apply)
  then show ?thesis using assms by (auto simp: can_read_def intro: gives_yields_ret)
qed

lemma gives_struct_header:
  assumes "gives k body r (f l) W"
  shows "yields k (c # bs) (length body + r) DecodeMapLen l k \<Longrightarrow> \<not> IsExt c \<Longrightarrow>
      gives k ((c # bs) @ body) r (bindE readCode (\<lambda>c. tryE (mapLen c) f (h c))) W"
    and "yields k (c # bs) (length body + r) DecodeArrayLen l k \<Longrightarrow> mapLen c = fail e \<Longrightarrow> h c e = tryE (arrayLen c) f g \<Longrightarrow>
      gives k ((c # bs) @ body) r (bindE readCode (\<lambda>c. tryE (mapLen c) f' (h c))) W"
proof -
  have run: "gives k ((c # bs) @ body) r M W"
    if "yields k (c # bs) (length body + r) m l k"
      and "\<And>d d1 d'. readCode d = (Inr c, d1) \<Longrightarrow> m d = (Inr l, d') \<Longrightarrow> M d = f l d'" for m M
    unfolding gives_def
  proof (intro allI impI)
    note y = that(1)
    fix d
    assume d: "ready ((c # bs) @ body) r d" "dconf_of d = k"
    obtain d' where d': "m d = (Inr l, d')" "advanced (c # bs) d d'" "dconf_of d' = k"
      using yieldsD [OF y ready_split [OF d(1)] d(2)] by blast
    have "ready [c] (length (bs @ body) + r) d" using ready_split [of "[c]" "bs @ body" r d] d(1) by simp
    then obtain d1 where "readCode d = (Inr c, d1)" using yieldsD [OF yields_readCode _ d(2)] by metis
    then have "M d = f l d'" using that(2) d'(1) by blast
    moreover obtain w d2 where "f l d' = (Inr w, d2)" "w \<in> W" "advanced body d' d2" "dconf_of d2 = k"
      using assms ready_after [OF d(1) d'(2)] d'(3) unfolding gives_def by blast
    ultimately show "\<exists>w d2. M d = (Inr w, d2) \<and> w \<in> W \<and> advanced ((c # bs) @ body) d d2 \<and> dconf_of d2 = k"
      using advanced_trans [OF d'(2)] by auto
  qed
  show "gives k ((c # bs) @ body) r (bindE readCode (\<lambda>c. tryE (mapLen c) f (h c))) W"
    if "yields k (c # bs) (length body + r) DecodeMapLen l k" "\<not> IsExt c"
    by (rule run [OF that(1)]) (use that(2) in \<open>simp add: DecodeMapLen_def bindE_def tryE_def\<close>)
  show "gives k ((c # bs) @ body) r (bindE readCode (\<lambda>c. tryE (mapLen c) f' (h c))) W"
    if "yields k (c # bs) (length body + r) DecodeArrayLen l k" "mapLen c = fail e" "h c e = tryE (arrayLen c) f g"
    by (rule run [OF that(1)]) (simp add: DecodeArrayLen_def bindE_def tryE_def that(2,3))
qed

text \<open>The fields with the first \<open>j\<close> of the indices \<open>js\<close> are read, the others are still zero.\<close>

definition struct_state :: "(nat \<Rightarrow> rv \<Rightarrow> bool) \<Rightarrow> gtype list \<Rightarrow> nat list \<Rightarrow> nat \<Rightarrow> rv \<Rightarrow> bool" where
  "struct_state R ts js j v \<longleftrightarrow>
     (\<exists>ws. v = VStruct ws \<and> length ws = length ts \<and> (\<forall>i<j. R i (ws ! (js ! i))) \<and>
       (\<forall>x<length ts. x \<notin> set (take j js) \<longrightarrow> ws ! x = zero_rv (ts ! x)))"

lemma struct_state_0: "struct_state R ts js 0 (VStruct (map zero_rv ts))"
  by (simp add: struct_state_def)

lemma gives_field:
  assumes "struct_state R ts js j v" and j: "j < length js" "js ! j < length ts" "distinct js"
    and "gives k bs n (dec True (zero_rv (ts ! (js ! j)))) {w. R j w}"
  shows "gives k bs n (field_DecodeValue [js ! j] (TStruct ts l m) dec True v) (Collect (struct_state R ts js (Suc j)))"
proof -
  obtain ws where v: "v = VStruct ws" "length ws = length ts" and R: "\<And>i. i < j \<Longrightarrow> R i (ws ! (js ! i))"
    and z: "\<And>x. x < length ts \<Longrightarrow> x \<notin> set (take j js) \<Longrightarrow> ws ! x = zero_rv (ts ! x)"
    using assms(1) by (auto simp: struct_state_def)
  have new: "js ! i \<noteq> js ! j" if "i < j" for i
    using that j by (simp add: nth_eq_iff_index_eq)
  then have "js ! j \<notin> set (take j js)" using j(1) by (auto simp: in_set_conv_nth)
  with z j(2) have zero: "ws ! (js ! j) = zero_rv (ts ! (js ! j))" by simp
  have "struct_state R ts js (Suc j) (VStruct (ws[js ! j := w]))" if w: "R j w" for w
  proof -
    have "R i (ws[js ! j := w] ! (js ! i))" if "i < Suc j" for i
    proof (cases "i = j")
      case False
      then have "i < j" using that by simp
      from R [OF this] new [OF this] show ?thesis by (simp add: nth_list_update)
    qed (use w v(2) j(2) in simp)
    moreover have "ws[js ! j := w] ! x = zero_rv (ts ! x)" if "x < length ts" "x \<notin> set (take (Suc j) js)" for x
      using that z j(1) by (auto simp: take_Suc_conv_app_nth)
    ultimately show ?thesis using v(2) unfolding struct_state_def by (intro exI [of _ "ws[js ! j := w]"]) simp
  qed
  then have "gives k bs n (bindE (dec True (ws ! (js ! j))) (\<lambda>x. ret (VStruct (ws[js ! j := x]))))
      (Collect (struct_state R ts js (Suc j)))"
    unfolding zero by (intro gives_bind_ret [OF assms(5)]) blast
  then show ?thesis by (simp add: v(1) underlying_def del: ret_apply)
qed

lemma gives_struct:
  assumes k: "iconf k" and fs: "short fs" "length js = length fs" and "distinct js"
    and f: "\<And>j. j < length fs \<Longrightarrow> short (key (fs ! j)) \<and> js ! j < length ts \<and> enc (fs ! j) \<noteq> [] \<and>
      map_of m (key (fs ! j)) = Some (nm j, [js ! j], False)"
    and x: "\<And>j r. j < length fs \<Longrightarrow> gives k (enc (fs ! j)) r (dec (nm j, [js ! j], False) True (zero_rv (ts ! (js ! j)))) {w. R j w}"
  shows "gives k (map_hdr (int (length fs)) @ concat (map (\<lambda>f. str_wire (key f) @ enc f) fs)) r
    (decodeStructValue (TStruct ts l m) dec l m True (VStruct (map zero_rv ts))) (Collect (struct_state R ts js (length fs)))"
proof -
  let ?body = "concat (map (\<lambda>f. str_wire (key f) @ enc f) fs)"
  let ?step = "\<lambda>v. bindE decodeStringTemp (\<lambda>name. case map_of m name of
      Some f \<Rightarrow> field_DecodeValue (fst (snd f)) (TStruct ts l m) (dec f) True v
    | None \<Rightarrow> bindE (dec_flag disallowUnknownFieldsFlag) (\<lambda>disallow.
        if disallow then fail (UnknownField name) else bindE Skip (\<lambda>_. ret v)))"
  have step: "gives k (map (\<lambda>f. str_wire (key f) @ enc f) fs ! j) n (?step v) (Collect (struct_state R ts js (Suc j)))"
    if "j < length fs" "struct_state R ts js j v" for j v n
  proof -
    have "yields k (str_wire (key (fs ! j))) (length (enc (fs ! j)) + n) decodeStringTemp (key (fs ! j)) k"
      using can_key [OF k, of "key (fs ! j)"] f [OF that(1)] by (simp add: can_read_def)
    moreover have "gives k (enc (fs ! j)) n (field_DecodeValue [js ! j] (TStruct ts l m) (dec (nm j, [js ! j], False)) True v)
        (Collect (struct_state R ts js (Suc j)))"
      by (rule gives_field [OF that(2)]) (use that(1) assms(3,4) f x in simp_all)
    ultimately show ?thesis
      using f [OF that(1)] that(1) by (simp add: gives_after del: field_DecodeValue.simps)
  qed
  have "gives k ?body r (foldlE (\<lambda>_. ?step) fs (VStruct (map zero_rv ts))) (Collect (struct_state R ts js (length fs)))"
    by (rule gives_foldlE [OF _ struct_state_0 step]) simp_all
  then have body: "gives k ?body r (decodeStruct (TStruct ts l m) dec m True (VStruct (map zero_rv ts)) (int (length fs)))
      (Collect (struct_state R ts js (length fs)))"
    by (simp add: decodeStruct_def foldE_foldlE)
  obtain c bs where c: "map_hdr (int (length fs)) = c # bs" "IsFixedMap c \<or> c = Map16_c \<or> c = Map32_c"
    using hdr_codes(4) [of "int (length fs)"] by auto
  have "enc f \<noteq> []" if "f \<in> set fs" for f using that assms(5) by (auto simp: in_set_conv_nth)
  then have h: "yields k (c # bs) (length ?body + r) DecodeMapLen (int (length fs)) k"
    unfolding c(1) [symmetric] by (intro yields_map_len [OF k fs(1)] length_entries)
  have "\<not> IsExt c" using c(2) by (auto simp: IsExt_def IsFixedExt_def IsFixedMap_def opcode_values word_le_nat_alt)
  then show ?thesis
    unfolding decodeStructValue_def c(1) by (rule gives_struct_header(1)
      [where f = "decodeStruct (TStruct ts l m) dec m True (VStruct (map zero_rv ts))", OF body h])
qed

lemma gives_struct_array:
  assumes k: "iconf k" and fs: "short fs" "length js = length fs" and "distinct js"
    and l: "l = map2 (\<lambda>n i. (n, [i], False)) ns js" "length ns = length js"
    and f: "\<And>j. j < length fs \<Longrightarrow> js ! j < length ts \<and> enc (fs ! j) \<noteq> []"
    and x: "\<And>j r. j < length fs \<Longrightarrow> gives k (enc (fs ! j)) r (dec (ns ! j, [js ! j], False) True (zero_rv (ts ! (js ! j)))) {w. R j w}"
  shows "gives k (arr_hdr (int (length fs)) @ concat (map enc fs)) r
    (decodeStructValue (TStruct ts l m) dec l m True (VStruct (map zero_rv ts))) (Collect (struct_state R ts js (length fs)))"
proof -
  let ?body = "concat (map enc fs)"
  let ?g = "\<lambda>n. if n \<le> 0 then set_rv True (zero_rv (TStruct ts l m))
    else if n \<noteq> int (length l) then fail ArrayStructChanged
    else foldlE (\<lambda>f v. field_DecodeValue (fst (snd f)) (TStruct ts l m) (dec f) True v) l (VStruct (map zero_rv ts))"
  have len: "length l = length fs" using l fs(2) by simp
  have body: "gives k ?body r (?g (int (length fs))) (Collect (struct_state R ts js (length fs)))"
  proof (cases "fs = []")
    case True
    have "gives k [] r (ret (VStruct (map zero_rv ts))) (Collect (struct_state R ts js 0))"
      by (rule gives_ret) (simp add: struct_state_0)
    then show ?thesis by (simp add: True set_rv_def del: ret_apply)
  next
    case False
    have "gives k (map enc fs ! j) n (field_DecodeValue (fst (snd (l ! j))) (TStruct ts l m) (dec (l ! j)) True v)
        (Collect (struct_state R ts js (Suc j)))" if "j < length l" "struct_state R ts js j v" for j v n
    proof -
      have "l ! j = (ns ! j, [js ! j], False)" using that(1) l len by simp
      moreover have "gives k (enc (fs ! j)) n (field_DecodeValue [js ! j] (TStruct ts l m) (dec (ns ! j, [js ! j], False)) True v)
          (Collect (struct_state R ts js (Suc j)))"
        by (rule gives_field [OF that(2)]) (use that(1) len assms(3,4) f x in simp_all)
      ultimately show ?thesis using that(1) len by (simp del: field_DecodeValue.simps)
    qed
    then have "gives k ?body r (foldlE (\<lambda>f v. field_DecodeValue (fst (snd f)) (TStruct ts l m) (dec f) True v) l
        (VStruct (map zero_rv ts))) (Collect (struct_state R ts js (length l)))"
      by (intro gives_foldlE [where I = "struct_state R ts js"]) (simp_all add: len struct_state_0 del: field_DecodeValue.simps)
    then show ?thesis using False by (simp add: len del: field_DecodeValue.simps)
  qed
  obtain c bs where c: "arr_hdr (int (length fs)) = c # bs" "IsFixedArray c \<or> c = Array16_c \<or> c = Array32_c"
    using hdr_codes(3) [of "int (length fs)"] by auto
  have "enc f \<noteq> []" if "f \<in> set fs" for f using that f by (auto simp: in_set_conv_nth)
  then have "length fs \<le> length ?body" using length_concat_ge [of fs 1 enc] by (simp add: Suc_le_eq)
  then have h: "yields k (c # bs) (length ?body + r) DecodeArrayLen (int (length fs)) k"
    unfolding c(1) [symmetric]
    by (intro yields_arr_hdr) (use k fs(1) in \<open>auto simp: container_ok_def iconf_def roomy_def short_def intro!: len_ok_intBits\<close>)
  have e: "mapLen c = fail (UnexpectedCode c ''map length'')"
    using c(2) by (auto simp: mapLen_def IsFixedArray_def opcode_values word_le_nat_alt)
  show ?thesis
    unfolding decodeStructValue_def c(1) by (rule gives_struct_header(2) [where f = ?g, OF body h e]) (rule refl)
qed

section \<open>The recursion\<close>

lemma scalar_plain: "scalar_val v \<Longrightarrow> plain_val v \<and> wire fl Q v \<noteq> []"
  using data_val.scalar [of v] data_val_plain wire_nonempty by blast

lemma fits_plain:
  assumes "fits fl Q P n t v"
  shows "plain_val v \<and> wire fl Q v \<noteq> []"
  using assms
proof (induction rule: fits.induct)
  case (iface n v)
  then show ?case using data_val_plain wire_nonempty by blast
next
  case (struct a fs m ts n js l)
  then show ?case by (auto simp: wire_simps map_hdr_def)
next
  case (struct_array a fs l js ts n m)
  have f: "\<not> f_intern (fst f) \<and> plain_val (field_val f)" if "f \<in> set fs" for f
    using struct_array.IH that by (auto simp: list_all2_conv_all_nth in_set_conv_nth)
  have "plain_val v" if "(m, Some v) \<in> set fs" for m v using f [OF that] by (simp add: field_val_def)
  then have "plain_val (GStruct a fs)" using f by (force simp: list_all_iff split: option.split)
  then show ?case using struct_array.hyps(1) by (auto simp: wire_simps arr_hdr_def)
next
  case (ptr t n v)
  then show ?case by (simp add: wire_simps)
next
  case (mapSI kvs n)
  then show ?case using data_val_plain by (force simp: wire_simps map_hdr_def list_all_iff)
next
  case (int v i ik n)
  then show ?case by (intro scalar_plain) (cases v; simp add: int_value_def scalar_val_def)
next
  case (uint v i ik n)
  then show ?case by (intro scalar_plain) (cases v; simp add: int_value_def scalar_val_def)
next
  case (f32 n f)
  then show ?case by (simp add: wire_simps f32_wire_def)
next
  case (f64 n f)
  then show ?case by (simp add: wire_simps f64_wire_def)
qed (simp_all add: wire_simps list_all_iff str_wire_nonempty bin_wire_def bin_hdr_def time_wire_def Let_def ext_len_hdr_def
    arr_hdr_def map_hdr_def)

lemma deep_level: "deep loose (Suc n) k m \<Longrightarrow> \<exists>m'. m = Suc m' \<and> deep loose n (k\<lparr>k_depth := k_depth k + 1\<rparr>) m'"
  by (cases m) (auto simp: deep_def iconf_def plain_dec_def roomy_def k_limit_def)

lemma gives_level:
  assumes "deep loose (Suc n) k (Suc m)" 
    and "gives (k\<lparr>k_depth := k_depth k + 1\<rparr>) bs r (getDecoder env (DecodeValue_f env m) t True (zero_rv t)) W"
  shows "gives k bs r (DecodeValue_f env (Suc m) (t, True, zero_rv t)) W"
  using assms unfolding DecodeValue_f.simps fst_conv snd_conv by (intro gives_withDepth) (auto simp: deep_def)

lemma zero_rv_ptr: "getDecoder env rec (TPtr t) = ptrValueDecoder t (getDecoder env rec t)" if "underlying t = t"
  using that by (cases t) (auto simp: underlying_def dest: arg_cong [where f = size])

text \<open>The decoder of a field that is not interned and not inlined is that of its type.\<close>

definition field_dec :: "tenv \<Rightarrow> (gtype \<times> bool \<times> rv \<Rightarrow> (decoder, rv) go) \<Rightarrow> gtype \<Rightarrow> fdesc \<Rightarrow> dfun" where
  "field_dec env rec t f =
     (case type_at (fst (snd f)) t of None \<Rightarrow> decodeUnsupportedValue
       | Some u \<Rightarrow> if snd (snd f) then (case underlying u of TIface e \<Rightarrow> decodeInternedInterfaceValue (t_env env) rec e
           | TString \<Rightarrow> decodeInternedStringValue | _ \<Rightarrow> decodeUnsupportedValue) else getDecoder env rec u)"

lemma getDecoder_struct:
  "getDecoder env rec (TStruct ts l m) =
     decodeStructValue (TStruct ts l m) (field_dec env rec (TStruct ts l m)) l m"
  by (simp add: field_dec_def [abs_def])

lemma field_dec_own [simp]: "i < length ts \<Longrightarrow> field_dec env rec (TStruct ts l m) (nm, [i], False) = getDecoder env rec (ts ! i)"
  by (simp add: field_dec_def underlying_def)

lemma kind_bits_range: "0 < p_intBits P \<Longrightarrow> 0 < kind_bits P ik" "kind_bits P ik \<le> 64"
  by (cases ik; simp add: kind_bits_def)+

lemma int_of_kind:
  assumes "- (2 ^ (kind_bits P ik - 1)) \<le> i" and "i < 2 ^ (kind_bits P ik - 1)"
  shows "sint (word_of_int i :: u64) = i"
proof -
  have "(2::int) ^ (kind_bits P ik - 1) \<le> 2 ^ 63" by (rule power_increasing) (use kind_bits_range(2) [of P ik] in auto)
  then have "- (2 ^ 63) \<le> i" "i < 2 ^ 63" using assms by linarith+
  then show ?thesis by (simp add: sint_sbintrunc' signed_take_bit_int_eq_self)
qed

lemma uint_of_kind:
  assumes "0 \<le> i" and "i < 2 ^ kind_bits P ik"
  shows "uint (word_of_int i :: u64) = i"
proof -
  have "(2::int) ^ kind_bits P ik \<le> 2 ^ 64" by (rule power_increasing) (use kind_bits_range(2) [of P ik] in auto)
  then have "i < 2 ^ 64" using assms(2) by linarith
  then show ?thesis using assms(1) by (simp add: uint_word_of_int)
qed

lemma struct_state_holds:
  assumes "struct_state R ts js (length js) v"
  obtains ws where "v = VStruct ws" and "length ws = length ts" and "\<And>j. j < length js \<Longrightarrow> R j (ws ! (js ! j))"
    and "\<forall>x<length ts. x \<notin> set js \<longrightarrow> ws ! x = zero_rv (ts ! x)"
  using assms by (auto simp: struct_state_def)

lemma fits_gives:
  assumes "fits fl Q P n t v" and "time_env (t_env env)" and "deep loose n k m" and "k_plat k = P"
  shows "gives k (wire fl Q v) r (getDecoder env (DecodeValue_f env m) t True (zero_rv t)) {w. holds fl loose t v w}"
  using assms(1,3,4)
proof (induction arbitrary: k m r rule: fits.induct)
  case (bool n b)
  show ?case
    unfolding getDecoder.simps decodeBoolValue_def wire_simps by (rule gives_set [OF yields_DecodeBool]) (simp add: holds.bool)
next
  case (int v i ik n)
  let ?n = "word_of_int i :: u64"
  have i: "sint ?n = i" by (rule int_of_kind [OF int.hyps(2,3)])
  have "SetInt (k_plat k) ik ?n = VInt ?n" by (rule SetInt_fits) (use int i in simp_all)
  then have "gives k (wire fl Q v) r (decodeInt64Value ik True (VInt 0)) {VInt ?n}"
    by (intro gives_ints) (use int.hyps(1) i in simp_all)
  then show ?case unfolding getDecoder.simps zero_rv.simps by (rule gives_mono) (use holds.int int.hyps(1) i in simp_all)
next
  case (uint v i ik n)
  let ?n = "word_of_int i :: u64"
  have i: "uint ?n = i" by (rule uint_of_kind [OF uint.hyps(2,3)])
  have "SetUint (k_plat k) ik ?n = VUint ?n" by (rule SetUint_fits) (use uint i in simp_all)
  then have "gives k (wire fl Q v) r (decodeUint64Value ik True (VUint 0)) {VUint ?n}"
    by (intro gives_ints) (use uint.hyps(1) i in simp_all)
  then show ?case unfolding getDecoder.simps zero_rv.simps by (rule gives_mono) (use holds.uint uint.hyps(1) i in simp_all)
next
  case (f32 n f)
  show ?case
    unfolding getDecoder.simps wire_simps
    by (rule gives_mono [OF gives_floats(1) [OF f32.hyps]]) (simp add: holds.f32)
next
  case (f64 n f)
  show ?case
    unfolding getDecoder.simps wire_simps
    by (rule gives_mono [OF gives_floats(2) [OF f64.hyps]]) (simp add: holds.f64)
next
  case (str s n)
  show ?case
    unfolding getDecoder.simps wire_simps
    by (rule gives_mono [OF gives_strings_values [OF deep_iconf [OF str.prems(1)] str.hyps]]) (simp add: holds.str)
next
  case (bytes_nil n)
  show ?case
    unfolding getDecoder.simps wire_simps zero_rv.simps
    by (rule gives_mono [OF gives_bytes_value [OF deep_iconf [OF bytes_nil.prems(1)]]]) (auto simp: holds.bytes_nil)
next
  case (bytes b n)
  show ?case
    unfolding getDecoder.simps wire_simps zero_rv.simps
    by (rule gives_mono [OF gives_bytes_value [OF deep_iconf [OF bytes.prems(1)]]]) (auto simp: bytes.hyps intro: holds.bytes)
next
  case (byteArray b n a)
  show ?case
    unfolding getDecoder.simps wire_simps zero_rv.simps
    by (rule gives_mono [OF gives_byteArray [OF iconf_len [OF deep_iconf [OF byteArray.prems(1)]]]])
      (use byteArray.hyps in \<open>auto simp: short_def intro: holds.byteArray\<close>)
next
  case (time t n)
  have "32 < p_intBits (k_plat k)" using deep_iconf [OF time.prems(1)] by (simp add: iconf_def roomy_def)
  then show ?case
    unfolding getDecoder.simps wire_simps
    by (intro gives_mono [OF gives_time [OF time.hyps]]) (simp_all add: holds.time)
next
  case (strings_nil n)
  have "gives k [Nil_c] r (bindE (decodeStringSlicePtr None) (\<lambda>p. ret (VStrings p))) {w. holds fl loose TStrings (GStrings None) w}"
    unfolding decodeStringSlicePtr_def
    by (rule gives_yields_ret [OF yields_bind_ret [OF yields_nil_lens(1)]]) (auto simp: holds.strings_nil)
  then show ?case by (simp add: wire_simps decodeStringSliceValue_def del: ret_apply)
next
  case (strings ss n)
  have "gives k (arr_hdr (int (length ss)) @ concat (map str_wire ss)) r
      (bindE (decodeStringSlicePtr None) (\<lambda>p. ret (VStrings p))) {w. holds fl loose TStrings (GStrings (Some ss)) w}"
    by (rule gives_bind_ret [OF gives_string_slice [OF deep_iconf [OF strings.prems(1)] strings.hyps]])
      (auto intro: holds.strings)
  then show ?case by (simp add: wire_simps decodeStringSliceValue_def del: ret_apply)
next
  case (slice_nil n t)
  show ?case
    unfolding getDecoder.simps zero_rv.simps wire_simps option.case decodeSliceValue_def rv.case
    by (rule gives_yields [OF yields_bind_ret [OF yields_nil_lens(1)]]) (auto simp: set_rv_def holds.slice_nil)
next
  case (slice xs n t)
  obtain m' where m: "m = Suc m'" "deep loose n (k\<lparr>k_depth := k_depth k + 1\<rparr>) m'"
    using deep_level [OF slice.prems(1)] by blast
  have x: "gives k (wire fl Q x) r (DecodeValue_f env m (t, True, zero_rv t)) {w. holds fl loose t x w}"
    if "x \<in> set xs" for x r
    unfolding m(1) by (rule gives_level) (use slice m that in auto)
  have ne: "wire fl Q x \<noteq> []" if "x \<in> set xs" for x using slice.IH that fits_plain by blast
  show ?case
    unfolding getDecoder.simps zero_rv.simps wire_simps option.case
    by (rule gives_mono [OF gives_slice [where R = "holds fl loose t" and enc = "wire fl Q" and rec = "DecodeValue_f env m" and t = t, OF deep_iconf [OF slice.prems(1)] slice.hyps(1) ne x]])
      (auto intro: holds.slice)
next
  case (array xs n t)
  obtain m' where m: "m = Suc m'" "deep loose n (k\<lparr>k_depth := k_depth k + 1\<rparr>) m'"
    using deep_level [OF array.prems(1)] by blast
  have x: "gives k (wire fl Q x) r (DecodeValue_f env m (t, True, zero_rv t)) {w. holds fl loose t x w}"
    if "x \<in> set xs" for x r
    unfolding m(1) by (rule gives_level) (use array m that in auto)
  have ne: "wire fl Q x \<noteq> []" if "x \<in> set xs" for x using array.IH that fits_plain by blast
  show ?case
    unfolding getDecoder.simps zero_rv.simps wire_simps option.case
    by (rule gives_mono [OF gives_array_value [where R = "holds fl loose t" and enc = "wire fl Q" and rec = "DecodeValue_f env m" and t = t, OF deep_iconf [OF array.prems(1)] array.hyps(1) ne x]])
      (auto intro: holds.array)
next
  case (mapSS_nil n)
  have "gives k [Nil_c] r (bindE (decodeMapStringStringPtr None) (\<lambda>m. ret (VMapSS m))) {w. holds fl loose TMapSS (GMapSS None) w}"
    unfolding decodeMapStringStringPtr_def
    by (rule gives_yields_ret [OF yields_bind_ret [OF yields_nil_lens(2)]]) (auto simp: holds.mapSS_nil)
  then show ?case by (simp add: wire_simps decodeMapStringStringValue_def del: ret_apply)
next
  case (mapSS kvs n)
  have "gives k (map_hdr (int (length (map_order fl kvs))) @
      concat (map (\<lambda>kv. str_wire (fst kv) @ str_wire (snd kv)) (map_order fl kvs))) r
      (decodeMapStringStringValue True (VMapSS None)) {VMapSS (Some (map_order fl kvs))}"
    by (rule gives_mapSS [OF deep_iconf [OF mapSS.prems(1)]])
      (use mapSS.hyps in \<open>auto simp: map_order_facts dest!: set_map_order\<close>)
  then show ?case
    unfolding getDecoder.simps zero_rv.simps wire_simps option.case length_map_order
    by (rule gives_mono) (simp add: holds.mapSS)
next
  case (mapSI_nil n)
  have "gives k [Nil_c] r (bindE (decodeMapStringInterfacePtr (t_env env)) (\<lambda>m. ret (VMapSI m)))
      {w. holds fl loose TMapSI (GMapSI None) w}"
    unfolding decodeMapStringInterfacePtr_def DecodeMap_def
    by (rule gives_yields_ret [OF yields_bind_ret [OF yields_nil_lens(2)]]) (auto simp: holds.mapSI_nil)
  then show ?case by (simp add: wire_simps decodeMapStringInterfaceValue_def del: ret_apply)
next
  case (mapSI kvs n)
  let ?o = "map_order fl kvs"
  have kv: "short (fst kv) \<and> data_val n (snd kv)" if "kv \<in> set ?o" for kv
    using mapSI.hyps(3) set_map_order [OF that] by blast
  have ne: "wire fl Q (snd kv) \<noteq> []" if "kv \<in> set ?o" for kv using kv [OF that] wire_nonempty by blast
  have "\<exists>w. seen fl loose (snd kv) w \<and> can_read k (decodeInterfaceCond (t_env env)) (wire fl Q (snd kv)) w"
    if "kv \<in> set ?o" for kv
    by (rule can_any [OF _ assms(2) mapSI.prems(1)]) (use kv [OF that] in simp)
  then obtain val where val: "\<And>kv. kv \<in> set ?o \<Longrightarrow> seen fl loose (snd kv) (val kv)"
      "\<And>kv. kv \<in> set ?o \<Longrightarrow> can_read k (decodeInterfaceCond (t_env env)) (wire fl Q (snd kv)) (val kv)"
    by (rule read_choice [where xs = ?o and f = snd and enc = "\<lambda>kv. wire fl Q (snd kv)"]) (simp, rule that)
  have "holds fl loose TMapSI (GMapSI (Some kvs)) (VMapSI (Some (map (\<lambda>kv. (fst kv, val kv)) ?o)))"
    by (rule holds.mapSI) (use val(1) in \<open>auto simp: list_all2_map2 intro!: list.rel_refl_strong\<close>)
  then have "gives k (map_hdr (int (length ?o)) @ concat (map (\<lambda>kv. str_wire (fst kv) @ wire fl Q (snd kv)) ?o)) r
      (decodeMapStringInterfaceValue (t_env env) True (VMapSI None)) {w. holds fl loose TMapSI (GMapSI (Some kvs)) w}"
    by (intro gives_mapSI [where val = val, OF deep_iconf [OF mapSI.prems(1)]])
      (use mapSI.hyps(1,2) val(2) kv ne in \<open>auto simp: map_order_facts\<close>)
  then show ?case unfolding getDecoder.simps zero_rv.simps wire_simps option.case length_map_order .
next
  case (ptr_nil t n)
  show ?case
    unfolding zero_rv_ptr [OF ptr_nil.hyps] zero_rv.simps wire_simps option.case
    by (rule gives_mono [OF gives_ptr_nil]) (simp add: holds.ptr_nil)
next
  case (ptr t n v)
  have "gives k (wire fl Q v) r (ptrValueDecoder t (getDecoder env (DecodeValue_f env m) t) True (VPtr None))
      ((\<lambda>w. VPtr (Some w)) ` {w. holds fl loose t v w})"
    by (intro gives_ptr ptr.IH [OF ptr.prems]) (use fits_plain [OF ptr.hyps(2)] ptr.hyps(3) in auto)
  then show ?case
    unfolding zero_rv_ptr [OF ptr.hyps(1)] zero_rv.simps wire_simps option.case
    by (rule gives_mono) (auto intro: holds.ptr)
next
  case (iface n v)
  obtain w where w: "seen fl loose v w" "can_read k (decodeInterfaceCond (t_env env)) (wire fl Q v) w"
    using can_any [OF iface.hyps assms(2) iface.prems(1)] by blast
  show ?case
    unfolding getDecoder.simps zero_rv.simps by (rule gives_mono [OF gives_iface [OF w(2)]]) (simp add: holds.iface w(1))
next
  case (struct a fs mp ts n js l)
  let ?fs = "OmitEmpty (hasFlag fl omitEmptyFlag) fs"
  let ?R = "\<lambda>j w. holds fl loose (ts ! (js ! j)) (field_val (?fs ! j)) w"
  define nm where "nm j = fst (the (map_of mp (f_name (fst (?fs ! j)))))" for j
  have len: "length js = length ?fs" using struct.IH by (simp add: list_all2_lengthD)
  have f: "\<not> f_intern (fst (?fs ! j)) \<and> short (f_name (fst (?fs ! j))) \<and> js ! j < length ts \<and>
      fits fl Q P n (ts ! (js ! j)) (field_val (?fs ! j)) \<and> field_at mp (?fs ! j) (js ! j)" if "j < length ?fs" for j
    using struct.IH that by (simp add: list_all2_conv_all_nth)
  have nm: "map_of mp (f_name (fst (?fs ! j))) = Some (nm j, [js ! j], False) \<and> wire fl Q (field_val (?fs ! j)) \<noteq> []"
    if "j < length ?fs" for j
    using f [OF that] fits_plain by (auto simp: field_at_def nm_def)
  have IH: "gives k (wire fl Q (field_val (?fs ! j))) r
      (getDecoder env (DecodeValue_f env m) (ts ! (js ! j)) True (zero_rv (ts ! (js ! j)))) {w. ?R j w}"
    if "j < length ?fs" for j r
    using struct.IH that struct.prems by (simp add: list_all2_conv_all_nth)
  have g: "gives k (map_hdr (int (length ?fs)) @ concat (map (\<lambda>f. str_wire (f_name (fst f)) @ wire fl Q (field_val f)) ?fs)) r
      (getDecoder env (DecodeValue_f env m) (TStruct ts l mp) True (VStruct (map zero_rv ts)))
      (Collect (struct_state ?R ts js (length ?fs)))"
    unfolding getDecoder_struct
  proof (rule gives_struct [OF deep_iconf [OF struct.prems(1)], where nm = nm])
    show "short ?fs"
      using struct.hyps(2) by (auto simp: OmitEmpty_def short_def intro: le_less_trans [OF length_filter_le])
  qed (use len struct.hyps(4) f nm IH in auto)
  have own: "\<not> f_intern (fst g)" if "g \<in> set ?fs" for g using f that by (metis in_set_conv_nth)
  have w: "map (\<lambda>f. str_wire (f_name (fst f)) @ field_wire (wire fl Q) f) ?fs =
      map (\<lambda>f. str_wire (f_name (fst f)) @ wire fl Q (field_val f)) ?fs"
    using field_wire_val [OF own] by simp
  have h: "holds fl loose (TStruct ts l mp) (GStruct a fs) w" if "struct_state ?R ts js (length js) w" for w
    using that
  proof (rule struct_state_holds)
    fix ws
    assume w: "w = VStruct ws" "length ws = length ts" "\<And>j. j < length js \<Longrightarrow> ?R j (ws ! (js ! j))"
      "\<forall>x<length ts. x \<notin> set js \<longrightarrow> ws ! x = zero_rv (ts ! x)"
    show ?thesis
      unfolding w(1) by (rule holds.struct [where js = js])
        (use struct.hyps(1) w f len in \<open>auto simp: list_all2_conv_all_nth\<close>)
  qed
  have e: "wire fl Q (GStruct a fs) =
      map_hdr (int (length ?fs)) @ concat (map (\<lambda>f. str_wire (f_name (fst f)) @ wire fl Q (field_val f)) ?fs)"
    unfolding w [symmetric] using struct.hyps(1) by (simp add: wire_simps)
  show ?case unfolding e zero_rv.simps by (rule gives_mono [OF g]) (use h len in auto)
next
  case (struct_array a fs l js ts n mp)
  let ?R = "\<lambda>j w. holds fl loose (ts ! (js ! j)) (field_val (fs ! j)) w"
  have len: "length js = length fs" "length l = length js"
    using struct_array.IH struct_array.hyps(3) by (simp_all add: list_all2_lengthD)
  have l: "l = map2 (\<lambda>n i. (n, [i], False)) (map fst l) js"
    using struct_array.hyps(3) by (auto simp: list_all2_conv_all_nth list_eq_iff_nth_eq)
  have f: "\<not> f_intern (fst (fs ! j)) \<and> js ! j < length ts \<and> fits fl Q P n (ts ! (js ! j)) (field_val (fs ! j))"
    if "j < length fs" for j
    using struct_array.IH that by (simp add: list_all2_conv_all_nth)
  have ne: "wire fl Q (field_val (fs ! j)) \<noteq> []" if "j < length fs" for j using f [OF that] fits_plain by blast
  have IH: "gives k (wire fl Q (field_val (fs ! j))) r
      (getDecoder env (DecodeValue_f env m) (ts ! (js ! j)) True (zero_rv (ts ! (js ! j)))) {w. ?R j w}"
    if "j < length fs" for j r
    using struct_array.IH that struct_array.prems by (simp add: list_all2_conv_all_nth)
  have g: "gives k (arr_hdr (int (length fs)) @ concat (map (\<lambda>f. wire fl Q (field_val f)) fs)) r
      (getDecoder env (DecodeValue_f env m) (TStruct ts l mp) True (VStruct (map zero_rv ts)))
      (Collect (struct_state ?R ts js (length fs)))"
    unfolding getDecoder_struct
    by (rule gives_struct_array [OF deep_iconf [OF struct_array.prems(1)] struct_array.hyps(2) len(1) struct_array.hyps(4) l])
      (use len f ne IH in auto)
  have own: "\<not> f_intern (fst g)" if "g \<in> set fs" for g using f that by (metis in_set_conv_nth)
  have w: "map (field_wire (wire fl Q)) fs = map (\<lambda>f. wire fl Q (field_val f)) fs"
    using field_wire_val [OF own] by simp
  have h: "holds fl loose (TStruct ts l mp) (GStruct a fs) w" if "struct_state ?R ts js (length js) w" for w
    using that
  proof (rule struct_state_holds)
    fix ws
    assume w: "w = VStruct ws" "length ws = length ts" "\<And>j. j < length js \<Longrightarrow> ?R j (ws ! (js ! j))"
      "\<forall>x<length ts. x \<notin> set js \<longrightarrow> ws ! x = zero_rv (ts ! x)"
    show ?thesis
      unfolding w(1) by (rule holds.struct_array [where js = js])
        (use struct_array.hyps(1,3) w f len in \<open>auto simp: list_all2_conv_all_nth\<close>)
  qed
  have e: "wire fl Q (GStruct a fs) = arr_hdr (int (length fs)) @ concat (map (\<lambda>f. wire fl Q (field_val f)) fs)"
    unfolding w [symmetric] using struct_array.hyps(1) by (simp add: wire_simps)
  show ?case unfolding e zero_rv.simps by (rule gives_mono [OF g]) (use h len in auto)
qed

section \<open>The round trip\<close>

lemma deep_fits:
  assumes "0 \<le> d_depth d" and "iconf (dconf_of d)" and "n < budget d"
  shows "deep (hasFlag (d_flags d) looseInterfaceDecodingFlag) (Suc n) (dconf_of d) (Suc (budget d))"
proof -
  have "d_depth d + int (Suc n) \<le> depth_limit d" using assms(3) unfolding budget_def by linarith
  then show ?thesis
    using assms by (simp add: deep_def, simp add: dconf_of_def k_limit_def depth_limit_def split: if_splits)
qed

lemma fits_DecodeValue:
  assumes "fits fl Q (d_plat d) n t v" and "time_env (t_env env)" and "d_r d \<noteq> None"
    and "0 \<le> d_depth d" and "iconf (dconf_of d)" and "n < budget d" and "pending d = wire fl Q v @ rest"
  obtains w d' where "DecodeValue env (t, True, zero_rv t) d = (Inr w, d')"
    and "holds fl (hasFlag (d_flags d) looseInterfaceDecodingFlag) t v w" and "pending d' = rest" and "dconf_of d' = dconf_of d"
proof -
  let ?l = "hasFlag (d_flags d) looseInterfaceDecodingFlag" and ?k = "dconf_of d"
  have d: "deep ?l (Suc n) ?k (Suc (budget d))" by (rule deep_fits [OF assms(4-6)])
  then have "deep ?l n (?k\<lparr>k_depth := k_depth ?k + 1\<rparr>) (budget d)" using deep_level by blast
  then have "gives (?k\<lparr>k_depth := k_depth ?k + 1\<rparr>) (wire fl Q v) 0
      (getDecoder env (DecodeValue_f env (budget d)) t True (zero_rv t)) {w. holds fl ?l t v w}"
    by (intro fits_gives [OF assms(1,2)]) (simp_all add: dconf_of_def)
  from gives_level [OF d this] have "gives ?k (wire fl Q v) 0 (DecodeValue_f env (Suc (budget d)) (t, True, zero_rv t))
      {w. holds fl ?l t v w}" .
  moreover have "ready (wire fl Q v) 0 d" using assms(3,7) by (auto simp: ready_def)
  ultimately obtain w d' where "DecodeValue env (t, True, zero_rv t) d = (Inr w, d')" "holds fl ?l t v w"
      "advanced (wire fl Q v) d d'" "dconf_of d' = ?k"
    unfolding gives_def DecodeValue_def by blast
  then show thesis using that assms(7) by (auto simp: advanced_def)
qed

lemma Encode_wire_plain:
  assumes "enc_ok out e" and "plain_strings (conf e)" and "plain_val v" and "Encode v e = (Inr (), e')"
  shows "written out e' = written out e @ wire (e_flags e) (e_plat e) v"
proof -
  have "emits out (conf e) (Encode v) (wire (e_flags e) (e_plat e) v) (conf e)"
    using emits_EncodeValue [OF conf_def assms(2,3)] by (simp add: Encode_EncodeValue)
  from emitsD [OF this assms(1) refl] show ?thesis using assms(4) by simp
qed

text \<open>
  C2: decoding into a destination of a matching type gives back what was encoded. What \<open>Encode\<close> writes
  for a value that fits the type (numbers in range, structs whose fields have distinct names in it,
  no pointer to what is encoded as nil), \<open>DecodeValue\<close> reads into a zero value of the type as
  something that holds the same contents: numbers of the same value in any width, strings, bytes,
  slices, arrays, maps, pointers, structs field by field, omitted fields zero, interfaces as decoding
  into \<^verbatim>\<open>any\<close> gives them. It reads exactly the bytes written and leaves the configuration unchanged.
\<close>

theorem Encode_DecodeValue:
  assumes "enc_ok out e" and "plain_strings (conf e)" and "fits (e_flags e) (e_plat e) (d_plat d) n t v"
    and "Encode v e = (Inr (), e')" and "d_r d \<noteq> None" and "0 \<le> d_depth d" and "iconf (dconf_of d)" and "n < budget d"
    and "time_env (t_env env)" and "pending d = drop (length (written out e)) (written out e') @ rest"
  shows "\<exists>w d'. DecodeValue env (t, True, zero_rv t) d = (Inr w, d') \<and>
    holds (e_flags e) (hasFlag (d_flags d) looseInterfaceDecodingFlag) t v w \<and>
    pending d' = rest \<and> dconf_of d' = dconf_of d"
proof -
  have "plain_val v" using fits_plain [OF assms(3)] by blast
  from Encode_wire_plain [OF assms(1,2) this assms(4)]
  have p: "pending d = wire (e_flags e) (e_plat e) v @ rest" using assms(10) by simp
  show ?thesis by (rule fits_DecodeValue [OF assms(3,9,5-8) p]) blast
qed

text \<open>An example: \<^verbatim>\<open>struct { A int8; B string }\<close> with 5 and "hi".\<close>

definition pair_type :: gtype where
  "pair_type = TStruct [TInt K8, TString] [([65], [0], False), ([66], [1], False)]
     [([65], [65], [0], False), ([66], [66], [1], False)]"

definition pair_value :: gval where
  "pair_value = GStruct False
     [(\<lparr>f_name = [65], f_omitEmpty = False, f_intern = False\<rparr>, Some (GInt8 5)),
      (\<lparr>f_name = [66], f_omitEmpty = False, f_intern = False\<rparr>, Some (GString [104, 105]))]"

lemma pair_fits: "fits 0 Q amd64 n pair_type pair_value"
proof -
  let ?ts = "[TInt K8, TString]"
  have "fits 0 Q amd64 n (TInt K8) (GInt8 5)" by (rule fits.int [where i = 5]) (simp_all add: int_value_def kind_bits_def)
  moreover have "fits 0 Q amd64 n TString (GString [104, 105])" by (rule fits.str) (simp add: short_def)
  ultimately show ?thesis
    unfolding pair_type_def pair_value_def
    by (intro fits.struct [where js = "[0, 1]"])
      (simp_all add: hasFlag_def short_def OmitEmpty_def Omit_def field_at_def field_val_def)
qed

lemma pair_wire: "wire 0 Q pair_value = [0x82, 0xa1, 65, 0xd0, 5, 0xa1, 66, 0xa2, 104, 105]"
  by (simp add: pair_value_def wire_simps field_wire_def OmitEmpty_def Omit_def hasFlag_def map_hdr_def str_wire_def
      str_hdr_def opcode_values compact_def)

lemma encoded_value:
  assumes "plain_val v"
  obtains e' where "Encode v append_encoder = (Inr (), e')"
    and "written (\<lambda>_. []) e' = written (\<lambda>_. []) append_encoder @ wire 0 amd64 v"
proof -
  have "emits (\<lambda>_. []) (conf append_encoder) (Encode v) (wire 0 amd64 v) (conf append_encoder)"
    using emits_EncodeValue [OF conf_def append_encoder(2) assms, of "\<lambda>_. []"]
    unfolding append_encoder(4,5) by (simp add: Encode_EncodeValue)
  then show thesis
    by (rule append_encoder_run [OF _ append_encoder(1,3)]) (use that in auto)
qed

lemma time_env_tenv: "time_env (t_env (package_tenv c))"
  by (simp add: package_tenv_def time_env_package)

theorem Encode_DecodeValue_witness:
  "\<exists>w d'. DecodeValue (package_tenv True) (pair_type, True, zero_rv pair_type)
      (decoder_on [0x82, 0xa1, 65, 0xd0, 5, 0xa1, 66, 0xa2, 104, 105, 0xc0]) = (Inr w, d') \<and>
    holds 0 False pair_type pair_value w \<and> pending d' = [0xc0]"
proof -
  let ?d = "decoder_on [0x82, 0xa1, 65, 0xd0, 5, 0xa1, 66, 0xa2, 104, 105, 0xc0]"
  obtain e' where e': "Encode pair_value append_encoder = (Inr (), e')"
      "written (\<lambda>_. []) e' = written (\<lambda>_. []) append_encoder @ wire 0 amd64 pair_value"
    by (rule encoded_value) (use fits_plain [OF pair_fits] in auto)
  have "\<exists>w d'. DecodeValue (package_tenv True) (pair_type, True, zero_rv pair_type) ?d = (Inr w, d') \<and>
      holds (e_flags append_encoder) (hasFlag (d_flags ?d) looseInterfaceDecodingFlag) pair_type pair_value w \<and>
      pending d' = [0xc0] \<and> dconf_of d' = dconf_of ?d"
    by (rule Encode_DecodeValue [where n = 0, OF append_encoder(1,2) _ e'(1) _ _ decoder_on_iconf _ time_env_tenv])
      (simp_all add: e'(2) pair_fits pair_wire append_encoder)
  then show ?thesis by (auto simp: append_encoder hasFlag_def)
qed

section \<open>The fast paths of Decode\<close>

text \<open>
  The types whose fast path is the decoder that reflection would pick. \<^verbatim>\<open>float32\<close>, where reflection goes
  through \<^verbatim>\<open>float64\<close>, and \<^verbatim>\<open>time.Time\<close>, where it insists on the extension, are not among them.
\<close>

definition same_fast :: "gtype \<Rightarrow> bool" where
  "same_fast t \<longleftrightarrow> (case t of TString \<Rightarrow> True | TBytes \<Rightarrow> True | TInt _ \<Rightarrow> True | TUint _ \<Rightarrow> True | TBool \<Rightarrow> True
     | TFloat64 \<Rightarrow> True | TStrings \<Rightarrow> True | TMapSS \<Rightarrow> True | TMapSI \<Rightarrow> True | _ \<Rightarrow> False)"

definition fast_shape :: "gtype \<Rightarrow> rv \<Rightarrow> bool" where
  "fast_shape t v \<longleftrightarrow> (case t of TBytes \<Rightarrow> (\<exists>b. v = VBytes b) | TStrings \<Rightarrow> (\<exists>p. v = VStrings p)
     | TMapSS \<Rightarrow> (\<exists>m. v = VMapSS m) | _ \<Rightarrow> True)"

lemma narrow_ints:
  "SetInt P K8 n = VInt (scast (ucast n :: byte))" "SetInt P K16 n = VInt (scast (ucast n :: u16))"
  "SetInt P K32 n = VInt (scast (ucast n :: u32))" "SetInt P K64 n = VInt n"
  "SetInt P KInt n = VInt (word_of_int (signed_take_bit (p_intBits P - 1) (sint n)))"
  "SetUint P K8 n = VUint (ucast (ucast n :: byte))" "SetUint P K16 n = VUint (ucast (ucast n :: u16))"
  "SetUint P K32 n = VUint (ucast (ucast n :: u32))" "SetUint P K64 n = VUint n"
  "SetUint P KInt n = VUint (take_bit (p_intBits P) n)"
  by (simp_all add: SetInt_def SetUint_def)

lemma bindE_getS_const: "bindE (getS g) (\<lambda>_. m) = m"
  by (rule ext) (simp add: bindE_getS)

lemma fastPath_getDecoder:
  assumes "same_fast t" and "fast_shape t v"
  shows "fastPath env t v = getDecoder env rec t True v"
proof -
  have i: "fastPath env (TInt ik) v = getDecoder env rec (TInt ik) True v" for ik
    by (cases ik) (simp_all add: fastPath_def decodeInt64Value_def set_rv_def narrow_ints bindE_getS_const bindE_assoc
      DecodeInt_def DecodeInt8_def DecodeInt16_def DecodeInt32_def del: ret_apply)
  have u: "fastPath env (TUint ik) v = getDecoder env rec (TUint ik) True v" for ik
    by (cases ik) (simp_all add: fastPath_def decodeUint64Value_def set_rv_def narrow_ints bindE_getS_const bindE_assoc
      DecodeUint_def DecodeUint8_def DecodeUint16_def DecodeUint32_def del: ret_apply)
  show ?thesis
    using assms i u
    by (cases t) (auto simp: same_fast_def fast_shape_def fastPath_def decodeStringValue_def decodeBytesValue_def
        decodeBoolValue_def decodeFloat64Value_def decodeStringSliceValue_def decodeMapStringStringValue_def
        decodeMapStringInterfaceValue_def set_rv_def bytesPtrE_eq bindE_assoc simp del: ret_apply)
qed



section \<open>Marshal and Unmarshal\<close>

lemma zero_rv_iface: "zero_rv t \<noteq> VIface (Some x)"
  by (induction t) auto

lemma fast_shape_zero: "fast_shape t (zero_rv t)"
  by (cases t) (simp_all add: fast_shape_def)

lemma fits_Decode:
  assumes "fits fl Q P n t v" and "time_env (t_env env)" and "deep loose (Suc n) k (Suc (k_budget k))" and "k_plat k = P"
  shows "gives k (wire fl Q v) r (Decode env (ArgPtr exact t (Some (zero_rv t)))) {w. holds fl loose t v w}"
proof -
  let ?W = "{w. holds fl loose t v w}"
  have d: "deep loose n (k\<lparr>k_depth := k_depth k + 1\<rparr>) (k_budget k)" using deep_level [OF assms(3)] by blast
  have "gives (k\<lparr>k_depth := k_depth k + 1\<rparr>) (wire fl Q v) r (getDecoder env (DecodeValue_f env (k_budget k)) t True (zero_rv t)) ?W"
    by (rule fits_gives [OF assms(1,2) d]) (simp add: assms(4))
  from gives_level [OF assms(3) this] have "gives k (wire fl Q v) r (DecodeValue env (t, True, zero_rv t)) ?W"
    unfolding gives_def DecodeValue_def by (metis budget_conf)
  then have p: "gives k (wire fl Q v) r (decodePtr env t (zero_rv t)) ?W"
    using zero_rv_iface by (auto simp: decodePtr_def split: rv.split option.split)
  have k: "deep loose n k (Suc (k_budget k))" using assms(3) by (simp add: deep_def)
  have "gives k (wire fl Q v) r (fastPath env t (zero_rv t)) ?W"
  proof (cases "same_fast t")
    case True
    show ?thesis
      unfolding fastPath_getDecoder [OF True fast_shape_zero, of env "DecodeValue_f env (Suc (k_budget k))"] by (rule fits_gives [OF assms(1,2) k assms(4)])
  next
    case False
    consider "t = TFloat32" | "t = TTime" | "fastPath env t (zero_rv t) = decodePtr env t (zero_rv t)"
      using False by (cases t) (auto simp: same_fast_def fastPath_def)
    then show ?thesis
    proof cases
      case 1
      then obtain f where f: "v = GFloat32 f" "\<not> hasFlag fl useCompactFloatsFlag"
        using assms(1) by (auto elim: fits.cases)
      have "gives k (wire fl Q v) r (bindE DecodeFloat32 (\<lambda>f. ret (VFloat32 f))) ?W"
        unfolding f(1) wire_simps f32_wire_def using f(2)
        by (auto intro!: gives_yields_ret [OF yields_raw_floats(2)] holds.f32 simp: 1)
      then show ?thesis by (simp add: fastPath_def 1)
    next
      case 2
      then obtain tm where tm: "v = GTime tm" "time_wf tm" using assms(1) by (auto elim: fits.cases)
      have "32 < p_intBits (k_plat k)" using deep_iconf [OF assms(3)] by (simp add: iconf_def roomy_def)
      then have "gives k (wire fl Q v) r (bindE DecodeTime (\<lambda>tm. ret (VTime tm))) ?W"
        unfolding tm(1) wire_simps 2 by (intro gives_yields_ret [OF yields_DecodeTime [OF tm(2)]]) (simp_all add: holds.time)
      then show ?thesis by (simp add: fastPath_def 2)
    next
      case 3
      then show ?thesis using p by simp
    qed
  qed
  with p show ?thesis by (simp add: Decode_def)
qed

lemma AppendMarshal_wire:
  assumes "enc_inv pooled" and "plain_val v"
  shows "\<exists>b e'. AppendMarshal dst v pooled = (Inr b, e') \<and> vis b = wire 0 (e_plat pooled) v"
proof -
  let ?e = "Reset None pooled"
  have "enc_inv ?e" "e_flags ?e = 0" "e_plat ?e = e_plat pooled" "plain_strings (conf ?e)"
    using assms(1)
    by (simp_all add: Reset_def ResetDict_def ResetWriter_def enc_inv_def plain_strings_def conf_def hasFlag_def)
  with Append_ok [of ?e v dst] assms(2) show ?thesis by (auto simp: AppendMarshal_def split: prod.split)
qed

text \<open>
  C1: \<open>Unmarshal\<close> undoes \<open>Marshal\<close>. Whatever encoder and decoder the pools hand out, as long as the
  decoder is not recording and its limit admits the nesting, the bytes \<open>AppendMarshal\<close> returns for a
  value that fits a type, on the same or another platform, are unmarshalled without an error through a
  pointer to a zero value of that type, by a fast path or by reflection, into something that holds the
  value.
\<close>

theorem Marshal_Unmarshal:
  assumes "enc_inv pooled" and "fits 0 (e_plat pooled) (d_plat dec) n t v" and "time_env (t_env env)"
    and "32 < p_intBits (d_plat dec)" and "int n < depth_limit dec" and "d_rec dec = None"
  shows "\<exists>b e' w. AppendMarshal dst v pooled = (Inr b, e') \<and>
    fst (Unmarshal env (vis b) (ArgPtr exact t (Some (zero_rv t))) dec) = Inr w \<and> holds 0 False t v w"
proof -
  have "plain_val v" using fits_plain [OF assms(2)] by blast
  from AppendMarshal_wire [OF assms(1) this] obtain b e' where b: "AppendMarshal dst v pooled = (Inr b, e')"
      "vis b = wire 0 (e_plat pooled) v" by blast
  let ?d = "UsePreallocateValues True (dec_Reset (Some (bytes_reader (vis b))) dec)"
  have fl: "d_flags ?d = setFlag usePreallocateValues True 0" and f: "d_plat ?d = d_plat dec" "d_depth ?d = 0"
      "d_dict ?d = []" "d_mapDecoder ?d = None" "d_rec ?d = None" "d_maxDepth ?d = d_maxDepth dec"
      "d_r ?d = Some (bytes_reader (vis b))"
    using assms(6) by (simp_all add: UsePreallocateValues_def dec_Reset_def dec_ResetDict_def dec_ResetReader_def)
  have g: "\<not> hasFlag (d_flags ?d) looseInterfaceDecodingFlag" "\<not> hasFlag (d_flags ?d) useInternedStringsFlag"
    unfolding fl by code_simp+
  have k: "iconf (dconf_of ?d)"
    using assms(4) f g by (simp add: iconf_def plain_dec_def roomy_def, simp add: dconf_of_def bytes_reader_def)
  have l: "depth_limit ?d = depth_limit dec" using f(6) by (simp add: depth_limit_def)
  have "deep False (Suc n) (dconf_of ?d) (Suc (budget ?d))"
    using deep_fits [OF _ k, of n] g(1) f(2) assms(5) l by (simp add: budget_def)
  then have "gives (dconf_of ?d) (wire 0 (e_plat pooled) v) 0 (Decode env (ArgPtr exact t (Some (zero_rv t))))
      {w. holds 0 False t v w}"
    by (intro fits_Decode [OF assms(2,3)]) (simp_all add: budget_conf f(1) dconf_of_def)
  moreover have "ready (wire 0 (e_plat pooled) v) 0 ?d" using f(7) b(2) by (simp add: ready_def pending_def bytes_reader_def)
  ultimately obtain w where "fst (Decode env (ArgPtr exact t (Some (zero_rv t))) ?d) = Inr w" "holds 0 False t v w"
    unfolding gives_def by fastforce
  then show ?thesis using b(1) unfolding fst_Unmarshal by blast
qed

theorem Marshal_Unmarshal_witness:
  "\<exists>b e' w. AppendMarshal (make_slice 0 0 0) pair_value (NewEncoder amd64 None :: nat encoder) = (Inr b, e') \<and>
    fst (Unmarshal (package_tenv True) (vis b) (ArgPtr False pair_type (Some (zero_rv pair_type))) (NewDecoder amd64 None)) =
      Inr w \<and> holds 0 False pair_type pair_value w"
  by (rule Marshal_Unmarshal [where n = 0])
    (simp_all add: enc_inv_def NewEncoder_def Reset_def ResetDict_def ResetWriter_def NewDecoder_def dec_Reset_def
      dec_ResetDict_def dec_ResetReader_def pair_fits time_env_tenv depth_limit_def defaultDecodeDepthLimit_def, simp add: amd64_def)

end
