(* ===== verification/Typed_Map.thy ===== *)
theory Typed_Map
  imports Typed_Roundtrip
begin

text \<open>
  \<open>DecodeTypedMap\<close>, \<^verbatim>\<open>decode_map.go\<close>: the first entry of a map decides on the types of keys and values, the
  other entries are decoded by reflection into these types.
\<close>

text \<open>
  The result is the type of keys, the type of values and the entries. \<^verbatim>\<open>reflect.TypeOf(nil)\<close> is a nil
  interface, on which \<open>Comparable\<close> and \<^verbatim>\<open>reflect.MapOf\<close> dereference nil.
\<close>

definition DecodeTypedMap :: "tenv \<Rightarrow> (decoder, ((gtype \<times> gtype) \<times> (rv \<times> rv) list) option) go" where
  "DecodeTypedMap env =
     bindE DecodeMapLen (\<lambda>n.
       if n \<le> 0 then ret None
       else bindE (decodeInterfaceCond (t_env env)) (\<lambda>key. bindE (decodeInterfaceCond (t_env env)) (\<lambda>value.
         case of_gval key of
           None \<Rightarrow> fail nil_deref
         | Some (kt, k) \<Rightarrow>
             if \<not> type_Comparable kt then fail UnsupportedMapKey
             else
               (case of_gval value of
                  None \<Rightarrow> fail nil_deref
                | Some (vt, v) \<Rightarrow>
                    bindE (decodeTypedMapValue (DecodeValue env) kt vt (map_set rv_eq k v []) (nat (n - 1)))
                      (\<lambda>m. ret (Some ((kt, vt), m)))))))"

text \<open>
  \<open>DecodeTypedMap\<close> panics on some inputs: a first entry whose key is nil, or whose value is nil.
  An array as the first key is rejected with an error, and so is a byte slice, which
  \<open>DecodeUntypedMap\<close> and a typed destination accept as a string.
\<close>

theorem DecodeTypedMap_panics:
  "fst (DecodeTypedMap (package_tenv True) (dec_Reset (Some (bytes_reader [0x81, 0xc0, 0x01])) (pooled_with_limit 4))) = Inl nil_deref \<and>
   fst (DecodeTypedMap (package_tenv True) (dec_Reset (Some (bytes_reader [0x81, 0x01, 0xc0])) (pooled_with_limit 4))) = Inl nil_deref \<and>
   fst (DecodeTypedMap (package_tenv True) (dec_Reset (Some (bytes_reader [0x81, 0xc4, 0x00, 0x01])) (pooled_with_limit 4))) = Inl UnsupportedMapKey"
  by (intro conjI) code_simp+

section \<open>Maps of strings\<close>

lemma map_set_new_key:
  "(\<And>x. x \<in> fst ` set m \<Longrightarrow> \<not> rv_eq x k) \<Longrightarrow> map_set rv_eq k v m = m @ [(k, v)]"
  by (induction m) auto

lemma rv_eq_str: "rv_eq (VString s) (VString t) \<longleftrightarrow> s = t"
  by (simp add: rv_eq.simps)

lemma deep_string: "deep loose (Suc 0) k m \<Longrightarrow> short s \<Longrightarrow> time_env env \<Longrightarrow>
  can_read k (decodeInterfaceCond env) (str_wire s) (GString s)"
  using can_any [of "Suc 0" "GString s" env loose k m 0 P for P] data_val.scalar [of "GString s" 0]
  by (auto simp: scalar_val_def wire_simps int_value_def)

lemma gives_typed_string:
  assumes "deep loose (Suc 0) k (Suc (k_budget k))" and "short s" and "time_env (t_env env)"
  shows "gives k (str_wire s) r (DecodeValue env (TString, True, VString [])) {VString s}"
proof -
  have "gives (k\<lparr>k_depth := k_depth k + 1\<rparr>) (str_wire s) r
      (getDecoder env (DecodeValue_f env (k_budget k)) TString True (zero_rv TString)) {VString s}"
    unfolding getDecoder.simps
    by (rule gives_strings_values) (use deep_level [OF assms(1)] deep_iconf assms(2) in auto)
  from gives_level [OF assms(1) this] show ?thesis
    unfolding gives_def DecodeValue_def zero_rv.simps by (metis budget_conf)
qed

definition string_entry :: "gostring \<times> gostring \<Rightarrow> rv \<times> rv" where
  "string_entry kv = (VString (fst kv), VString (snd kv))"

lemma map_set_string:
  "k \<notin> fst ` set kvs \<Longrightarrow>
    map_set rv_eq (VString k) (VString v) (map string_entry kvs) = map string_entry kvs @ [(VString k, VString v)]"
  by (rule map_set_new_key) (force simp: string_entry_def rv_eq_str)

lemma gives_typed_entries:
  assumes "deep loose (Suc 0) k (Suc (k_budget k))" and "time_env (t_env env)"
    and "distinct (map fst (kv # kvs))" and "\<forall>x\<in>set kvs. short (fst x) \<and> short (snd x)"
  shows "gives k (concat (map (\<lambda>x. str_wire (fst x) @ str_wire (snd x)) kvs)) r
    (decodeTypedMapValue (DecodeValue env) TString TString [string_entry kv] (length kvs))
    {map string_entry (kv # kvs)}"
proof -
  let ?I = "\<lambda>i m. m = map string_entry (kv # take i kvs)"
  have step: "gives k (map (\<lambda>x. str_wire (fst x) @ str_wire (snd x)) kvs ! i) n
      (bindE (DecodeValue env (TString, True, zero_rv TString)) (\<lambda>mk. bindE (interface_key TString mk) (\<lambda>mk.
         bindE (DecodeValue env (TString, True, zero_rv TString)) (\<lambda>mv.
           if hashable mk then ret (map_set rv_eq mk mv m) else fail (Panic ''hash of unhashable type'')))))
      (Collect (?I (Suc i)))" if i: "i < length kvs" and m: "?I i m" for i m n
  proof -
    obtain a b where ab: "kvs ! i = (a, b)" by fastforce
    have s: "short a" "short b" using assms(4) nth_mem [OF i] unfolding ab by auto
    have "a \<notin> fst ` set (kv # take i kvs)"
    proof -
      have "distinct (map fst (kv # take (Suc i) kvs))"
        using assms(3) distinct_take [of "map fst (kv # kvs)" "Suc (Suc i)"] by (simp add: take_map)
      then show ?thesis using i ab by (auto simp: take_Suc_conv_app_nth)
    qed
    then have new: "map_set rv_eq (VString a) (VString b) m = map string_entry (kv # take (Suc i) kvs)"
      unfolding m by (subst map_set_string) (use i ab in \<open>simp_all add: take_Suc_conv_app_nth string_entry_def\<close>)
    have v: "gives k (str_wire b) n (bindE (DecodeValue env (TString, True, zero_rv TString)) (\<lambda>mv.
           if hashable (VString a) then ret (map_set rv_eq (VString a) mv m) else fail (Panic ''hash of unhashable type'')))
        (Collect (?I (Suc i)))"
      unfolding zero_rv.simps hashable.simps if_True
      by (rule gives_bind_ret [OF gives_typed_string [OF assms(1) s(2) assms(2)]]) (use new in simp)
    have "gives k (str_wire a @ str_wire b) n
      (bindE (DecodeValue env (TString, True, zero_rv TString)) (\<lambda>mk. bindE (interface_key TString mk) (\<lambda>mk.
         bindE (DecodeValue env (TString, True, zero_rv TString)) (\<lambda>mv.
           if hashable mk then ret (map_set rv_eq mk mv m) else fail (Panic ''hash of unhashable type'')))))
      (Collect (?I (Suc i)))"
      unfolding zero_rv.simps
      by (rule gives_bind [OF gives_typed_string [OF assms(1) s(1) assms(2)]])
        (use v in \<open>simp add: interface_key_def del: ret_apply\<close>)
    then show ?thesis using i ab by simp
  qed
  from gives_foldlE [where I = ?I and xs = kvs and bss = "map (\<lambda>x. str_wire (fst x) @ str_wire (snd x)) kvs"
      and a = "[string_entry kv]" and n = r, OF _ _ step]
  show ?thesis by (simp add: decodeTypedMapValue_def foldE_foldlE Collect_conv_if)
qed

text \<open>
  \<open>DecodeTypedMap\<close> gives back a non-empty \<^verbatim>\<open>map[string]string\<close>, with the entries in the order written.
  Whatever the options of the encoder, interning apart, it infers the types of keys and values from the
  first entry, decodes the others by reflection, and consumes exactly what was written.
\<close>

theorem Encode_DecodeTypedMap:
  assumes "enc_ok out e" and "plain_strings (conf e)" and "Encode (GMapSS (Some kvs)) e = (Inr (), e')"
    and "kvs \<noteq> []" and "short kvs" and "distinct (map fst kvs)" and "\<forall>kv\<in>set kvs. short (fst kv) \<and> short (snd kv)"
    and "d_r d \<noteq> None" and "0 \<le> d_depth d" and "iconf (dconf_of d)" and "0 < budget d" and "time_env (t_env env)"
    and "pending d = drop (length (written out e)) (written out e') @ rest"
  shows "\<exists>d'. DecodeTypedMap env d =
      (Inr (Some ((TString, TString), map string_entry (map_order (e_flags e) kvs))), d') \<and>
    pending d' = rest \<and> dconf_of d' = dconf_of d"
proof -
  let ?o = "map_order (e_flags e) kvs" and ?k = "dconf_of d" and ?enc = "\<lambda>x. str_wire (fst x) @ str_wire (snd x)"
  let ?W = "{Some ((TString, TString), map string_entry ?o)}"
  have w: "written out e' = written out e @ map_hdr (int (length ?o)) @ concat (map ?enc ?o)"
    using Encode_wire_plain [OF assms(1,2) _ assms(3)] by (simp add: wire_simps length_map_order)
  obtain kv os where o: "?o = kv # os" using assms(4) length_map_order [of "e_flags e" kvs] by (cases ?o) auto
  have s: "\<forall>x\<in>set ?o. short (fst x) \<and> short (snd x)" using assms(7) set_map_order by blast
  have dist: "distinct (map fst ?o)" and short: "short ?o" using assms(5,6) by (simp_all add: map_order_facts)
  have dp: "deep (hasFlag (d_flags d) looseInterfaceDecodingFlag) (Suc 0) ?k (Suc (k_budget ?k))"
    using deep_fits [OF assms(9,10,11)] by (simp add: budget_conf)
  have str: "yields ?k (str_wire x) n (decodeInterfaceCond (t_env env)) (GString x) ?k" if "short x" for x n
    using deep_string [OF dp that assms(12)] by (simp add: can_read_def)
  have rest: "gives ?k (concat (map ?enc os)) n (bindE (decodeTypedMapValue (DecodeValue env) TString TString
      [string_entry kv] (length os)) (\<lambda>m. ret (Some ((TString, TString), m)))) ?W" for n
    using gives_bind_ret [where W = ?W and g = "\<lambda>m. Some ((TString, TString), m)",
        OF gives_typed_entries [OF dp assms(12), of kv os n]] dist s o by simp
  let ?f = "\<lambda>key value. case of_gval key of
           None \<Rightarrow> fail nil_deref
         | Some (kt, k) \<Rightarrow>
             if \<not> type_Comparable kt then fail UnsupportedMapKey
             else
               (case of_gval value of
                  None \<Rightarrow> fail nil_deref
                | Some (vt, v) \<Rightarrow>
                    bindE (decodeTypedMapValue (DecodeValue env) kt vt (map_set rv_eq k v []) (nat (int (length ?o) - 1)))
                      (\<lambda>m. ret (Some ((kt, vt), m))))"
  have "?f (GString (fst kv)) (GString (snd kv)) = bindE (decodeTypedMapValue (DecodeValue env) TString TString
      [string_entry kv] (length os)) (\<lambda>m. ret (Some ((TString, TString), m)))"
    by (simp add: o string_entry_def)
  with rest have 1: "gives ?k (concat (map ?enc os)) 0 (?f (GString (fst kv)) (GString (snd kv))) ?W" by simp
  have "short (fst kv)" "short (snd kv)" using s o by auto
  from gives_after [where f = "?f (GString (fst kv))", OF str [OF this(2)] 1]
  have 2: "gives ?k (str_wire (snd kv) @ concat (map ?enc os)) 0
      (bindE (decodeInterfaceCond (t_env env)) (?f (GString (fst kv)))) ?W" .
  from gives_after [where f = "\<lambda>key. bindE (decodeInterfaceCond (t_env env)) (?f key)", OF str [OF \<open>short (fst kv)\<close>] 2]
  have "gives ?k (concat (map ?enc ?o)) 0
      (bindE (decodeInterfaceCond (t_env env)) (\<lambda>key. bindE (decodeInterfaceCond (t_env env)) (?f key))) ?W"
    by (simp add: o)
  then have "gives ?k (map_hdr (int (length ?o)) @ concat (map ?enc ?o)) 0 (DecodeTypedMap env) ?W"
    unfolding DecodeTypedMap_def
    by (intro gives_map [OF assms(10) short] length_entries) (use o str_wire_nonempty in auto)
  moreover have "ready (map_hdr (int (length ?o)) @ concat (map ?enc ?o)) 0 d"
    using assms(8,13) w by (auto simp: ready_def)
  ultimately show ?thesis using assms(13) w unfolding gives_def by (fastforce simp: advanced_def)
qed

theorem Encode_DecodeTypedMap_witness:
  "\<exists>d'. DecodeTypedMap (package_tenv True) (decoder_on [0x82, 0xa1, 97, 0xa1, 120, 0xa1, 98, 0xa0, 0xc0]) =
      (Inr (Some ((TString, TString), [(VString [97], VString [120]), (VString [98], VString [])])), d') \<and>
    pending d' = [0xc0]"
proof -
  let ?v = "GMapSS (Some [([97], [120]), ([98], [])])"
  let ?d = "decoder_on [0x82, 0xa1, 97, 0xa1, 120, 0xa1, 98, 0xa0, 0xc0]"
  have o: "map_order 0 [([97], [120]), ([98], [])] = [([97], [120]), ([98], [])]" by (simp add: map_order_def hasFlag_def)
  have w: "wire 0 amd64 ?v = [0x82, 0xa1, 97, 0xa1, 120, 0xa1, 98, 0xa0]"
    by (simp add: wire_simps o map_hdr_def str_wire_def str_hdr_def opcode_values)
  obtain e' where e': "Encode ?v append_encoder = (Inr (), e')"
      "written (\<lambda>_. []) e' = written (\<lambda>_. []) append_encoder @ wire 0 amd64 ?v"
    by (rule encoded_value) auto
  have "\<exists>d'. DecodeTypedMap (package_tenv True) ?d =
      (Inr (Some ((TString, TString), map string_entry (map_order (e_flags append_encoder) [([97], [120]), ([98], [])]))), d') \<and>
      pending d' = [0xc0] \<and> dconf_of d' = dconf_of ?d"
    by (rule Encode_DecodeTypedMap [OF append_encoder(1,2) e'(1) _ _ _ _ _ _ decoder_on_iconf _ time_env_tenv])
      (simp_all add: e'(2) w short_def)
  then show ?thesis by (auto simp: append_encoder o string_entry_def)
qed

end
