(* ===== verification/Type_Safety.thy ===== *)
theory Type_Safety
  imports Unmarshal
begin

text \<open>
  Typed decoding preserves types: whatever the input, a destination that holds a value of its type holds
  a value of its type after decoding (\<open>has_type\<close>). The decoding methods of the program are parameters
  of which the same is assumed, in the locale \<open>typed_program\<close>.
\<close>

section \<open>Values of a type\<close>

text \<open>
  \<open>U i\<close> is the underlying type of the program's \<open>i\<close>-th type. A type is declared when it uses them with
  these underlying types.
\<close>

primrec declared :: "(nat \<Rightarrow> gtype) \<Rightarrow> gtype \<Rightarrow> bool" where
  "declared U TBool = True"
| "declared U (TInt k) = True"
| "declared U (TUint k) = True"
| "declared U TFloat32 = True"
| "declared U TFloat64 = True"
| "declared U TString = True"
| "declared U TBytes = True"
| "declared U (TByteArray n) = True"
| "declared U TStrings = True"
| "declared U (TSlice t) = declared U t"
| "declared U (TArray n t) = declared U t"
| "declared U TMapSS = True"
| "declared U TMapSI = True"
| "declared U (TMap k t) = (declared U k \<and> declared U t)"
| "declared U (TPtr t) = declared U t"
| "declared U (TStruct ts fs m) = list_all id (map (declared U) ts)"
| "declared U (TIface e) = True"
| "declared U TTime = True"
| "declared U (TNamed i t) = (t = U i \<and> declared U t)"
| "declared U TUnsupported = True"

text \<open>Integers of a sized type are in its range; \<^verbatim>\<open>int\<close> and \<^verbatim>\<open>uint\<close> have the platform's width.\<close>

primrec int_in :: "ikind \<Rightarrow> u64 \<Rightarrow> bool" where
  "int_in KInt n = True"
| "int_in K8 n = (sint n \<in> {- (2 ^ 7)..<2 ^ 7})"
| "int_in K16 n = (sint n \<in> {- (2 ^ 15)..<2 ^ 15})"
| "int_in K32 n = (sint n \<in> {- (2 ^ 31)..<2 ^ 31})"
| "int_in K64 n = True"

primrec uint_in :: "ikind \<Rightarrow> u64 \<Rightarrow> bool" where
  "uint_in KInt n = True"
| "uint_in K8 n = (unat n < 2 ^ 8)"
| "uint_in K16 n = (unat n < 2 ^ 16)"
| "uint_in K32 n = (unat n < 2 ^ 32)"
| "uint_in K64 n = True"

lemma int_in_scast [simp]:
  "int_in K8 (scast (a :: byte))" "int_in K16 (scast (b :: u16))" "int_in K32 (scast (c :: u32))" "int_in k 0"
proof -
  show "int_in K8 (scast a)" using sint_ge [of a] sint_lt [of a] by (simp add: sint_scast_up)
  show "int_in K16 (scast b)" using sint_ge [of b] sint_lt [of b] by (simp add: sint_scast_up)
  show "int_in K32 (scast c)" using sint_ge [of c] sint_lt [of c] by (simp add: sint_scast_up)
  show "int_in k 0" by (cases k) simp_all
qed

lemma uint_in_ucast [simp]:
  "uint_in K8 (ucast (a :: byte))" "uint_in K16 (ucast (b :: u16))" "uint_in K32 (ucast (c :: u32))" "uint_in k 0"
proof -
  show "uint_in K8 (ucast a)" using unsigned_less [of a, where 'a = nat] by (simp add: unat_ucast_wide)
  show "uint_in K16 (ucast b)" using unsigned_less [of b, where 'a = nat] by (simp add: unat_ucast_wide)
  show "uint_in K32 (ucast c)" using unsigned_less [of c, where 'a = nat] by (simp add: unat_ucast_wide)
  show "uint_in k 0" by (cases k) simp_all
qed

declare int_in.simps [simp del] uint_in.simps [simp del]

lemma in_full [simp]: "int_in KInt n" "int_in K64 n" "uint_in KInt n" "uint_in K64 n"
  by (simp_all add: int_in.simps uint_in.simps)

lemma in_Set [simp]:
  "int_in k (case k of KInt \<Rightarrow> x | K8 \<Rightarrow> scast (a :: byte) | K16 \<Rightarrow> scast (b :: u16) | K32 \<Rightarrow> scast (c :: u32) | K64 \<Rightarrow> y)"
  "uint_in k (case k of KInt \<Rightarrow> x | K8 \<Rightarrow> ucast a | K16 \<Rightarrow> ucast b | K32 \<Rightarrow> ucast c | K64 \<Rightarrow> y)"
  by (cases k; simp)+

text \<open>The dynamic type of an interface's content is not itself an interface type.\<close>

definition concrete :: "gtype \<Rightarrow> bool" where
  "concrete t \<longleftrightarrow> (case underlying t of TIface e \<Rightarrow> False | _ \<Rightarrow> True)"

lemma concrete_simps [simp]:
  "concrete TBool" "concrete (TInt k)" "concrete (TUint k)" "concrete TFloat32" "concrete TFloat64" "concrete TString"
  "concrete TBytes" "concrete (TByteArray n)" "concrete TStrings" "concrete (TSlice t)" "concrete (TArray n t)" "concrete TMapSS"
  "concrete TMapSI" "concrete (TMap t u)" "concrete (TPtr t)" "concrete (TStruct ts fs m)" "\<not> concrete (TIface e)"
  "concrete TTime" "concrete TUnsupported"
  by (simp_all add: concrete_def underlying_def)

inductive has_type :: "(nat \<Rightarrow> gtype) \<Rightarrow> gtype \<Rightarrow> rv \<Rightarrow> bool" for U where
  bool: "has_type U TBool (VBool b)"
| int: "int_in k n \<Longrightarrow> has_type U (TInt k) (VInt n)"
| uint: "uint_in k n \<Longrightarrow> has_type U (TUint k) (VUint n)"
| f32: "has_type U TFloat32 (VFloat32 f)"
| f64: "has_type U TFloat64 (VFloat64 f)"
| str: "has_type U TString (VString s)"
| bytes: "has_type U TBytes (VBytes b)"
| byteArray: "length bs = n \<Longrightarrow> has_type U (TByteArray n) (VByteArray bs)"
| strings: "has_type U TStrings (VStrings s)"
| slice_nil: "has_type U (TSlice t) (VSlice None)"
| slice: "len \<le> length arr \<Longrightarrow> \<forall>v\<in>set arr. has_type U t v \<Longrightarrow> has_type U (TSlice t) (VSlice (Some (arr, len)))"
| array: "length vs = n \<Longrightarrow> \<forall>v\<in>set vs. has_type U t v \<Longrightarrow> has_type U (TArray n t) (VArray vs)"
| mapSS: "has_type U TMapSS (VMapSS m)"
| mapSI: "has_type U TMapSI (VMapSI m)"
| map_nil: "has_type U (TMap kt vt) (VMap None)"
| map: "\<forall>kv\<in>set m. has_type U kt (fst kv) \<and> has_type U vt (snd kv) \<Longrightarrow> has_type U (TMap kt vt) (VMap (Some m))"
| ptr_nil: "has_type U (TPtr t) (VPtr None)"
| ptr: "has_type U t v \<Longrightarrow> has_type U (TPtr t) (VPtr (Some v))"
| struct: "list_all2 (has_type U) ts vs \<Longrightarrow> has_type U (TStruct ts fs m) (VStruct vs)"
| iface_nil: "has_type U (TIface e) (VIface None)"
| iface: "declared U t \<Longrightarrow> concrete t \<Longrightarrow> has_type U t v \<Longrightarrow> has_type U (TIface e) (VIface (Some (t, v)))"
| time: "has_type U TTime (VTime tm)"
| named: "has_type U (U i) v \<Longrightarrow> has_type U (TNamed i (U i)) v"
| unsupported: "has_type U TUnsupported VUnsupported"
monos list_all2_mono

inductive_simps has_type_simps [simp]:
  "has_type U TBool v" "has_type U (TInt k) v" "has_type U (TUint k) v" "has_type U TFloat32 v" "has_type U TFloat64 v"
  "has_type U TString v" "has_type U TBytes v" "has_type U (TByteArray n) v" "has_type U TStrings v"
  "has_type U (TSlice t) v" "has_type U (TArray n t) v" "has_type U TMapSS v" "has_type U TMapSI v"
  "has_type U (TMap kt vt) v" "has_type U (TPtr t) v" "has_type U (TStruct ts fs m) v" "has_type U (TIface e) v"
  "has_type U TTime v" "has_type U (TNamed i t) v" "has_type U TUnsupported v"

lemma has_type_dynamic:
  assumes "has_type U t v" and "v = VIface (Some (u, w))"
  shows "declared U u" and "has_type U u w" and "concrete u" and "has_type U u x \<Longrightarrow> has_type U t (VIface (Some (u, x)))"
  using assms by (induction rule: has_type.induct) auto

lemma has_type_zero: "declared U t \<Longrightarrow> has_type U t (zero_rv t)"
proof (induction t)
  case (TStruct ts fs m)
  then show ?case by (auto simp: list_all_iff list_all2_conv_all_nth)
qed auto

lemma has_type_iface: "(\<And>t v. o1 = Some (t, v) \<Longrightarrow> declared U t \<and> concrete t \<and> has_type U t v) \<Longrightarrow> has_type U (TIface e) (VIface o1)"
  by (cases o1) auto

lemma has_type_of_gval: "of_gval g = Some (t, v) \<Longrightarrow> declared U t \<and> concrete t \<and> has_type U t v"
proof (induction g arbitrary: t v rule: of_gval.induct)
  case (17 s)
  have "has_type U (TIface False) (VIface (of_gval x))" if "s = Some xs" "x \<in> set xs" for x xs
    by (rule has_type_iface) (rule 17(1) [OF that])
  with 17(2) show ?case by (cases s) auto
next
  case (19 m)
  have "has_type U (TIface False) (VIface (of_gval (fst kv))) \<and> has_type U (TIface False) (VIface (of_gval (snd kv)))"
    if "m = Some kvs" "kv \<in> set kvs" for kv kvs
  proof
    show "has_type U (TIface False) (VIface (of_gval (fst kv)))" by (rule has_type_iface) (rule 19(1) [OF that])
    show "has_type U (TIface False) (VIface (of_gval (snd kv)))" by (rule has_type_iface) (rule 19(2) [OF that])
  qed
  then have "\<forall>kv\<in>set (map (\<lambda>kv. (VIface (of_gval (fst kv)), VIface (of_gval (snd kv)))) kvs).
      has_type U (TIface False) (fst kv) \<and> has_type U (TIface False) (snd kv)" if "m = Some kvs" for kvs
    using that by (auto simp del: has_type_simps)
  from has_type.map [OF this] 19(3) show ?case by (cases m) (auto simp del: has_type_simps intro: has_type.map_nil)
qed auto

section \<open>What a run returns\<close>

definition returns :: "('s, 'a) go \<Rightarrow> ('a \<Rightarrow> bool) \<Rightarrow> bool" where
  "returns m Q \<longleftrightarrow> (\<forall>s x s'. m s = (Inr x, s') \<longrightarrow> Q x)"

named_theorems result_intros \<open>what the combinators return\<close>

lemma returns_ret [result_intros]: "Q x \<Longrightarrow> returns (ret x) Q"
  by (simp add: returns_def)

lemma returns_fail [result_intros]: "returns (fail e) Q"
  by (simp add: returns_def)

lemma returns_bind:
  assumes "returns m P" and "\<And>x. P x \<Longrightarrow> returns (f x) Q"
  shows "returns (bindE m f) Q"
  using assms unfolding returns_def bindE_def by (fastforce split: prod.splits sum.splits)

lemma returns_then [result_intros]: "(\<And>x. returns (f x) Q) \<Longrightarrow> returns (bindE m f) Q"
  by (rule returns_bind [where P = "\<lambda>_. True"]) (auto simp: returns_def)

lemma returns_if [result_intros]: "(b \<Longrightarrow> returns m Q) \<Longrightarrow> (\<not> b \<Longrightarrow> returns m' Q) \<Longrightarrow> returns (if b then m else m') Q"
  by simp

lemma returns_mono: "returns m P \<Longrightarrow> (\<And>x. P x \<Longrightarrow> Q x) \<Longrightarrow> returns m Q"
  unfolding returns_def by blast

lemma returns_tryE [result_intros]:
  "(\<And>x. returns (f x) Q) \<Longrightarrow> (\<And>e. returns (h e) Q) \<Longrightarrow> returns (tryE m f h) Q"
  unfolding returns_def tryE_def by (auto split: prod.splits sum.splits)

lemma returns_foldE: "I a \<Longrightarrow> (\<And>a. I a \<Longrightarrow> returns (f a) I) \<Longrightarrow> returns (foldE n f a) I"
  by (induction n arbitrary: a) (auto simp del: ret_apply intro: returns_ret returns_bind)

lemma returns_foldlE: "I a \<Longrightarrow> (\<And>x a. x \<in> set xs \<Longrightarrow> I a \<Longrightarrow> returns (f x a) I) \<Longrightarrow> returns (foldlE f xs a) I"
  by (induction xs arbitrary: a) (auto simp del: ret_apply intro: returns_ret returns_bind)

lemma returns_defer [result_intros]: "returns m Q \<Longrightarrow> returns (deferE f m) Q"
  unfolding returns_def deferE_def by (auto split: prod.splits)

lemma returns_withDepth: "returns m Q \<Longrightarrow> returns (withDepth m) Q"
  unfolding withDepth_def by (intro result_intros)

lemma returns_set_rv [result_intros]: "Q v \<Longrightarrow> returns (set_rv s v) Q"
  by (simp add: set_rv_def returns_ret returns_fail del: ret_apply)

lemma returns_readFull: "returns (readFull n) (\<lambda>b. length b = n)"
  by (auto simp: returns_def readFull_def io_ReadFull_def split: option.splits prod.splits if_splits)

section \<open>Decoders of plain types\<close>

lemma returns_scalars:
  "returns (decodeBoolValue s v) (has_type U TBool)" "returns (decodeInt64Value k s v) (has_type U (TInt k))"
  "returns (decodeUint64Value k s v) (has_type U (TUint k))" "returns (decodeFloat32Value s v) (has_type U TFloat32)"
  "returns (decodeFloat64Value s v) (has_type U TFloat64)" "returns (decodeStringValue s v) (has_type U TString)"
  "returns (decodeBytesValue s v) (has_type U TBytes)" "returns (decodeUnsupportedValue s v) Q"
  "returns (decodeInternedStringValue s v) (has_type U TString)" "returns (timeValueDecoder s v) (has_type U TTime)"
  "returns (decodeStringSliceValue s v) (has_type U TStrings)"
  "returns (decodeMapStringStringValue s v) (has_type U TMapSS)"
  "returns (decodeMapStringInterfaceValue env s v) (has_type U TMapSI)"
  unfolding decodeBoolValue_def decodeInt64Value_def decodeUint64Value_def decodeFloat32Value_def decodeFloat64Value_def
    decodeStringValue_def decodeBytesValue_def decodeUnsupportedValue_def decodeInternedStringValue_def
    timeValueDecoder_run decodeStringSliceValue_def decodeMapStringStringValue_def decodeMapStringInterfaceValue_def
  by (auto intro!: result_intros simp: SetInt_def SetUint_def SetFloat32_def simp del: ret_apply split: rv.split prod.split)

lemma returns_byteArrayValue:
  assumes "has_type U (TByteArray n) v"
  shows "returns (byteArrayValue s v) (has_type U (TByteArray n))"
proof -
  obtain bs where v: "v = VByteArray bs" "length bs = n" using assms by auto
  have "returns (decodeByteArrayValue n) (\<lambda>b. length b \<le> n)"
    unfolding decodeByteArrayValue_def
    by (intro result_intros) (auto intro: returns_mono [OF returns_readFull])
  then have "returns (bindE (decodeByteArrayValue n) (\<lambda>b. ret (VByteArray (b @ drop (length b) bs)))) (has_type U (TByteArray n))"
    by (rule returns_bind) (auto intro!: returns_ret simp: v(2) simp del: ret_apply)
  then show ?thesis using v
    by (auto simp: byteArrayValue_def simp del: ret_apply intro!: result_intros)
qed

section \<open>Decoders over other decoders\<close>

definition rec_typed :: "(nat \<Rightarrow> gtype) \<Rightarrow> (gtype \<times> bool \<times> rv \<Rightarrow> (decoder, rv) go) \<Rightarrow> bool" where
  "rec_typed U rec \<longleftrightarrow> (\<forall>t s v. declared U t \<longrightarrow> has_type U t v \<longrightarrow> returns (rec (t, s, v)) (has_type U t))"

lemma rec_typedD: "rec_typed U rec \<Longrightarrow> declared U t \<Longrightarrow> has_type U t v \<Longrightarrow> returns (rec (t, s, v)) (has_type U t)"
  by (simp add: rec_typed_def)

lemma returns_upt:
  assumes "I 0 a" and "\<And>i a. i < m \<Longrightarrow> I i a \<Longrightarrow> returns (f i a) (I (Suc i))"
  shows "returns (foldlE f [0..<m] a) (I m)"
proof -
  have "returns (foldlE f [i..<i + n] a) (I (i + n))" if "I i a" "i + n \<le> m" for i n a
    using that
  proof (induction n arbitrary: i a)
    case (Suc n)
    have "returns (f i a) (I (Suc i))" using assms(2) Suc.prems by simp
    then have "returns (bindE (f i a) (foldlE f [Suc i..<Suc i + n])) (I (Suc i + n))"
      by (rule returns_bind) (rule Suc.IH, use Suc.prems in simp_all)
    then show ?case by (simp add: upt_conv_Cons del: upt_Suc)
  qed (auto intro: returns_ret simp del: ret_apply)
  from this [of 0 a m] show ?thesis using assms(1) by simp
qed

definition slice_inv :: "(nat \<Rightarrow> gtype) \<Rightarrow> gtype \<Rightarrow> nat \<Rightarrow> rv list \<times> nat \<Rightarrow> bool" where
  "slice_inv U t i st \<longleftrightarrow> i \<le> snd st \<and> snd st \<le> length (fst st) \<and> (\<forall>v\<in>set (fst st). has_type U t v)"

lemma slice_inv_grow:
  assumes "declared U t" and "slice_inv U t i st" and "snd st < n"
  shows "slice_inv U t (Suc (snd st)) (growSliceValue P t st n l)"
proof -
  let ?s = "\<lparr>sl_arr = fst st, sl_len = snd st\<rparr>"
  have z: "has_type U t (zero_rv t)" by (rule has_type_zero [OF assms(1)])
  have e: "has_type U t x" if "x \<in> set (sl_arr (append_slice g (zero_rv t) ?s (replicate d (zero_rv t))))" for g d x
    using that assms(2) z by (auto simp: append_slice_def Let_def vis_def slice_inv_def dest: in_set_takeD in_set_dropD split: if_splits)
  have l: "sl_len (append_slice g (zero_rv t) ?s xs) \<le> length (sl_arr (append_slice g (zero_rv t) ?s xs))" for g xs
    using slice_wf_append [of g "zero_rv t" ?s xs] by (simp add: slice_wf_def del: sl_len_append)
  have "length (vis ?s) = snd st" using assms(2) by (simp add: vis_def slice_inv_def)
  then have n: "sl_len (append_slice g (zero_rv t) ?s (replicate d (zero_rv t))) = snd st + d" for g d by simp
  let ?d = "if \<not> l \<and> int (n - snd st) > sliceAllocLimit then nat sliceAllocLimit else n - snd st"
  let ?a = "append_slice (p_grow P) (zero_rv t) ?s (replicate ?d (zero_rv t))"
  have g: "growSliceValue P t st n l = (sl_arr ?a, sl_len ?a)" by (simp add: growSliceValue_def Let_def)
  have "0 < ?d" using assms(3) by (simp add: sliceAllocLimit_def)
  then have "Suc (snd st) \<le> sl_len ?a" unfolding n by simp
  then show ?thesis unfolding g slice_inv_def fst_conv snd_conv using e l by blast
qed

lemma returns_slice_elem:
  assumes "rec_typed U rec" and "declared U t" and "slice_inv U t i st" and "i < n"
  shows "returns (slice_elem rec t s P n l i st) (slice_inv U t (Suc i))"
proof -
  let ?st = "if i \<ge> snd st then growSliceValue P t st n l else st"
  have st: "slice_inv U t (Suc i) ?st"
  proof (cases "i \<ge> snd st")
    case True
    then have "snd st = i" using assms(3) by (simp add: slice_inv_def)
    then show ?thesis using slice_inv_grow [OF assms(2,3), of n P l] assms(4) True by simp
  qed (use assms(3) in \<open>simp add: slice_inv_def\<close>)
  then have i: "i < length (fst ?st)" by (simp add: slice_inv_def)
  then have "has_type U t (fst ?st ! i)" using st nth_mem unfolding slice_inv_def by blast
  then have r: "returns (rec (t, True, fst ?st ! i)) (has_type U t)" by (rule rec_typedD [OF assms(1,2)])
  have step: "slice_inv U t (Suc i) ((fst ?st)[i := x], snd ?st)" if "has_type U t x" for x
    using st that set_update_subset_insert [of "fst ?st" i x] unfolding slice_inv_def by auto
  have "returns (bindE (rec (t, True, fst ?st ! i)) (\<lambda>x. ret ((fst ?st)[i := x], snd ?st))) (slice_inv U t (Suc i))"
    by (rule returns_bind [OF r]) (intro returns_ret step)
  then show ?thesis unfolding slice_elem_def Let_def by (intro returns_if returns_fail)
qed

lemma returns_slice:
  assumes "rec_typed U rec" and "declared U t" and "has_type U (TSlice t) v"
  shows "returns (decodeSliceValue rec t s v) (has_type U (TSlice t))"
proof -
  have body: "returns (bindE (foldlE (slice_elem rec t s P m l) [0..<m] st) (\<lambda>st. ret (VSlice (Some st)))) (has_type U (TSlice t))"
    if "slice_inv U t 0 st" for P m l st
  proof (rule returns_bind)
    show "returns (foldlE (slice_elem rec t s P m l) [0..<m] st) (slice_inv U t m)"
      by (rule returns_upt [where I = "slice_inv U t", OF that]) (rule returns_slice_elem [OF assms(1,2)])
    show "returns (ret (VSlice (Some st))) (has_type U (TSlice t))" if "slice_inv U t m st" for st
      using that by (cases st) (auto simp: slice_inv_def simp del: ret_apply intro!: returns_ret)
  qed
  obtain sl where v: "v = VSlice sl" "\<And>arr len. sl = Some (arr, len) \<Longrightarrow> \<forall>v\<in>set arr. has_type U t v"
    using assms(3) by auto
  obtain arr len where sl: "(case sl of None \<Rightarrow> ([], 0) | Some x \<Rightarrow> x) = (arr, len)" "\<forall>v\<in>set arr. has_type U t v"
    using v(2) by (cases sl) auto
  have st: "slice_inv U t 0 (arr, if length arr \<ge> m then m else length arr)" for m
    using sl(2) by (simp add: slice_inv_def)
  have st': "slice_inv U t 0 (if l \<and> m > (if length arr \<ge> m then m else length arr)
      then growSliceValue P t (arr, if length arr \<ge> m then m else length arr) m l
      else (arr, if length arr \<ge> m then m else length arr))" for P m l
    using slice_inv_grow [OF assms(2) st, of m m P l] st [of m] by (auto simp: slice_inv_def)
  show ?thesis
    unfolding decodeSliceValue_def v(1) rv.case sl(1) Let_def prod.case
    by (intro result_intros body st') simp_all
qed

lemma returns_array:
  assumes "rec_typed U rec" and "declared U t" and "has_type U (TArray n t) v"
  shows "returns (decodeArrayValue rec t s v) (has_type U (TArray n t))"
proof -
  obtain vs where v: "v = VArray vs" "length vs = n" "\<forall>v\<in>set vs. has_type U t v" using assms(3) by auto
  let ?I = "\<lambda>i :: nat. \<lambda>ws. length ws = n \<and> (\<forall>w\<in>set ws. has_type U t w)"
  have step: "returns (bindE (rec (t, s, ws ! i)) (\<lambda>x. ret (ws[i := x]))) (?I (Suc i))" if "i < n" "?I i ws" for i ws
  proof -
    have "returns (rec (t, s, ws ! i)) (has_type U t)" by (rule rec_typedD [OF assms(1,2)]) (use that in simp)
    moreover have "?I (Suc i) (ws[i := x])" if "has_type U t x" for x
      using \<open>?I i ws\<close> that set_update_subset_insert [of ws i x] by auto
    ultimately show ?thesis by (intro returns_bind [where P = "has_type U t"] returns_ret)
  qed
  have body: "returns (bindE (foldlE (\<lambda>i vs. bindE (rec (t, s, vs ! i)) (\<lambda>x. ret (vs[i := x]))) [0..<m] vs)
      (\<lambda>vs. ret (VArray vs))) (has_type U (TArray n t))" if "m \<le> n" for m
  proof (rule returns_bind)
    show "returns (foldlE (\<lambda>i vs. bindE (rec (t, s, vs ! i)) (\<lambda>x. ret (vs[i := x]))) [0..<m] vs) (?I m)"
      by (rule returns_upt [where I = ?I]) (use v(2,3) step that in auto)
  qed (rule returns_ret, simp)
  show ?thesis
    unfolding decodeArrayValue_def v(1) rv.case by (intro result_intros body) (use v(2,3) in simp_all)
qed

lemma set_map_set: "set (map_set eq k v m) \<subseteq> insert (k, v) (set m)"
  by (induction eq k v m rule: map_set.induct) auto

lemma returns_interface_key:
  assumes "has_type U kt mk"
  shows "returns (interface_key kt mk) (has_type U kt)"
  using assms unfolding interface_key_def
  by (auto simp del: ret_apply intro!: result_intros split: gtype.split rv.split option.split prod.split)

lemma returns_map:
  assumes "rec_typed U rec" and "declared U kt" and "declared U vt" and "has_type U (TMap kt vt) v"
  shows "returns (decodeMapValue rec kt vt s v) (has_type U (TMap kt vt))"
proof -
  let ?I = "\<lambda>m. \<forall>kv\<in>set m. has_type U kt (fst kv) \<and> has_type U vt (snd kv)"
  obtain m where v: "v = VMap m" "\<And>kvs. m = Some kvs \<Longrightarrow> ?I kvs" using assms(4) by auto
  have "returns (decodeTypedMapValue rec kt vt kvs n) ?I" if "?I kvs" for kvs n
    unfolding decodeTypedMapValue_def
  proof (rule returns_foldE [where I = ?I, OF that])
    fix a
    assume a: "?I a"
    have new: "?I (map_set rv_eq mk mv a)" if "has_type U kt mk" "has_type U vt mv" for mk mv
      using a that set_map_set [of rv_eq mk mv a] by auto
    show "returns (bindE (rec (kt, True, zero_rv kt)) (\<lambda>mk. bindE (interface_key kt mk) (\<lambda>mk.
         bindE (rec (vt, True, zero_rv vt)) (\<lambda>mv.
           if hashable mk then ret (map_set rv_eq mk mv a) else fail (Panic ''hash of unhashable type''))))) ?I"
      by (intro returns_bind [OF rec_typedD [OF assms(1,2) has_type_zero [OF assms(2)]]]
          returns_bind [OF returns_interface_key] returns_bind [OF rec_typedD [OF assms(1,3) has_type_zero [OF assms(3)]]]
          returns_if returns_fail returns_ret new)
  qed
  then have body: "returns (bindE (decodeTypedMapValue rec kt vt kvs n) (\<lambda>m. ret (VMap (Some m)))) (has_type U (TMap kt vt))"
    if "?I kvs" for kvs n
    by (rule returns_bind [OF _ returns_ret]) (use that in auto)
  have kvs: "?I (case m of None \<Rightarrow> [] | Some kvs \<Rightarrow> kvs)" using v(2) by (cases m) auto
  show ?thesis
    unfolding decodeMapValue_def v(1) rv.case by (intro result_intros body kvs) (use kvs in auto)
qed

lemma returns_ptr:
  assumes "declared U t" and "\<And>s v. has_type U t v \<Longrightarrow> returns (dec s v) (has_type U t)" and "has_type U (TPtr t) v"
  shows "returns (ptrValueDecoder t dec s v) (has_type U (TPtr t))"
proof -
  obtain p where v: "v = VPtr p" "\<And>x. p = Some x \<Longrightarrow> has_type U t x" using assms(3) by auto
  have "returns (bindE (dec True x) (\<lambda>x. ret (VPtr (Some x)))) (has_type U (TPtr t))" if "has_type U t x" for x
    by (rule returns_bind [OF assms(2) [OF that] returns_ret]) simp
  then show ?thesis
    unfolding ptrValueDecoder_def v(1) rv.case using v(2) has_type_zero [OF assms(1)]
    by (intro result_intros) (auto split: option.split intro!: result_intros simp del: ret_apply)
qed

lemma has_type_errors_New: "errors_New s = (t, x) \<Longrightarrow> declared U t \<and> concrete t \<and> has_type U t x"
  by (auto simp: errors_New_def)

lemma returns_interfaceValue:
  assumes "has_type U (TIface e) v"
  shows "returns (interfaceValue env e s v) (has_type U (TIface e))"
  unfolding interfaceValue_def
proof (rule returns_then)
  fix vv
  show "returns (case of_gval vv of None \<Rightarrow> ret v | Some (t, x) \<Rightarrow>
      if e then (case x of VString str \<Rightarrow> set_rv s (VIface (Some (errors_New str))) | _ \<Rightarrow> fail mismatch)
      else set_rv s (VIface (Some (t, x)))) (has_type U (TIface e))"
    using assms has_type_errors_New [OF surjective_pairing] has_type_of_gval [of vv]
    by (auto intro!: result_intros has_type_iface simp del: ret_apply has_type_simps split: option.split prod.split rv.split
        dest: has_type_errors_New)
qed

lemma returns_iface:
  assumes "rec_typed U rec" and "has_type U (TIface e) v"
  shows "returns (decodeInterfaceValue env rec e s v) (has_type U (TIface e))"
proof (cases v)
  case (VIface p)
  show ?thesis
  proof (cases p)
    case None
    then show ?thesis using assms(2) returns_interfaceValue VIface by (simp add: decodeInterfaceValue_def)
  next
    case (Some x)
    obtain t y where x: "x = (t, y)" by fastforce
    then have t: "declared U t" "has_type U t y" "concrete t" using assms(2) VIface Some by auto
    have "returns (bindE (rec (t, False, y)) (\<lambda>x. ret (VIface (Some (t, x))))) (has_type U (TIface e))"
      by (rule returns_bind [OF rec_typedD [OF assms(1) t(1,2)] returns_ret]) (use t in simp)
    then show ?thesis by (simp add: decodeInterfaceValue_def VIface Some x)
  qed
qed (use assms in auto)

lemma returns_interned_iface:
  assumes "rec_typed U rec" and "has_type U (TIface e) v"
  shows "returns (decodeInternedInterfaceValue env rec e s v) (has_type U (TIface e))"
  unfolding decodeInternedInterfaceValue_def using returns_iface [OF assms]
  by (auto intro!: result_intros split: go_error.split)

section \<open>Types with methods\<close>

text \<open>The methods of the \<open>i\<close>-th type keep values of its type, if \<open>DecodeValue\<close> does.\<close>

definition method_typed :: "(nat \<Rightarrow> gtype) \<Rightarrow> nat \<Rightarrow> umethod \<Rightarrow> bool" where
  "method_typed U i m =
     (case m of
        DecodeMsgpack f \<Rightarrow> \<forall>rec v. rec_typed U rec \<longrightarrow> has_type U (U i) v \<longrightarrow> returns (f rec v) (has_type U (U i))
      | UnmarshalMsgpack f \<Rightarrow> \<forall>data v w. has_type U (U i) v \<longrightarrow> f data v = Inr w \<longrightarrow> has_type U (U i) w
      | UnmarshalBinary f \<Rightarrow> \<forall>data v w. has_type U (U i) v \<longrightarrow> f data v = Inr w \<longrightarrow> has_type U (U i) w
      | UnmarshalText f \<Rightarrow> \<forall>data v w. has_type U (U i) v \<longrightarrow> f data v = Inr w \<longrightarrow> has_type U (U i) w)"

text \<open>So do the decoders registered for it.\<close>

definition registration_typed :: "(nat \<Rightarrow> gtype) \<Rightarrow> nat \<Rightarrow> registration \<Rightarrow> bool" where
  "registration_typed U i r =
     (case r of
        Registered f \<Rightarrow>
          \<forall>rec s v. rec_typed U rec \<longrightarrow> has_type U (U i) v \<longrightarrow> returns (f rec s v) (has_type U (U i))
      | RegisteredExt extID f \<Rightarrow>
          \<forall>rec n s v. rec_typed U rec \<longrightarrow> has_type U (U i) v \<longrightarrow> returns (f rec n s v) (has_type U (U i))
      | RegisteredExtPtr extID f \<Rightarrow>
          \<forall>rec n v. rec_typed U rec \<longrightarrow> has_type U (U i) v \<longrightarrow> returns (f rec n v) (has_type U (U i)))"

lemma returns_liftE: "(\<And>x. r = Inr x \<Longrightarrow> Q x) \<Longrightarrow> returns (liftE r) Q"
  unfolding liftE_def by (cases r) (auto intro: result_intros simp del: ret_apply fail_apply)

lemma returns_call_method:
  assumes "method_typed U i m" and "rec_typed U rec" and "has_type U (U i) v"
  shows "returns (call_method m rec v) (has_type U (U i))"
  using assms unfolding call_method_def method_typed_def decodeCustomValue_def unmarshalValue_def
    unmarshalBinaryValue_def unmarshalTextValue_def
  by (cases m) (auto intro!: result_intros returns_liftE)

lemma returns_nilAware:
  assumes "declared U t" and "\<And>v. has_type U t v \<Longrightarrow> returns (fn v) (has_type U t)"
    and "\<And>x. p = Some x \<Longrightarrow> has_type U t x"
  shows "returns (nilAwareDecoder t fn s p) (\<lambda>p. \<forall>x. p = Some x \<longrightarrow> has_type U t x)"
proof -
  have "returns (bindE (fn x) (\<lambda>x. ret (Some x))) (\<lambda>p. \<forall>x. p = Some x \<longrightarrow> has_type U t x)" if "has_type U t x" for x
    by (rule returns_bind [OF assms(2) [OF that] returns_ret]) simp
  then have "returns (case p of None \<Rightarrow> if s then bindE (fn (zero_rv t)) (\<lambda>x. ret (Some x)) else fail unaddressable
      | Some x \<Rightarrow> bindE (fn x) (\<lambda>x. ret (Some x))) (\<lambda>p. \<forall>x. p = Some x \<longrightarrow> has_type U t x)"
    using assms(3) has_type_zero [OF assms(1)] by (cases p) (simp_all add: returns_fail del: fail_apply)
  then show ?thesis
    unfolding nilAwareDecoder_def decodeNilValue_def using has_type_zero [OF assms(1)]
    by (intro returns_then returns_if returns_ret) (auto split: option.splits)
qed

lemma returns_named:
  assumes "declared U t" and "\<And>v. has_type U t v \<Longrightarrow> returns (fn v) (has_type U t)"
  shows "has_type U (TPtr t) v \<Longrightarrow> returns (namedPtrDecoder t fn s v) (has_type U (TPtr t))"
    and "has_type U t v \<Longrightarrow> returns (addrDecoder (nilAwareDecoder t fn) s v) (has_type U t)"
    and "has_type U t v \<Longrightarrow> returns (makeExtDecoderAddr (nilAwareDecoder t fn) s v) (has_type U t)"
proof -
  let ?Q = "\<lambda>p. \<forall>x. p = Some x \<longrightarrow> has_type U t x"
  show "returns (namedPtrDecoder t fn s v) (has_type U (TPtr t))" if v: "has_type U (TPtr t) v"
  proof -
    obtain p where p: "v = VPtr p" "?Q p" using v by auto
    have "returns (nilAwareDecoder t fn s p) ?Q" by (rule returns_nilAware [OF assms]) (use p(2) in simp_all)
    then have "returns (bindE (nilAwareDecoder t fn s p) (\<lambda>p. ret (VPtr p))) (has_type U (TPtr t))"
      by (rule returns_bind [OF _ returns_ret]) (rename_tac p; case_tac p; simp)
    then show ?thesis by (simp add: namedPtrDecoder_def p(1))
  qed
  show "returns (addrDecoder (nilAwareDecoder t fn) s v) (has_type U t)"
    "returns (makeExtDecoderAddr (nilAwareDecoder t fn) s v) (has_type U t)" if v: "has_type U t v"
  proof -
    have "returns (nilAwareDecoder t fn False (Some v)) ?Q" by (rule returns_nilAware [OF assms]) (use v in simp_all)
    then have "returns (bindE (nilAwareDecoder t fn False (Some v)) (\<lambda>p. ret (case p of Some x \<Rightarrow> x | None \<Rightarrow> v))) (has_type U t)"
      by (rule returns_bind [OF _ returns_ret]) (use v in \<open>simp split: option.split\<close>)
    then show "returns (addrDecoder (nilAwareDecoder t fn) s v) (has_type U t)"
      "returns (makeExtDecoderAddr (nilAwareDecoder t fn) s v) (has_type U t)"
      unfolding addrDecoder_def makeExtDecoderAddr_def by (intro returns_if returns_fail; assumption)+
  qed
qed

lemma returns_makeExtDecoder: "(\<And>n. returns (fn n) Q) \<Longrightarrow> returns (makeExtDecoder extID fn) Q"
  unfolding makeExtDecoder_def by (intro returns_then) (auto intro!: result_intros split: prod.split simp del: fail_apply)

lemma returns_nilAwareValue:
  assumes "declared U t" and "has_type U t v" and "\<And>s v. has_type U t v \<Longrightarrow> returns (fn s v) (has_type U t)"
  shows "returns (nilAwareValue t fn s v) (has_type U t)"
proof -
  have nil: "returns (decodeNilValue_in t s v) (has_type U t)"
    using assms(2) has_type_zero [OF assms(1)] assms(1) unfolding decodeNilValue_in_def
    by (cases t; simp only: gtype.case; intro returns_if result_intros) (auto simp: has_type_zero)
  have "returns (case t of TPtr u \<Rightarrow> if s then fn s (VPtr (Some (zero_rv u))) else fail unaddressable
      | TIface e \<Rightarrow> fail no_elem | _ \<Rightarrow> if s then fail not_assignable else fail unaddressable) (has_type U t)"
  proof (cases t)
    case (TPtr u)
    have "has_type U t (VPtr (Some (zero_rv u)))" using assms(1) has_type_zero [of U u] by (simp add: TPtr)
    then show ?thesis unfolding TPtr gtype.case by (intro returns_if returns_fail assms(3) [unfolded TPtr]) (simp add: TPtr)
  qed (simp_all add: returns_fail returns_if del: fail_apply)
  with nil show ?thesis
    unfolding nilAwareValue_def by (intro returns_then returns_if assms)
qed

section \<open>Structs\<close>

lemma has_type_underlying: "declared U t \<Longrightarrow> has_type U (underlying t) v = has_type U t v"
  by (cases t) (auto simp: underlying_def)

lemma declared_underlying: "declared U t \<Longrightarrow> declared U (underlying t)"
  by (cases t) (auto simp: underlying_def)

lemma struct_update:
  assumes "list_all2 (has_type U) ts vs" and "has_type U (ts ! i) y"
  shows "has_type U (TStruct ts fs m) (VStruct (vs[i := y]))"
  using assms by (auto simp: list_all2_conv_all_nth) (metis nth_list_update_eq nth_list_update_neq)

lemma indirectNil_typed:
  assumes "indirectNil t s v = Inr (u, s', x, put)" and "declared U t" and "has_type U t v"
  shows "u = (case t of TPtr w \<Rightarrow> w | w \<Rightarrow> w) \<and> declared U u \<and> has_type U u x \<and> (\<forall>y. has_type U u y \<longrightarrow> has_type U t (put y))"
  using assms has_type_zero by (cases t) (auto simp: indirectNil_def split: option.splits gtype.splits if_splits)

lemma returns_field:
  assumes "type_at p t = Some u" and "declared U t" and "has_type U t v"
    and dec: "\<And>s x. has_type U u x \<Longrightarrow> returns (dec s x) (has_type U u)"
  shows "returns (field_DecodeValue p t dec s v) (has_type U t)"
  using assms(1-3)
proof (induction p arbitrary: t s v)
  case (Cons i p)
  then obtain ts fs m where t: "underlying t = TStruct ts fs m" "i < length ts" by (auto split: gtype.splits if_splits)
  have "has_type U (TStruct ts fs m) v" using has_type_underlying [of U t v] Cons.prems t(1) by simp
  then obtain vs where v: "v = VStruct vs" "list_all2 (has_type U) ts vs" by auto
  have i: "declared U (ts ! i)" "has_type U (ts ! i) (vs ! i)"
    using declared_underlying [OF Cons.prems(2)] t v(2) by (auto simp: list_all_iff list_all2_conv_all_nth)
  have put: "has_type U t (VStruct (vs[i := y]))" if "has_type U (ts ! i) y" for y
    using struct_update [OF v(2) that] has_type_underlying [OF Cons.prems(2)] t(1) by metis
  show ?case
  proof (cases "p = []")
    case True
    then have "returns (dec s (vs ! i)) (has_type U (ts ! i))" using dec [of "vs ! i" s] i(2) Cons.prems(1) t by simp
    then have "returns (bindE (dec s (vs ! i)) (\<lambda>x. ret (VStruct (vs[i := x])))) (has_type U t)"
      by (rule returns_bind [OF _ returns_ret]) (rule put)
    then show ?thesis using True t v(1) by simp
  next
    case False
    have "returns (bindE (field_DecodeValue p w dec s' x) (\<lambda>x. ret (VStruct (vs[i := ins x])))) (has_type U t)"
      if "indirectNil (ts ! i) s (vs ! i) = Inr (w, s', x, ins)" for w s' x ins
    proof -
      note w = indirectNil_typed [OF that i]
      have "returns (field_DecodeValue p w dec s' x) (has_type U w)"
      proof (rule Cons.IH)
        show "type_at p w = Some u" using Cons.prems(1) t False by (simp add: conjunct1 [OF w])
      qed (use w in blast)+
      then show ?thesis by (rule returns_bind [OF _ returns_ret]) (use w put in blast)
    qed
    then show ?thesis using False t v(1)
      by (cases "indirectNil (ts ! i) s (vs ! i)") (auto intro: result_intros simp del: fail_apply split: prod.split)
  qed
qed simp

lemma declared_type_at: "type_at p t = Some u \<Longrightarrow> declared U t \<Longrightarrow> declared U u"
proof (induction p arbitrary: t)
  case (Cons i p)
  then obtain ts fs m where t: "underlying t = TStruct ts fs m" "i < length ts" by (auto split: gtype.splits if_splits)
  have i: "declared U (ts ! i)" using declared_underlying [OF Cons.prems(2)] t by (auto simp: list_all_iff)
  show ?case
  proof (cases "p = []")
    case False
    have "declared U (case ts ! i of TPtr u \<Rightarrow> u | u \<Rightarrow> u)" using i by (cases "ts ! i") auto
    then show ?thesis using Cons.IH Cons.prems(1) t False by simp
  qed (use i Cons.prems(1) t in simp)
qed simp

text \<open>A field whose path leads nowhere has a decoder that only fails.\<close>

lemma returns_no_field:
  assumes "\<And>s x Q. returns (dec s x) Q"
  shows "returns (field_DecodeValue p t dec s v) Q"
  using through_field [of p t s v] unfolding through_def
  by (elim disjE exE; simp del: ret_apply fail_apply; intro returns_fail returns_bind [OF assms [where Q = "\<lambda>_. False"]]) simp_all

lemma returns_decodeStructValue:
  assumes "declared U t" and "has_type U t v"
    and field: "\<And>f s v. has_type U t v \<Longrightarrow> returns (field_DecodeValue (fst (snd f)) t (dec f) s v) (has_type U t)"
  shows "returns (decodeStructValue t dec fs fmap s v) (has_type U t)"
proof -
  have "returns (case x of Some f \<Rightarrow> field_DecodeValue (fst (snd f)) t (dec f) s a
      | None \<Rightarrow> bindE (dec_flag disallowUnknownFieldsFlag)
          (\<lambda>disallow. if disallow then fail (UnknownField name) else bindE Skip (\<lambda>_. ret a))) (has_type U t)"
    if "has_type U t a" for a x name
    using that by (cases x) (simp_all only: option.case field, intro result_intros)
  then have "returns (decodeStruct t dec fmap s v n) (has_type U t)" for n
    unfolding decodeStruct_def
    by (intro returns_if returns_set_rv has_type_zero assms(1,2) returns_foldE [where I = "has_type U t"] returns_then)
  moreover have "returns (foldlE (\<lambda>f v. field_DecodeValue (fst (snd f)) t (dec f) s v) fs v) (has_type U t)"
    by (rule returns_foldlE) (rule assms(2), rule field)
  ultimately show ?thesis
    unfolding decodeStructValue_def by (intro result_intros has_type_zero assms(1))
qed

section \<open>Decoders by type\<close>

locale typed_program =
  fixes env :: tenv and U :: "nat \<Rightarrow> gtype"
  assumes methods: "method_typed U i (t_method env i)"
    and registrations: "t_registered env i = Some r \<Longrightarrow> registration_typed U i r"
begin

lemma returns_method:
  assumes "rec_typed U rec" and "has_type U (U i) v"
  shows "returns (call_method (t_method env i) rec v) (has_type U (U i))"
  by (rule returns_call_method [OF methods assms])

lemma returns_registered:
  assumes rec: "rec_typed U rec" and v: "has_type U (U i) v"
  shows "t_registered env i = Some (Registered f) \<Longrightarrow> returns (f rec s v) (has_type U (U i))"
    and "t_registered env i = Some (RegisteredExt extID g) \<Longrightarrow> returns (g rec n s v) (has_type U (U i))"
    and "t_registered env i = Some (RegisteredExtPtr extID h) \<Longrightarrow> returns (h rec n v) (has_type U (U i))"
  using registrations [of i] assms unfolding registration_typed_def by fastforce+

lemma returns_program_type:
  assumes rec: "rec_typed U rec" and u: "declared U (TNamed i u)"
    and elem: "\<And>s v. has_type U u v \<Longrightarrow> returns (elem s v) (has_type U u)"
  shows "has_type U u v \<Longrightarrow> returns (namedDecoder env rec i u s v) (has_type U u)"
    and "has_type U (TPtr u) v \<Longrightarrow> returns (ptrToNamedDecoder env rec i u elem s v) (has_type U (TPtr u))"
proof -
  have d: "declared U u" "u = U i" using u by auto
  note reg = returns_registered [OF rec, of i, folded d(2)] and meth = returns_method [OF rec, of i, folded d(2)]
  note rules = returns_nilAwareValue [OF d(1)] returns_named [OF d(1)] returns_makeExtDecoder
  show "returns (namedDecoder env rec i u s v) (has_type U u)" if "has_type U u v"
    unfolding namedDecoder_def using that
    by (auto intro!: rules intro: reg meth split: option.split registration.split simp del: has_type_simps)
  have e: "returns (elem s v) (has_type U (TNamed i u))" if "has_type U (TNamed i u) v" for s v
    by (rule returns_mono [OF elem]) (use that d in auto)
  have "returns (ptrValueDecoder (TNamed i u) elem s v) (has_type U (TPtr (TNamed i u)))" if "has_type U (TPtr u) v"
    by (rule returns_ptr [OF u e]) (use that d in auto)
  then have "returns (ptrValueDecoder (TNamed i u) elem s v) (has_type U (TPtr u))" if "has_type U (TPtr u) v"
    using that by (auto elim!: returns_mono simp: d(2))
  then show "returns (ptrToNamedDecoder env rec i u elem s v) (has_type U (TPtr u))" if "has_type U (TPtr u) v"
    unfolding ptrToNamedDecoder_def using that
    by (auto intro!: rules intro: reg meth split: option.split registration.split simp del: has_type_simps)
qed

lemma returns_field_decoder:
  assumes rec: "rec_typed U rec" and "declared U t"
    and dec: "\<And>u s v. type_at (fst (snd f)) t = Some u \<Longrightarrow> declared U u \<Longrightarrow> has_type U u v \<Longrightarrow>
      returns (getDecoder env rec u s v) (has_type U u)"
    and v: "has_type U t v"
  shows "returns (field_DecodeValue (fst (snd f)) t (field_decoder env rec t f) s v) (has_type U t)"
proof (cases "type_at (fst (snd f)) t")
  case None
  show ?thesis
    by (rule returns_no_field) (simp add: field_decoder_def None returns_scalars)
next
  case (Some u)
  have u: "declared U u" by (rule declared_type_at [OF Some assms(2)])
  show ?thesis
  proof (rule returns_field [OF Some assms(2) v])
    fix s x
    assume x: "has_type U u x"
    have e: "returns (decodeInternedInterfaceValue (t_env env) rec e s x) (has_type U u)" if "underlying u = TIface e" for e
      using returns_interned_iface [OF rec, of e x "t_env env" s] x has_type_underlying [OF u] that
      by (auto elim!: returns_mono simp del: has_type_simps)
    have "returns (decodeInternedStringValue s x) (has_type U u)" if "underlying u = TString"
      using returns_scalars(9) [of s x U] has_type_underlying [OF u] that by (auto elim!: returns_mono simp del: has_type_simps)
    then show "returns (field_decoder env rec t f s x) (has_type U u)"
      using e dec [OF Some u x]
      by (auto simp: field_decoder_def Some returns_scalars split: gtype.split)
  qed
qed

lemma returns_getDecoder:
  assumes rec: "rec_typed U rec" and "declared U t" and "has_type U t v"
  shows "returns (getDecoder env rec t s v) (has_type U t)"
  using assms(2,3)
proof (induction t arbitrary: s v rule: measure_induct_rule [of size])
  case (less t)
  show ?case
  proof (cases t)
    case (TPtr u)
    have u: "declared U u" using less.prems TPtr by simp
    have "returns (getDecoder env rec u s v) (has_type U u)" if "has_type U u v" for s v
      by (rule less.IH) (use TPtr u that in simp_all)
    then have p: "returns (ptrValueDecoder u (getDecoder env rec u) s v) (has_type U (TPtr u))"
      using less.prems TPtr by (intro returns_ptr u) simp_all
    have "returns (ptrToNamedDecoder env rec i w (getDecoder env rec u) s v) (has_type U (TPtr u))" if n: "u = TNamed i w" for i w
    proof -
      have w: "w = U i" using u n by simp
      have "returns (getDecoder env rec u s v) (has_type U w)" if "has_type U w v" for s v
        by (rule returns_mono [OF less.IH [of u]]) (use TPtr u that in \<open>simp_all add: n w\<close>)
      then have "returns (ptrToNamedDecoder env rec i w (getDecoder env rec u) s v) (has_type U (TPtr w))"
        by (rule returns_program_type(2) [OF rec u [unfolded n]]) (use less.prems TPtr n w in auto)
      then show ?thesis by (rule returns_mono) (use w in \<open>auto simp: n\<close>)
    qed
    with p show ?thesis unfolding TPtr by (cases u) (auto simp del: has_type_simps)
  next
    case (TStruct ts fs m)
    have "returns (field_DecodeValue (fst (snd f)) t (field_decoder env rec t f) s v) (has_type U t)" if "has_type U t v" for f s v
      by (rule returns_field_decoder [OF rec less.prems(1) less.IH [OF type_at_size] that])
    then have "returns (decodeStructValue t (field_decoder env rec t) fs m s v) (has_type U t)"
      by (rule returns_decodeStructValue [OF less.prems])
    then show ?thesis unfolding TStruct getDecoder.simps field_decoder_def .
  next
    case (TNamed i w)
    have w: "w = U i" "has_type U w v" using less.prems TNamed by auto
    have "returns (namedDecoder env rec i w s v) (has_type U w)"
      by (rule returns_program_type(1) [OF rec less.prems(1) [unfolded TNamed] returns_fail w(2)])
    then show ?thesis unfolding TNamed getDecoder.simps by (rule returns_mono) (simp add: w(1))
  qed (use less.prems in \<open>simp_all add: returns_scalars returns_byteArrayValue returns_slice returns_array returns_map returns_iface rec
      del: has_type_simps\<close>)
qed

lemma rec_typed_DecodeValue_f: "rec_typed U (DecodeValue_f env n)"
proof (induction n)
  case (Suc n)
  then show ?case by (auto simp: rec_typed_def intro!: returns_withDepth returns_getDecoder)
qed (simp add: rec_typed_def returns_fail del: fail_apply)

lemma rec_typed_DecodeValue: "rec_typed U (DecodeValue env)"
  using rec_typed_DecodeValue_f unfolding rec_typed_def returns_def DecodeValue_def by blast

section \<open>Decode\<close>

lemma returns_decodePtr:
  assumes "declared U t" and "has_type U t v"
  shows "returns (decodePtr env t v) (has_type U t)"
proof (cases "\<exists>u w. v = VIface (Some (TPtr u, w))")
  case True
  then obtain u w where v: "v = VIface (Some (TPtr u, w))" by blast
  note w = has_type_dynamic [OF assms(2) v]
  have "returns (bindE (DecodeValue env (TPtr u, False, w)) (\<lambda>x. ret (VIface (Some (TPtr u, x))))) (has_type U t)"
    by (rule returns_bind [OF rec_typedD [OF rec_typed_DecodeValue w(1,2)] returns_ret]) (rule w(4))
  then show ?thesis by (simp add: decodePtr_def v)
next
  case False
  then show ?thesis
    using rec_typedD [OF rec_typed_DecodeValue assms] unfolding decodePtr_def
    by (auto simp: returns_fail simp del: fail_apply split: rv.split option.split gtype.split)
qed

lemma returns_Decode:
  assumes "declared U t" and "has_type U t v"
  shows "returns (Decode env (ArgPtr exact t (Some v))) (has_type U t)"
proof -
  have "returns (fastPath env t v) (has_type U t)"
  proof (cases t)
    case (TInt k)
    then show ?thesis by (cases k) (auto simp: fastPath_def simp del: ret_apply intro!: result_intros)
  next
    case (TUint k)
    then show ?thesis by (cases k) (auto simp: fastPath_def simp del: ret_apply intro!: result_intros)
  qed (use returns_decodePtr [OF assms] in
      \<open>auto simp: fastPath_def simp del: ret_apply intro!: result_intros\<close>)
  then show ?thesis using returns_decodePtr [OF assms] by (simp add: Decode_def)
qed

end

text \<open>A program whose only type with a decoding method is \<open>RawMessage\<close>.\<close>

interpretation raw: typed_program "package_tenv c" "\<lambda>_. TBytes" for c
proof
  show "method_typed (\<lambda>_. TBytes) i (t_method (package_tenv c) i)" for i
    by (auto simp: method_typed_def package_tenv_def RawMessage_DecodeMsgpack_def simp del: ret_apply intro!: result_intros)
qed (simp add: package_tenv_def)

section \<open>Type safety\<close>

text \<open>
  C37: typed decoding is type safe. Whatever the bytes are and whatever decoder the pool gives, if
  \<open>Unmarshal\<close> succeeds on a pointer to a variable of type \<open>t\<close> then the variable holds a value of type
  \<open>t\<close> again: arrays keep their length, slices stay within their backing arrays, map keys and values,
  fields and what pointers point to have the declared types, and an interface holds a value of its
  dynamic type. The decoding methods of the program's types, and the decoders registered for them, are only assumed to
  do so for theirs.
\<close>

theorem Unmarshal_type_safe:
  assumes "\<And>i. method_typed U i (t_method env i)" and "declared U t" and "has_type U t v"
    and "\<And>i r. t_registered env i = Some r \<Longrightarrow> registration_typed U i r"
    and "fst (Unmarshal env data (ArgPtr exact t (Some v)) dec) = Inr w"
  shows "has_type U t w"
proof -
  have "typed_program env U" by (rule typed_program.intro) (fact assms(1), fact assms(4))
  from typed_program.returns_Decode [OF this assms(2,3)] show ?thesis
    using assms(5) unfolding fst_Unmarshal returns_def by (metis prod.collapse)
qed

theorem Unmarshal_type_safe_witness:
  "has_type (\<lambda>_. TBytes) (TArray 2 (TPtr RawMessage)) (VArray [VPtr (Some (VBytes (Some (new_slice [5])))), VPtr None])"
proof (rule Unmarshal_type_safe [where env = "package_tenv True" and data = "[0x92, 0x05, 0xc0]" and exact = False
      and v = "VArray [VPtr None, VPtr None]" and dec = "pooled_with_limit 4"])
  show "method_typed (\<lambda>_. TBytes) i (t_method (package_tenv True) i)" for i by (rule raw.methods)
  show "registration_typed (\<lambda>_. TBytes) i r" if "t_registered (package_tenv True) i = Some r" for i r
    using that by (rule raw.registrations)
  show "fst (Unmarshal (package_tenv True) [0x92, 0x05, 0xc0]
      (ArgPtr False (TArray 2 (TPtr RawMessage)) (Some (VArray [VPtr None, VPtr None]))) (pooled_with_limit 4)) =
    Inr (VArray [VPtr (Some (VBytes (Some (new_slice [5])))), VPtr None])"
    unfolding fst_Unmarshal by code_simp
qed (simp_all add: RawMessage_def)

end
