(* ===== verification/Raw_Stream.thy ===== *)
theory Raw_Stream
  imports Unmarshal
begin

text \<open>
  A reader of raw messages: the loop that calls \<open>DecodeRaw\<close> until it returns an error, as a program
  that forwards or stores messages does.
\<close>

section \<open>One message\<close>

lemma DecodeRaw_item:
  assumes "item (budget d) bs" and "pending d = bs @ rest" and "d_r d \<noteq> None" and "0 \<le> d_depth d" and "roomy (dconf_of d)"
  obtains raw d' where "DecodeRaw d = (Inr raw, d')"
proof -
  let ?d = "d\<lparr>d_rec := Some (make_slice 0 0 0)\<rparr>"
  have e: "budget ?d = budget d" "pending ?d = pending d" "roomy (dconf_of ?d) = roomy (dconf_of d)"
    by (simp_all add: budget_def depth_limit_def pending_def roomy_def dconf_of_def)
  obtain d1 where "Skip ?d = (Inr (), d1)"
    by (rule Skip_yields [of ?d bs rest]) (use assms e in simp_all)
  then show thesis by (intro that) (simp add: DecodeRaw_def bindE_def deferE_def)
qed

lemma DecodeRaw_end:
  assumes "d_r d = Some r" and "r_rest r = []" and "0 < budget d"
  shows "fst (DecodeRaw d) = Inl (r_end r)"
proof -
  have "\<not> depth_limit d < d_depth d + 1" using assms(3) by (simp add: budget_def)
  then show ?thesis
    using assms(1,2) by (auto simp: DecodeRaw_def Skip_def skip_body_def bindE_def deferE_def withDepth_def enterDepth_def
        depth_limit_def readCode_def ReadByte_def Let_def)
qed

lemma frame_sources:
  assumes "frame d d'" and "0 \<le> d_depth d"
  shows "budget d' = budget d" and "roomy (dconf_of d') = roomy (dconf_of d)" and "0 \<le> d_depth d'"
    and "d_r d \<noteq> None \<Longrightarrow> d_r d' \<noteq> None \<and> r_end (the (d_r d')) = r_end (the (d_r d))"
  using assms by (auto simp: frame_def budget_def depth_limit_def roomy_def dconf_of_def elim!: option.rel_cases)

section \<open>The loop\<close>

text \<open>
  \<open>reads_raw d raws err\<close>: starting with the decoder \<open>d\<close>, the loop receives the messages \<open>raws\<close> and then
  the error \<open>err\<close>.
\<close>

inductive reads_raw :: "decoder \<Rightarrow> byte list option list \<Rightarrow> go_error \<Rightarrow> bool" where
  stop: "DecodeRaw d = (Inl err, d') \<Longrightarrow> reads_raw d [] err"
| message: "DecodeRaw d = (Inr raw, d') \<Longrightarrow> reads_raw d' raws err \<Longrightarrow> reads_raw d (raw # raws) err"

lemma reads_raw_functional: "reads_raw d raws err \<Longrightarrow> reads_raw d raws' err' \<Longrightarrow> raws' = raws \<and> err' = err"
proof (induction arbitrary: raws' rule: reads_raw.induct)
  case (stop d err d')
  from stop(2) show ?case by (cases rule: reads_raw.cases) (use stop(1) in simp_all)
next
  case (message d raw d' raws err)
  from message(4) show ?case by (cases rule: reads_raw.cases) (use message(1,3) in auto)
qed

text \<open>
  C38: the loop always ends, whatever the input, and delivers what it should: the messages are the
  items at the beginning of the input, each with exactly its bytes, as many as there are, and the
  error comes where the rest does not begin with an item; if nothing is left it is the error the
  reader ends with, \<^verbatim>\<open>io.EOF\<close> for a byte slice. So a stream of items is received completely.
\<close>

theorem raw_loop_ends:
  assumes "d_r d \<noteq> None" and "0 \<le> d_depth d" and "roomy (dconf_of d)"
  shows "\<exists>bss err rest. reads_raw d (map Some bss) err \<and> (\<forall>raws e. reads_raw d raws e \<longrightarrow> raws = map Some bss \<and> e = err) \<and>
    pending d = concat bss @ rest \<and> (\<forall>bs\<in>set bss. item (budget d) bs) \<and>
    (\<nexists>bs. item (budget d) bs \<and> prefix bs rest) \<and> (rest = [] \<longrightarrow> 0 < budget d \<longrightarrow> err = r_end (the (d_r d)))"
proof -
  let ?P = "\<lambda>d bss err rest. reads_raw d (map Some bss) err \<and> pending d = concat bss @ rest \<and> (\<forall>bs\<in>set bss. item (budget d) bs) \<and>
    (\<nexists>bs. item (budget d) bs \<and> prefix bs rest) \<and> (rest = [] \<longrightarrow> 0 < budget d \<longrightarrow> err = r_end (the (d_r d)))"
  have "\<exists>bss err rest. ?P d bss err rest"
    using assms
  proof (induction "length (pending d)" arbitrary: d rule: less_induct)
    case less
    obtain res d' where run: "DecodeRaw d = (res, d')" by fastforce
    have f: "frame d d'" using keepsD [OF keeps_DecodeRaw run] .
    note f = frame_sources [OF f less.prems(2)]
    show ?case
    proof (cases res)
      case (Inl err)
      have "\<nexists>bs. item (budget d) bs \<and> prefix bs (pending d)"
        using DecodeRaw_item [OF _ _ less.prems] run Inl by (metis Inl_Inr_False prefix_def prod.inject)
      moreover have "pending d = [] \<longrightarrow> 0 < budget d \<longrightarrow> err = r_end (the (d_r d))"
        using DecodeRaw_end [of d "the (d_r d)"] less.prems(1) run Inl by (auto simp: pending_def)
      ultimately show ?thesis
        using stop [OF run [unfolded Inl]] by (intro exI [of _ "[]"] exI [of _ err] exI [of _ "pending d"]) simp
    next
      case (Inr raw)
      obtain bs where bs: "raw = Some bs" "item (budget d) bs" "pending d = bs @ pending d'"
        by (rule DecodeRaw_Inr [OF run [unfolded Inr] less.prems(1,2)])
      have "bs \<noteq> []" using bs(2) by (auto elim: item.cases)
      then have "length (pending d') < length (pending d)" using bs(3) by simp
      note IH = less.hyps [OF this conjunct1 [OF f(4) [OF less.prems(1)]] f(3), unfolded f(1,2) conjunct2 [OF f(4) [OF less.prems(1)]]]
      from IH [OF less.prems(3)] obtain bss err rest where l: "?P d' bss err rest"
        unfolding f(1) conjunct2 [OF f(4) [OF less.prems(1)]] by (elim exE)
      note l = l [unfolded f(1) conjunct2 [OF f(4) [OF less.prems(1)]]]
      have "reads_raw d (map Some (bs # bss)) err"
        using message [OF run [unfolded Inr bs(1)] conjunct1 [OF l]] by simp
      then show ?thesis
        using bs(2,3) l by (intro exI [of _ "bs # bss"] exI [of _ err] exI [of _ rest]) simp
    qed
  qed
  then obtain bss err rest where l: "?P d bss err rest" by (elim exE)
  from reads_raw_functional [OF conjunct1 [OF l]] l show ?thesis
    by (intro exI [of _ bss] exI [of _ err] exI [of _ rest]) simp
qed

theorem raw_loop_ends_witness:
  "\<forall>raws err. reads_raw (dec_Reset (Some (bytes_reader [0x05, 0xa1, 0x61])) (pooled_with_limit 4)) raws err \<longleftrightarrow>
     raws = [Some [0x05], Some [0xa1, 0x61]] \<and> err = EOF"
proof -
  let ?d = "dec_Reset (Some (bytes_reader [0x05, 0xa1, 0x61])) (pooled_with_limit 4)"
  let ?d1 = "snd (DecodeRaw ?d)" and ?d2 = "snd (DecodeRaw (snd (DecodeRaw ?d)))"
  have s: "fst (DecodeRaw ?d) = Inr (Some [0x05])" "fst (DecodeRaw ?d1) = Inr (Some [0xa1, 0x61])"
    "fst (DecodeRaw ?d2) = Inl EOF"
    by code_simp+
  have "reads_raw ?d2 [] EOF" by (rule stop [where d' = "snd (DecodeRaw ?d2)"]) (simp add: prod_eq_iff s)
  then have "reads_raw ?d1 [Some [0xa1, 0x61]] EOF"
    by (rule message [where d' = ?d2, rotated]) (simp add: prod_eq_iff s)
  then have run: "reads_raw ?d [Some [0x05], Some [0xa1, 0x61]] EOF"
    by (rule message [where d' = ?d1, rotated]) (simp add: prod_eq_iff s)
  have "d_r ?d \<noteq> None" "0 \<le> d_depth ?d" "roomy (dconf_of ?d)"
    by (simp_all add: pooled_with_limit SetDecodeDepthLimit_def NewDecoder_def dec_Reset_def dec_ResetDict_def
        dec_ResetReader_def roomy_def dconf_of_def amd64_def bytes_reader_def)
  from raw_loop_ends [OF this] run show ?thesis by metis
qed

end
