(* ===== verification/Encode_Reflect.thy ===== *)
theory Encode_Reflect
  imports Marshal Struct_Fields
begin

text \<open>
  Encoding by reflection: the encoder functions \<open>getEncoder\<close> picks for a type (\<^verbatim>\<open>encode_value.go\<close>,
  \<^verbatim>\<open>encode_number.go\<close>, \<^verbatim>\<open>encode_map.go\<close>, \<^verbatim>\<open>ext.go\<close>), on the types and values of \<open>Reflect\<close>, with the
  program's encoding methods, registered encoders, index paths into structs and the omission of
  empty fields (\<^verbatim>\<open>types.go\<close>).
\<close>

section \<open>The program's types\<close>

text \<open>A \<^verbatim>\<open>reflect.Value\<close>: its type, whether it is addressable, and what it holds.\<close>

type_synonym rval = "gtype \<times> bool \<times> rv"

text \<open>
  The encoding methods are parameters: \<open>EncodeMsgpack\<close> gets the encoder, the others return bytes.
  \<open>v_method i\<close> is the first of the four interfaces that the \<open>i\<close>-th type implements and \<open>p_method i\<close> the
  first its pointer type does (which has the methods of both receivers), each with the method on
  what the receiver is or points to. \<open>is_zero i\<close> is a method \<^verbatim>\<open>IsZero\<close>, with the flag for a value
  receiver, \<open>error_string\<close> the method \<^verbatim>\<open>Error\<close> of a dynamic type.

  \<open>typeEncMap\<close> holds the functions that the program registered, \<open>elem_cached t\<close> says whether there was an
  entry for \<open>t\<close>, registered or made by \<open>getEncoder\<close>, when the encoder of its pointer type was made.
  \<open>struct_fields\<close> is \<open>structs.Fields\<close>.
\<close>

datatype 'w emethod =
    EncodeMsgpack "rv \<Rightarrow> ('w encoder, unit) go"
  | MarshalMsgpack "rv \<Rightarrow> go_error + byte list option"
  | MarshalBinary "rv \<Rightarrow> go_error + byte list option"
  | MarshalText "rv \<Rightarrow> go_error + byte list option"

record 'w renv =
  v_method :: "nat \<Rightarrow> 'w emethod option"
  p_method :: "nat \<Rightarrow> 'w emethod option"
  is_zero :: "nat \<Rightarrow> (bool \<times> (rv \<Rightarrow> bool)) option"
  error_string :: "gtype \<Rightarrow> rv \<Rightarrow> gostring"
  typeEncMap :: "gtype \<Rightarrow> (rval \<Rightarrow> ('w encoder, unit) go) option"
  elem_cached :: "gtype \<Rightarrow> bool"
  struct_fields :: "gtype \<Rightarrow> gostring \<Rightarrow> fields"

section \<open>Methods\<close>

text \<open>The receiver of a method, \<open>None\<close> where \<^verbatim>\<open>nilable(v.Kind()) && v.IsNil()\<close>.\<close>

definition receiver :: "gtype \<Rightarrow> rv \<Rightarrow> rv option" where
  "receiver t v = (if nilable t \<and> rv_IsNil v then None else Some v)"

definition encodeCustomValue :: "(rv \<Rightarrow> ('w encoder, unit) go) \<Rightarrow> rv option \<Rightarrow> ('w encoder, unit) go" where
  "encodeCustomValue f r = (case r of None \<Rightarrow> EncodeNil | Some v \<Rightarrow> f v)"

definition encodeCustomValuePtr :: "(rv \<Rightarrow> ('w encoder, unit) go) \<Rightarrow> bool \<Rightarrow> rv \<Rightarrow> ('w encoder, unit) go" where
  "encodeCustomValuePtr f canAddr v = (if \<not> canAddr then fail EncodeNonAddressable else f v)"

definition encode_method :: "'w emethod \<Rightarrow> rv option \<Rightarrow> ('w encoder, unit) go" where
  "encode_method m r =
     (case m of
        EncodeMsgpack f \<Rightarrow> encodeCustomValue f r
      | MarshalMsgpack f \<Rightarrow> marshalValue (map_option f r)
      | MarshalBinary f \<Rightarrow> marshalBinaryValue (map_option f r)
      | MarshalText f \<Rightarrow> marshalTextValue (map_option f r))"

definition encode_methodAddr :: "'w emethod \<Rightarrow> bool \<Rightarrow> rv \<Rightarrow> ('w encoder, unit) go" where
  "encode_methodAddr m canAddr v =
     (case m of
        EncodeMsgpack f \<Rightarrow> encodeCustomValuePtr f canAddr v
      | MarshalMsgpack f \<Rightarrow> marshalValuePtr canAddr (Some (f v))
      | MarshalBinary f \<Rightarrow> marshalBinaryValueAddr canAddr (Some (f v))
      | MarshalText f \<Rightarrow> marshalTextValueAddr canAddr (Some (f v)))"

text \<open>\<open>RawMessage.EncodeMsgpack\<close> of \<^verbatim>\<open>msgpack.go\<close>.\<close>

definition RawMessage_EncodeMsgpack :: "rv \<Rightarrow> ('w encoder, unit) go" where
  "RawMessage_EncodeMsgpack v = enc_write (case v of VBytes (Some b) \<Rightarrow> vis b | _ \<Rightarrow> [])"

section \<open>Scalars\<close>

definition kind_panic :: "('w encoder, unit) go" where
  "kind_panic = fail mismatch"

definition encodeBoolValue :: "rv \<Rightarrow> ('w encoder, unit) go" where
  "encodeBoolValue v = (case v of VBool b \<Rightarrow> EncodeBool b | _ \<Rightarrow> kind_panic)"

definition encodeIntValue :: "rv \<Rightarrow> ('w encoder, unit) go" where
  "encodeIntValue v = (case v of VInt n \<Rightarrow> EncodeInt n | _ \<Rightarrow> kind_panic)"

definition encodeInt8CondValue :: "rv \<Rightarrow> ('w encoder, unit) go" where
  "encodeInt8CondValue v = (case v of VInt n \<Rightarrow> encodeInt8Cond (ucast n) | _ \<Rightarrow> kind_panic)"

definition encodeInt16CondValue :: "rv \<Rightarrow> ('w encoder, unit) go" where
  "encodeInt16CondValue v = (case v of VInt n \<Rightarrow> encodeInt16Cond (ucast n) | _ \<Rightarrow> kind_panic)"

definition encodeInt32CondValue :: "rv \<Rightarrow> ('w encoder, unit) go" where
  "encodeInt32CondValue v = (case v of VInt n \<Rightarrow> encodeInt32Cond (ucast n) | _ \<Rightarrow> kind_panic)"

definition encodeInt64CondValue :: "rv \<Rightarrow> ('w encoder, unit) go" where
  "encodeInt64CondValue v = (case v of VInt n \<Rightarrow> encodeInt64Cond n | _ \<Rightarrow> kind_panic)"

definition encodeUintValue :: "rv \<Rightarrow> ('w encoder, unit) go" where
  "encodeUintValue v = (case v of VUint n \<Rightarrow> EncodeUint n | _ \<Rightarrow> kind_panic)"

definition encodeUint8CondValue :: "rv \<Rightarrow> ('w encoder, unit) go" where
  "encodeUint8CondValue v = (case v of VUint n \<Rightarrow> encodeUint8Cond (ucast n) | _ \<Rightarrow> kind_panic)"

definition encodeUint16CondValue :: "rv \<Rightarrow> ('w encoder, unit) go" where
  "encodeUint16CondValue v = (case v of VUint n \<Rightarrow> encodeUint16Cond (ucast n) | _ \<Rightarrow> kind_panic)"

definition encodeUint32CondValue :: "rv \<Rightarrow> ('w encoder, unit) go" where
  "encodeUint32CondValue v = (case v of VUint n \<Rightarrow> encodeUint32Cond (ucast n) | _ \<Rightarrow> kind_panic)"

definition encodeUint64CondValue :: "rv \<Rightarrow> ('w encoder, unit) go" where
  "encodeUint64CondValue v = (case v of VUint n \<Rightarrow> encodeUint64Cond n | _ \<Rightarrow> kind_panic)"

text \<open>\<^verbatim>\<open>float32(v.Float())\<close>: both conversions are exact, a NaN is quieted.\<close>

definition float32_of_Float :: "u32 \<Rightarrow> u32" where
  "float32_of_Float f = (if f32_NaN f then f OR 0x00400000 else f)"

definition encodeFloat32Value :: "rv \<Rightarrow> ('w encoder, unit) go" where
  "encodeFloat32Value v = (case v of VFloat32 f \<Rightarrow> EncodeFloat32 (float32_of_Float f) | _ \<Rightarrow> kind_panic)"

definition encodeFloat64Value :: "rv \<Rightarrow> ('w encoder, unit) go" where
  "encodeFloat64Value v = (case v of VFloat64 f \<Rightarrow> EncodeFloat64 f | _ \<Rightarrow> kind_panic)"

definition encodeStringValue :: "rv \<Rightarrow> ('w encoder, unit) go" where
  "encodeStringValue v = (case v of VString s \<Rightarrow> EncodeString s | _ \<Rightarrow> kind_panic)"

definition encodeByteSliceValue :: "rv \<Rightarrow> ('w encoder, unit) go" where
  "encodeByteSliceValue v = (case v of VBytes b \<Rightarrow> EncodeBytes (map_option vis b) | _ \<Rightarrow> kind_panic)"

section \<open>Parts of a value\<close>

definition rv_Field :: "nat \<Rightarrow> rval \<Rightarrow> rval option" where
  "rv_Field i x =
     (case (underlying (fst x), snd (snd x)) of
        (TStruct ts fs m, VStruct vs) \<Rightarrow>
          if i < length ts \<and> i < length vs then Some (ts ! i, fst (snd x), vs ! i) else None
      | _ \<Rightarrow> None)"

definition rv_deref :: "rval \<Rightarrow> rval option" where
  "rv_deref x =
     (case fst x of
        TPtr u \<Rightarrow> (case snd (snd x) of VPtr (Some v) \<Rightarrow> Some (u, True, v) | _ \<Rightarrow> None)
      | _ \<Rightarrow> Some x)"

text \<open>
  \<open>None\<close> for a field behind a nil embedded pointer. (An empty path, or one that does not fit the
  type, on which \<^verbatim>\<open>Field\<close> would panic, is not one that \<open>getFields\<close> computes.)
\<close>

primrec fieldByIndex :: "nat list \<Rightarrow> rval \<Rightarrow> rval option" where
  "fieldByIndex [] x = None"
| "fieldByIndex (i # p) x =
     (if p = [] then rv_Field i x
      else case rv_Field i x of
        None \<Rightarrow> None
      | Some y \<Rightarrow> (case rv_deref y of None \<Rightarrow> None | Some y \<Rightarrow> fieldByIndex p y))"

lemma type_at_fieldByIndex: "fieldByIndex p x = Some y \<Longrightarrow> type_at p (fst x) = Some (fst y)"
proof (induction p arbitrary: x)
  case (Cons i p)
  then obtain z where z: "rv_Field i x = Some z" by (auto split: if_splits option.splits)
  then obtain ts fs m where t: "underlying (fst x) = TStruct ts fs m" "i < length ts" "fst z = ts ! i"
    by (auto simp: rv_Field_def split: gtype.splits rv.splits if_splits)
  show ?case
  proof (cases "p = []")
    case False
    then obtain w where w: "rv_deref z = Some w" "fieldByIndex p w = Some y"
      using Cons.prems z by (auto split: option.splits)
    have "fst w = (case fst z of TPtr u \<Rightarrow> u | u \<Rightarrow> u)"
      using w(1) by (cases "fst z") (auto simp: rv_deref_def split: rv.splits option.splits)
    then show ?thesis using Cons.IH [OF w(2)] False t by simp
  qed (use Cons.prems z t in simp)
qed simp

lemma fieldByIndex_named:
  assumes "underlying u = u"
  shows "fieldByIndex p (TNamed i u, a, v) = fieldByIndex p (u, a, v)"
proof -
  have "rv_Field k (TNamed i u, a, v) = rv_Field k (u, a, v)" for k
    using assms by (auto simp: rv_Field_def underlying_def split: gtype.split rv.split)
  then show ?thesis by (cases p) simp_all
qed

abbreviation rv_size :: "rval \<Rightarrow> nat" where
  "rv_size x \<equiv> size (snd (snd x))"

lemma rv_Field_size: "rv_Field i x = Some y \<Longrightarrow> rv_size y < rv_size x"
  by (auto simp: rv_Field_def less_Suc_eq_le split: gtype.splits rv.splits if_splits intro!: size_elem_le nth_mem)

lemma rv_deref_size: "rv_deref x = Some y \<Longrightarrow> rv_size y \<le> rv_size x"
  by (auto simp: rv_deref_def split: gtype.splits rv.splits option.splits)

lemma fieldByIndex_size: "fieldByIndex p x = Some y \<Longrightarrow> rv_size y < rv_size x"
proof (induction p arbitrary: x)
  case (Cons i p)
  then show ?case
    by (auto split: if_splits option.splits dest!: rv_Field_size rv_deref_size) (meson le_less_trans less_trans less_le_trans)
qed simp

section \<open>Empty values\<close>

text \<open>The method \<^verbatim>\<open>IsZero\<close> of \<^verbatim>\<open>v.Interface().(isZeroer)\<close>.\<close>

definition isZeroer :: "'w renv \<Rightarrow> gtype \<Rightarrow> (rv \<Rightarrow> bool) option" where
  "isZeroer E t =
     (case t of
        TTime \<Rightarrow> Some (\<lambda>v. case v of VTime tm \<Rightarrow> time_IsZero tm | _ \<Rightarrow> False)
      | TNamed i u \<Rightarrow> (case is_zero E i of Some (True, z) \<Rightarrow> Some z | _ \<Rightarrow> None)
      | TPtr TTime \<Rightarrow> Some (\<lambda>v. case v of VPtr (Some (VTime tm)) \<Rightarrow> time_IsZero tm | _ \<Rightarrow> False)
      | TPtr (TNamed i u) \<Rightarrow>
          map_option (\<lambda>z v. case v of VPtr (Some x) \<Rightarrow> snd z x | _ \<Rightarrow> False) (is_zero E i)
      | _ \<Rightarrow> None)"

definition Omit_r :: "(rval \<Rightarrow> bool) \<Rightarrow> bool \<Rightarrow> rval \<Rightarrow> fld \<Rightarrow> bool" where
  "Omit_r emp forced strct f =
     (case fieldByIndex (fld_index f) strct of
        None \<Rightarrow> True
      | Some v \<Rightarrow> (fld_omitEmpty f \<or> forced) \<and> emp v)"

definition OmitEmpty_r :: "(rval \<Rightarrow> bool) \<Rightarrow> bool \<Rightarrow> fields \<Rightarrow> rval \<Rightarrow> fld list" where
  "OmitEmpty_r emp forced fs strct =
     (if \<not> f_hasOmitEmpty fs \<and> \<not> forced then f_List fs
      else filter (\<lambda>f. \<not> Omit_r emp forced strct f) (f_List fs))"

lemma OmitEmpty_r_cong [fundef_cong]:
  "forced = forced' \<Longrightarrow> fs = fs' \<Longrightarrow> x = x' \<Longrightarrow> (\<And>y. rv_size y < rv_size x' \<Longrightarrow> emp y = emp' y) \<Longrightarrow>
     OmitEmpty_r emp forced fs x = OmitEmpty_r emp' forced' fs' x'"
proof -
  assume eq: "forced = forced'" "fs = fs'" "x = x'" and "\<And>y. rv_size y < rv_size x' \<Longrightarrow> emp y = emp' y"
  then have "emp v = emp' v" if "fieldByIndex p x' = Some v" for p v using fieldByIndex_size [OF that] by blast
  then have o: "Omit_r emp forced' x' = Omit_r emp' forced' x'" by (auto simp: Omit_r_def fun_eq_iff split: option.split)
  show ?thesis by (simp only: OmitEmpty_r_def eq o)
qed

text \<open>\<open>isEmptyValue\<close>; \<open>forced\<close> is the encoder's omit-empty option and \<open>tag\<close> its struct tag.\<close>

function isEmptyValue_r :: "'w renv \<Rightarrow> bool \<Rightarrow> gostring \<Rightarrow> rval \<Rightarrow> bool" where
  "isEmptyValue_r E forced tag x =
     (case snd (snd x) of
        VIface p \<Rightarrow> (case p of None \<Rightarrow> True | Some (u, y) \<Rightarrow> isEmptyValue_r E forced tag (u, False, y))
      | v \<Rightarrow>
          (case isZeroer E (fst x) of
             Some z \<Rightarrow> nilable (fst x) \<and> rv_IsNil v \<or> z v
           | None \<Rightarrow>
               (case v of
                  VBool b \<Rightarrow> \<not> b
                | VInt n \<Rightarrow> n = 0
                | VUint n \<Rightarrow> n = 0
                | VFloat32 f \<Rightarrow> f32_eq f 0
                | VFloat64 f \<Rightarrow> f64_eq f 0
                | VString s \<Rightarrow> s = []
                | VBytes b \<Rightarrow> (case b of None \<Rightarrow> True | Some b \<Rightarrow> vis b = [])
                | VByteArray bs \<Rightarrow> bs = []
                | VStrings b \<Rightarrow> (case b of None \<Rightarrow> True | Some b \<Rightarrow> vis b = [])
                | VSlice b \<Rightarrow> (case b of None \<Rightarrow> True | Some b \<Rightarrow> take (snd b) (fst b) = [])
                | VArray vs \<Rightarrow> vs = []
                | VMapSS m \<Rightarrow> (case m of None \<Rightarrow> True | Some kvs \<Rightarrow> kvs = [])
                | VMapSI m \<Rightarrow> (case m of None \<Rightarrow> True | Some kvs \<Rightarrow> kvs = [])
                | VMap m \<Rightarrow> (case m of None \<Rightarrow> True | Some kvs \<Rightarrow> kvs = [])
                | VPtr p \<Rightarrow> p = None
                | VStruct vs \<Rightarrow>
                    OmitEmpty_r (isEmptyValue_r E forced tag) forced (struct_fields E (underlying (fst x)) tag) x = []
                | _ \<Rightarrow> False)))"
  by pat_completeness auto

termination
  by (relation "measure (\<lambda>(E, forced, tag, x). rv_size x)") auto

declare isEmptyValue_r.simps [simp del]

section \<open>Structs\<close>

definition encodeInternedValue_r :: "(rval \<Rightarrow> ('w encoder, unit) go) \<Rightarrow> rv \<Rightarrow> ('w encoder, unit) go" where
  "encodeInternedValue_r rec v =
     (case v of
        VString s \<Rightarrow> encodeInternedStringValue s
      | VIface p \<Rightarrow>
          (case p of
             None \<Rightarrow> EncodeNil
           | Some (u, y) \<Rightarrow> (case y of VString s \<Rightarrow> encodeInternedString s True | _ \<Rightarrow> rec (u, False, y)))
      | _ \<Rightarrow> kind_panic)"

definition field_EncodeValue_r :: "(rval \<Rightarrow> ('w encoder, unit) go) \<Rightarrow> rval \<Rightarrow> fld \<Rightarrow> ('w encoder, unit) go" where
  "field_EncodeValue_r rec strct f =
     (case fieldByIndex (fld_index f) strct of
        None \<Rightarrow> EncodeNil
      | Some y \<Rightarrow> if fld_intern f then encodeInternedValue_r rec (snd (snd y)) else rec y)"

definition encodeStructValueAsArray_r ::
  "(rval \<Rightarrow> ('w encoder, unit) go) \<Rightarrow> rval \<Rightarrow> fld list \<Rightarrow> ('w encoder, unit) go" where
  "encodeStructValueAsArray_r rec strct fs =
     bindE (EncodeArrayLen (int (length fs))) (\<lambda>_. forE (field_EncodeValue_r rec strct) fs)"

definition encodeStructValue_r ::
  "'w renv \<Rightarrow> (rval \<Rightarrow> ('w encoder, unit) go) \<Rightarrow> rval \<Rightarrow> ('w encoder, unit) go" where
  "encodeStructValue_r E rec strct =
     bindE (getS e_structTag) (\<lambda>tag. bindE (getS e_flags) (\<lambda>fl.
       if hasFlag fl arrayEncodedStructsFlag \<or> f_AsArray (struct_fields E (fst strct) tag)
       then encodeStructValueAsArray_r rec strct (f_List (struct_fields E (fst strct) tag))
       else let fs = OmitEmpty_r (isEmptyValue_r E (hasFlag fl omitEmptyFlag) tag) (hasFlag fl omitEmptyFlag)
                  (struct_fields E (fst strct) tag) strct
            in bindE (EncodeMapLen (int (length fs))) (\<lambda>_.
                 forE (\<lambda>f. bindE (EncodeString (fld_name f)) (\<lambda>_. field_EncodeValue_r rec strct f)) fs)))"

section \<open>Encoders by type\<close>

text \<open>In the following \<open>rec\<close> is \<open>EncodeValue\<close>.\<close>

definition encodeInterfaceValue :: "(rval \<Rightarrow> ('w encoder, unit) go) \<Rightarrow> rv \<Rightarrow> ('w encoder, unit) go" where
  "encodeInterfaceValue rec v =
     (case v of
        VIface p \<Rightarrow> (case p of None \<Rightarrow> EncodeNil | Some (u, y) \<Rightarrow> rec (u, False, y))
      | _ \<Rightarrow> kind_panic)"

text \<open>The entries of a map in the order of iteration, with the types of keys and values.\<close>

definition map_entries :: "gtype \<Rightarrow> gtype \<Rightarrow> (rv \<times> rv) list \<Rightarrow> (rval \<times> rval) list" where
  "map_entries kt vt = map (\<lambda>kv. ((kt, False, fst kv), (vt, False, snd kv)))"

definition string_bools :: "(rv \<times> rv) list \<Rightarrow> (gostring \<times> bool) list" where
  "string_bools = map (\<lambda>kv. (case fst kv of VString s \<Rightarrow> s | _ \<Rightarrow> [], case snd kv of VBool b \<Rightarrow> b | _ \<Rightarrow> False))"

definition encode_ptr :: "(rval \<Rightarrow> ('w encoder, unit) go) \<Rightarrow> gtype \<Rightarrow> rv option \<Rightarrow> ('w encoder, unit) go" where
  "encode_ptr rec u p = ptrEncoderFunc rec (map_option (\<lambda>y. (u, True, y)) p)"

text \<open>\<open>valueEncoders\<close>, the table by kind, applied.\<close>

definition valueEncoders :: "'w renv \<Rightarrow> (rval \<Rightarrow> ('w encoder, unit) go) \<Rightarrow> rval \<Rightarrow> ('w encoder, unit) go" where
  "valueEncoders E rec x =
     (case x of (t, canAddr, v) \<Rightarrow>
       (case t of
          TBool \<Rightarrow> encodeBoolValue v
        | TInt k \<Rightarrow>
            (case k of KInt \<Rightarrow> encodeIntValue v | K8 \<Rightarrow> encodeInt8CondValue v | K16 \<Rightarrow> encodeInt16CondValue v
             | K32 \<Rightarrow> encodeInt32CondValue v | K64 \<Rightarrow> encodeInt64CondValue v)
        | TUint k \<Rightarrow>
            (case k of KInt \<Rightarrow> encodeUintValue v | K8 \<Rightarrow> encodeUint8CondValue v | K16 \<Rightarrow> encodeUint16CondValue v
             | K32 \<Rightarrow> encodeUint32CondValue v | K64 \<Rightarrow> encodeUint64CondValue v)
        | TFloat32 \<Rightarrow> encodeFloat32Value v
        | TFloat64 \<Rightarrow> encodeFloat64Value v
        | TArray n u \<Rightarrow>
            (case v of VArray vs \<Rightarrow> encodeArrayValue rec (map (\<lambda>y. (u, canAddr, y)) vs) | _ \<Rightarrow> kind_panic)
        | TIface e \<Rightarrow> encodeInterfaceValue rec v
        | TMap kt vt \<Rightarrow>
            (case v of VMap m \<Rightarrow> encodeMapValue rec (map_option (map_entries kt vt) m) | _ \<Rightarrow> kind_panic)
        | TSlice u \<Rightarrow>
            (case v of
               VSlice b \<Rightarrow> encodeSliceValue rec (map_option (\<lambda>b. map (\<lambda>y. (u, True, y)) (take (snd b) (fst b))) b)
             | _ \<Rightarrow> kind_panic)
        | TString \<Rightarrow> encodeStringValue v
        | TStruct ts fs m \<Rightarrow> encodeStructValue_r E rec x
        | _ \<Rightarrow> encodeUnsupportedValue))"

text \<open>
  \<open>_getEncoder\<close>, applied: the methods of the type, those of its pointer, special types, then the table.
  \<^verbatim>\<open>time.Time\<close> is registered with \<open>timeEncoder\<close>; it is not the underlying type of another.
\<close>

definition getEncoder_kind :: "'w renv \<Rightarrow> (rval \<Rightarrow> ('w encoder, unit) go) \<Rightarrow> rval \<Rightarrow> ('w encoder, unit) go" where
  "getEncoder_kind E rec x =
     (case x of (t, canAddr, v) \<Rightarrow>
       (case t of
          TNamed i u \<Rightarrow>
            (case v_method E i of
               Some m \<Rightarrow> encode_method m (receiver u v)
             | None \<Rightarrow>
                 (case p_method E i of
                    Some m \<Rightarrow> encode_methodAddr m canAddr v
                  | None \<Rightarrow> rec (u, canAddr, v)))
        | TIface e \<Rightarrow>
            (if e then
               (case v of
                  VIface p \<Rightarrow> encodeErrorValue (map_option (\<lambda>d. error_string E (fst d) (snd d)) p)
                | _ \<Rightarrow> kind_panic)
             else valueEncoders E rec x)
        | TPtr u \<Rightarrow>
            (case v of
               VPtr p \<Rightarrow>
                 (if elem_cached E u then encode_ptr rec u p
                  else case u of
                    TNamed i w \<Rightarrow>
                      (case p_method E i of Some m \<Rightarrow> encode_method m p | None \<Rightarrow> encode_ptr rec u p)
                  | _ \<Rightarrow> encode_ptr rec u p)
             | _ \<Rightarrow> kind_panic)
        | TBytes \<Rightarrow> encodeByteSliceValue v
        | TStrings \<Rightarrow> (case v of VStrings ss \<Rightarrow> encodeStringSliceValue (map_option vis ss) | _ \<Rightarrow> kind_panic)
        | TByteArray n \<Rightarrow> (case v of VByteArray bs \<Rightarrow> encodeByteArrayValue canAddr bs | _ \<Rightarrow> kind_panic)
        | TMapSS \<Rightarrow> (case v of VMapSS m \<Rightarrow> encodeMapStringStringValue m | _ \<Rightarrow> kind_panic)
        | TMapSI \<Rightarrow> (case v of VMapSI m \<Rightarrow> encodeMapStringInterfaceValue Encode m | _ \<Rightarrow> kind_panic)
        | TMap kt vt \<Rightarrow>
            (if kt = TString \<and> vt = TBool then
               (case v of VMap m \<Rightarrow> encodeMapStringBoolValue (map_option string_bools m) | _ \<Rightarrow> kind_panic)
             else valueEncoders E rec x)
        | TTime \<Rightarrow> (case v of VTime tm \<Rightarrow> makeExtEncoder timeExtID (Some (timeEncoder tm)) | _ \<Rightarrow> kind_panic)
        | _ \<Rightarrow> valueEncoders E rec x))"

lemmas getEncoder_defs = getEncoder_kind_def valueEncoders_def

definition getEncoder :: "'w renv \<Rightarrow> (rval \<Rightarrow> ('w encoder, unit) go) \<Rightarrow> rval \<Rightarrow> ('w encoder, unit) go" where
  "getEncoder E rec x = (case typeEncMap E (fst x) of Some fn \<Rightarrow> fn x | None \<Rightarrow> getEncoder_kind E rec x)"

text \<open>The encoder function of a type recurs only on parts of the value, or on its underlying type.\<close>

definition part_of :: "(rval \<times> rval) set" where
  "part_of = inv_image (less_than <*lex*> less_than) (\<lambda>x. (rv_size x, size (fst x)))"

lemma wf_part_of: "wf part_of"
  unfolding part_of_def by (intro wf_inv_image wf_lex_prod wf_less_than)

lemma part_ofI: "rv_size y < rv_size x \<Longrightarrow> (y, x) \<in> part_of"
  by (simp add: part_of_def)

lemma part_sizes:
  "y \<in> set ys \<Longrightarrow> size y < size (VSlice (Some (ys, n)))"
  "y \<in> set ys \<Longrightarrow> size y < size (VArray ys)"
  "(a, b) \<in> set kvs \<Longrightarrow> size a < size (VMap (Some kvs))"
  "(a, b) \<in> set kvs \<Longrightarrow> size b < size (VMap (Some kvs))"
  "y \<in> set (take i ys) \<Longrightarrow> size y < size (VSlice (Some (ys, n)))"
  "size y < size (VPtr (Some y))" "size y < size (VIface (Some (u, y)))"
  using size_elem_le [of y ys size] size_entry_le(2,3) [of a b kvs size size]
  by (auto simp: less_Suc_eq_le dest: in_set_takeD)

lemma encodeStructValue_r_cong:
  assumes "\<And>y. rv_size y < rv_size x \<Longrightarrow> rec y = rec' y"
  shows "encodeStructValue_r E rec x = encodeStructValue_r E rec' x"
proof -
  have "encodeInternedValue_r rec v = encodeInternedValue_r rec' v" if "size v < rv_size x" for v
    using that by (auto simp: encodeInternedValue_r_def intro!: assms split: rv.split option.split)
  note intern = this
  have "field_EncodeValue_r rec x f = field_EncodeValue_r rec' x f" for f
  proof (cases "fieldByIndex (fld_index f) x")
    case (Some y)
    have y: "rv_size y < rv_size x" by (rule fieldByIndex_size [OF Some])
    show ?thesis by (simp only: field_EncodeValue_r_def Some option.case intern [OF y] assms [OF y])
  qed (simp add: field_EncodeValue_r_def)
  then have "field_EncodeValue_r rec x = field_EncodeValue_r rec' x" by (rule ext)
  then show ?thesis by (simp only: encodeStructValue_r_def encodeStructValueAsArray_r_def)
qed

lemma getEncoder_cong [fundef_cong]:
  assumes "E = E'" and "x = x'" and rec: "\<And>y. (y, x') \<in> part_of \<Longrightarrow> rec y = rec' y"
  shows "getEncoder E rec x = getEncoder E' rec' x'"
proof -
  have part: "rec y = rec' y" if "rv_size y < rv_size x" for y
    using rec part_ofI that assms(2) by blast
  have ptr: "encode_ptr rec u p = encode_ptr rec' u p" if "snd (snd x) = VPtr p" for u p
    by (cases p) (use that in \<open>auto simp: encode_ptr_def ptrEncoderFunc_def part\<close>)
  obtain t a v where x: "x = (t, a, v)" by (metis prod_cases3)
  have "getEncoder_kind E rec x = getEncoder_kind E rec' x"
  proof (cases t)
    case (TStruct ts fs m)
    then show ?thesis using encodeStructValue_r_cong [of x rec rec' E, OF part] by (simp add: getEncoder_defs x)
  next
    case (TPtr u)
    then show ?thesis using ptr by (auto simp: getEncoder_defs x split: rv.split gtype.split option.split)
  next
    case (TNamed i u)
    have "rec (u, a, v) = rec' (u, a, v)" by (rule rec) (simp add: part_of_def TNamed x flip: assms(2))
    then show ?thesis by (simp add: getEncoder_defs x TNamed split: option.split)
  next
    case (TSlice u)
    then show ?thesis
      by (auto simp: getEncoder_defs x simp del: rv.size split: rv.split
          intro!: encodeSliceValue_cong part part_sizes)
  next
    case (TArray n u)
    then show ?thesis
      by (auto simp: getEncoder_defs x simp del: rv.size split: rv.split
          intro!: encodeArrayValue_cong part part_sizes)
  next
    case (TMap kt vt)
    then show ?thesis
      by (auto simp: getEncoder_defs x map_entries_def simp del: rv.size split: rv.split
          intro!: encodeMapValue_cong part) (erule part_sizes)+
  next
    case (TIface e)
    then show ?thesis
      by (auto simp: getEncoder_defs encodeInterfaceValue_def x split: rv.split option.split intro!: part)
  qed (auto simp: getEncoder_defs x split: rv.split)
  then show ?thesis unfolding getEncoder_def assms(1,2) [symmetric] by (simp split: option.split)
qed

function EncodeValue_r :: "'w renv \<Rightarrow> rval \<Rightarrow> ('w encoder, unit) go" where
  "EncodeValue_r E x = getEncoder E (EncodeValue_r E) x"
  by pat_completeness auto

termination
  by (relation "inv_image part_of snd") (auto intro: wf_inv_image wf_part_of)

declare EncodeValue_r.simps [simp del]

section \<open>Encode\<close>

text \<open>
  \<open>Encode\<close>: the types of its switch are encoded directly, all others by reflection. (A \<^verbatim>\<open>time.Duration\<close>
  is encoded like the \<^verbatim>\<open>int64\<close> it is, on both ways.)
\<close>

definition Encode_any :: "'w renv \<Rightarrow> (gtype \<times> rv) option \<Rightarrow> ('w encoder, unit) go" where
  "Encode_any E a =
     (case a of
        None \<Rightarrow> EncodeNil
      | Some (t, v) \<Rightarrow>
          (case (t, v) of
             (TString, VString s) \<Rightarrow> EncodeString s
           | (TBytes, VBytes b) \<Rightarrow> EncodeBytes (map_option vis b)
           | (TInt KInt, VInt n) \<Rightarrow> EncodeInt n
           | (TInt K64, VInt n) \<Rightarrow> encodeInt64Cond n
           | (TUint KInt, VUint n) \<Rightarrow> EncodeUint n
           | (TUint K64, VUint n) \<Rightarrow> encodeUint64Cond n
           | (TBool, VBool b) \<Rightarrow> EncodeBool b
           | (TFloat32, VFloat32 f) \<Rightarrow> EncodeFloat32 f
           | (TFloat64, VFloat64 f) \<Rightarrow> EncodeFloat64 f
           | (TTime, VTime tm) \<Rightarrow> EncodeTime tm
           | _ \<Rightarrow> EncodeValue_r E (t, False, v)))"

section \<open>Registered encoders\<close>

text \<open>
  \<open>Register\<close> of \<^verbatim>\<open>types.go\<close> on \<open>typeEncMap\<close> and \<open>typeDecMap\<close>, and the encoders that
  \<open>RegisterExtEncoder\<close> of \<^verbatim>\<open>ext.go\<close> stores for a type and, if it is a pointer, for what it points to.
\<close>

definition Register ::
  "gtype \<Rightarrow> 'e option \<Rightarrow> 'd option \<Rightarrow> (gtype \<Rightarrow> 'e option) \<times> (gtype \<Rightarrow> 'd option) \<Rightarrow>
    (gtype \<Rightarrow> 'e option) \<times> (gtype \<Rightarrow> 'd option)" where
  "Register t enc dec maps =
     (case enc of None \<Rightarrow> fst maps | Some f \<Rightarrow> (fst maps)(t \<mapsto> f),
      case dec of None \<Rightarrow> snd maps | Some g \<Rightarrow> (snd maps)(t \<mapsto> g))"

definition makeExtEncoder_r ::
  "byte \<Rightarrow> gtype \<Rightarrow> (rval \<Rightarrow> ('w encoder, byte list) go) \<Rightarrow> rval \<Rightarrow> ('w encoder, unit) go" where
  "makeExtEncoder_r extID t encoder x =
     makeExtEncoder extID
       (if (case t of TPtr u \<Rightarrow> True | _ \<Rightarrow> False) \<and> rv_IsNil (snd (snd x)) then None else Some (encoder x))"

definition makeExtEncoderAddr :: "(rval \<Rightarrow> ('w encoder, unit) go) \<Rightarrow> rval \<Rightarrow> ('w encoder, unit) go" where
  "makeExtEncoderAddr extEncoder x =
     (case x of (t, canAddr, v) \<Rightarrow>
        if \<not> canAddr then fail EncodeExtNonAddressable else extEncoder (TPtr t, False, VPtr (Some v)))"

section \<open>The package's own type\<close>

text \<open>
  A program that declares the structs \<open>ds\<close> (their types as \<open>gtype_of\<close> gives them for the tag \<open>tg\<close>) and
  whose only type with an encoding method is \<open>RawMessage\<close>. A declaration on which \<open>getFields\<close> panics has
  no fields here.
\<close>

definition declared_fields :: "gostring \<Rightarrow> stype list \<Rightarrow> gtype \<Rightarrow> gostring \<Rightarrow> fields" where
  "declared_fields tg ds t tag =
     (case find (\<lambda>d. gtype_of tg d = t) ds of
        None \<Rightarrow> newFields
      | Some d \<Rightarrow> (case getFields tag d of Inl e \<Rightarrow> newFields | Inr fs \<Rightarrow> fs))"

definition package_renv :: "gostring \<Rightarrow> stype list \<Rightarrow> bool \<Rightarrow> 'w renv" where
  "package_renv tg ds c =
     \<lparr>v_method = (\<lambda>_. Some (EncodeMsgpack RawMessage_EncodeMsgpack)),
      p_method = (\<lambda>_. Some (EncodeMsgpack RawMessage_EncodeMsgpack)),
      is_zero = (\<lambda>_. None), error_string = (\<lambda>_ _. []), typeEncMap = (\<lambda>_. None), elem_cached = (\<lambda>_. c),
      struct_fields = declared_fields tg ds\<rparr>"

lemma EncodeValue_r_nil_RawMessage:
  "EncodeValue_r (package_renv tg ds c) (TPtr RawMessage, a, VPtr (Some (VBytes None))) =
     (if c then EncodeNil else enc_write [])"
  by (simp add: EncodeValue_r.simps getEncoder_def getEncoder_defs package_renv_def RawMessage_def encode_ptr_def
      ptrEncoderFunc_def encode_method_def encodeCustomValue_def receiver_def nilable_def underlying_def rv_IsNil_def
      RawMessage_EncodeMsgpack_def)

text \<open>
  C39: what a pointer to a nil \<open>RawMessage\<close> is encoded to depends on what the program has encoded before:
  as nil if an encoder for \<open>RawMessage\<close> was cached before the one of its pointer type, and otherwise as
  no bytes at all, which is not a value: inside a container every following value is read in its
  place.
\<close>

theorem nil_RawMessage_depends_on_cache:
  "emits out k (EncodeValue_r (package_renv tg ds c) (TPtr RawMessage, a, VPtr (Some (VBytes None)))) (if c then [Nil_c] else []) k"
  unfolding EncodeValue_r_nil_RawMessage by (simp add: emits_EncodeNil emits_enc_write)

end
