(* ===== verification/Encode_Refine.thy ===== *)
theory Encode_Refine
  imports Encode_Reflect Type_Safety
begin

unbundle bit_operations_syntax

text \<open>
  Encoding by reflection refines encoding by value: \<open>reify\<close> maps what \<open>reflect\<close> sees of a value to the
  value \<open>Encode_Value\<close> encodes, and the two encoders do the same.
\<close>

section \<open>What every encoding method keeps\<close>

definition settings :: "'w encoder \<Rightarrow> 'w encoder \<Rightarrow> bool" where
  "settings e e' \<longleftrightarrow> e_flags e' = e_flags e \<and> e_structTag e' = e_structTag e"

interpretation enc_settings: frame_relation settings
  by unfold_locales (auto simp: settings_def)

named_theorems setting_frames \<open>methods keep the settings\<close>

lemma keeps_enc_write [setting_frames]: "keeps settings (enc_write b)" "keeps settings (writeCode c)" "keeps settings (stage b)"
  by (auto intro!: keepsI simp: enc_write_def writeCode_def stage_def settings_def Let_def
      split: writer.split prod.split option.split)

lemma keeps_writes [setting_frames]:
  "keeps settings (write1 c n)" "keeps settings (write2 c m)" "keeps settings (write4 c k)" "keeps settings (write8 c l)"
  unfolding write1_def write2_def write4_def write8_def writeBuf_def by (intro enc_settings.keeps_intros setting_frames)+

lemma keeps_enc_numbers [setting_frames]:
  "keeps settings (EncodeUint n)" "keeps settings (EncodeInt n)" "keeps settings (EncodeNil)" "keeps settings (EncodeBool b)"
  "keeps settings (encodeUint8Cond a)" "keeps settings (encodeUint16Cond c)" "keeps settings (encodeUint32Cond d)"
  "keeps settings (encodeUint64Cond n)" "keeps settings (encodeInt8Cond a)" "keeps settings (encodeInt16Cond c)"
  "keeps settings (encodeInt32Cond d)" "keeps settings (encodeInt64Cond n)" "keeps settings (EncodeFloat32 d)"
  "keeps settings (EncodeFloat64 n)"
  unfolding EncodeUint_def EncodeInt_def EncodeNil_def EncodeBool_def encodeUint8Cond_def encodeUint16Cond_def
    encodeUint32Cond_def encodeUint64Cond_def encodeInt8Cond_def encodeInt16Cond_def encodeInt32Cond_def
    encodeInt64Cond_def EncodeFloat32_def EncodeFloat64_def EncodeUint8_def EncodeUint16_def EncodeUint32_def
    EncodeUint64_def EncodeInt8_def EncodeInt16_def EncodeInt32_def EncodeInt64_def enc_flag_def Let_def
  by (auto intro!: enc_settings.keeps_intros setting_frames split: option.split)

lemma keeps_headers [setting_frames]:
  "keeps settings (EncodeBytesLen l)" "keeps settings (encodeStringLen l)" "keeps settings (EncodeArrayLen l)"
  "keeps settings (EncodeMapLen l)" "keeps settings (encodeExtLen l)" "keeps settings (EncodeExtHeader i l)"
  unfolding EncodeBytesLen_def encodeStringLen_def EncodeArrayLen_def EncodeMapLen_def encodeExtLen_def EncodeExtHeader_def
  by (intro enc_settings.keeps_intros setting_frames)+

lemma keeps_enc_strings [setting_frames]:
  "keeps settings (EncodeString s)" "keeps settings (encodeInternedString s b)" "keeps settings (EncodeBytes bs)"
  "keeps settings (encodeByteArrayValue a x)" "keeps settings (encodeTime tm)" "keeps settings (EncodeTime tm)"
proof -
  have n: "keeps settings (encodeNormalString s)" for s
    unfolding encodeNormalString_def writeString_def by (intro enc_settings.keeps_intros setting_frames)
  have i: "keeps settings (encodeInternedStringIndex i)" for i
    unfolding encodeInternedStringIndex_def by (intro enc_settings.keeps_intros setting_frames)
  have d: "keeps settings (modS (\<lambda>e. e\<lparr>e_dict := x\<rparr>))" "keeps settings (modS (\<lambda>e. e\<lparr>e_buf := f e\<rparr>))" for x f
    by (rule enc_settings.keeps_modS, simp add: settings_def)+
  show interned: "keeps settings (encodeInternedString s b)" for s b
    unfolding encodeInternedString_def by (auto intro!: enc_settings.keeps_intros n i d split: option.split)
  show "keeps settings (EncodeString s)"
    unfolding EncodeString_def enc_flag_def by (intro enc_settings.keeps_intros n interned)
  show "keeps settings (EncodeBytes bs)"
    unfolding EncodeBytes_def by (auto intro!: enc_settings.keeps_intros setting_frames split: option.split)
  show "keeps settings (encodeByteArrayValue a x)"
    unfolding encodeByteArrayValue_def writeBuf_def by (intro enc_settings.keeps_intros setting_frames d)
  show t: "keeps settings (encodeTime tm)" for tm
    by (rule keepsI) (simp add: encodeTime_def settings_def Let_def split: option.split)
  show "keeps settings (EncodeTime tm)"
    unfolding EncodeTime_def by (intro enc_settings.keeps_intros setting_frames t)
qed

context frame_relation
begin

lemma keeps_forE_set: "(\<And>x. x \<in> set xs \<Longrightarrow> keeps R (f x)) \<Longrightarrow> keeps R (forE f xs)"
  by (induction xs) (simp_all add: keeps_ret keeps_bindE)

end

lemma keeps_enc_containers:
  "(\<And>x. x \<in> set xs \<Longrightarrow> keeps settings (f x)) \<Longrightarrow> keeps settings (encodeArrayValue f xs)"
  "(\<And>xs x. s = Some xs \<Longrightarrow> x \<in> set xs \<Longrightarrow> keeps settings (f x)) \<Longrightarrow> keeps settings (encodeSliceValue f s)"
  "(\<And>kvs kv. m = Some kvs \<Longrightarrow> kv \<in> set kvs \<Longrightarrow> keeps settings (f (fst kv)) \<and> keeps settings (f (snd kv))) \<Longrightarrow>
     keeps settings (encodeMapValue f m)"
  "(\<And>x. p = Some x \<Longrightarrow> keeps settings (f x)) \<Longrightarrow> keeps settings (ptrEncoderFunc f p)"
  unfolding encodeArrayValue_def encodeSliceValue_def encodeMapValue_def ptrEncoderFunc_def
  by (auto intro!: enc_settings.keeps_intros enc_settings.keeps_forE_set setting_frames split: option.split)

lemma keeps_string_containers [setting_frames]:
  "keeps settings (encodeStringSliceValue ss)" "keeps settings (encodeMapStringStringValue m)" "keeps settings (encodeMapStringBoolValue b)"
  unfolding encodeStringSliceValue_def encodeMapStringStringValue_def encodeMapStringBoolValue_def
    encodeSortedMapStringString_def encodeSortedMapStringBool_def enc_flag_def
  by (auto intro!: enc_settings.keeps_intros setting_frames split: option.split)

lemma keeps_any_map:
  assumes "\<And>kvs kv. m = Some kvs \<Longrightarrow> kv \<in> set kvs \<Longrightarrow> keeps settings (f (snd kv))"
  shows "keeps settings (encodeMapStringInterfaceValue f m)"
  unfolding encodeMapStringInterfaceValue_def EncodeMap_def EncodeMapSorted_def enc_flag_def
  using assms by (auto intro!: enc_settings.keeps_intros enc_settings.keeps_forE_set setting_frames
      dest!: set_sorted_entries split: option.split)

lemma keeps_struct:
  assumes "\<And>f v. f \<in> set fs \<Longrightarrow> snd f = Some v \<Longrightarrow> keeps settings (enc v)"
  shows "keeps settings (encodeStructValue enc a fs)"
proof -
  have f: "keeps settings (field_EncodeValue enc f)" if "f \<in> set fs" for f
    using assms [OF that] unfolding field_EncodeValue_def encodeInternedInterfaceValue_def encodeInternedStringValue_def
    by (auto intro!: setting_frames split: option.split gval.split)
  then show ?thesis
    unfolding encodeStructValue_def encodeStructValueAsArray_def
    by (intro enc_settings.keeps_intros enc_settings.keeps_forE_set setting_frames) (auto dest: set_OmitEmpty)
qed

lemma keeps_user [setting_frames]: "keeps settings (user_EncodeValue k a r)"
  unfolding user_EncodeValue_def marshalValue_def marshalValuePtr_def marshalBinaryValue_def marshalBinaryValueAddr_def
    marshalTextValue_def marshalTextValueAddr_def encodeErrorValue_def
  by (auto intro!: enc_settings.keeps_intros setting_frames split: ukind.split option.split sum.split)

lemma keeps_Encode: "keeps (settings :: 'w encoder \<Rightarrow> _) (Encode v) \<and> keeps (settings :: 'w encoder \<Rightarrow> _) (EncodeValue v)"
proof (induction v rule: measure_induct_rule [of size])
  case (less v)
  have v: "keeps (settings :: 'w encoder \<Rightarrow> _) (EncodeValue v)"
  proof (cases v)
    case (GStruct a fs)
    have "keeps (settings :: 'w encoder \<Rightarrow> _) (EncodeValue w)" if "f \<in> set fs" "snd f = Some w" for f w
      using less [of w] size_field_less [OF that] GStruct by simp
    then show ?thesis unfolding GStruct EncodeValue_simps by (rule keeps_struct)
  next
    case (GMap m)
    then show ?thesis
      using less by (auto simp: EncodeValue_simps less_Suc_eq_le intro!: keeps_enc_containers
          dest: size_entry_le(2,3) [where f = size and g = size])
  qed (use less in \<open>auto simp: EncodeValue_simps less_Suc_eq_le makeExtEncoder_def timeEncoder_def encodeUnsupportedValue_def ext_result_def
      intro!: keeps_enc_containers keeps_any_map setting_frames enc_settings.keeps_intros
      dest: size_elem_le [where f = size] size_entry_le(1) [where g = size] split: option.split sum.split\<close>)
  then have "keeps (settings :: 'w encoder \<Rightarrow> _) (Encode v)"
    by (cases v) (auto simp: Encode_simps intro!: setting_frames)
  with v show ?case by simp
qed

lemma keeps_EncodeValue [setting_frames]: "keeps settings (EncodeValue v)"
  using keeps_Encode by blast

section \<open>What reflection sees of a value\<close>

text \<open>
  \<open>R\<close> gives the value that stands for one of a registered type, \<open>Q i\<close> the one that the method
  \<^verbatim>\<open>EncodeMsgpack\<close> of the \<open>i\<close>-th type encodes. A pointer to a time is empty when the time is zero; a
  second pointer keeps the others apart from it.
\<close>

definition rptr :: "gtype \<Rightarrow> gval \<Rightarrow> gval" where
  "rptr u g = GPtr (Some (if u \<noteq> TTime \<and> (case g of GTime tm \<Rightarrow> True | _ \<Rightarrow> False) then GPtr (Some g) else g))"

definition reify_method :: "(rv \<Rightarrow> gval) \<Rightarrow> bool \<Rightarrow> bool \<Rightarrow> 'w emethod \<Rightarrow> rv option \<Rightarrow> gval" where
  "reify_method q emp a m r =
     (case m of
        EncodeMsgpack f \<Rightarrow> (case r of None \<Rightarrow> GNil | Some v \<Rightarrow> q v)
      | MarshalMsgpack f \<Rightarrow> GUser UMarshaler emp a (map_option f r)
      | MarshalBinary f \<Rightarrow> GUser UBinary emp a (map_option f r)
      | MarshalText f \<Rightarrow> GUser UText emp a (map_option f r))"

definition reify_methodAddr :: "(rv \<Rightarrow> gval) \<Rightarrow> bool \<Rightarrow> bool \<Rightarrow> 'w emethod \<Rightarrow> rv \<Rightarrow> gval" where
  "reify_methodAddr q emp a m v =
     (case m of
        EncodeMsgpack f \<Rightarrow> if a then q v else GUser UMarshalerPtr emp False None
      | MarshalMsgpack f \<Rightarrow> GUser UMarshalerPtr emp a (Some (f v))
      | MarshalBinary f \<Rightarrow> GUser UBinaryAddr emp a (Some (f v))
      | MarshalText f \<Rightarrow> GUser UTextAddr emp a (Some (f v)))"

definition field_meta :: "fld \<Rightarrow> fmeta" where
  "field_meta f = \<lparr>f_name = fld_name f, f_omitEmpty = fld_omitEmpty f, f_intern = fld_intern f\<rparr>"

text \<open>An interned field is encoded by the string it holds.\<close>

definition interned :: "(rval \<Rightarrow> gval) \<Rightarrow> rval \<Rightarrow> gval" where
  "interned g y =
     (case snd (snd y) of
        VString s \<Rightarrow> GString s
      | VIface p \<Rightarrow>
          (case p of None \<Rightarrow> GNil | Some (u, z) \<Rightarrow> (case z of VString s \<Rightarrow> GString s | _ \<Rightarrow> g (u, False, z)))
      | _ \<Rightarrow> GUnsupported)"

lemma interned_cong [fundef_cong]:
  "y = y' \<Longrightarrow> (\<And>z. rv_size z < rv_size y' \<Longrightarrow> g z = h z) \<Longrightarrow> interned g y = interned h y'"
  by (auto simp: interned_def split: rv.split option.split)

definition reify_field :: "(rval \<Rightarrow> gval) \<Rightarrow> rval \<Rightarrow> fld \<Rightarrow> fmeta \<times> gval option" where
  "reify_field g x f = (field_meta f, map_option (if fld_intern f then interned g else g) (fieldByIndex (fld_index f) x))"

definition reify_fields :: "(rval \<Rightarrow> gval) \<Rightarrow> fields \<Rightarrow> rval \<Rightarrow> (fmeta \<times> gval option) list" where
  "reify_fields g fs x = map (reify_field g x) (f_List fs)"

lemma reify_fields_cong [fundef_cong]:
  assumes "fs = fs'" and "x = x'" and g: "\<And>y. rv_size y < rv_size x' \<Longrightarrow> g y = h y"
  shows "reify_fields g fs x = reify_fields h fs' x'"
proof -
  have "reify_field g x' f = reify_field h x' f" for f
  proof (cases "fieldByIndex (fld_index f) x'")
    case (Some y)
    have y: "rv_size y < rv_size x'" by (rule fieldByIndex_size [OF Some])
    have "interned g y = interned h y" by (rule interned_cong [OF refl]) (use y g in auto)
    then show ?thesis using g [OF y] Some by (simp add: reify_field_def)
  qed (simp add: reify_field_def)
  then show ?thesis by (simp only: reify_fields_def assms(1,2) cong: list.map_cong)
qed

function reify ::
  "'w renv \<Rightarrow> (rval \<Rightarrow> gval) \<Rightarrow> (nat \<Rightarrow> rv \<Rightarrow> gval) \<Rightarrow> bool \<Rightarrow> gostring \<Rightarrow> rval \<Rightarrow> gval" where
  "reify E R Q forced tag x =
     (if typeEncMap E (fst x) \<noteq> None then R x
      else case x of (t, a, v) \<Rightarrow>
       (case t of
          TBool \<Rightarrow> (case v of VBool b \<Rightarrow> GBool b | _ \<Rightarrow> GUnsupported)
        | TInt k \<Rightarrow>
            (case v of
               VInt n \<Rightarrow> (case k of KInt \<Rightarrow> GInt n | K8 \<Rightarrow> GInt8 (ucast n) | K16 \<Rightarrow> GInt16 (ucast n)
                          | K32 \<Rightarrow> GInt32 (ucast n) | K64 \<Rightarrow> GInt64 n)
             | _ \<Rightarrow> GUnsupported)
        | TUint k \<Rightarrow>
            (case v of
               VUint n \<Rightarrow> (case k of KInt \<Rightarrow> GUint n | K8 \<Rightarrow> GUint8 (ucast n) | K16 \<Rightarrow> GUint16 (ucast n)
                           | K32 \<Rightarrow> GUint32 (ucast n) | K64 \<Rightarrow> GUint64 n)
             | _ \<Rightarrow> GUnsupported)
        | TFloat32 \<Rightarrow> (case v of VFloat32 f \<Rightarrow> GFloat32 (float32_of_Float f) | _ \<Rightarrow> GUnsupported)
        | TFloat64 \<Rightarrow> (case v of VFloat64 f \<Rightarrow> GFloat64 f | _ \<Rightarrow> GUnsupported)
        | TString \<Rightarrow> (case v of VString s \<Rightarrow> GString s | _ \<Rightarrow> GUnsupported)
        | TBytes \<Rightarrow> (case v of VBytes b \<Rightarrow> GBytes (map_option vis b) | _ \<Rightarrow> GUnsupported)
        | TByteArray n \<Rightarrow> (case v of VByteArray bs \<Rightarrow> GByteArray a bs | _ \<Rightarrow> GUnsupported)
        | TStrings \<Rightarrow> (case v of VStrings ss \<Rightarrow> GStrings (map_option vis ss) | _ \<Rightarrow> GUnsupported)
        | TSlice u \<Rightarrow>
            (case v of
               VSlice b \<Rightarrow> GSlice (map_option (\<lambda>b. map (\<lambda>y. reify E R Q forced tag (u, True, y)) (take (snd b) (fst b))) b)
             | _ \<Rightarrow> GUnsupported)
        | TArray n u \<Rightarrow>
            (case v of VArray vs \<Rightarrow> GArray (map (\<lambda>y. reify E R Q forced tag (u, a, y)) vs) | _ \<Rightarrow> GUnsupported)
        | TMapSS \<Rightarrow> (case v of VMapSS m \<Rightarrow> GMapSS m | _ \<Rightarrow> GUnsupported)
        | TMapSI \<Rightarrow> (case v of VMapSI m \<Rightarrow> GMapSI m | _ \<Rightarrow> GUnsupported)
        | TMap kt vt \<Rightarrow>
            (case v of
               VMap m \<Rightarrow>
                 if kt = TString \<and> vt = TBool then GMapSB (map_option string_bools m)
                 else GMap (map_option (map (\<lambda>kv.
                   (reify E R Q forced tag (kt, False, fst kv), reify E R Q forced tag (vt, False, snd kv)))) m)
             | _ \<Rightarrow> GUnsupported)
        | TPtr u \<Rightarrow>
            (case v of
               VPtr p \<Rightarrow>
                 (case (if elem_cached E u then None else case u of TNamed i w \<Rightarrow> map_option (Pair i) (p_method E i) | _ \<Rightarrow> None) of
                    Some (i, m) \<Rightarrow> reify_method (\<lambda>y. GPtr (Some (GPtr (Some (Q i y))))) (p = None) a m p
                  | None \<Rightarrow> (case p of None \<Rightarrow> GPtr None | Some y \<Rightarrow> rptr u (reify E R Q forced tag (u, True, y))))
             | _ \<Rightarrow> GUnsupported)
        | TStruct ts fs m \<Rightarrow>
            GStruct (f_AsArray (struct_fields E t tag)) (reify_fields (reify E R Q forced tag) (struct_fields E t tag) x)
        | TIface e \<Rightarrow>
            (case v of
               VIface p \<Rightarrow>
                 if e then GUser UError (isEmptyValue_r E forced tag x) a
                   (map_option (\<lambda>d. Inr (Some (error_string E (fst d) (snd d)))) p)
                 else (case p of None \<Rightarrow> GNil | Some (u, y) \<Rightarrow> reify E R Q forced tag (u, False, y))
             | _ \<Rightarrow> GUnsupported)
        | TTime \<Rightarrow> (case v of VTime tm \<Rightarrow> GTime tm | _ \<Rightarrow> GUnsupported)
        | TNamed i u \<Rightarrow>
            (case v_method E i of
               Some m \<Rightarrow> reify_method (Q i) (isEmptyValue_r E forced tag x) a m (receiver u v)
             | None \<Rightarrow>
                 (case p_method E i of
                    Some m \<Rightarrow> reify_methodAddr (Q i) (isEmptyValue_r E forced tag x) a m v
                  | None \<Rightarrow> reify E R Q forced tag (u, a, v)))
        | TUnsupported \<Rightarrow> GUnsupported))"
  by pat_completeness auto

termination
  by (relation "inv_image part_of (\<lambda>(E, R, Q, forced, tag, x). x)")
    (auto intro: wf_inv_image wf_part_of part_sizes simp: part_of_def simp del: rv.size)

declare reify.simps [simp del]

section \<open>Empty values\<close>

lemma has_type_fieldByIndex:
  assumes "fieldByIndex p x = Some y" and "has_type U (fst x) (snd (snd x))"
  shows "has_type U (fst y) (snd (snd y))"
  using assms
proof (induction p arbitrary: x)
  case (Cons i p)
  have f: "has_type U (fst z) (snd (snd z))" if "rv_Field i x = Some z" for z
    using that Cons.prems(2) by (cases "fst x")
      (auto simp: rv_Field_def underlying_def list_all2_conv_all_nth split: gtype.splits rv.splits if_splits)
  have d: "has_type U (fst z) (snd (snd z))" if "rv_deref w = Some z" "has_type U (fst w) (snd (snd w))" for w z
    using that by (cases "fst w") (auto simp: rv_deref_def split: rv.splits option.splits)
  show ?case
    using Cons.prems(1) Cons.IH f d by (auto split: if_splits option.splits)
qed simp

lemma f32_NaN_not_eq: "f32_NaN f \<Longrightarrow> \<not> f32_eq f g"
proof -
  assume "f32_NaN f"
  then have n: "unat f mod 2 ^ 31 > 0x7f800000"
    by (simp add: f32_NaN_def word_less_nat_alt unsigned_take_bit_eq take_bit_eq_mod unat_mod_distrib)
  define q r where "q = unat f div 2 ^ 23 mod 2 ^ 8" and "r = unat f mod 2 ^ 23"
  have "unat f mod (2 ^ 23 * 2 ^ 8) = 2 ^ 23 * q + r" unfolding q_def r_def by (rule mod_mult2_eq)
  with n have "0x7f800000 < 2 ^ 23 * q + r" by simp
  moreover have "q < 256" "r < 2 ^ 23" by (simp_all add: q_def r_def)
  ultimately have "q = 255" "r \<noteq> 0" by simp_all
  then have fl: "fl_exp 23 8 (unat f) = 255" "fl_man 23 (unat f) \<noteq> 0"
    by (simp_all add: fl_exp_def fl_man_def q_def r_def)
  then have e: "f64_of_f32 f = word_of_nat (fl_mk 52 11 (fl_neg 23 8 (unat f)) 2047 (2 ^ 51 + (fl_man 23 (unat f) * 2 ^ 29) mod 2 ^ 51))"
    by (simp add: f64_of_f32_def)
  have m: "2 ^ 51 + (fl_man 23 (unat f) * 2 ^ 29) mod 2 ^ 51 < (2 :: nat) ^ 52" by simp
  have "f64_isNaN (f64_of_f32 f)"
    unfolding e f64_isNaN_def using unat_mk64 [OF _ m, of 2047] fl_fields_mk [OF _ m, of 2047 11] by simp
  then show ?thesis by (simp add: f32_eq_def f64_eq_def)
qed

lemma f32_NaN_quiet: "f32_NaN f \<Longrightarrow> f32_NaN (f OR 0x00400000)"
  unfolding f32_NaN_def take_bit_or by (erule less_le_trans) (rule le_word_or2)

lemma f32_eq_quiet: "f32_eq (float32_of_Float f) 0 = f32_eq f 0"
  by (simp add: float32_of_Float_def f32_NaN_not_eq f32_NaN_quiet)

text \<open>A sized integer is zero exactly when its low bits are.\<close>

lemma ucast_0_sint:
  fixes n :: u64
  assumes "LENGTH('b) \<le> 64"
  shows "(ucast n :: 'b :: len word) = 0 \<longleftrightarrow> 2 ^ LENGTH('b) dvd sint n"
proof -
  have "ucast n = (word_of_int (sint n) :: 'b word)"
    by (rule bit_word_eqI) (use assms in \<open>auto simp: bit_ucast_iff bit_word_of_int_iff bit_signed_iff min_absorb2\<close>)
  then show ?thesis by (simp only: word_of_int_eq_0_iff take_bit_eq_0_iff)
qed

lemma cast_0:
  "int_in K8 n \<Longrightarrow> (ucast n :: byte) = 0 \<longleftrightarrow> n = 0" "int_in K16 n \<Longrightarrow> (ucast n :: u16) = 0 \<longleftrightarrow> n = 0"
  "int_in K32 n \<Longrightarrow> (ucast n :: u32) = 0 \<longleftrightarrow> n = 0"
proof -
  have z: "sint n = 0 \<longleftrightarrow> n = 0" by (simp add: signed_eq_0_iff)
  have d: "- (2 ^ k) \<le> s \<Longrightarrow> s < 2 ^ k \<Longrightarrow> 2 ^ Suc k dvd s \<longleftrightarrow> s = 0" for s :: int and k
    using zdvd_not_zless [of s "2 ^ Suc k"] zdvd_not_zless [of "- s" "2 ^ Suc k"]
    by (cases "s = 0"; cases "s > 0") auto
  show "int_in K8 n \<Longrightarrow> (ucast n :: byte) = 0 \<longleftrightarrow> n = 0" "int_in K16 n \<Longrightarrow> (ucast n :: u16) = 0 \<longleftrightarrow> n = 0"
    "int_in K32 n \<Longrightarrow> (ucast n :: u32) = 0 \<longleftrightarrow> n = 0"
    using d [of 7 "sint n"] d [of 15 "sint n"] d [of 31 "sint n"] by (simp_all add: ucast_0_sint z int_in.simps)
qed

lemma ucast_0:
  "uint_in K8 n \<Longrightarrow> (ucast n :: byte) = 0 \<longleftrightarrow> n = 0" "uint_in K16 n \<Longrightarrow> (ucast n :: u16) = 0 \<longleftrightarrow> n = 0"
  "uint_in K32 n \<Longrightarrow> (ucast n :: u32) = 0 \<longleftrightarrow> n = 0"
  by (simp_all add: uint_in.simps unat_eq_0 [symmetric] unsigned_ucast_eq take_bit_nat_eq_self del: unat_eq_0)

lemma internable_value:
  "internable t \<Longrightarrow> has_type U t v \<Longrightarrow> (\<exists>s. v = VString s) \<or> (\<exists>p. v = VIface p)"
  by (cases t) (auto simp: internable_def underlying_def split: gtype.splits)

text \<open>
  What the program's types must satisfy: \<open>structs.Fields\<close> knows whether a field has the omitempty
  option, and interned fields are strings or interfaces (both hold of \<open>getFields\<close>); only times
  have a method \<^verbatim>\<open>IsZero\<close>; the underlying type of another type is not a time, a pointer or itself such a type; \<open>R\<close> and \<open>Q\<close>
  stand for what the registered encoders and the methods \<^verbatim>\<open>EncodeMsgpack\<close> encode.
\<close>

locale reflection =
  fixes E :: "'w renv" and U :: "nat \<Rightarrow> gtype" and R :: "rval \<Rightarrow> gval" and Q :: "nat \<Rightarrow> rv \<Rightarrow> gval"
  assumes fields: "f_hasOmitEmpty (struct_fields E t tag) = list_ex fld_omitEmpty (f_List (struct_fields E t tag))"
    and intern: "fd \<in> set (f_List (struct_fields E t tag)) \<Longrightarrow> fld_intern fd \<Longrightarrow> type_at (fld_index fd) t = Some w \<Longrightarrow> internable w"
    and no_IsZero: "is_zero E i = None"
    and kinds: "typeEncMap E TTime = None" "U i \<noteq> TTime" "U i \<noteq> TPtr u" "U i \<noteq> TNamed j u"
    and registered: "typeEncMap E t = Some fn \<Longrightarrow> has_type U t v \<Longrightarrow>
      fn (t, a, v) = EncodeValue (R (t, a, v)) \<and> (\<forall>s. R (t, a, v) = GString s \<longrightarrow> v = VString s) \<and>
      isEmptyValue forced (R (t, a, v)) = isEmptyValue_r E forced tag (t, a, v)"
    and custom: "v_method E i = Some (EncodeMsgpack f) \<or> p_method E i = Some (EncodeMsgpack f) \<Longrightarrow> has_type U (U i) v \<Longrightarrow>
      f v = EncodeValue (Q i v) \<and> (\<forall>s. Q i v = GString s \<longrightarrow> v = VString s) \<and>
      isEmptyValue forced (Q i v) = isEmptyValue_r E forced tag (TNamed i (U i), a, v)"
begin

lemma zeroers: "isZeroer E t = (if t = TTime then Some (\<lambda>v. case v of VTime tm \<Rightarrow> time_IsZero tm | _ \<Rightarrow> False)
  else if t = TPtr TTime then Some (\<lambda>v. case v of VPtr (Some (VTime tm)) \<Rightarrow> time_IsZero tm | _ \<Rightarrow> False) else None)"
  by (auto simp: isZeroer_def no_IsZero split: gtype.split)

lemma empty_string: "has_type U t (VString s) \<Longrightarrow> isEmptyValue_r E forced tag (t, a, VString s) \<longleftrightarrow> s = []"
  by (cases t) (auto simp: isEmptyValue_r.simps zeroers)

lemma empty_interned:
  assumes g: "\<And>z. rv_size z \<le> rv_size y \<Longrightarrow> has_type U (fst z) (snd (snd z)) \<Longrightarrow> isEmptyValue forced (g z) = isEmptyValue_r E forced tag z"
    and ty: "has_type U (fst y) (snd (snd y))" and i: "internable (fst y)"
  shows "isEmptyValue forced (interned g y) = isEmptyValue_r E forced tag y"
proof -
  obtain t a v where y: "y = (t, a, v)" by (metis prod_cases3)
  consider (s) s where "v = VString s" | (nil) "v = VIface None" | (dyn) u z where "v = VIface (Some (u, z))"
    using internable_value [OF i ty] y by (metis option.exhaust prod.exhaust_sel snd_conv)
  then show ?thesis
  proof cases
    case (s s)
    then show ?thesis using ty y by (simp add: interned_def isEmptyValue_simps empty_string)
  next
    case nil
    then show ?thesis by (simp add: y interned_def isEmptyValue_simps isEmptyValue_r.simps)
  next
    case (dyn u z)
    have z: "has_type U u z" using has_type_dynamic(2) ty y dyn by auto
    have "isEmptyValue forced (g (u, False, z)) = isEmptyValue_r E forced tag (u, False, z)"
      by (rule g) (use y dyn z in auto)
    then show ?thesis using z
      by (cases z) (simp_all add: y dyn interned_def isEmptyValue_simps empty_string isEmptyValue_r.simps [of E forced tag "(t, a, VIface p)" for p])
  qed
qed

lemma OmitEmpty_reify:
  assumes g: "\<And>y. rv_size y < rv_size x \<Longrightarrow> has_type U (fst y) (snd (snd y)) \<Longrightarrow> isEmptyValue forced (g y) = isEmptyValue_r E forced tag y"
    and ty: "has_type U (fst x) (snd (snd x))" and fs: "fs = struct_fields E (fst x) tag"
  shows "OmitEmpty forced (reify_fields g fs x) = map (reify_field g x) (OmitEmpty_r (isEmptyValue_r E forced tag) forced fs x)"
proof -
  have "Omit forced (reify_field g x f) = Omit_r (isEmptyValue_r E forced tag) forced x f" if f: "f \<in> set (f_List fs)" for f
  proof (cases "fieldByIndex (fld_index f) x")
    case (Some y)
    have y: "rv_size y < rv_size x" "has_type U (fst y) (snd (snd y))" "type_at (fld_index f) (fst x) = Some (fst y)"
      using fieldByIndex_size [OF Some] has_type_fieldByIndex [OF Some ty] type_at_fieldByIndex [OF Some] .
    have "isEmptyValue forced (interned g y) = isEmptyValue_r E forced tag y" if "fld_intern f"
      by (rule empty_interned) (use g y intern [OF f [unfolded fs] that y(3)] in auto)
    then show ?thesis using g y Some by (simp add: Omit_def Omit_r_def reify_field_def field_meta_def)
  qed (simp add: Omit_def Omit_r_def reify_field_def)
  moreover have "list_ex (\<lambda>f. f_omitEmpty (fst f)) (reify_fields g fs x) = f_hasOmitEmpty fs"
    by (simp add: fs fields reify_fields_def reify_field_def field_meta_def list_ex_iff)
  ultimately show ?thesis
    by (simp add: OmitEmpty_def OmitEmpty_r_def reify_fields_def filter_map o_def cong: filter_cong)
qed

lemma empty_nil: "rv_IsNil v \<Longrightarrow> t \<noteq> TTime \<Longrightarrow> isEmptyValue_r E forced tag (t, a, v)"
  by (auto simp: rv_IsNil_def isEmptyValue_r.simps zeroers nilable_def underlying_def)

lemma empty_named:
  assumes "has_type U (TNamed i u) v"
  shows "isEmptyValue_r E forced tag (TNamed i u, a, v) = isEmptyValue_r E forced tag (u, a, v)"
proof -
  have u: "u = U i" using assms by simp
  have "underlying u = u" using kinds(4) [of i] by (cases u) (auto simp: underlying_def u)
  then have "OmitEmpty_r emp forced fs (TNamed i u, a, v) = OmitEmpty_r emp forced fs (u, a, v)" for emp fs
    by (simp only: OmitEmpty_r_def Omit_r_def fieldByIndex_named [OF \<open>underlying u = u\<close>])
  moreover have "underlying (TNamed i u) = u" by (simp add: underlying_def)
  ultimately show ?thesis using kinds(2,3) [of i] \<open>underlying u = u\<close>
    by (cases v) (simp_all add: isEmptyValue_r.simps [of E forced tag "(TNamed i u, a, v)" for v]
        isEmptyValue_r.simps [of E forced tag "(u, a, v)" for v] zeroers, simp_all add: u)
qed

lemma empty_reify:
  "has_type U (fst x) (snd (snd x)) \<Longrightarrow> isEmptyValue forced (reify E R Q forced tag x) = isEmptyValue_r E forced tag x"
proof (induction x rule: wf_induct_rule [OF wf_part_of])
  case (1 x)
  obtain t a v where x: "x = (t, a, v)" by (metis prod_cases3)
  note IH = 1(1) [unfolded x] and ty = 1(2) [unfolded x fst_conv snd_conv]
  have IH': "isEmptyValue forced (reify E R Q forced tag y) = isEmptyValue_r E forced tag y"
    if "rv_size y < size v" "has_type U (fst y) (snd (snd y))" for y
    by (rule IH) (use that in \<open>auto intro: part_ofI\<close>)
  show ?case
  proof (cases "typeEncMap E t")
    case None
    note r = reify.simps [of E R Q forced tag "(t', a, v)" for t'] isEmptyValue_r.simps [of E forced tag "(t', a, v)" for t']
    show ?thesis
    proof (cases t)
      case (TStruct ts fs m)
      have "OmitEmpty forced (reify_fields (reify E R Q forced tag) (struct_fields E t tag) x) =
          map (reify_field (reify E R Q forced tag) x) (OmitEmpty_r (isEmptyValue_r E forced tag) forced (struct_fields E t tag) x)"
        by (rule OmitEmpty_reify) (use IH' ty x in auto)
      then show ?thesis using None ty
        by (auto simp: r isEmptyValue_struct zeroers underlying_def x TStruct)
    next
      case (TNamed i u)
      have u: "u = U i" and v: "has_type U (U i) v" using ty TNamed by simp_all
      note m = empty_nil [of v "TNamed i (U i)" forced tag a] custom [of i _ v forced tag a]
      have "isEmptyValue forced (reify E R Q forced tag (U i, a, v)) = isEmptyValue_r E forced tag x"
        unfolding x TNamed u using v TNamed u by (subst empty_named) (auto intro!: IH simp: part_of_def)
      then show ?thesis using None v m
        by (cases "v_method E i"; cases "p_method E i")
          (auto simp: r(1) [of "TNamed i (U i)"] x TNamed u reify_method_def reify_methodAddr_def receiver_def isEmptyValue_simps
            split: emethod.split)
    next
      case (TPtr u)
      obtain p where v: "v = VPtr p" using ty TPtr by auto
      have "isEmptyValue forced (rptr u (reify E R Q forced tag (u, True, y))) = isEmptyValue_r E forced tag (TPtr u, a, v)"
        if "p = Some y" for y
      proof (cases "u = TTime")
        case True
        then obtain tm where y: "y = VTime tm" using ty TPtr v \<open>p = Some y\<close> by auto
        show ?thesis using kinds(1)
          by (simp add: True v \<open>p = Some y\<close> y r [of TTime] reify.simps [of E R Q forced tag "(TTime, b, y)" for b y]
              rptr_def isEmptyValue_simps isEmptyValue_r.simps zeroers nilable_def underlying_def rv_IsNil_def)
      next
        case False
        then show ?thesis
          by (auto simp: rptr_def v \<open>p = Some y\<close> isEmptyValue_simps isEmptyValue_r.simps zeroers split: gval.split)
      qed
      moreover have "isEmptyValue_r E forced tag (TPtr u, a, v) \<longleftrightarrow> p = None" if "u \<noteq> TTime"
        using that by (simp add: v isEmptyValue_r.simps zeroers)
      moreover have "isEmptyValue_r E forced tag (TPtr u, a, v)" if "p = None"
        by (rule empty_nil) (simp_all add: that v rv_IsNil_def)
      ultimately show ?thesis using None
        by (cases p) (auto simp: reify.simps [of E R Q forced tag "(TPtr u, a, w)" for w] x TPtr v reify_method_def isEmptyValue_simps
            split: option.split emethod.split gtype.splits if_splits)
    next
      case (TIface e)
      then show ?thesis using None ty IH'
        by (cases e) (auto simp: reify.simps [of E R Q forced tag "(TIface b, a, w)" for b w]
            isEmptyValue_r.simps [of E forced tag "(TIface b, a, w)" for b w] x isEmptyValue_simps split: option.split)
    qed (use None ty in \<open>auto simp: x reify.simps isEmptyValue_r.simps isEmptyValue_simps zeroers f32_eq_quiet string_bools_def
        cast_0 ucast_0 nilable_def underlying_def rv_IsNil_def split: option.splits ikind.splits if_splits\<close>)
  qed (use registered ty in \<open>simp add: x reify.simps\<close>)
qed

end

section \<open>Encoders that do the same\<close>

text \<open>
  Two methods that do the same on every encoder with this omit-empty option and struct tag.
\<close>

definition same_encoding :: "bool \<Rightarrow> gostring \<Rightarrow> ('w encoder, 'a) go \<Rightarrow> ('w encoder, 'a) go \<Rightarrow> bool" where
  "same_encoding forced tag f g \<longleftrightarrow>
     (\<forall>e :: 'w encoder. hasFlag (e_flags e) omitEmptyFlag = forced \<and> e_structTag e = tag \<longrightarrow> f e = g e)"

lemma same_refl: "same_encoding forced tag f f"
  by (simp add: same_encoding_def)

lemma same_bindE:
  assumes "same_encoding forced tag f g" and "keeps settings g" and "\<And>x. same_encoding forced tag (h x) (k x)"
  shows "same_encoding forced tag (bindE f h) (bindE g k)"
  unfolding same_encoding_def
proof (intro allI impI)
  fix e :: "'a encoder" assume e: "hasFlag (e_flags e) omitEmptyFlag = forced \<and> e_structTag e = tag"
  have "f e = g e" using assms(1) e by (simp add: same_encoding_def)
  moreover have "hasFlag (e_flags (snd (g e))) omitEmptyFlag = forced \<and> e_structTag (snd (g e)) = tag"
    using assms(2) e unfolding keeps_def settings_def by metis
  ultimately show "bindE f h e = bindE g k e"
    using assms(3) by (auto simp: bindE_def same_encoding_def split: prod.split sum.split)
qed

lemma same_forE:
  assumes "\<And>x. x \<in> set xs \<Longrightarrow> same_encoding forced tag (f x) (g (h x)) \<and> keeps settings (g (h x))"
  shows "same_encoding forced tag (forE f xs) (forE g (map h xs))"
  using assms by (induction xs) (auto intro!: same_refl same_bindE)

lemma same_array:
  assumes "\<And>x. x \<in> set xs \<Longrightarrow> same_encoding forced tag (f x) (EncodeValue (h x))"
  shows "same_encoding forced tag (encodeArrayValue f xs) (encodeArrayValue EncodeValue (map h xs))"
  unfolding encodeArrayValue_def length_map by (intro same_bindE same_refl same_forE conjI assms setting_frames)

lemma same_map:
  assumes "\<And>kv. kv \<in> set kvs \<Longrightarrow> same_encoding forced tag (f (fst kv)) (EncodeValue (h (fst kv)))"
    and "\<And>kv. kv \<in> set kvs \<Longrightarrow> same_encoding forced tag (f (snd kv)) (EncodeValue (h (snd kv)))"
  shows "same_encoding forced tag (encodeMapValue f (Some kvs))
    (encodeMapValue EncodeValue (Some (map (\<lambda>kv. (h (fst kv), h (snd kv))) kvs)))"
  unfolding encodeMapValue_def length_map option.case
  by (intro same_bindE same_refl same_forE conjI setting_frames) (use assms in \<open>auto intro!: same_bindE enc_settings.keeps_intros setting_frames\<close>)

lemma encodeInterned_other:
  "(\<And>s. w \<noteq> GString s) \<Longrightarrow> encodeInternedInterfaceValue EncodeValue w = EncodeValue w"
  by (cases w) (auto simp: encodeInternedInterfaceValue_def EncodeValue_simps)

lemma encode_reify_method:
  assumes "\<And>f v. m = EncodeMsgpack f \<Longrightarrow> r = Some v \<Longrightarrow> f v = EncodeValue (q v)"
  shows "encode_method m r = EncodeValue (reify_method q emp a m r)"
  using assms by (cases r) (auto simp: encode_method_def reify_method_def encodeCustomValue_def EncodeValue_simps user_EncodeValue_def
      split: emethod.split)

lemma encode_reify_methodAddr:
  assumes "\<And>f. m = EncodeMsgpack f \<Longrightarrow> f v = EncodeValue (q v)"
  shows "encode_methodAddr m a v = EncodeValue (reify_methodAddr q emp a m v)"
  using assms by (auto simp: encode_methodAddr_def reify_methodAddr_def encodeCustomValuePtr_def EncodeValue_simps user_EncodeValue_def
      marshalValuePtr_def split: emethod.split)

lemma EncodeValue_rptr: "EncodeValue (rptr u g) = EncodeValue g"
  by (simp add: rptr_def EncodeValue_simps ptrEncoderFunc_def)

context reflection
begin

lemma reify_string:
  assumes "reify E R Q forced tag (t, a, v) = GString s" and "has_type U t v" and "concrete t"
  shows "v = VString s"
proof -
  have plain: "w = VString s" if "reify E R Q forced tag (u, a, w) = GString s" "has_type U u w" "concrete u" "\<And>i t. u \<noteq> TNamed i t" for u w
  proof (cases "typeEncMap E u")
    case None
    then show ?thesis
      using that by (cases u) (auto simp: reify.simps [of E R Q forced tag "(t, a, w)" for t w] rptr_def reify_method_def
          split: if_splits ikind.splits option.splits emethod.splits gtype.splits)
  qed (use that registered in \<open>simp add: reify.simps\<close>)
  show ?thesis
  proof (cases "typeEncMap E t")
    case None
    show ?thesis
    proof (cases t)
      case (TNamed i u)
      have u: "u = U i" and v: "has_type U (U i) v" using assms(2) TNamed by simp_all
      have "concrete (U i)" using assms(3) kinds(4) [of i] by (cases "U i") (auto simp: TNamed u concrete_def underlying_def)
      then show ?thesis
        using assms(1) None v plain [of "U i" v] kinds(4) [of i] custom [of i _ v forced tag a]
        by (cases "v_method E i"; cases "p_method E i")
          (auto simp: reify.simps [of E R Q forced tag "(TNamed i t, a, w)" for t w] TNamed u reify_method_def reify_methodAddr_def receiver_def
            split: emethod.splits if_splits option.splits)
    qed (use plain assms in auto)
  qed (use assms registered in \<open>simp add: reify.simps\<close>)
qed

lemma same_interned:
  fixes rec :: "rval \<Rightarrow> ('w encoder, unit) go"
  assumes rec: "\<And>z. rv_size z < rv_size y \<Longrightarrow> has_type U (fst z) (snd (snd z)) \<Longrightarrow>
      same_encoding forced tag (rec z) (EncodeValue (reify E R Q forced tag z))"
    and ty: "has_type U (fst y) (snd (snd y))" and i: "internable (fst y)"
  shows "same_encoding forced tag (encodeInternedValue_r rec (snd (snd y)))
    (encodeInternedInterfaceValue EncodeValue (interned (reify E R Q forced tag) y))"
proof -
  obtain t a v where y: "y = (t, a, v)" by (metis prod_cases3)
  consider (s) s where "v = VString s" | (nil) "v = VIface None" | (dyn) u z where "v = VIface (Some (u, z))"
    using internable_value [OF i ty] y by (metis option.exhaust prod.exhaust_sel snd_conv)
  then show ?thesis
  proof cases
    case (dyn u z)
    have z: "has_type U u z" "concrete u" using has_type_dynamic(2,3) ty y dyn by auto
    have r: "same_encoding forced tag (rec (u, False, z)) (EncodeValue (reify E R Q forced tag (u, False, z)))"
      by (rule rec) (use y dyn z in auto)
    have "encodeInternedInterfaceValue EncodeValue (reify E R Q forced tag (u, False, z)) =
        (EncodeValue (reify E R Q forced tag (u, False, z)) :: ('w encoder, unit) go)"
      if "\<And>s. z \<noteq> VString s"
      by (rule encodeInterned_other) (use reify_string [OF _ z] that in blast)
    then show ?thesis using r
      by (cases z) (simp_all add: y dyn interned_def encodeInternedValue_r_def,
          simp add: encodeInternedInterfaceValue_def encodeInternedStringValue_def same_refl)
  qed (simp_all add: y interned_def encodeInternedValue_r_def encodeInternedInterfaceValue_def same_refl)
qed

lemma same_field:
  fixes rec :: "rval \<Rightarrow> ('w encoder, unit) go"
  assumes rec: "\<And>z. rv_size z < rv_size x \<Longrightarrow> has_type U (fst z) (snd (snd z)) \<Longrightarrow>
      same_encoding forced tag (rec z) (EncodeValue (reify E R Q forced tag z))"
    and ty: "has_type U (fst x) (snd (snd x))" and f: "f \<in> set (f_List (struct_fields E (fst x) tag))"
  shows "same_encoding forced tag (field_EncodeValue_r rec x f)
    (field_EncodeValue EncodeValue (reify_field (reify E R Q forced tag) x f))"
proof (cases "fieldByIndex (fld_index f) x")
  case (Some y)
  have y: "rv_size y < rv_size x" "has_type U (fst y) (snd (snd y))" "type_at (fld_index f) (fst x) = Some (fst y)"
    using fieldByIndex_size [OF Some] has_type_fieldByIndex [OF Some ty] type_at_fieldByIndex [OF Some] .
  have "same_encoding forced tag (encodeInternedValue_r rec (snd (snd y)))
      (encodeInternedInterfaceValue EncodeValue (interned (reify E R Q forced tag) y))" if "fld_intern f"
    by (rule same_interned) (use rec y intern [OF f that y(3)] in auto)
  then show ?thesis
    using rec [OF y(1,2)] by (simp add: field_EncodeValue_r_def field_EncodeValue_def reify_field_def field_meta_def Some)
qed (simp add: field_EncodeValue_r_def field_EncodeValue_def reify_field_def same_refl)

lemma keeps_enc_field: "keeps settings (field_EncodeValue EncodeValue f)"
  unfolding field_EncodeValue_def encodeInternedInterfaceValue_def encodeInternedStringValue_def
  by (auto intro!: setting_frames split: option.split gval.split)

lemma same_struct:
  assumes rec: "\<And>z. rv_size z < rv_size x \<Longrightarrow> has_type U (fst z) (snd (snd z)) \<Longrightarrow>
      same_encoding forced tag (rec z) (EncodeValue (reify E R Q forced tag z))"
    and ty: "has_type U (fst x) (snd (snd x))" and fs: "fs = struct_fields E (fst x) tag"
  shows "same_encoding forced tag (encodeStructValue_r E rec x)
    (encodeStructValue EncodeValue (f_AsArray fs) (reify_fields (reify E R Q forced tag) fs x))"
proof -
  let ?g = "reify E R Q forced tag" and ?om = "OmitEmpty_r (isEmptyValue_r E forced tag) forced fs x"
  note field = same_field [OF rec ty, folded fs]
  have om: "f \<in> set (f_List fs)" if "f \<in> set ?om" for f using that by (simp add: OmitEmpty_r_def split: if_splits)
  have arr: "same_encoding forced tag (encodeStructValueAsArray_r rec x (f_List fs))
      (encodeStructValueAsArray EncodeValue (reify_fields ?g fs x))"
    unfolding encodeStructValueAsArray_r_def encodeStructValueAsArray_def reify_fields_def length_map
    by (intro same_bindE same_refl same_forE conjI setting_frames keeps_enc_field field)
  have name: "f_name (fst (reify_field ?g x f)) = fld_name f" for f by (simp add: reify_field_def field_meta_def)
  have map: "same_encoding forced tag
      (bindE (EncodeMapLen (int (length ?om))) (\<lambda>_. forE (\<lambda>f. bindE (EncodeString (fld_name f)) (\<lambda>_. field_EncodeValue_r rec x f)) ?om))
      (bindE (EncodeMapLen (int (length ?om))) (\<lambda>_.
        forE (\<lambda>f. bindE (EncodeString (f_name (fst f))) (\<lambda>_. field_EncodeValue EncodeValue f)) (map (reify_field ?g x) ?om)))"
    by (intro same_bindE same_refl same_forE conjI setting_frames enc_settings.keeps_intros keeps_enc_field)
      (auto simp: name intro!: same_bindE same_refl setting_frames field om)
  have "OmitEmpty forced (reify_fields ?g fs x) = map (reify_field ?g x) ?om"
    by (rule OmitEmpty_reify) (use ty fs empty_reify in auto)
  then show ?thesis
    using arr map by (simp add: same_encoding_def encodeStructValue_r_def encodeStructValue_def bindE_def [of "getS _"] Let_def flip: fs)
qed

lemma EncodeValue_reify:
  "has_type U (fst x) (snd (snd x)) \<Longrightarrow>
     same_encoding forced tag (EncodeValue_r E x) (EncodeValue (reify E R Q forced tag x))"
proof (induction x rule: wf_induct_rule [OF wf_part_of])
  case (1 x)
  obtain t a v where x: "x = (t, a, v)" by (metis prod_cases3)
  note IH = 1(1) [unfolded x] and ty = 1(2) [unfolded x fst_conv snd_conv]
  have part: "same_encoding forced tag (EncodeValue_r E y) (EncodeValue (reify E R Q forced tag y))"
    if "rv_size y < size v" "has_type U (fst y) (snd (snd y))" for y
    by (rule IH) (use that in \<open>auto intro: part_ofI\<close>)
  show ?case
  proof (cases "typeEncMap E t")
    case None
    note r = reify.simps [of E R Q forced tag "(t', a, w)" for t' w]
    have enc: "typeEncMap E t' = None \<Longrightarrow> EncodeValue_r E (t', a, w) = getEncoder_kind E (EncodeValue_r E) (t', a, w)" for t' w
      by (simp add: EncodeValue_r.simps [of E "(t', a, w)"] getEncoder_def)
    show ?thesis
    proof (cases t)
      case (TSlice u)
      then obtain b where v: "v = VSlice b" using ty by auto
      show ?thesis
      proof (cases b)
        case (Some b)
        let ?xs = "map (\<lambda>y. (u, True, y)) (take (snd b) (fst b))"
        have "same_encoding forced tag (encodeArrayValue (EncodeValue_r E) ?xs)
            (encodeArrayValue EncodeValue (map (reify E R Q forced tag) ?xs))"
          by (rule same_array, rule part)
            (use ty in \<open>cases b, auto simp: TSlice v Some simp del: rv.size intro: part_sizes dest: in_set_takeD\<close>)
        then show ?thesis
          using None by (simp add: enc r getEncoder_defs TSlice v Some x encodeSliceValue_def EncodeValue_simps o_def)
      qed (use None in \<open>simp add: enc r getEncoder_defs TSlice v x encodeSliceValue_def EncodeValue_simps same_refl\<close>)
    next
      case (TArray n u)
      then obtain vs where v: "v = VArray vs" using ty by auto
      have "same_encoding forced tag (encodeArrayValue (EncodeValue_r E) (map (\<lambda>y. (u, a, y)) vs))
          (encodeArrayValue EncodeValue (map (reify E R Q forced tag) (map (\<lambda>y. (u, a, y)) vs)))"
        by (rule same_array, rule part) (use ty in \<open>auto simp: TArray v simp del: rv.size intro: part_sizes\<close>)
      then show ?thesis
        using None by (simp add: enc r getEncoder_defs TArray v x EncodeValue_simps o_def)
    next
      case (TMap kt vt)
      then obtain m where v: "v = VMap m" using ty by auto
      show ?thesis
      proof (cases m)
        case (Some kvs)
        have "same_encoding forced tag (encodeMapValue (EncodeValue_r E) (Some (map_entries kt vt kvs)))
            (encodeMapValue EncodeValue (Some (map (\<lambda>kv. (reify E R Q forced tag (fst kv), reify E R Q forced tag (snd kv))) (map_entries kt vt kvs))))"
          by (rule same_map; rule part)
            (use ty in \<open>auto simp: map_entries_def TMap v Some simp del: rv.size intro: part_sizes\<close>)
        then show ?thesis using None
          by (simp add: enc r getEncoder_defs TMap v Some x EncodeValue_simps o_def map_entries_def same_refl)
      qed (use None in \<open>simp add: enc r getEncoder_defs TMap v x encodeMapValue_def EncodeValue_simps same_refl\<close>)
    next
      case (TPtr u)
      then obtain p where v: "v = VPtr p" using ty by auto
      have ptr: "same_encoding forced tag (encode_ptr (EncodeValue_r E) u p)
          (EncodeValue (case p of None \<Rightarrow> GPtr None | Some y \<Rightarrow> rptr u (reify E R Q forced tag (u, True, y))))"
        using part ty by (cases p) (simp_all add: encode_ptr_def ptrEncoderFunc_def EncodeValue_rptr EncodeValue_simps same_refl TPtr v)
      show ?thesis
      proof (cases "\<exists>i w m. \<not> elem_cached E u \<and> u = TNamed i w \<and> p_method E i = Some m")
        case True
        then obtain i w m where m: "\<not> elem_cached E u" "u = TNamed i w" "p_method E i = Some m" by blast
        have "encode_method m p = EncodeValue (reify_method (\<lambda>y. GPtr (Some (GPtr (Some (Q i y))))) (p = None) a m p)"
          by (rule encode_reify_method)
            (use custom [of i] m(3) ty in \<open>auto simp: EncodeValue_simps ptrEncoderFunc_def TPtr v m(2)\<close>)
        then show ?thesis using None m by (simp add: enc r getEncoder_defs TPtr v x same_refl)
      next
        case False
        then show ?thesis using None ptr
          by (auto simp: enc r getEncoder_defs TPtr v x split: gtype.split option.split)
      qed
    next
      case (TStruct ts fs m)
      show ?thesis
        using same_struct [of "(t, a, v)" forced tag "EncodeValue_r E" "struct_fields E t tag"] part ty None
        by (simp add: enc r getEncoder_defs TStruct x EncodeValue_simps)
    next
      case (TIface e)
      then obtain p where v: "v = VIface p" using ty by auto
      show ?thesis
        using None part ty by (cases p; cases e) (auto simp: enc r getEncoder_defs TIface v x EncodeValue_simps user_EncodeValue_def
            error_text_def encodeInterfaceValue_def same_refl)
    next
      case (TNamed i u)
      have u: "u = U i" and v: "has_type U (U i) v" using ty TNamed by simp_all
      have rec: "same_encoding forced tag (EncodeValue_r E (U i, a, v)) (EncodeValue (reify E R Q forced tag (U i, a, v)))"
        by (rule IH) (use v in \<open>auto simp: part_of_def TNamed u\<close>)
      have val: "encode_method m (receiver (U i) v) = EncodeValue (reify_method (Q i) emp a m (receiver (U i) v))"
        if "v_method E i = Some m" for m emp
        by (rule encode_reify_method) (use custom [of i] that v in \<open>auto simp: receiver_def split: if_splits\<close>)
      have adr: "encode_methodAddr m a v = EncodeValue (reify_methodAddr (Q i) emp a m v)" if "p_method E i = Some m" for m emp
        by (rule encode_reify_methodAddr) (use custom [of i] that v in auto)
      show ?thesis
        using None rec val adr by (auto simp: enc r getEncoder_defs TNamed u x same_refl split: option.split)
    qed (use None ty in \<open>auto simp: enc r getEncoder_defs x EncodeValue_simps same_refl encodeBoolValue_def encodeIntValue_def
        encodeInt8CondValue_def encodeInt16CondValue_def encodeInt32CondValue_def encodeInt64CondValue_def encodeUintValue_def
        encodeUint8CondValue_def encodeUint16CondValue_def encodeUint32CondValue_def encodeUint64CondValue_def
        encodeFloat32Value_def encodeFloat64Value_def encodeStringValue_def encodeByteSliceValue_def split: ikind.split\<close>)
  next
    case (Some fn)
    then have "EncodeValue_r E x = EncodeValue (R x)" "reify E R Q forced tag x = R x"
      using Some registered [OF Some ty] by (simp_all add: EncodeValue_r.simps [of E "(t, a, v)"] getEncoder_def x reify.simps)
    then show ?thesis by (simp add: same_refl)
  qed
qed

end

section \<open>The program that declares structs\<close>

definition RawMessage_value :: "nat \<Rightarrow> rv \<Rightarrow> gval" where
  "RawMessage_value i v = GRaw (Some (case v of VBytes (Some b) \<Rightarrow> vis b | _ \<Rightarrow> []))"

lemma type_at_gtype_of:
  assumes "getFields tag d = Inr fs" and "f \<in> set (f_List fs)"
  shows "type_at p (gtype_of tg d) = type_at p (TStruct (field_types tg d) [] [])"
  using assms(1)
proof (cases rule: getFields_cases)
  case (struct e m xs)
  then show ?thesis using underlying_gtype_of [of tg e m xs] type_at_struct by (fastforce simp: field_types_def)
qed (use assms(2) in \<open>simp add: newFields_def\<close>)

interpretation declared: reflection "package_renv tg ds c :: 'w renv" "\<lambda>_. TBytes" "\<lambda>_. GNil" RawMessage_value
  for tg ds c
proof
  let ?E = "package_renv tg ds c :: 'w renv"
  have fs: "struct_fields ?E t tag = newFields \<or>
      (\<exists>d. gtype_of tg d = t \<and> getFields tag d = Inr (struct_fields ?E t tag))" for t tag
    by (auto simp: package_renv_def declared_fields_def find_Some_iff split: option.split sum.split)
  show "f_hasOmitEmpty (struct_fields ?E t tag) = list_ex fld_omitEmpty (f_List (struct_fields ?E t tag))" for t tag
  proof (cases "struct_fields ?E t tag = newFields")
    case False
    then obtain d where d: "getFields tag d = Inr (struct_fields ?E t tag)" using fs by blast
    then show ?thesis using getFields_options [OF d, of tg] by (simp add: options_ok_def)
  qed (simp add: newFields_def)
  show "internable w"
    if f: "f \<in> set (f_List (struct_fields ?E t tag))" "fld_intern f" "type_at (fld_index f) t = Some w" for f t tag w
  proof -
    obtain d where d: "gtype_of tg d = t" "getFields tag d = Inr (struct_fields ?E t tag)"
      using fs [of t tag] f(1) by (auto simp: newFields_def)
    then have "interned_ok (field_types tg d) f" using getFields_options f(1) by (auto simp: options_ok_def)
    then show ?thesis using f type_at_gtype_of [OF d(2) f(1), of "fld_index f" tg] d(1) by (simp add: interned_ok_def)
  qed
  show "f v = EncodeValue (RawMessage_value i v) \<and> (\<forall>s. RawMessage_value i v = GString s \<longrightarrow> v = VString s) \<and>
      isEmptyValue forced (RawMessage_value i v) = isEmptyValue_r ?E forced tag (TNamed i TBytes, a, v)"
    if "v_method ?E i = Some (EncodeMsgpack f) \<or> p_method ?E i = Some (EncodeMsgpack f)" "has_type (\<lambda>_. TBytes) TBytes v"
    for f i v forced tag a
    using that by (auto simp: package_renv_def RawMessage_EncodeMsgpack_def [abs_def] RawMessage_value_def EncodeValue_simps
        isEmptyValue_simps isEmptyValue_r.simps isZeroer_def split: option.split)
qed (simp_all add: package_renv_def)

text \<open>
  C5: encoding by reflection refines encoding by value. For every program whose types satisfy the
  contract \<open>reflection\<close>, every well-typed value and every encoder, what \<open>getEncoder\<close> picks by kind,
  by method and by registration does exactly, errors and all, what \<open>EncodeValue\<close> does on the value
  that \<open>reify\<close> reads off; with this, all that is shown of \<open>EncodeValue\<close> holds of the encoder that users call.
\<close>

theorem EncodeValue_r_refines:
  assumes "reflection E U R Q" and "has_type U t v"
  shows "EncodeValue_r E (t, a, v) e =
    EncodeValue (reify E R Q (hasFlag (e_flags e) omitEmptyFlag) (e_structTag e) (t, a, v)) e"
  using reflection.EncodeValue_reify [OF assms(1), of "(t, a, v)"] assms(2) by (simp add: same_encoding_def)

lemma reify_example:
  "reify (package_renv [] [example_struct] c) R Q False []
     (gtype_of [] example_struct, False, VStruct [VInt 1, VStruct [VString [120]]]) =
   GStruct False [(\<lparr>f_name = [65], f_omitEmpty = False, f_intern = False\<rparr>, Some (GInt 1)),
     (\<lparr>f_name = [67], f_omitEmpty = False, f_intern = False\<rparr>, Some (GString [120]))]"
  by code_simp

theorem EncodeValue_r_refines_witness:
  "EncodeValue_r (package_renv [] [example_struct] False)
     (gtype_of [] example_struct, False, VStruct [VInt 1, VStruct [VString [120]]])
     (NewEncoder amd64 None :: nat encoder) =
   EncodeValue (GStruct False [(\<lparr>f_name = [65], f_omitEmpty = False, f_intern = False\<rparr>, Some (GInt 1)),
     (\<lparr>f_name = [67], f_omitEmpty = False, f_intern = False\<rparr>, Some (GString [120]))]) (NewEncoder amd64 None)"
proof -
  let ?e = "NewEncoder amd64 None :: nat encoder"
  have "has_type (\<lambda>_. TBytes) (gtype_of [] example_struct) (VStruct [VInt 1, VStruct [VString [120]]])"
    by (simp add: example_struct_def Let_def split: prod.split)
  from EncodeValue_r_refines [OF declared.reflection_axioms this, of "[]" "[example_struct]" False False ?e]
  show ?thesis
    by (simp add: reify_example NewEncoder_def Reset_def ResetDict_def ResetWriter_def hasFlag_def)
qed

section \<open>The fast paths of Encode\<close>

lemma EncodeTime_ext: "EncodeTime tm = makeExtEncoder timeExtID (Some (timeEncoder tm))"
  by (simp add: EncodeTime_def makeExtEncoder_def timeEncoder_def EncodeExtHeader_def bindE_assoc)

definition fast_types :: "gtype set" where
  "fast_types = {TString, TBytes, TInt KInt, TInt K64, TUint KInt, TUint K64, TBool, TFloat32, TFloat64, TTime}"

text \<open>
  C21: the fast paths of \<open>Encode\<close> are an optimisation only. Unless the program registers an encoder for
  one of their types, \<open>Encode\<close> does what encoding by reflection does, on every encoder, writer errors
  included; a \<^verbatim>\<open>float32\<close> that is a NaN is the one exception, whose payload only the fast path keeps.
\<close>

theorem Encode_any_equivalent:
  assumes "\<forall>t\<in>fast_types. typeEncMap E t = None" and "\<And>f. x = Some (TFloat32, VFloat32 f) \<Longrightarrow> \<not> f32_NaN f"
  shows "Encode_any E x = (case x of None \<Rightarrow> EncodeNil | Some (t, v) \<Rightarrow> EncodeValue_r E (t, False, v))"
proof (cases x)
  case (Some y)
  obtain t v where y: "y = (t, v)" by (metis prod.exhaust)
  have "Encode_any E (Some (t, v)) = EncodeValue_r E (t, False, v)"
  proof (cases "t \<in> fast_types")
    case True
    then have "EncodeValue_r E (t, False, v) = getEncoder_kind E (EncodeValue_r E) (t, False, v)"
      using assms(1) by (simp add: EncodeValue_r.simps [of E "(t, False, v)"] getEncoder_def)
    moreover have "\<not> f32_NaN f" if "t = TFloat32" "v = VFloat32 f" for f using assms(2) that Some y by simp
    ultimately show ?thesis using True
      by (cases v) (auto simp: Encode_any_def fast_types_def getEncoder_defs EncodeTime_ext encodeBoolValue_def encodeIntValue_def
          encodeInt64CondValue_def encodeUintValue_def encodeUint64CondValue_def encodeFloat32Value_def float32_of_Float_def
          encodeFloat64Value_def encodeStringValue_def encodeByteSliceValue_def)
  next
    case False
    then show ?thesis by (auto simp: Encode_any_def fast_types_def split: gtype.split ikind.split rv.split)
  qed
  then show ?thesis by (simp add: Some y)
qed (simp add: Encode_any_def)

theorem Encode_any_equivalent_witness:
  "Encode_any (package_renv [] [] True :: nat renv) (Some (TFloat32, VFloat32 0x3f800000)) =
   EncodeValue_r (package_renv [] [] True) (TFloat32, False, VFloat32 0x3f800000)"
proof -
  have "\<not> f32_NaN 0x3f800000" by code_simp
  then show ?thesis
    using Encode_any_equivalent [of "package_renv [] [] True :: nat renv" "Some (TFloat32, VFloat32 0x3f800000)"]
    by (simp add: package_renv_def)
qed

end
