(* ===== verification/Buffered_Reader.thy ===== *)
theory Buffered_Reader
  imports Decoder
begin

text \<open>
  The readers behind a \<open>Decoder\<close>: \<open>newBufferedReader\<close> and \<open>bufferedLenReader\<close> of \<^verbatim>\<open>decode.go\<close>, which put a
  \<^verbatim>\<open>bufio.Reader\<close> in front of a source that delivers its bytes in pieces, and the \<^verbatim>\<open>bytes.Reader\<close> of
  \<open>Unmarshal\<close>. Both refine the record \<open>reader\<close> that the decoder is modelled on.
\<close>

section \<open>Sources\<close>

text \<open>
  An \<^verbatim>\<open>io.Reader\<close>: the pieces that its next calls of \<^verbatim>\<open>Read\<close> deliver (a piece longer than the caller's buffer
  is delivered in parts), the error at its end, whether the last piece comes together with that
  error, and whether it has a \<^verbatim>\<open>Len\<close> method.
\<close>

record source =
  src_pieces :: "byte list list"
  src_end :: go_error
  src_eager :: bool
  src_hasLen :: bool

definition src_Read :: "nat \<Rightarrow> source \<Rightarrow> byte list \<times> go_error option \<times> source" where
  "src_Read n s =
     (case src_pieces s of
        [] \<Rightarrow> ([], Some (src_end s), s)
      | c # cs \<Rightarrow>
          if n < length c then (take n c, None, s\<lparr>src_pieces := drop n c # cs\<rparr>)
          else (c, if cs = [] \<and> src_eager s then Some (src_end s) else None, s\<lparr>src_pieces := cs\<rparr>))"

definition src_Len :: "source \<Rightarrow> nat" where
  "src_Len s = length (concat (src_pieces s))"

section \<open>\<^verbatim>\<open>bufio.Reader\<close>\<close>

text \<open>
  \<open>b_unread\<close> is \<^verbatim>\<open>buf[r:w]\<close>, \<open>b_pos\<close> is \<^verbatim>\<open>r\<close>, \<open>b_size\<close> the length of \<^verbatim>\<open>buf\<close>, \<open>b_last\<close> is \<^verbatim>\<open>lastByte\<close>. Sources deliver
  something or fail, so that the loop of \<^verbatim>\<open>fill\<close> ends with its first turn.
\<close>

record bufio =
  b_unread :: "byte list"
  b_pos :: nat
  b_size :: nat
  b_err :: "go_error option"
  b_last :: "byte option"
  b_src :: source

definition br_fill :: "bufio \<Rightarrow> bufio" where
  "br_fill b =
     (case src_Read (b_size b - length (b_unread b)) (b_src b) of (bs, err, s) \<Rightarrow>
        b\<lparr>b_pos := 0, b_unread := b_unread b @ bs, b_err := err, b_src := s\<rparr>)"

definition br_take_byte :: "bufio \<Rightarrow> (go_error + byte) \<times> bufio" where
  "br_take_byte b =
     (Inr (hd (b_unread b)), b\<lparr>b_unread := tl (b_unread b), b_pos := b_pos b + 1, b_last := Some (hd (b_unread b))\<rparr>)"

definition br_ReadByte :: "bufio \<Rightarrow> (go_error + byte) \<times> bufio" where
  "br_ReadByte b =
     (if b_unread b \<noteq> [] then br_take_byte b
      else case b_err b of
        Some e \<Rightarrow> (Inl e, b\<lparr>b_err := None\<rparr>)
      | None \<Rightarrow>
          let b = br_fill b
          in if b_unread b \<noteq> [] then br_take_byte b
             else (Inl (the (b_err b)), b\<lparr>b_err := None\<rparr>))"

definition br_UnreadByte :: "bufio \<Rightarrow> go_error option \<times> bufio" where
  "br_UnreadByte b =
     (case b_last b of
        None \<Rightarrow> (Some ErrInvalidUnreadByte, b)
      | Some c \<Rightarrow>
          if b_pos b = 0 \<and> b_unread b \<noteq> [] then (Some ErrInvalidUnreadByte, b)
          else (None, b\<lparr>b_pos := b_pos b - 1, b_unread := c # b_unread b, b_last := None\<rparr>))"

definition br_copy :: "nat \<Rightarrow> bufio \<Rightarrow> byte list \<times> go_error option \<times> bufio" where
  "br_copy n b =
     (let bs = take n (b_unread b)
      in (bs, None, b\<lparr>b_unread := drop n (b_unread b), b_pos := b_pos b + length bs, b_last := Some (last bs)\<rparr>))"

text \<open>\<^verbatim>\<open>Read\<close> into a buffer of \<open>n\<close> bytes: a long read into an empty buffer goes to the source directly.\<close>

definition br_Read :: "nat \<Rightarrow> bufio \<Rightarrow> byte list \<times> go_error option \<times> bufio" where
  "br_Read n b =
     (if n = 0 then
        (if b_unread b \<noteq> [] then ([], None, b) else ([], b_err b, b\<lparr>b_err := None\<rparr>))
      else if b_unread b \<noteq> [] then br_copy n b
      else case b_err b of
        Some e \<Rightarrow> ([], Some e, b\<lparr>b_err := None\<rparr>)
      | None \<Rightarrow>
          if n \<ge> b_size b then
            (case src_Read n (b_src b) of (bs, err, s) \<Rightarrow>
               (bs, err, b\<lparr>b_src := s, b_last := (if bs = [] then b_last b else Some (last bs))\<rparr>))
          else
            (case src_Read (b_size b) (b_src b) of (bs, err, s) \<Rightarrow>
               let b = b\<lparr>b_pos := 0, b_unread := bs, b_err := err, b_src := s\<rparr>
               in if bs = [] then ([], b_err b, b\<lparr>b_err := None\<rparr>) else br_copy n b))"

text \<open>
  \<^verbatim>\<open>io.ReadFull\<close>, with the bytes read so far; the fuel \<open>n + 1\<close> is enough for \<open>n\<close> bytes, as each call of
  \<^verbatim>\<open>Read\<close> delivers something or fails. \<open>None\<close> would be a loop that goes on.
\<close>

primrec br_ReadFull_loop :: "nat \<Rightarrow> nat \<Rightarrow> byte list \<Rightarrow> bufio \<Rightarrow> (go_error option \<times> byte list \<times> bufio) option" where
  "br_ReadFull_loop 0 n got b = None"
| "br_ReadFull_loop (Suc f) n got b =
     (if n \<le> length got then Some (None, got, b)
      else case br_Read (n - length got) b of (bs, err, b) \<Rightarrow>
        (case err of
           None \<Rightarrow> br_ReadFull_loop f n (got @ bs) b
         | Some e \<Rightarrow>
             if n \<le> length (got @ bs) then Some (None, got @ bs, b)
             else Some (Some (if e = EOF \<and> got @ bs \<noteq> [] then ErrUnexpectedEOF else e), got @ bs, b)))"

definition br_ReadFull :: "nat \<Rightarrow> bufio \<Rightarrow> (go_error option \<times> byte list \<times> bufio) option" where
  "br_ReadFull n b = br_ReadFull_loop (Suc n) n [] b"

text \<open>\<open>bufferedLenReader.Len\<close>; a plain \<^verbatim>\<open>bufio.Reader\<close> has no such method.\<close>

definition bufferedLenReader_Len :: "bufio \<Rightarrow> nat option" where
  "bufferedLenReader_Len b = (if src_hasLen (b_src b) then Some (length (b_unread b) + src_Len (b_src b)) else None)"

definition newBufferedReader :: "source \<Rightarrow> bufio" where
  "newBufferedReader s =
     \<lparr>b_unread = [], b_pos = 0, b_size = 4096, b_err = None, b_last = None, b_src = s\<rparr>"

section \<open>\<^verbatim>\<open>bytes.Reader\<close>\<close>

record bytes_reader =
  by_s :: "byte list"
  by_i :: nat

definition by_ReadByte :: "bytes_reader \<Rightarrow> (go_error + byte) \<times> bytes_reader" where
  "by_ReadByte b =
     (if by_i b \<ge> length (by_s b) then (Inl EOF, b) else (Inr (by_s b ! by_i b), b\<lparr>by_i := by_i b + 1\<rparr>))"

definition by_UnreadByte :: "bytes_reader \<Rightarrow> go_error option \<times> bytes_reader" where
  "by_UnreadByte b =
     (if by_i b = 0 then (Some ErrInvalidUnreadByte, b) else (None, b\<lparr>by_i := by_i b - 1\<rparr>))"

text \<open>\<^verbatim>\<open>io.ReadFull\<close>: one call of \<^verbatim>\<open>Read\<close> delivers all there is, a second one fails.\<close>

definition by_ReadFull :: "nat \<Rightarrow> bytes_reader \<Rightarrow> (go_error option \<times> byte list \<times> bytes_reader) option" where
  "by_ReadFull n b =
     Some (let bs = take n (drop (by_i b) (by_s b))
           in (if length bs = n then None else Some (if bs = [] then EOF else ErrUnexpectedEOF),
               bs, b\<lparr>by_i := by_i b + length bs\<rparr>))"

definition by_Len :: "bytes_reader \<Rightarrow> nat option" where
  "by_Len b = Some (length (by_s b) - by_i b)"

section \<open>What the decoder relies on\<close>

text \<open>
  The decoder reads a byte, looks at the next one (a \<^verbatim>\<open>ReadByte\<close> that is undone), reads a number of bytes
  and asks how many are left.
\<close>

datatype read_op = Read_byte | Peek_byte | Read_full nat | Remaining

datatype read_result =
    Got "go_error + byte"
  | Got_full "go_error option" "byte list"
  | Left "nat option"
  | Unread_failed
  | Endless

definition step_with ::
  "('b \<Rightarrow> (go_error + byte) \<times> 'b) \<Rightarrow> ('b \<Rightarrow> go_error option \<times> 'b) \<Rightarrow>
    (nat \<Rightarrow> 'b \<Rightarrow> (go_error option \<times> byte list \<times> 'b) option) \<Rightarrow> ('b \<Rightarrow> nat option) \<Rightarrow>
    read_op \<Rightarrow> 'b \<Rightarrow> read_result \<times> 'b" where
  "step_with rb ub rf len op b =
     (case op of
        Read_byte \<Rightarrow> (case rb b of (r, b) \<Rightarrow> (Got r, b))
      | Peek_byte \<Rightarrow>
          (case rb b of
             (Inl e, b) \<Rightarrow> (Got (Inl e), b)
           | (Inr c, b) \<Rightarrow> (case ub b of (None, b) \<Rightarrow> (Got (Inr c), b) | (Some e, b) \<Rightarrow> (Unread_failed, b)))
      | Read_full n \<Rightarrow> (case rf n b of None \<Rightarrow> (Endless, b) | Some (err, bs, b) \<Rightarrow> (Got_full err bs, b))
      | Remaining \<Rightarrow> (Left (len b), b))"

primrec run_with :: "('b \<Rightarrow> read_result \<times> 'b) list \<Rightarrow> 'b \<Rightarrow> read_result list" where
  "run_with [] b = []"
| "run_with (f # fs) b = (case f b of (r, b) \<Rightarrow> r # run_with fs b)"

definition reader_step :: "read_op \<Rightarrow> reader \<Rightarrow> read_result \<times> reader" where
  "reader_step =
     step_with ReadByte UnreadByte (\<lambda>n r. Some (io_ReadFull r n)) (\<lambda>r. if r_hasLen r then Some (length (r_rest r)) else None)"

definition bufio_step :: "read_op \<Rightarrow> bufio \<Rightarrow> read_result \<times> bufio" where
  "bufio_step = step_with br_ReadByte br_UnreadByte br_ReadFull bufferedLenReader_Len"

definition bytes_step :: "read_op \<Rightarrow> bytes_reader \<Rightarrow> read_result \<times> bytes_reader" where
  "bytes_step = step_with by_ReadByte by_UnreadByte by_ReadFull by_Len"

text \<open>An implementation of \<open>bufReader\<close>, related to the model by \<open>sim\<close>.\<close>

locale buf_reader =
  fixes rb :: "'b \<Rightarrow> (go_error + byte) \<times> 'b" and ub :: "'b \<Rightarrow> go_error option \<times> 'b"
    and rf :: "nat \<Rightarrow> 'b \<Rightarrow> (go_error option \<times> byte list \<times> 'b) option" and len :: "'b \<Rightarrow> nat option"
    and sim :: "'b \<Rightarrow> reader \<Rightarrow> bool"
  assumes sim_ReadByte: "sim b r \<Longrightarrow> ReadByte r = (x, r') \<Longrightarrow> \<exists>b'. rb b = (x, b') \<and> sim b' r'"
    and sim_UnreadByte: "sim b r \<Longrightarrow> r_last r = Some c \<Longrightarrow>
      \<exists>b'. ub b = (None, b') \<and> sim b' (r\<lparr>r_rest := c # r_rest r, r_last := None\<rparr>)"
    and sim_ReadFull: "sim b r \<Longrightarrow> io_ReadFull r n = (err, bs, r') \<Longrightarrow> \<exists>b'. rf n b = Some (err, bs, b') \<and> sim b' r'"
    and sim_len: "sim b r \<Longrightarrow> len b = (if r_hasLen r then Some (length (r_rest r)) else None)"
begin

lemma sim_step:
  assumes "sim b r" and "reader_step op r = (x, r')"
  shows "\<exists>b'. step_with rb ub rf len op b = (x, b') \<and> sim b' r'"
proof (cases op)
  case Read_byte
  then show ?thesis
    using assms sim_ReadByte [OF assms(1)] by (auto simp: reader_step_def step_with_def split: prod.splits)
next
  case Peek_byte
  obtain y r1 where y: "ReadByte r = (y, r1)" by fastforce
  obtain b1 where b1: "rb b = (y, b1)" "sim b1 r1" using sim_ReadByte [OF assms(1) y] by blast
  show ?thesis
  proof (cases y)
    case (Inl e)
    then show ?thesis using assms(2) y b1 by (auto simp: reader_step_def step_with_def Peek_byte)
  next
    case (Inr c)
    then have "r_last r1 = Some c" using y by (auto simp: ReadByte_def split: list.splits)
    then show ?thesis
      using sim_UnreadByte [OF b1(2)] assms(2) y b1(1) Inr
      by (auto simp: reader_step_def step_with_def Peek_byte UnreadByte_def)
  qed
next
  case (Read_full n)
  obtain err bs r1 where "io_ReadFull r n = (err, bs, r1)" by (metis prod_cases3)
  with sim_ReadFull [OF assms(1)] show ?thesis
    using assms(2) by (fastforce simp: reader_step_def step_with_def Read_full)
next
  case Remaining
  then show ?thesis using assms sim_len [OF assms(1)] by (auto simp: reader_step_def step_with_def)
qed

lemma sim_runs: "sim b r \<Longrightarrow> run_with (map (step_with rb ub rf len) ops) b = run_with (map reader_step ops) r"
proof (induction ops arbitrary: b r)
  case (Cons op ops)
  obtain x r' where "reader_step op r = (x, r')" by fastforce
  with sim_step [OF Cons.prems] Cons.IH show ?case by fastforce
qed simp

end

section \<open>Both refine the model\<close>

definition src_ok :: "source \<Rightarrow> bool" where
  "src_ok s \<longleftrightarrow> [] \<notin> set (src_pieces s)"

definition bufio_holds :: "bufio \<Rightarrow> reader \<Rightarrow> bool" where
  "bufio_holds b r \<longleftrightarrow>
     src_ok (b_src b) \<and> 0 < b_size b \<and>
     (\<forall>e. b_err b = Some e \<longrightarrow> src_pieces (b_src b) = [] \<and> e = src_end (b_src b)) \<and>
     r = \<lparr>r_rest = b_unread b @ concat (src_pieces (b_src b)), r_last = b_last b, r_end = src_end (b_src b),
          r_hasLen = src_hasLen (b_src b)\<rparr>"

text \<open>The last byte can be put back.\<close>

definition bufio_sim :: "bufio \<Rightarrow> reader \<Rightarrow> bool" where
  "bufio_sim b r \<longleftrightarrow> bufio_holds b r \<and> (b_last b \<noteq> None \<longrightarrow> 0 < b_pos b \<or> b_unread b = [])"

lemmas bufio_defs = bufio_sim_def bufio_holds_def

lemma src_Read_ok:
  assumes "src_ok s" and "0 < n" and "src_Read n s = (bs, err, s')"
  shows "src_ok s'" and "length bs \<le> n" and "concat (src_pieces s) = bs @ concat (src_pieces s')"
    and "err = Some e \<Longrightarrow> src_pieces s' = [] \<and> e = src_end s" and "bs = [] \<Longrightarrow> err = Some (src_end s)"
    and "src_end s' = src_end s" and "src_hasLen s' = src_hasLen s"
proof -
  have "src_ok s' \<and> length bs \<le> n \<and> concat (src_pieces s) = bs @ concat (src_pieces s') \<and>
    (err = Some e \<longrightarrow> src_pieces s' = [] \<and> e = src_end s) \<and> (bs = [] \<longrightarrow> err = Some (src_end s)) \<and>
    src_end s' = src_end s \<and> src_hasLen s' = src_hasLen s"
  proof (cases "src_pieces s")
    case (Cons c cs)
    then have "concat (src_pieces s) = take n c @ concat (drop n c # cs)" by simp
    then show ?thesis
      using assms Cons by (auto simp: src_Read_def src_ok_def split: if_splits)
  qed (use assms in \<open>auto simp: src_Read_def\<close>)
  then show "src_ok s'" "length bs \<le> n" "concat (src_pieces s) = bs @ concat (src_pieces s')"
    "err = Some e \<Longrightarrow> src_pieces s' = [] \<and> e = src_end s" "bs = [] \<Longrightarrow> err = Some (src_end s)"
    "src_end s' = src_end s" "src_hasLen s' = src_hasLen s" by blast+
qed

text \<open>The reader after \<open>n\<close> bytes have been read from it, or all if there are fewer.\<close>

definition advance :: "nat \<Rightarrow> reader \<Rightarrow> reader" where
  "advance n r =
     r\<lparr>r_rest := drop n (r_rest r),
       r_last := (if take n (r_rest r) = [] then r_last r else Some (last (take n (r_rest r))))\<rparr>"

lemma advance_rest [simp]: "r_rest (advance n r) = drop n (r_rest r)" "r_end (advance n r) = r_end r"
  by (simp_all add: advance_def)

lemma advance_0 [simp]: "advance 0 r = r"
  by (simp add: advance_def)

lemma advance_add: "advance j (advance i r) = advance (i + j) r"
  by (auto simp: advance_def take_add last_append add.commute)

lemma io_ReadFull_advance:
  "io_ReadFull r n =
     (if n \<le> length (r_rest r) then None else Some (if r_end r = EOF \<and> r_rest r \<noteq> [] then ErrUnexpectedEOF else r_end r),
      take n (r_rest r), advance n r)"
proof -
  have "last (take n (r_rest r)) = r_rest r ! (n - 1)" if "0 < n" "n \<le> length (r_rest r)"
    using that by (subst last_conv_nth) (auto simp: min_def)
  then show ?thesis by (cases "n = 0") (auto simp: io_ReadFull_def advance_def)
qed

lemma br_Read_sim:
  assumes "bufio_sim b r" and "0 < n"
  obtains (read) bs err b' where "br_Read n b = (bs, err, b')" and "length bs \<le> n" and "take (length bs) (r_rest r) = bs"
    and "bufio_sim b' (advance (length bs) r)" and "bs = [] \<Longrightarrow> err \<noteq> None"
    and "\<And>e. err = Some e \<Longrightarrow> e = r_end r \<and> length bs = length (r_rest r)"
proof -
  have copy: thesis
    if c: "br_Read n b = br_copy n b1" and b1: "bufio_holds b1 r" "b_unread b1 \<noteq> []" for b1
  proof (rule read)
    let ?bs = "take n (b_unread b1)"
    show "br_Read n b = (?bs, None, b1\<lparr>b_unread := drop n (b_unread b1), b_pos := b_pos b1 + length ?bs, b_last := Some (last ?bs)\<rparr>)"
      by (simp add: c br_copy_def Let_def)
    show "bufio_sim (b1\<lparr>b_unread := drop n (b_unread b1), b_pos := b_pos b1 + length ?bs, b_last := Some (last ?bs)\<rparr>)
        (advance (length ?bs) r)"
      using b1 assms(2) by (auto simp: bufio_defs advance_def min_def)
  qed (use b1 assms(2) in \<open>auto simp: bufio_defs min_def\<close>)
  show thesis
  proof (cases "b_unread b = []")
    case False
    then show ?thesis using assms by (intro copy [of b]) (simp_all add: br_Read_def bufio_sim_def)
  next
    case True
    show ?thesis
    proof (cases "b_err b")
      case (Some e)
      then have "br_Read n b = ([], Some e, b\<lparr>b_err := None\<rparr>)" "e = r_end r" "r_rest r = []" "bufio_sim (b\<lparr>b_err := None\<rparr>) r"
        using assms True by (auto simp: br_Read_def bufio_defs)
      then show ?thesis by (intro read) auto
    next
      case None
      have ok: "src_ok (b_src b)" "0 < b_size b" "b_last b \<noteq> None \<longrightarrow> 0 < b_pos b \<or> b_unread b = []"
        and r_eq: "r = \<lparr>r_rest = concat (src_pieces (b_src b)), r_last = b_last b, r_end = src_end (b_src b),
          r_hasLen = src_hasLen (b_src b)\<rparr>"
        using assms(1) True by (simp_all add: bufio_defs)
      show ?thesis
      proof (cases "b_size b \<le> n")
        case long: True
        obtain bs err s where rd: "src_Read n (b_src b) = (bs, err, s)" by (metis prod_cases3)
        note s = src_Read_ok [OF ok(1) assms(2) rd]
        have r: "r_rest r = bs @ concat (src_pieces s)" "r_end r = src_end (b_src b)" using s(3) by (simp_all add: r_eq)
        show ?thesis
        proof (rule read)
          show "br_Read n b = (bs, err, b\<lparr>b_src := s, b_last := (if bs = [] then b_last b else Some (last bs))\<rparr>)"
            using assms(2) True None long rd by (simp add: br_Read_def)
          show "bufio_sim (b\<lparr>b_src := s, b_last := (if bs = [] then b_last b else Some (last bs))\<rparr>) (advance (length bs) r)"
            using ok s(1,3,6,7) True None by (simp add: bufio_defs advance_def r_eq)
          show "err \<noteq> None" if "bs = []" using s(5) [OF that] by simp
          show "e = r_end r \<and> length bs = length (r_rest r)" if "err = Some e" for e
            using s(4) [OF that] r by simp
        qed (simp_all add: r s(2))
      next
        case short: False
        obtain bs err s where rd: "src_Read (b_size b) (b_src b) = (bs, err, s)" by (metis prod_cases3)
        note s = src_Read_ok [OF ok(1,2) rd]
        let ?b = "b\<lparr>b_pos := 0, b_unread := bs, b_err := err, b_src := s\<rparr>"
        have b: "bufio_holds ?b r" using ok(2) s(1,3,4,6,7) by (simp add: bufio_holds_def r_eq)
        show ?thesis
        proof (cases "bs = []")
          case True
          have "br_Read n b = ([], err, ?b\<lparr>b_err := None\<rparr>)"
            using short None assms(2) rd \<open>b_unread b = []\<close> True by (simp add: br_Read_def)
          moreover have "bufio_sim (?b\<lparr>b_err := None\<rparr>) r" using ok s(1,3,6,7) True by (simp add: bufio_defs r_eq)
          moreover have "err = Some (r_end r)" "r_rest r = []"
            using s(3) s(5) [OF True] s(4) [OF s(5) [OF True]] True by (simp_all add: r_eq)
          ultimately show ?thesis by (intro read [of "[]" err "?b\<lparr>b_err := None\<rparr>"]) simp_all
        next
          case False
          have "br_Read n b = br_copy n ?b"
            using short None assms(2) rd \<open>b_unread b = []\<close> False by (simp add: br_Read_def)
          with b False show ?thesis by (intro copy [of ?b]) simp_all
        qed
      qed
    qed
  qed
qed

lemma br_ReadFull_loop_sim:
  "bufio_sim b r \<Longrightarrow> length got \<le> n \<Longrightarrow> n - length got < f \<Longrightarrow>
     \<exists>b'. br_ReadFull_loop f n got b =
       Some (if n - length got \<le> length (r_rest r) then None
             else Some (if r_end r = EOF \<and> got @ r_rest r \<noteq> [] then ErrUnexpectedEOF else r_end r),
             got @ take (n - length got) (r_rest r), b') \<and>
       bufio_sim b' (advance (n - length got) r)"
proof (induction f arbitrary: got b r)
  case (Suc f)
  show ?case
  proof (cases "length got = n")
    case False
    then have n: "0 < n - length got" using Suc.prems(2) by simp
    obtain bs err b' where rd: "br_Read (n - length got) b = (bs, err, b')" "length bs \<le> n - length got"
      "take (length bs) (r_rest r) = bs" "bufio_sim b' (advance (length bs) r)" "bs = [] \<Longrightarrow> err \<noteq> None"
      "\<And>e. err = Some e \<Longrightarrow> e = r_end r \<and> length bs = length (r_rest r)"
      by (rule br_Read_sim [OF Suc.prems(1) n]) (rule that)
    have len: "length bs \<le> length (r_rest r)" using arg_cong [OF rd(3), of length] by simp
    show ?thesis
    proof (cases err)
      case None
      then have "bs \<noteq> []" using rd(5) by auto
      then have "n - length (got @ bs) < f" "length (got @ bs) \<le> n" using Suc.prems(3) rd(2) n by (cases bs; simp)+
      from Suc.IH [OF rd(4) this(2,1)]
      obtain b'' where b'': "br_ReadFull_loop f n (got @ bs) b' =
          Some (if n - length (got @ bs) \<le> length (drop (length bs) (r_rest r)) then None
                else Some (if r_end r = EOF \<and> (got @ bs) @ drop (length bs) (r_rest r) \<noteq> [] then ErrUnexpectedEOF else r_end r),
                (got @ bs) @ take (n - length (got @ bs)) (drop (length bs) (r_rest r)), b'')"
        "bufio_sim b'' (advance (n - length (got @ bs)) (advance (length bs) r))"
        by (simp only: advance_rest) blast
      have split: "bs @ drop (length bs) (r_rest r) = r_rest r" using append_take_drop_id [of "length bs" "r_rest r"] rd(3) by simp
      have "length bs + (n - length (got @ bs)) = n - length got" using rd(2) by simp
      moreover from this have "bs @ take (n - length (got @ bs)) (drop (length bs) (r_rest r)) = take (n - length got) (r_rest r)"
        using take_add [of "length bs" "n - length (got @ bs)" "r_rest r"] rd(3) by simp
      moreover have "n - length (got @ bs) \<le> length (drop (length bs) (r_rest r)) \<longleftrightarrow> n - length got \<le> length (r_rest r)"
        using len rd(2) by (auto simp: le_diff_conv)
      ultimately show ?thesis using b'' n None rd(1) split by (simp add: advance_add)
    next
      case (Some e)
      then have e: "e = r_end r" "length bs = length (r_rest r)" using rd(6) by auto
      then have bs: "bs = r_rest r" using rd(3) by simp
      have "advance (n - length got) r = advance (length bs) r" using e(2) rd(2) by (simp add: advance_def)
      then show ?thesis using rd(1,2,4) n Some e(1) bs by (auto simp: le_diff_conv)
    qed
  qed (use Suc.prems in simp)
qed simp

interpretation bufio: buf_reader br_ReadByte br_UnreadByte br_ReadFull bufferedLenReader_Len bufio_sim
proof
  fix b r x r'
  assume b: "bufio_sim b r"
  show "bufferedLenReader_Len b = (if r_hasLen r then Some (length (r_rest r)) else None)"
    using b by (auto simp: bufio_defs bufferedLenReader_Len_def src_Len_def)
  show "\<exists>b'. br_UnreadByte b = (None, b') \<and> bufio_sim b' (r\<lparr>r_rest := c # r_rest r, r_last := None\<rparr>)"
    if "r_last r = Some c" for c
    using b that by (auto simp: bufio_defs br_UnreadByte_def)
  show "\<exists>b'. br_ReadFull n b = Some (err, bs, b') \<and> bufio_sim b' r'" if "io_ReadFull r n = (err, bs, r')" for n err bs r'
    using br_ReadFull_loop_sim [OF b, of "[]" n "Suc n"] that by (auto simp: br_ReadFull_def io_ReadFull_advance)
  show "\<exists>b'. br_ReadByte b = (x, b') \<and> bufio_sim b' r'" if r: "ReadByte r = (x, r')"
  proof (cases "b_unread b")
    case Nil
    show ?thesis
    proof (cases "b_err b")
      case None
      have ok: "src_ok (b_src b)" "0 < b_size b" using b by (simp_all add: bufio_defs)
      obtain bs err s where rd: "src_Read (b_size b) (b_src b) = (bs, err, s)" by (metis prod_cases3)
      note s = src_Read_ok [OF ok rd]
      have r_eq: "r = \<lparr>r_rest = bs @ concat (src_pieces s), r_last = b_last b, r_end = src_end s, r_hasLen = src_hasLen s\<rparr>"
        using b Nil s(3,6,7) by (simp add: bufio_defs)
      show ?thesis
      proof (cases bs)
        case Nil
        then have e: "err = Some (src_end s)" "src_pieces s = []" using s(4,5,6) by auto
        then have "x = Inl (src_end s)" "r' = r" using r Nil by (simp_all add: r_eq ReadByte_def)
        then show ?thesis using \<open>b_unread b = []\<close> None rd Nil e s(1) ok(2)
          by (simp add: br_ReadByte_def br_fill_def bufio_defs r_eq)
      next
        case (Cons c cs)
        then have "x = Inr c" "r' = r\<lparr>r_rest := cs @ concat (src_pieces s), r_last := Some c\<rparr>"
          using r by (simp_all add: r_eq ReadByte_def)
        then show ?thesis using \<open>b_unread b = []\<close> None rd Cons s(1,4,6) ok(2)
          by (simp add: br_ReadByte_def br_fill_def br_take_byte_def bufio_defs r_eq)
      qed
    qed (use b r Nil in \<open>auto simp: br_ReadByte_def ReadByte_def bufio_defs\<close>)
  qed (use b r in \<open>auto simp: br_ReadByte_def br_take_byte_def ReadByte_def bufio_defs\<close>)
qed

definition bytes_sim :: "bytes_reader \<Rightarrow> reader \<Rightarrow> bool" where
  "bytes_sim b r \<longleftrightarrow>
     by_i b \<le> length (by_s b) \<and> r_rest r = drop (by_i b) (by_s b) \<and> r_end r = EOF \<and> r_hasLen r \<and>
     (\<forall>c. r_last r = Some c \<longrightarrow> 0 < by_i b \<and> by_s b ! (by_i b - 1) = c)"

interpretation bytes: buf_reader by_ReadByte by_UnreadByte by_ReadFull by_Len bytes_sim
proof
  fix b r x r'
  assume b: "bytes_sim b r"
  show "by_Len b = (if r_hasLen r then Some (length (r_rest r)) else None)"
    using b by (simp add: bytes_sim_def by_Len_def)
  show "\<exists>b'. by_UnreadByte b = (None, b') \<and> bytes_sim b' (r\<lparr>r_rest := c # r_rest r, r_last := None\<rparr>)"
    if "r_last r = Some c" for c
  proof -
    have i: "0 < by_i b" "by_s b ! (by_i b - 1) = c" "by_i b \<le> length (by_s b)" using b that by (simp_all add: bytes_sim_def)
    then have "drop (by_i b - 1) (by_s b) = c # drop (by_i b) (by_s b)"
      using Cons_nth_drop_Suc [of "by_i b - 1" "by_s b"] by simp
    then show ?thesis using b i by (simp add: bytes_sim_def by_UnreadByte_def)
  qed
  show "\<exists>b'. by_ReadByte b = (x, b') \<and> bytes_sim b' r'" if "ReadByte r = (x, r')"
    using b that Cons_nth_drop_Suc [of "by_i b" "by_s b"]
    by (cases "by_i b < length (by_s b)") (auto simp: bytes_sim_def by_ReadByte_def ReadByte_def split: list.splits)
  show "\<exists>b'. by_ReadFull n b = Some (err, bs, b') \<and> bytes_sim b' r'" if "io_ReadFull r n = (err, bs, r')" for n err bs r'
  proof -
    have "last (take n (drop (by_i b) (by_s b))) = by_s b ! (by_i b + length (take n (drop (by_i b) (by_s b))) - 1)"
      if "take n (drop (by_i b) (by_s b)) \<noteq> []"
      using that by (subst last_conv_nth) (auto simp: min_def)
    then show ?thesis
      using b that by (auto simp: bytes_sim_def by_ReadFull_def io_ReadFull_advance advance_def Let_def add.commute)
  qed
qed

lemma bufio_sim_new:
  "src_ok s \<Longrightarrow> bufio_sim (newBufferedReader s)
     \<lparr>r_rest = concat (src_pieces s), r_last = None, r_end = src_end s, r_hasLen = src_hasLen s\<rparr>"
  by (simp add: newBufferedReader_def bufio_defs)

text \<open>
  C20: buffering is invisible. However a source cuts its bytes into pieces, and whether or not its error
  comes with the last of them, a decoder that reads bytes, looks ahead, reads blocks of any length and asks for
  the remaining length sees through \<open>newBufferedReader\<close> the same bytes, lengths and errors as on the plain
  sequence of bytes; with a \<^verbatim>\<open>Len\<close> method of the source the remaining length is exact, counting what
  is buffered. The same holds of the \<^verbatim>\<open>bytes.Reader\<close> that \<open>Unmarshal\<close> uses.
\<close>

theorem buffering_invisible:
  assumes "src_ok s"
  shows "run_with (map bufio_step ops) (newBufferedReader s) = run_with (map reader_step ops)
      \<lparr>r_rest = concat (src_pieces s), r_last = None, r_end = src_end s, r_hasLen = src_hasLen s\<rparr> \<and>
    run_with (map bytes_step ops) \<lparr>by_s = bs, by_i = 0\<rparr> = run_with (map reader_step ops)
      \<lparr>r_rest = bs, r_last = None, r_end = EOF, r_hasLen = True\<rparr>"
proof
  show "run_with (map bufio_step ops) (newBufferedReader s) = run_with (map reader_step ops)
      \<lparr>r_rest = concat (src_pieces s), r_last = None, r_end = src_end s, r_hasLen = src_hasLen s\<rparr>"
    unfolding bufio_step_def by (rule bufio.sim_runs [OF bufio_sim_new [OF assms]])
  show "run_with (map bytes_step ops) \<lparr>by_s = bs, by_i = 0\<rparr> = run_with (map reader_step ops)
      \<lparr>r_rest = bs, r_last = None, r_end = EOF, r_hasLen = True\<rparr>"
    unfolding bytes_step_def by (rule bytes.sim_runs) (simp add: bytes_sim_def)
qed

theorem buffering_invisible_witness:
  "run_with (map bufio_step [Peek_byte, Read_byte, Read_full 2, Remaining, Read_full 5])
     (newBufferedReader \<lparr>src_pieces = [[0x92], [5, 0xa2, 104]], src_end = EOF, src_eager = True, src_hasLen = True\<rparr>) =
   [Got (Inr 0x92), Got (Inr 0x92), Got_full None [5, 0xa2], Left (Some 1), Got_full (Some ErrUnexpectedEOF) [104]]"
  using buffering_invisible [of "\<lparr>src_pieces = [[0x92], [5, 0xa2, 104]], src_end = EOF, src_eager = True, src_hasLen = True\<rparr>"
      "[Peek_byte, Read_byte, Read_full 2, Remaining, Read_full 5]"]
  by (simp add: src_ok_def reader_step_def step_with_def ReadByte_def UnreadByte_def io_ReadFull_def)

section \<open>ReadFull\<close>

text \<open>\<open>Decoder.ReadFull\<close> into a buffer, whose contents afterwards are the result.\<close>

definition dec_ReadFull :: "byte slice \<Rightarrow> (decoder, byte slice) go" where
  "dec_ReadFull buf d =
     (case d_r d of
        None \<Rightarrow> (Inl EOF, d)
      | Some r \<Rightarrow>
          (case readN (d_plat d) r (Some buf) (length (vis buf)) of
             (None, b, r') \<Rightarrow> (Inr b, d\<lparr>d_r := Some r'\<rparr>)
           | (Some e, b, r') \<Rightarrow> (Inl e, d\<lparr>d_r := Some r'\<rparr>)))"

lemma dec_ReadFull_exact:
  assumes "d_r d = Some r" and "length (vis buf) \<le> length (r_rest r)"
  obtains b d' where "dec_ReadFull buf d = (Inr b, d')" and "vis b = take (length (vis buf)) (r_rest r)"
    and "map_option r_rest (d_r d') = Some (drop (length (vis buf)) (r_rest r))"
proof -
  obtain e b r' where rd: "readN (d_plat d) r (Some buf) (length (vis buf)) = (e, b, r')" by (metis prod_cases3)
  with readN_ok [of "length (vis buf)" r "d_plat d" "Some buf"] assms(2)
  have "e = None" "vis b = take (length (vis buf)) (r_rest r)" "r_rest r' = drop (length (vis buf)) (r_rest r)"
    by (simp_all add: read_ok_def)
  then show ?thesis using assms(1) rd by (intro that [of b "d\<lparr>d_r := Some r'\<rparr>"]) (simp_all add: dec_ReadFull_def)
qed

end
