(* ===== verification/Appengine.thy ===== *)
theory Appengine
  imports Encode_Reflect String_Codec
begin

text \<open>
  The package \<^verbatim>\<open>msgpappengine\<close> (\<^verbatim>\<open>appengine.go\<close>): coders for the datastore's keys and cursors, registered
  with \<open>Register\<close> when the package is loaded. The datastore is a library outside the repository: the types
  \<^verbatim>\<open>ds.Key\<close> and \<^verbatim>\<open>ds.Cursor\<close>, \<^verbatim>\<open>Key.Encode\<close>, \<^verbatim>\<open>DecodeKey\<close>, \<^verbatim>\<open>Cursor.String\<close> and \<^verbatim>\<open>DecodeCursor\<close> are parameters.
\<close>

section \<open>Keys\<close>

text \<open>A key is a pointer, \<open>None\<close> if nil.\<close>

definition EncodeDatastoreKey :: "(rv \<Rightarrow> gostring) \<Rightarrow> rv option \<Rightarrow> ('w encoder, unit) go" where
  "EncodeDatastoreKey key_Encode key = (case key of None \<Rightarrow> EncodeNil | Some k \<Rightarrow> EncodeString (key_Encode k))"

definition DecodeDatastoreKey :: "(gostring \<Rightarrow> go_error + rv) \<Rightarrow> (decoder, rv option) go" where
  "DecodeDatastoreKey DecodeKey =
     bindE DecodeString (\<lambda>v.
       if v = [] then ret None
       else (case DecodeKey v of Inl err \<Rightarrow> fail err | Inr k \<Rightarrow> ret (Some k)))"

text \<open>
  The functions that are registered. A type assertion on a value of another type panics, and so does \<^verbatim>\<open>Set\<close>
  to a value of another type.
\<close>

definition conversion_panic :: go_error where
  "conversion_panic = Panic ''interface conversion''"

definition encodeDatastoreKeyValue :: "gtype \<Rightarrow> (rv \<Rightarrow> gostring) \<Rightarrow> rval \<Rightarrow> ('w encoder, unit) go" where
  "encodeDatastoreKeyValue key key_Encode x =
     (case x of (t, a, v) \<Rightarrow>
        if t \<noteq> TPtr key then fail conversion_panic
        else (case v of VPtr p \<Rightarrow> EncodeDatastoreKey key_Encode p | _ \<Rightarrow> fail conversion_panic))"

definition decodeDatastoreKeyValue ::
  "gtype \<Rightarrow> (gostring \<Rightarrow> go_error + rv) \<Rightarrow> gtype \<times> bool \<times> rv \<Rightarrow> (decoder, rv) go" where
  "decodeDatastoreKeyValue key DecodeKey x =
     bindE (DecodeDatastoreKey DecodeKey) (\<lambda>p.
       if fst x = TPtr key then set_rv (fst (snd x)) (VPtr p) else fail conversion_panic)"

section \<open>Cursors\<close>

definition encodeDatastoreCursorValue :: "gtype \<Rightarrow> (rv \<Rightarrow> gostring) \<Rightarrow> rval \<Rightarrow> ('w encoder, unit) go" where
  "encodeDatastoreCursorValue cursor cursor_String x =
     (case x of (t, a, v) \<Rightarrow>
        if t \<noteq> cursor then fail conversion_panic else Encode (GString (cursor_String v)))"

definition decodeDatastoreCursorValue ::
  "gtype \<Rightarrow> (gostring \<Rightarrow> go_error + rv) \<Rightarrow> gtype \<times> bool \<times> rv \<Rightarrow> (decoder, rv) go" where
  "decodeDatastoreCursorValue cursor DecodeCursor x =
     bindE DecodeString (\<lambda>s.
       case DecodeCursor s of
         Inl err \<Rightarrow> fail err
       | Inr c \<Rightarrow> if fst x = cursor then set_rv (fst (snd x)) c else fail conversion_panic)"

section \<open>Registration\<close>

record datastore =
  key_type :: gtype
  cursor_type :: gtype
  key_Encode :: "rv \<Rightarrow> gostring"
  DecodeKey :: "gostring \<Rightarrow> go_error + rv"
  cursor_String :: "rv \<Rightarrow> gostring"
  DecodeCursor :: "gostring \<Rightarrow> go_error + rv"

type_synonym 'w coder_maps =
  "(gtype \<Rightarrow> (rval \<Rightarrow> ('w encoder, unit) go) option) \<times> (gtype \<Rightarrow> (gtype \<times> bool \<times> rv \<Rightarrow> (decoder, rv) go) option)"

definition appengine_init :: "datastore \<Rightarrow> 'w coder_maps \<Rightarrow> 'w coder_maps" where
  "appengine_init D maps =
     Register (TPtr (cursor_type D)) (Some (encodeDatastoreCursorValue (cursor_type D) (cursor_String D)))
       (Some (decodeDatastoreCursorValue (cursor_type D) (DecodeCursor D)))
     (Register (TPtr (key_type D)) (Some (encodeDatastoreKeyValue (key_type D) (key_Encode D)))
       (Some (decodeDatastoreKeyValue (key_type D) (DecodeKey D))) maps)"

lemma appengine_coders:
  "fst (appengine_init D maps) (TPtr (cursor_type D)) = Some (encodeDatastoreCursorValue (cursor_type D) (cursor_String D))"
  "snd (appengine_init D maps) (TPtr (cursor_type D)) = Some (decodeDatastoreCursorValue (cursor_type D) (DecodeCursor D))"
  "key_type D \<noteq> cursor_type D \<Longrightarrow>
    fst (appengine_init D maps) (TPtr (key_type D)) = Some (encodeDatastoreKeyValue (key_type D) (key_Encode D))"
  "key_type D \<noteq> cursor_type D \<Longrightarrow>
    snd (appengine_init D maps) (TPtr (key_type D)) = Some (decodeDatastoreKeyValue (key_type D) (DecodeKey D))"
  by (simp_all add: appengine_init_def Register_def)

text \<open>The program's environment after the package is loaded.\<close>

definition with_appengine :: "datastore \<Rightarrow> 'w renv \<Rightarrow> 'w renv" where
  "with_appengine D E = E\<lparr>typeEncMap := fst (appengine_init D (typeEncMap E, \<lambda>_. None))\<rparr>"

section \<open>Keys survive\<close>

definition key_wire :: "datastore \<Rightarrow> rv option \<Rightarrow> byte list" where
  "key_wire D p = (case p of None \<Rightarrow> [Nil_c] | Some k \<Rightarrow> str_wire (key_Encode D k))"

text \<open>A key that the datastore's own string form gives back; that form is not empty.\<close>

definition key_ok :: "datastore \<Rightarrow> rv option \<Rightarrow> bool" where
  "key_ok D p \<longleftrightarrow> key_type D \<noteq> cursor_type D \<and>
     (case p of None \<Rightarrow> True
      | Some k \<Rightarrow> key_Encode D k \<noteq> [] \<and> length (key_Encode D k) < 2 ^ 32 \<and> DecodeKey D (key_Encode D k) = Inr k)"

lemma yields_nil_string:
  assumes "plain_dec k"
  shows "yields k [Nil_c] n DecodeString [] k"
proof -
  have "yields k [Nil_c] n (bindE readCode dec_string) [] k"
    unfolding string_via_len DecodeBytesLen_def bindE_assoc
    by (rule yields_code) (simp add: yields_ret bytesLen_def stringWithLen_def IsFixedString_def opcode_values del: ret_apply)
  then show ?thesis
    unfolding DecodeString_def
    by (intro yields_dec_flag, intro yields_dict) (use assms in \<open>simp add: plain_dec_def\<close>)
qed

interpretation key_codec: codec "\<lambda>p. EncodeValue_r (with_appengine D E) (TPtr (key_type D), a, VPtr p)"
  "decodeDatastoreKeyValue (key_type D) (DecodeKey D) (TPtr (key_type D), True, w)" "key_wire D" VPtr plain_strings
  "\<lambda>k. plain_dec k \<and> 32 < p_intBits (k_plat k)" "key_ok D"
  for D a w and E :: "'w renv"
proof unfold_locales
  fix out :: "'w \<Rightarrow> byte list" and k p
  assume "plain_strings k" and p: "key_ok D p"
  then have "emits out k (EncodeDatastoreKey (key_Encode D) p) (key_wire D p) k"
    by (cases p) (simp_all add: EncodeDatastoreKey_def key_wire_def emits_EncodeNil emits_EncodeString_plain)
  moreover have "EncodeValue_r (with_appengine D E) (TPtr (key_type D), a, VPtr p) = EncodeDatastoreKey (key_Encode D) p"
    using p by (simp add: EncodeValue_r.simps getEncoder_def with_appengine_def appengine_coders encodeDatastoreKeyValue_def key_ok_def)
  ultimately show "emits out k (EncodeValue_r (with_appengine D E) (TPtr (key_type D), a, VPtr p)) (key_wire D p) k" by simp
next
  fix k p n
  assume k: "plain_dec k \<and> 32 < p_intBits (k_plat k)" and p: "key_ok D p"
  have "yields k (key_wire D p) n (DecodeDatastoreKey (DecodeKey D)) p k"
  proof (cases p)
    case None
    then show ?thesis using k unfolding DecodeDatastoreKey_def key_wire_def
      by (auto intro!: yields_bind_ret [OF yields_nil_string])
  next
    case (Some x)
    then have "yields k (str_wire (key_Encode D x)) n DecodeString (key_Encode D x) k"
      using k p by (intro string_codec.reads) (simp_all add: key_ok_def)
    then show ?thesis using Some p unfolding DecodeDatastoreKey_def key_wire_def
      by (auto simp: key_ok_def intro!: yields_bind_ret)
  qed
  then show "yields k (key_wire D p) n
      (decodeDatastoreKeyValue (key_type D) (DecodeKey D) (TPtr (key_type D), True, w)) (VPtr p) k"
    unfolding decodeDatastoreKeyValue_def by (rule yields_bind_ret) (simp add: set_rv_def)
qed

text \<open>
  C40: datastore keys survive. A stream of keys, nil ones among them, that the functions registered by
  \<^verbatim>\<open>msgpappengine\<close> encode is decoded into the same keys, and nothing more is read, provided that the
  datastore decodes the string form of each key and that this form is not empty.
\<close>

theorem datastore_keys_roundtrip:
  assumes "enc_ok out e" and "plain_strings (conf e)" and "list_all (key_ok D) keys"
    and "forE (\<lambda>p. EncodeValue_r (with_appengine D E) (TPtr (key_type D), a, VPtr p)) keys e = (Inr (), e')"
    and "d_r d \<noteq> None" and "plain_dec (dconf_of d)" and "32 < p_intBits (d_plat d)"
    and "pending d = drop (length (written out e)) (written out e') @ rest"
  shows "\<exists>d'. collectE (length keys) (decodeDatastoreKeyValue (key_type D) (DecodeKey D) (TPtr (key_type D), True, w)) d =
    (Inr (map VPtr keys), d') \<and> pending d' = rest"
proof -
  have "plain_dec (dconf_of d) \<and> 32 < p_intBits (k_plat (dconf_of d))" using assms(6,7) by (simp add: dconf_of_def)
  from key_codec.stream [OF assms(1-5) this assms(8)] show ?thesis by blast
qed

text \<open>Keys that are their own string form.\<close>

definition string_datastore :: datastore where
  "string_datastore =
     \<lparr>key_type = TNamed 1 TString, cursor_type = TNamed 2 TString,
      key_Encode = (\<lambda>k. case k of VString s \<Rightarrow> s | _ \<Rightarrow> []), DecodeKey = (\<lambda>s. Inr (VString s)),
      cursor_String = (\<lambda>k. case k of VString s \<Rightarrow> s | _ \<Rightarrow> []), DecodeCursor = (\<lambda>s. Inr (VString s))\<rparr>"

theorem datastore_keys_roundtrip_witness:
  "\<exists>d'. collectE 2 (decodeDatastoreKeyValue (TNamed 1 TString) (\<lambda>s. Inr (VString s)) (TPtr (TNamed 1 TString), True, VPtr None))
      (NewDecoder amd64 (Some \<lparr>r_rest = [0xc0, 0xa2, 104, 105, 7], r_last = None, r_end = EOF, r_hasLen = True\<rparr>)) =
    (Inr [VPtr None, VPtr (Some (VString [104, 105]))], d') \<and> pending d' = [7]"
proof -
  let ?out = "\<lambda>_ :: unit. [] :: byte list" and ?D = string_datastore and ?keys = "[None, Some (VString [104, 105])]"
  let ?E = "package_renv [] [] False :: unit renv"
  let ?e = "(NewEncoder amd64 None :: unit encoder)\<lparr>e_w := AppendWriter\<rparr>"
  let ?d = "NewDecoder amd64 (Some \<lparr>r_rest = [0xc0, 0xa2, 104, 105, 7], r_last = None, r_end = EOF, r_hasLen = True\<rparr>)"
  let ?f = "\<lambda>p. EncodeValue_r (with_appengine ?D ?E) (TPtr (key_type ?D), False, VPtr p)"
  note defs = NewEncoder_def Reset_def ResetDict_def ResetWriter_def NewDecoder_def dec_Reset_def dec_ResetDict_def dec_ResetReader_def
  have e: "enc_ok ?out ?e" by (simp add: enc_ok_def enc_inv_def writer_ok_def defs)
  have ps: "plain_strings (conf ?e)" by (simp add: plain_strings_def conf_def defs hasFlag_def)
  have ok: "list_all (key_ok ?D) ?keys" by (simp add: key_ok_def string_datastore_def)
  have w: "concat (map (key_wire ?D) ?keys) = [0xc0, 0xa2, 104, 105]"
    by (simp add: key_wire_def string_datastore_def str_wire_def str_hdr_def opcode_values)
  obtain r e' where run: "forE ?f ?keys ?e = (r, e')" by fastforce
  have "emitted ?out ?e (concat (map (key_wire ?D) ?keys)) (conf ?e) (r, e')"
    using emitsD [OF key_codec.writes_all [where xs = ?keys and D = ?D and a = False and E = ?E and k = "conf ?e", OF ps ok] e refl] run by metis
  then have r: "r = Inr ()" "written ?out e' = written ?out ?e @ [0xc0, 0xa2, 104, 105]"
    unfolding w by (cases r; simp)+
  have d: "d_r ?d \<noteq> None" "plain_dec (dconf_of ?d)" "32 < p_intBits (d_plat ?d)"
    by (simp_all add: defs plain_dec_def dconf_of_def hasFlag_def amd64_def)
  have p: "pending ?d = drop (length (written ?out ?e)) (written ?out e') @ [7]" by (simp add: r(2) defs)
  have t: "key_type ?D = TNamed 1 TString" "DecodeKey ?D = (\<lambda>s. Inr (VString s))" by (simp_all add: string_datastore_def)
  show ?thesis
    using datastore_keys_roundtrip [OF e ps ok run [unfolded r(1)] d p, of "VPtr None"] by (simp add: t numeral_2_eq_2)
qed

section \<open>Cursors do not\<close>

text \<open>
  the coders of cursors are registered for \<^verbatim>\<open>*ds.Cursor\<close> but written for \<^verbatim>\<open>ds.Cursor\<close>. Encoding a
  pointer to a cursor panics, nil or not, and decoding into one never succeeds.
\<close>

theorem cursor_coders_panic:
  "EncodeValue_r (with_appengine D E) (TPtr (cursor_type D), a, VPtr p) e = (Inl conversion_panic, e) \<and>
   (\<exists>dec. snd (appengine_init D maps) (TPtr (cursor_type D)) = Some dec \<and>
      (\<forall>d v. fst (dec (TPtr (cursor_type D), s, w) d) \<noteq> Inr v))"
proof
  have t: "TPtr t \<noteq> t" for t using size_neq_size_imp_neq [of "TPtr t" t] by simp
  show "EncodeValue_r (with_appengine D E) (TPtr (cursor_type D), a, VPtr p) e = (Inl conversion_panic, e)"
    by (simp add: EncodeValue_r.simps getEncoder_def with_appengine_def appengine_coders encodeDatastoreCursorValue_def t)
  have "fst (decodeDatastoreCursorValue (cursor_type D) (DecodeCursor D) (TPtr (cursor_type D), s, w) d) \<noteq> Inr v" for d v
    by (auto simp: decodeDatastoreCursorValue_def bindE_def t split: prod.split sum.split)
  then show "\<exists>dec. snd (appengine_init D maps) (TPtr (cursor_type D)) = Some dec \<and>
      (\<forall>d v. fst (dec (TPtr (cursor_type D), s, w) d) \<noteq> Inr v)"
    by (simp add: appengine_coders)
qed

end
