(* ===== verification/Registered_Types.thy ===== *)
theory Registered_Types
  imports Encode_Reflect Typed_Codec
begin

text \<open>
  Types that a program registers with \<open>RegisterExt\<close> of \<^verbatim>\<open>ext.go\<close>: what the registered functions do, and that
  the encoder by reflection and the typed decoder are inverse on them. Decoders registered for types
  with a nil panic on it.
\<close>

section \<open>RegisterExt\<close>

text \<open>
  The functions that \<open>RegisterExt\<close> registers for a pointer type: the methods \<open>MarshalMsgpack\<close> and
  \<open>UnmarshalMsgpack\<close> of the program's type are parameters. A nil pointer reaches neither.
\<close>

definition RegisterExt_encoder :: "(rv \<Rightarrow> go_error + byte list) \<Rightarrow> rval \<Rightarrow> ('w encoder, byte list) go" where
  "RegisterExt_encoder marshal x =
     (case snd (snd x) of VPtr (Some v) \<Rightarrow> ext_result (marshal v) | _ \<Rightarrow> fail mismatch)"

definition RegisterExt_decoder ::
  "(byte list \<Rightarrow> rv \<Rightarrow> go_error + rv) \<Rightarrow> (gtype \<times> bool \<times> rv \<Rightarrow> (decoder, rv) go) \<Rightarrow> int \<Rightarrow> rv \<Rightarrow> (decoder, rv) go" where
  "RegisterExt_decoder unmarshal rec extLen v =
     bindE (dec_readN (nat extLen)) (\<lambda>b. liftE (unmarshal b v))"

text \<open>
  The registration of the pointer to the program's \<open>i\<close>-th type, of underlying type \<open>u\<close>, in the maps that the
  encoder and the decoder look into.
\<close>

definition with_ext_encoder ::
  "byte \<Rightarrow> gtype \<Rightarrow> (rv \<Rightarrow> go_error + byte list) \<Rightarrow> 'w renv \<Rightarrow> 'w renv" where
  "with_ext_encoder extID t marshal E =
     (let extEncoder = makeExtEncoder_r extID (TPtr t) (RegisterExt_encoder marshal)
      in E\<lparr>typeEncMap := (typeEncMap E)(TPtr t \<mapsto> extEncoder, t \<mapsto> makeExtEncoderAddr extEncoder)\<rparr>)"

definition with_ext_decoder ::
  "byte \<Rightarrow> nat \<Rightarrow> (byte list \<Rightarrow> rv \<Rightarrow> go_error + rv) \<Rightarrow> tenv \<Rightarrow> tenv" where
  "with_ext_decoder extID i unmarshal env =
     env\<lparr>t_registered := (t_registered env)(i \<mapsto> RegisteredExtPtr extID (RegisterExt_decoder unmarshal))\<rparr>"

lemma tenv_ok_with_ext: "tenv_ok env \<Longrightarrow> tenv_ok (with_ext_decoder extID i unmarshal env)"
  unfolding tenv_ok_def with_ext_decoder_def
  by (auto simp: registration_ok_def hook_ok_def RegisterExt_decoder_def intro!: frame_intros frames at_depth.agrees_refl)

section \<open>The wire form\<close>

definition ext_wire :: "byte \<Rightarrow> (rv \<Rightarrow> go_error + byte list) \<Rightarrow> rv option \<Rightarrow> byte list" where
  "ext_wire extID marshal p =
     (case p of
        None \<Rightarrow> [Nil_c]
      | Some v \<Rightarrow> (case marshal v of Inl err \<Rightarrow> [] | Inr b \<Rightarrow> ext_len_hdr (int (length b)) @ [extID] @ b))"

text \<open>A value whose two methods agree: what it marshals to is unmarshalled to it, whatever was there before.\<close>

definition ext_ok ::
  "(rv \<Rightarrow> go_error + byte list) \<Rightarrow> (byte list \<Rightarrow> rv \<Rightarrow> go_error + rv) \<Rightarrow> rv \<Rightarrow> bool" where
  "ext_ok marshal unmarshal v \<longleftrightarrow>
     (case marshal v of Inl err \<Rightarrow> False | Inr b \<Rightarrow> length b < 2 ^ 32 \<and> (\<forall>w. unmarshal b w = Inr v))"

lemma ext_okE:
  assumes "ext_ok marshal unmarshal v"
  obtains b where "marshal v = Inr b" "length b < 2 ^ 32" "\<forall>w. unmarshal b w = Inr v"
proof (cases "marshal v")
  case (Inr b)
  show ?thesis by (rule that [OF Inr]) (use assms Inr in \<open>simp_all add: ext_ok_def\<close>)
qed (use assms in \<open>simp add: ext_ok_def\<close>)

lemma ext_hdr_code: "\<exists>c h. ext_len_hdr l = c # h \<and> c \<noteq> Nil_c"
  by (simp add: ext_len_hdr_def opcode_values)

lemma ext_wire_code:
  assumes "ext_ok marshal unmarshal v"
  obtains c bs where "ext_wire extID marshal (Some v) = c # bs" and "c \<noteq> Nil_c"
proof -
  obtain b where b: "marshal v = Inr b" using ext_okE [OF assms] by blast
  then show ?thesis using ext_hdr_code [of "int (length b)"] that by (auto simp: ext_wire_def)
qed

lemma yields_gives: "yields k bs n m x k \<longleftrightarrow> gives k bs n m {x}"
  by (simp add: yields_def gives_def)

lemma yields_nilCode: "yields k (c # bs) n (f (c = Nil_c)) x k \<Longrightarrow> yields k (c # bs) n (bindE hasNilCode f) x k"
  unfolding yields_gives by (rule gives_nilCode)

lemma yields_DecodeValue:
  assumes "tenv_ok env" and "0 \<le> k_depth k" and "k_depth k < k_limit k"
    and "yields (k\<lparr>k_depth := k_depth k + 1\<rparr>) bs n (getDecoder env (DecodeValue env) t s v) x (k\<lparr>k_depth := k_depth k + 1\<rparr>)"
  shows "yields k bs n (DecodeValue env (t, s, v)) x k"
proof -
  have "DecodeValue env (t, s, v) d = withDepth (getDecoder env (DecodeValue env) t s v) d" if "dconf_of d = k" for d
    using DecodeValue_recursion [OF assms(1), of d t s v] assms(2) that by (auto simp: dconf_of_def)
  then show ?thesis
    using yields_withDepth [OF assms(4,2,3)] by (auto simp: yields_def)
qed

lemma yields_ext_payload:
  assumes "ext_ok marshal unmarshal v" and "32 < p_intBits (k_plat k)"
  shows "yields k (ext_wire extID marshal (Some v)) n
    (makeExtDecoder extID (\<lambda>extLen. RegisterExt_decoder unmarshal rec extLen w)) v k"
proof -
  obtain b where b: "marshal v = Inr b" "length b < 2 ^ 32" "\<forall>w. unmarshal b w = Inr v"
    by (rule ext_okE [OF assms(1)])
  let ?f = "\<lambda>(id, extLen). if id \<noteq> extID then fail (WrongExtType id extID) else RegisterExt_decoder unmarshal rec extLen w"
  have "yields k b n (?f (extID, int (length b))) v k"
    using b(3) by (simp add: RegisterExt_decoder_def liftE_def yields_bind_ret [OF yields_readN])
  then have "yields k ((ext_len_hdr (int (length b)) @ [extID]) @ b) n (bindE DecodeExtHeader ?f) v k"
    by (intro yields_bind [OF yields_ext_header] len_ok_intBits [OF assms(2) b(2)]) simp_all
  then show ?thesis by (simp add: ext_wire_def b(1) makeExtDecoder_def)
qed

lemma yields_DecodeNil: "yields k [Nil_c] n DecodeNil_m () k"
  unfolding DecodeNil_m_def by (rule yields_bind_ret [OF yields_readCode]) simp

section \<open>Round trips\<close>

text \<open>Pointers to a registered type, nil ones included, into fresh pointers.\<close>

interpretation ext_pointers: codec "\<lambda>p. EncodeValue_r (with_ext_encoder extID (TNamed i u) marshal E) (TPtr (TNamed i u), a, VPtr p)"
  "DecodeValue (with_ext_decoder extID i unmarshal env) (TPtr (TNamed i u), True, VPtr None)" "ext_wire extID marshal" VPtr "\<lambda>_. True"
  "\<lambda>k. tenv_ok env \<and> 32 < p_intBits (k_plat k) \<and> 0 \<le> k_depth k \<and> k_depth k < k_limit k"
  "\<lambda>p. case p of None \<Rightarrow> True | Some v \<Rightarrow> ext_ok marshal unmarshal v"
  for extID i u marshal unmarshal a env and E :: "'w renv"
proof unfold_locales
  fix out :: "'w \<Rightarrow> byte list" and k p
  let ?T = "TNamed i u" and ?E = "with_ext_encoder extID (TNamed i u) marshal E"
  assume ok: "case p of None \<Rightarrow> True | Some v \<Rightarrow> ext_ok marshal unmarshal v"
  have "EncodeValue_r ?E (TPtr ?T, a, VPtr p) = makeExtEncoder extID (map_option ext_result (map_option marshal p))"
    by (cases p) (simp_all add: EncodeValue_r.simps getEncoder_def with_ext_encoder_def Let_def makeExtEncoder_r_def
        RegisterExt_encoder_def rv_IsNil_def)
  moreover have "emits out k (makeExtEncoder extID (map_option ext_result (map_option marshal p))) (ext_wire extID marshal p) k"
    using emits_ext [of "map_option marshal p" out k extID] ok
    by (cases p) (auto simp: ext_wire_def ext_ok_def split: sum.splits)
  ultimately show "emits out k (EncodeValue_r ?E (TPtr ?T, a, VPtr p)) (ext_wire extID marshal p) k" by simp
next
  fix k p n
  let ?env = "with_ext_decoder extID i unmarshal env" and ?fn = "\<lambda>v. makeExtDecoder extID (\<lambda>extLen. RegisterExt_decoder unmarshal (DecodeValue (with_ext_decoder extID i unmarshal env)) extLen v)"
  assume k: "tenv_ok env \<and> 32 < p_intBits (k_plat k) \<and> 0 \<le> k_depth k \<and> k_depth k < k_limit k"
    and ok: "case p of None \<Rightarrow> True | Some v \<Rightarrow> ext_ok marshal unmarshal v"
  let ?k = "k\<lparr>k_depth := k_depth k + 1\<rparr>"
  have "yields ?k (ext_wire extID marshal p) n (nilAwareDecoder u ?fn True None) p ?k"
  proof (cases p)
    case None
    then show ?thesis
      unfolding nilAwareDecoder_def ext_wire_def decodeNilValue_def
      by (auto intro!: yields_nilCode yields_bind_ret [OF yields_DecodeNil])
  next
    case (Some v)
    then have v: "ext_ok marshal unmarshal v" using ok by simp
    have p: "yields ?k (ext_wire extID marshal (Some v)) n (bindE (?fn (zero_rv u)) (\<lambda>x. ret (Some x))) (Some v) ?k"
      by (rule yields_bind_ret [OF yields_ext_payload [OF v]]) (use k in simp_all)
    obtain c bs where "ext_wire extID marshal (Some v) = c # bs" "c \<noteq> Nil_c"
      by (rule ext_wire_code [OF v])
    then show ?thesis
      using p unfolding Some nilAwareDecoder_def by (auto intro!: yields_nilCode simp del: ret_apply)
  qed
  then have "yields ?k (ext_wire extID marshal p) n (getDecoder ?env (DecodeValue ?env) (TPtr (TNamed i u)) True (VPtr None)) (VPtr p) ?k"
    by (auto simp: ptrToNamedDecoder_def with_ext_decoder_def namedPtrDecoder_def intro!: yields_bind_ret simp del: ret_apply)
  then show "yields k (ext_wire extID marshal p) n (DecodeValue ?env (TPtr (TNamed i u), True, VPtr None)) (VPtr p) k"
    using k by (intro yields_DecodeValue tenv_ok_with_ext) simp_all
qed

text \<open>Values of a registered type that are addressable, as fields and elements are, into what is there.\<close>

interpretation ext_values: codec "\<lambda>v. EncodeValue_r (with_ext_encoder extID (TNamed i u) marshal E) (TNamed i u, True, v)"
  "DecodeValue (with_ext_decoder extID i unmarshal env) (TNamed i u, True, w)" "\<lambda>v. ext_wire extID marshal (Some v)" "\<lambda>v. v" "\<lambda>_. True"
  "\<lambda>k. tenv_ok env \<and> 32 < p_intBits (k_plat k) \<and> 0 \<le> k_depth k \<and> k_depth k < k_limit k" "ext_ok marshal unmarshal"
  for extID i u marshal unmarshal env w and E :: "'w renv"
proof unfold_locales
  fix out :: "'w \<Rightarrow> byte list" and k v
  let ?T = "TNamed i u" and ?E = "with_ext_encoder extID (TNamed i u) marshal E"
  assume "ext_ok marshal unmarshal v"
  then have "emits out k (EncodeValue_r ?E (TPtr ?T, False, VPtr (Some v))) (ext_wire extID marshal (Some v)) k"
    by (intro ext_pointers.writes) simp_all
  moreover have "EncodeValue_r ?E (?T, True, v) = EncodeValue_r ?E (TPtr ?T, False, VPtr (Some v))"
    by (simp add: EncodeValue_r.simps getEncoder_def with_ext_encoder_def Let_def makeExtEncoderAddr_def)
  ultimately show "emits out k (EncodeValue_r ?E (?T, True, v)) (ext_wire extID marshal (Some v)) k" by simp
next
  fix k v n
  let ?env = "with_ext_decoder extID i unmarshal env" and ?fn = "\<lambda>v. makeExtDecoder extID (\<lambda>extLen. RegisterExt_decoder unmarshal (DecodeValue (with_ext_decoder extID i unmarshal env)) extLen v)"
  assume k: "tenv_ok env \<and> 32 < p_intBits (k_plat k) \<and> 0 \<le> k_depth k \<and> k_depth k < k_limit k" and v: "ext_ok marshal unmarshal v"
  let ?k = "k\<lparr>k_depth := k_depth k + 1\<rparr>"
  obtain c bs where "ext_wire extID marshal (Some v) = c # bs" "c \<noteq> Nil_c" by (rule ext_wire_code [OF v])
  moreover have "yields ?k (ext_wire extID marshal (Some v)) n (bindE (?fn w) (\<lambda>x. ret (Some x))) (Some v) ?k"
    by (rule yields_bind_ret [OF yields_ext_payload [OF v]]) (use k in simp_all)
  ultimately have "yields ?k (ext_wire extID marshal (Some v)) n (nilAwareDecoder u ?fn False (Some w)) (Some v) ?k"
    unfolding nilAwareDecoder_def by (auto intro!: yields_nilCode simp del: ret_apply)
  then have "yields ?k (ext_wire extID marshal (Some v)) n (getDecoder ?env (DecodeValue ?env) (TNamed i u) True w) v ?k"
    by (auto simp: namedDecoder_def with_ext_decoder_def makeExtDecoderAddr_def intro!: yields_bind_ret simp del: ret_apply)
  then show "yields k (ext_wire extID marshal (Some v)) n (DecodeValue ?env (TNamed i u, True, w)) v k"
    using k by (intro yields_DecodeValue tenv_ok_with_ext) simp_all
qed

lemma dconf_ext:
  assumes "tenv_ok env" and "32 < p_intBits (d_plat d)" and "0 \<le> d_depth d" and "d_depth d < depth_limit d"
  shows "tenv_ok env \<and> 32 < p_intBits (k_plat (dconf_of d)) \<and> 0 \<le> k_depth (dconf_of d) \<and>
    k_depth (dconf_of d) < k_limit (dconf_of d)"
  using assms by (auto simp: dconf_of_def k_limit_def depth_limit_def split: if_splits)


text \<open>
  The values of a registered type are found in structs, slices and maps too: there they are encoded and
  decoded in place.
\<close>

theorem registered_values_roundtrip:
  assumes "tenv_ok env" and "enc_ok out e" and "list_all (ext_ok marshal unmarshal) vs"
    and "forE (\<lambda>v. EncodeValue_r (with_ext_encoder extID (TNamed i u) marshal E) (TNamed i u, True, v)) vs e = (Inr (), e')"
    and "d_r d \<noteq> None" and "32 < p_intBits (d_plat d)" and "0 \<le> d_depth d" and "d_depth d < depth_limit d"
    and "pending d = drop (length (written out e)) (written out e') @ rest"
  shows "\<exists>d'. collectE (length vs) (DecodeValue (with_ext_decoder extID i unmarshal env) (TNamed i u, True, w)) d = (Inr vs, d') \<and>
    pending d' = rest"
proof -
  from ext_values.stream [OF assms(2) TrueI assms(3-5) dconf_ext [OF assms(1,6-8)] assms(9)] show ?thesis
    unfolding list.map_ident by blast
qed

text \<open>A type whose values are strings that are their own payload.\<close>

definition marshal_string :: "rv \<Rightarrow> go_error + byte list" where
  "marshal_string v = (case v of VString s \<Rightarrow> Inr s | _ \<Rightarrow> Inl mismatch)"

definition unmarshal_string :: "byte list \<Rightarrow> rv \<Rightarrow> go_error + rv" where
  "unmarshal_string b v = Inr (VString b)"


section \<open>Types with a nil\<close>

text \<open>
  Types that are decoded in place: those with decoding methods on value receivers, and those that an
  extension was registered for, not for their pointers.
\<close>

definition decoded_in_place :: "tenv \<Rightarrow> nat \<Rightarrow> bool" where
  "decoded_in_place env i =
     (case t_registered env i of None \<Rightarrow> t_valueRecv env i | Some (RegisteredExt extID f) \<Rightarrow> True | _ \<Rightarrow> False)"

definition slice_or_map :: "gtype \<Rightarrow> bool" where
  "slice_or_map u =
     (case u of TBytes \<Rightarrow> True | TStrings \<Rightarrow> True | TSlice t \<Rightarrow> True | TMapSS \<Rightarrow> True | TMapSI \<Rightarrow> True | TMap k t \<Rightarrow> True | _ \<Rightarrow> False)"

lemma in_place:
  assumes "decoded_in_place env i"
  obtains fn where "namedDecoder env rec i u = nilAwareValue u fn"
proof (cases "t_registered env i")
  case None
  show ?thesis by (rule that) (use assms None in \<open>simp add: decoded_in_place_def namedDecoder_def\<close>)
next
  case (Some r)
  then obtain extID f where "t_registered env i = Some (RegisteredExt extID f)"
    using assms by (cases r) (auto simp: decoded_in_place_def)
  then show ?thesis by (intro that) (simp add: namedDecoder_def)
qed

lemma nil_value_panics:
  assumes "slice_or_map u" and "d_r d = Some r" and "r_rest r = c # bs" and "c \<noteq> Nil_c"
  shows "fst (nilAwareValue u fn True (zero_rv u) d) = Inl not_assignable"
proof -
  obtain d' where "hasNilCode d = (Inr False, d')"
    using assms(2-4) by (simp add: hasNilCode_def PeekCode_def ReadByte_def dec_UnreadByte_def UnreadByte_def werr_def bindE_def)
  then show ?thesis
    using assms(1)
    by (cases u) (simp_all add: nilAwareValue_def bindE_def slice_or_map_def nilable_def underlying_def rv_IsNil_def)
qed

text \<open>
  C31: decoding into a nil slice or map of a type that is decoded in place panics, on every input that does not
  say nil: \<open>nilAwareDecoder\<close> allocates for every type that has a nil as if it were a pointer. No fresh
  destination of such a type can be filled.
\<close>

theorem nil_in_place_panics:
  assumes "tenv_ok env" and "decoded_in_place env i" and "slice_or_map u"
    and "0 \<le> d_depth d" and "d_depth d < depth_limit d"
    and "d_r d = Some r" and "r_rest r = c # bs" and "c \<noteq> Nil_c"
  shows "fst (DecodeValue env (TNamed i u, True, zero_rv (TNamed i u)) d) = Inl not_assignable"
proof -
  obtain fn where fn: "namedDecoder env (DecodeValue env) i u = nilAwareValue u fn" by (rule in_place [OF assms(2)])
  let ?d = "d\<lparr>d_depth := d_depth d + 1\<rparr>"
  have "fst (nilAwareValue u fn True (zero_rv u) ?d) = Inl not_assignable"
    by (rule nil_value_panics [OF assms(3)]) (use assms(6-8) in simp_all)
  moreover have "enterDepth d = (Inr (), ?d)" using assms(5) by (simp add: enterDepth_def Let_def)
  ultimately have "fst (withDepth (nilAwareValue u fn True (zero_rv u)) d) = Inl not_assignable"
    by (cases "nilAwareValue u fn True (zero_rv u) ?d") (simp add: withDepth_def bindE_def deferE_def)
  then show ?thesis
    using DecodeValue_recursion [OF assms(1,4), of "TNamed i u" True "zero_rv (TNamed i u)"] fn by simp
qed

text \<open>A type whose underlying type is \<^verbatim>\<open>[]byte\<close>, registered as the extension 5.\<close>

definition bytes_ext :: tenv where
  "bytes_ext = (package_tenv True)\<lparr>t_registered :=
     (\<lambda>_. Some (RegisteredExt 5 (\<lambda>rec n s v. bindE (dec_readN (nat n)) (\<lambda>b. set_rv s (VBytes (Some (new_slice b)))))))\<rparr>"

lemma bytes_ext_ok: "tenv_ok bytes_ext"
  using package_tenv_ok [of True]
  by (auto simp: tenv_ok_def bytes_ext_def registration_ok_def hook_ok_def intro!: frame_intros frames at_depth.agrees_refl)

theorem nil_in_place_panics_witness:
  "fst (DecodeValue bytes_ext (TNamed 1 TBytes, True, VBytes None) (decoder_on [0xd4, 5, 1])) = Inl not_assignable"
proof -
  note defs = decoder_on_def NewDecoder_def dec_Reset_def dec_ResetDict_def dec_ResetReader_def
  obtain r where r: "d_r (decoder_on [0xd4, 5, 1]) = Some r" "r_rest r = [0xd4, 5, 1]" by (simp add: defs)
  have "fst (DecodeValue bytes_ext (TNamed 1 TBytes, True, zero_rv (TNamed 1 TBytes)) (decoder_on [0xd4, 5, 1])) = Inl not_assignable"
    by (rule nil_in_place_panics [OF bytes_ext_ok _ _ _ _ r])
      (simp_all add: decoded_in_place_def bytes_ext_def slice_or_map_def defs depth_limit_def defaultDecodeDepthLimit_def opcode_values)
  then show ?thesis by simp
qed

end
