(* ===== verification/Spec2Isabelle.thy ===== *)
theory Spec2Isabelle
  imports Marshal String_Codec Query_Codec Struct_Fields Ext_Registry Typed_Map Type_Safety Raw_Stream
    Encode_Refine Buffered_Reader Appengine Registered_Types
begin

text \<open>
  A verification library for the MessagePack codec in \<^verbatim>\<open>src/pkg/msgpack\<close>.

  \<^bold>\<open>The program.\<close> An \<open>Encoder\<close> writes Go values to a writer; a \<open>Decoder\<close> reads them from a reader, either
  into \<^verbatim>\<open>any\<close> or, by reflection, into a variable of a given type. \<open>Marshal\<close> and \<open>Unmarshal\<close> run pooled
  encoders and decoders on byte slices. On the way both consult process-wide state: the encoders and
  decoders registered for types (\<^verbatim>\<open>ext.go\<close>), the fields of struct types (\<^verbatim>\<open>types.go\<close>), and, per encoder
  or decoder, a dictionary of interned strings. \<open>Skip\<close>, \<open>DecodeRaw\<close> and \<open>Query\<close> walk over encoded data
  without decoding it.

  \<^bold>\<open>Style of the model.\<close> A method of \<open>Encoder\<close> or \<open>Decoder\<close> is a function from the record of its fields
  to a result and the record afterwards (\<open>go\<close> in \<open>Go_Prelude\<close>); a result is an error (\<open>Inl\<close>) or a
  value (\<open>Inr\<close>). Errors returned and panics are values of \<open>go_error\<close>. Integers are words of their
  width, \<^verbatim>\<open>int\<close> has the platform's (\<open>p_intBits\<close>); slices have a backing array, a length and a capacity
  that grows by a function of the platform (\<open>p_grow\<close>), about which nothing is assumed.

  \<^bold>\<open>Theories, in the order of the code.\<close>

  \<^item> \<open>Go_Prelude\<close>, \<open>Go_Word\<close>, \<open>Go_Runtime\<close>, \<open>Go_Float\<close>: the monad with its loops, the interface of relations
    kept by every method (\<open>frame_relation\<close>), big-endian bytes, slices, \<^verbatim>\<open>time.Time\<close>, and IEEE-754 numbers
    as bit patterns with the conversions the package makes.
  \<^item> \<open>Msgpcode\<close> (\<^verbatim>\<open>msgpcode/msgpcode.go\<close>) and \<open>Wire_Format\<close>: the codes and their classes; the format
    itself as a grammar, \<open>item n bs\<close>: \<open>bs\<close> is one encoded value nested at most \<open>n\<close> deep.
  \<^item> \<open>Encoder\<close> (\<^verbatim>\<open>encode.go\<close>), \<open>Encode_Number\<close>, \<open>Encode_Slice\<close> (with the interning of \<^verbatim>\<open>intern.go\<close>, the headers
    of \<^verbatim>\<open>ext.go\<close> and \<^verbatim>\<open>time.go\<close>), \<open>Encode_Value\<close> (\<^verbatim>\<open>encode_value.go\<close>, \<^verbatim>\<open>encode_map.go\<close>) and \<open>Marshal\<close>: the state
    with its options, reset and pool, the encoding methods, and \<open>wire\<close>, the bytes of a value. The
    lemmas say that each method emits them, whatever the writer (\<open>emits\<close>, interface \<open>byte_sink\<close>);
    a failing writer has a prefix of them.
  \<^item> \<open>Decoder\<close>, \<open>Decoder_Logic\<close> (\<^verbatim>\<open>decode.go\<close>): readers, state, options, the guards against forged lengths,
    primitive reads. \<open>frame\<close> is what every method keeps on every path; \<open>yields\<close> describes a
    successful run on a known input, \<open>delivers\<close> goes back from success to the input.
  \<^item> \<open>Depth_Recursion\<close>: the interface \<open>depth_recursion\<close> of the recursions that \<open>enterDepth\<close> bounds, and
    its unique solution. \<open>Skip\<close>, \<open>decodeInterfaceCond\<close> and \<open>DecodeValue\<close> are its instances.
  \<^item> \<open>Decode_Number\<close>, \<open>Decode_String\<close> (with the decoding halves of \<^verbatim>\<open>intern.go\<close>, \<^verbatim>\<open>time.go\<close>, \<^verbatim>\<open>ext.go\<close>),
    \<open>Decode_Skip\<close>, \<open>Decode_Interface\<close> (\<^verbatim>\<open>decode.go\<close>, \<^verbatim>\<open>decode_map.go\<close>, \<^verbatim>\<open>decode_slice.go\<close>) and \<open>Decode_Query\<close>.
  \<^item> \<open>Conformance\<close>, \<open>String_Codec\<close>, \<open>Interface_Codec\<close>, \<open>Query_Codec\<close>: encoder against grammar, encoder
    against decoder (interface \<open>codec\<close>), and what queries select of an encoded value.
  \<^item> \<open>Reflect\<close>, \<open>Decode_Value\<close>, \<open>Typed_Recursion\<close>, \<open>Unmarshal\<close>, \<open>Typed_Map\<close> (\<^verbatim>\<open>decode_value.go\<close> and the typed
    decoders of the other files): types, addressable values, the decoders \<open>getDecoder\<close> picks, \<open>Decode\<close>
    with its fast paths, \<open>Unmarshal\<close> and \<open>DecodeTypedMap\<close>. \<open>Typed_Codec\<close> and \<open>Typed_Roundtrip\<close> prove the round
    trip through them, \<open>Type_Safety\<close> that a destination keeps its type, \<open>Raw_Stream\<close> that a loop over
    \<open>DecodeRaw\<close> ends and misses nothing.
  \<^item> \<open>Tag_Parser\<close> (the vendored \<^verbatim>\<open>tagparser\<close>): the parser of struct tags over its byte reader, and that it
    inverts the writing of tags. \<open>Struct_Fields\<close> (\<^verbatim>\<open>types.go\<close>): the field lists that \<open>getFields\<close> computes of
    struct types and their tags.
  \<^item> \<open>Ext_Registry\<close> (\<^verbatim>\<open>ext.go\<close>): the registry of extension types with its invariant. \<open>Registered_Types\<close>: what
    \<open>RegisterExt\<close> registers, from the encoder by reflection to the typed decoder and back.
  \<^item> \<open>Encode_Reflect\<close> and \<open>Encode_Refine\<close> (\<^verbatim>\<open>encode_value.go\<close>, \<^verbatim>\<open>types.go\<close>): encoding as the code does it, by
    \<^verbatim>\<open>reflect\<close>, with the encoder of a type picked by registration, method and kind, index paths into
    structs and omitted fields. It refines \<open>EncodeValue\<close> of \<open>Encode_Value\<close>, where values carry their type;
    the interface \<open>reflection\<close> says what the types of a program must satisfy for that.
  \<^item> \<open>Buffered_Reader\<close> (\<^verbatim>\<open>decode.go\<close>): what is behind the reader of a decoder. Both \<^verbatim>\<open>bufio.Reader\<close> over any
    source and \<^verbatim>\<open>bytes.Reader\<close> are instances of the interface \<open>buf_reader\<close>.
  \<^item> \<open>Appengine\<close> (\<^verbatim>\<open>src/extra/msgpappengine\<close>): coders for datastore keys and cursors, registered with \<open>Register\<close>.

  \<^bold>\<open>Recursion.\<close> Decoding recurses under \<open>enterDepth\<close>, so the fuel is the remaining depth budget plus one
  (\<open>budget\<close>); \<open>depth_recursion\<close> proves that with it the modelled function satisfies the equation of the
  source, without fuel, and is the only one that does. The fuel of \<open>query\<close> is the length of the path. The
  encoder recurses on the value, encoding by reflection on the value and its type. The fuel of
  \<open>br_ReadFull\<close> is the number of bytes asked for plus one, as each read delivers something or fails.

  \<^bold>\<open>Abstractions.\<close> Types and values are finite trees: a struct that embeds itself is excluded, and so is
  aliasing between parts of a value or destination. A Go map is the list of its entries in an order
  that theorems leave open. What a destination holds after an error is not specified. An unsupported kind of
  value (channel, function, complex number, unsafe pointer) is one constructor; \<^verbatim>\<open>uintptr\<close> is left out, as the
  table of encoders has no function for it and encoding one panics. Methods of the program's own
  types, registered coders and installed map decoders are
  parameters: what a theorem needs of them is in its hypotheses. In \<open>Encode_Value\<close> a \<^verbatim>\<open>float32\<close> inside a container
  is the one that \<^verbatim>\<open>reflect\<close> hands on, where a NaN has been quieted.

  \<^bold>\<open>Findings.\<close> The theories also record where the code does not do what it says. In decoding: the
  float \<open>2 ^ 64\<close> passes the guard of the unsigned decoder (\<open>Decode_Number\<close>); a second asterisk makes
  \<open>Query\<close> lose its position (\<open>Query_Codec\<close>); a depth limit survives \<open>Reset\<close> in the pool, nil handling
  depends on the decoder cache, some inputs make decoding panic (\<open>Unmarshal\<close>, \<open>Typed_Map\<close>), and so does every input but nil into a nil slice or
  map of a type that is decoded in place (\<open>Registered_Types\<close>). In encoding:
  a pointer to a nil \<open>RawMessage\<close> is written as no bytes at all unless the encoder of \<open>RawMessage\<close> was cached
  first (\<open>Encode_Reflect\<close>), and the coders of cursors panic (\<open>Appengine\<close>). In the tables: shadowing depends on the order of
  declaration (\<open>Struct_Fields\<close>), and unregistering an extension takes the coders of another that shares
  its type (\<open>Ext_Registry\<close>).

  \<^bold>\<open>Not modelled.\<close> \<^verbatim>\<open>unsafe.go\<close> and \<^verbatim>\<open>safe.go\<close> (conversions between strings and bytes, the identity on byte
  sequences), \<^verbatim>\<open>doc.go\<close>, \<^verbatim>\<open>version.go\<close> and \<^verbatim>\<open>decode_typgen.go\<close> (no logic), error texts beyond their arguments,
  and concurrent use of the pools and of the process-wide maps, which the model reads and writes one operation at a time. In
  typed decoding, decoders that \<open>Register\<close> is given for a pointer type are left out; those for other types, and
  those of \<open>RegisterExt\<close>, are modelled, as are methods on value and on pointer receivers.
\<close>

end
